(* ===== verification/TQ_Prelude.thy ===== *)
theory TQ_Prelude
  imports Main "HOL-Library.Word" "HOL-Library.Monad_Syntax"
begin

text \<open>
  Shared base of the TQSIM development: names for the C integer types, the C operators
  whose behaviour differs from HOL's, array access that makes an out-of-range index
  visible, and the collections of rewrite rules used by the component theories.

  Conventions used throughout.
  \<^item> \<open>uint8_t\<close>, \<open>uint16_t\<close>, \<open>uint32_t\<close>, \<open>uint64_t\<close> (and \<open>unsigned\<close>) are words of that
    width; arithmetic on them wraps.
  \<^item> A pointer is an \<open>addr option\<close>; \<open>None\<close> is \<open>NULL\<close>. A heap of objects of one type is a
    partial map from addresses; an address outside its domain is not allocated.
  \<^item> An operation that can reach undefined behaviour (a \<open>NULL\<close> or dangling dereference, an
    array index out of range) returns an \<open>option\<close>, and \<open>None\<close> stands for it.
  \<^item> A shift by the operand width or more is undefined in C. The model takes what the
    x86-64 shift instructions compute, which use the low five (six) bits of the count.
\<close>

unbundle bit_operations_syntax

type_synonym u8 = "8 word"
type_synonym u16 = "16 word"
type_synonym u32 = "32 word"
type_synonym u64 = "64 word"
type_synonym addr = nat
type_synonym ptr = "addr option"

named_theorems wf_preserve \<open>an operation keeps the invariant of its component\<close>
named_theorems frame_simps \<open>what an operation leaves unchanged\<close>
named_theorems abs_simps \<open>an operation seen through the abstraction function\<close>

section \<open>C operators\<close>

definition shl32 :: "u32 \<Rightarrow> nat \<Rightarrow> u32" where
  "shl32 v n = push_bit (n mod 32) v"

definition shr32 :: "u32 \<Rightarrow> nat \<Rightarrow> u32" where
  "shr32 v n = drop_bit (n mod 32) v"

definition shl64 :: "u64 \<Rightarrow> nat \<Rightarrow> u64" where
  "shl64 v n = push_bit (n mod 64) v"

text \<open>The value a comparison or a \<open>bool\<close> has as an integer.\<close>

definition of_cbool :: "bool \<Rightarrow> u32" where
  "of_cbool b = (if b then 1 else 0)"

lemma of_cbool_eq_iff [simp]: "of_cbool a = of_cbool b \<longleftrightarrow> a = b"
  by (simp add: of_cbool_def)

lemma of_cbool_nonzero [simp]: "of_cbool a \<noteq> 0 \<longleftrightarrow> a" "of_cbool a = 0 \<longleftrightarrow> \<not> a"
  by (simp_all add: of_cbool_def)

section \<open>Arrays with a checked index\<close>

definition aget :: "'a list \<Rightarrow> int \<Rightarrow> 'a option" where
  "aget xs i = (if 0 \<le> i \<and> i < int (length xs) then Some (xs ! nat i) else None)"

definition aset :: "'a list \<Rightarrow> int \<Rightarrow> 'a \<Rightarrow> 'a list option" where
  "aset xs i v = (if 0 \<le> i \<and> i < int (length xs) then Some (xs[nat i := v]) else None)"

lemma aget_Some_iff: "aget xs i = Some v \<longleftrightarrow> 0 \<le> i \<and> i < int (length xs) \<and> v = xs ! nat i"
  by (auto simp: aget_def)

lemma aset_Some_iff:
  "aset xs i v = Some ys \<longleftrightarrow> 0 \<le> i \<and> i < int (length xs) \<and> ys = xs[nat i := v]"
  by (auto simp: aset_def)

lemma aget_int [simp]: "i < length xs \<Longrightarrow> aget xs (int i) = Some (xs ! i)"
  by (simp add: aget_def)

lemma aset_int [simp]: "i < length xs \<Longrightarrow> aset xs (int i) v = Some (xs[i := v])"
  by (simp add: aset_def)

definition nget :: "'a list \<Rightarrow> nat \<Rightarrow> 'a option" where
  "nget xs i = (if i < length xs then Some (xs ! i) else None)"

definition nupd :: "'a list \<Rightarrow> nat \<Rightarrow> 'a \<Rightarrow> 'a list option" where
  "nupd xs i v = (if i < length xs then Some (xs[i := v]) else None)"

lemma nget_Some_iff: "nget xs i = Some v \<longleftrightarrow> i < length xs \<and> v = xs ! i"
  by (auto simp: nget_def)

lemma nupd_Some_iff: "nupd xs i v = Some ys \<longleftrightarrow> i < length xs \<and> ys = xs[i := v]"
  by (auto simp: nupd_def)

lemma nget_in [simp]: "i < length xs \<Longrightarrow> nget xs i = Some (xs ! i)"
  by (simp add: nget_def)

lemma nupd_in [simp]: "i < length xs \<Longrightarrow> nupd xs i v = Some (xs[i := v])"
  by (simp add: nupd_def)

lemma aget_None_iff: "aget xs i = None \<longleftrightarrow> i < 0 \<or> int (length xs) \<le> i"
  by (auto simp: aget_def)

section \<open>Loops\<close>

text \<open>
  \<open>for (i = 0; i < n; i++) body\<close> is \<open>ofold body [0..<n]\<close>: the body maps a state to a new one,
  or to \<open>None\<close> when it faults.
\<close>

primrec ofold :: "('a \<Rightarrow> 's \<Rightarrow> 's option) \<Rightarrow> 'a list \<Rightarrow> 's \<Rightarrow> 's option" where
  "ofold body [] s = Some s"
| "ofold body (x # xs) s = do { s \<leftarrow> body x s; ofold body xs s }"

lemma ofold_append: "ofold body (xs @ ys) s = do { s \<leftarrow> ofold body xs s; ofold body ys s }"
  by (induction xs arbitrary: s) (auto simp: bind_assoc)

text \<open>The loop rule: an invariant over the number of rounds done gives a result.\<close>

lemma ofold_upt:
  assumes "I 0 s" and step: "\<And>i s. i < n \<Longrightarrow> I i s \<Longrightarrow> \<exists>s'. body i s = Some s' \<and> I (Suc i) s'"
  shows "\<exists>s'. ofold body [0..<n] s = Some s' \<and> I n s'"
  using assms
proof (induction n)
  case 0
  then show ?case by simp
next
  case (Suc n)
  then obtain s' where "ofold body [0..<n] s = Some s'" "I n s'" by (meson less_SucI)
  with Suc.prems(2) [of n s'] show ?case by (auto simp: ofold_append)
qed

lemma ofold_ok:
  assumes "I s" and "\<And>x s. x \<in> set xs \<Longrightarrow> I s \<Longrightarrow> \<exists>s'. body x s = Some s' \<and> I s'"
  shows "\<exists>s'. ofold body xs s = Some s' \<and> I s'"
  using assms by (induction xs arbitrary: s) fastforce+

lemma ofold_invariant:
  assumes "ofold body xs s = Some s'" "P s"
    and "\<And>x s s'. x \<in> set xs \<Longrightarrow> body x s = Some s' \<Longrightarrow> P s \<Longrightarrow> P s'"
  shows "P s'"
  using assms by (induction xs arbitrary: s) (fastforce simp: bind_eq_Some_conv)+

lemma ofold_flag:
  assumes "ofold body es s = Some s'"
    and "\<And>e s s'. body e s = Some s' \<Longrightarrow> f s' = (if p e then v else f s)"
  shows "f s' = (if \<exists>e\<in>set es. p e then v else f s)"
  using assms by (induction es arbitrary: s) (auto simp: bind_eq_Some_conv)

section \<open>Lists\<close>

lemma list_all_update:
  "list_all P xs \<Longrightarrow> (i < length xs \<Longrightarrow> P v) \<Longrightarrow> list_all P (xs[i := v])"
  by (cases "i < length xs") (auto simp: list_all_length nth_list_update list_update_beyond)

lemma list_all_nthD: "list_all P xs \<Longrightarrow> i < length xs \<Longrightarrow> P (xs ! i)"
  by (simp add: list_all_length)

text \<open>The form the operations need: a new element may rely on the old one having been good.\<close>

lemma list_all_upd:
  "list_all P xs \<Longrightarrow> (i < length xs \<Longrightarrow> P (xs ! i) \<Longrightarrow> P v) \<Longrightarrow> list_all P (xs[i := v])"
  by (metis list_all_nthD list_all_update)

text \<open>Moving the element at a position to the front.\<close>

definition pull_front :: "nat \<Rightarrow> 'a list \<Rightarrow> 'a list" where
  "pull_front i xs = xs ! i # take i xs @ drop (Suc i) xs"

lemma length_pull_front [simp]: "i < length xs \<Longrightarrow> length (pull_front i xs) = length xs"
  by (simp add: pull_front_def)

lemma pull_front_0 [simp]: "xs \<noteq> [] \<Longrightarrow> pull_front 0 xs = xs"
  by (cases xs) (auto simp: pull_front_def)

lemma pull_front_split: "pull_front (length as) (as @ b # cs) = b # as @ cs"
  by (simp add: pull_front_def)

lemma map_pull_front: "i < length xs \<Longrightarrow> map f (pull_front i xs) = pull_front i (map f xs)"
  by (simp add: pull_front_def take_map drop_map)

lemma pull_front_perm: "i < length xs \<Longrightarrow> set (pull_front i xs) = set xs"
  by (metis (no_types, lifting) pull_front_def Cons_nth_drop_Suc append_take_drop_id
      list.simps(15) set_append Un_insert_right)

section \<open>Words\<close>

text \<open>An index masked with \<open>size - 1\<close> stays below \<open>size\<close>, whatever \<open>size\<close> is.\<close>

lemma and_mask_bound:
  fixes x n :: "'a::len word"
  assumes "n \<noteq> 0"
  shows "unat (x AND (n - 1)) < unat n"
proof -
  have "unat (x AND (n - 1)) \<le> unat (n - 1)"
    by (rule word_and_le1 [THEN word_le_nat_alt [THEN iffD1]])
  also have "\<dots> < unat n"
    using assms by (simp add: unat_minus_one unat_gt_0)
  finally show ?thesis .
qed

lemma unat_inc_word: "x < y \<Longrightarrow> unat (x + 1) = unat x + (1::nat)" for x y :: "'a::len word"
  by unat_arith

lemma unat_dec_word: "0 < x \<Longrightarrow> unat (x - 1) = unat x - (1::nat)" for x :: "'a::len word"
  by unat_arith

lemma unat_shl32_one:
  assumes "n < 32"
  shows "unat (shl32 1 n) = 2 ^ n"
proof -
  have "unat (shl32 1 n) = take_bit 32 (2 ^ n)"
    unfolding shl32_def unsigned_push_bit_eq using assms by (simp add: push_bit_eq_mult)
  then show ?thesis using assms by simp
qed

end
