(* ===== verification/Sat_Counter.thy ===== *)
theory Sat_Counter
  imports TQ_Prelude
begin

text \<open>
  The saturating counter of \<open>hsim-stub/sat_counter.c\<close>, on which both branch predictors
  are built. The interface \<open>saturating\<close> says what a predictor relies on: a bounded value
  that moves by one and sticks at both ends. \<open>SatCounter\<close> is shown to provide it.
\<close>

section \<open>The counter\<close>

record SatCounter =
  initialVal :: u8
  maxVal :: u8
  counter :: u8

definition init_counter :: "SatCounter \<Rightarrow> u8 \<Rightarrow> nat \<Rightarrow> SatCounter" where
  "init_counter c initial_val bits =
     c\<lparr>initialVal := initial_val, maxVal := ucast (shl32 1 bits - 1), counter := initial_val\<rparr>"

definition reset_counter :: "SatCounter \<Rightarrow> SatCounter" where
  "reset_counter c = c\<lparr>counter := initialVal c\<rparr>"

definition increment_counter :: "SatCounter \<Rightarrow> SatCounter" where
  "increment_counter c = (if counter c < maxVal c then c\<lparr>counter := counter c + 1\<rparr> else c)"

definition decrement_counter :: "SatCounter \<Rightarrow> SatCounter" where
  "decrement_counter c = (if counter c > 0 then c\<lparr>counter := counter c - 1\<rparr> else c)"

definition read_counter :: "SatCounter \<Rightarrow> u8" where
  "read_counter c = counter c"

section \<open>Invariant and behaviour\<close>

definition counter_wf :: "SatCounter \<Rightarrow> bool" where
  "counter_wf c \<longleftrightarrow> counter c \<le> maxVal c \<and> initialVal c \<le> maxVal c"

definition counter_val :: "SatCounter \<Rightarrow> nat" where
  "counter_val c = unat (read_counter c)"

definition counter_max :: "SatCounter \<Rightarrow> nat" where
  "counter_max c = unat (maxVal c)"

lemma counter_frame [frame_simps, simp]:
  "maxVal (increment_counter c) = maxVal c" "maxVal (decrement_counter c) = maxVal c"
  "maxVal (reset_counter c) = maxVal c"
  "initialVal (increment_counter c) = initialVal c" "initialVal (decrement_counter c) = initialVal c"
  "initialVal (reset_counter c) = initialVal c"
  by (simp_all add: increment_counter_def decrement_counter_def reset_counter_def)

lemma counter_max_frame [frame_simps, simp]:
  "counter_max (increment_counter c) = counter_max c"
  "counter_max (decrement_counter c) = counter_max c"
  by (simp_all add: counter_max_def)

lemma counter_val_increment [abs_simps]:
  "counter_wf c \<Longrightarrow> counter_val (increment_counter c) = min (counter_max c) (counter_val c + 1)"
  by (auto simp: counter_wf_def counter_val_def counter_max_def read_counter_def
      increment_counter_def word_le_nat_alt word_less_nat_alt unat_inc_word)

lemma counter_val_decrement [abs_simps]:
  "counter_val (decrement_counter c) = counter_val c - 1"
  by (auto simp: counter_val_def read_counter_def decrement_counter_def unat_dec_word
      word_greater_zero_iff)

lemma increment_counter_wf [wf_preserve, simp]: "counter_wf c \<Longrightarrow> counter_wf (increment_counter c)"
  by (auto simp: counter_wf_def increment_counter_def) (simp add: inc_le)

lemma decrement_counter_wf [wf_preserve, simp]: "counter_wf c \<Longrightarrow> counter_wf (decrement_counter c)"
  unfolding counter_wf_def decrement_counter_def
  by (auto simp: word_le_nat_alt word_less_nat_alt unat_dec_word word_greater_zero_iff)

lemma reset_counter_wf [wf_preserve, simp]: "counter_wf c \<Longrightarrow> counter_wf (reset_counter c)"
  by (simp add: counter_wf_def reset_counter_def)

lemma counter_val_le_max: "counter_wf c \<Longrightarrow> counter_val c \<le> counter_max c"
  by (simp add: counter_wf_def counter_val_def counter_max_def read_counter_def word_le_nat_alt)

lemma init_counter_wf:
  "initial_val \<le> ucast (shl32 1 bits - 1) \<Longrightarrow> counter_wf (init_counter c initial_val bits)"
  by (simp add: counter_wf_def init_counter_def)

section \<open>The interface a predictor relies on\<close>

text \<open>
  A predictor compares a counter with a threshold. What matters to it is how many steps in
  one direction move the value across the threshold, and that further steps keep it there.
\<close>

locale saturating =
  fixes up :: "'c \<Rightarrow> 'c" and down :: "'c \<Rightarrow> 'c"
    and val :: "'c \<Rightarrow> nat" and bound :: "'c \<Rightarrow> nat" and invar :: "'c \<Rightarrow> bool"
  assumes up_val: "invar c \<Longrightarrow> val (up c) = min (bound c) (val c + 1)"
    and down_val: "invar c \<Longrightarrow> val (down c) = val c - 1"
    and up_bound: "invar c \<Longrightarrow> bound (up c) = bound c"
    and down_bound: "invar c \<Longrightarrow> bound (down c) = bound c"
    and up_invar: "invar c \<Longrightarrow> invar (up c)"
    and down_invar: "invar c \<Longrightarrow> invar (down c)"
    and val_bound: "invar c \<Longrightarrow> val c \<le> bound c"
begin

lemma ups_invar: "invar c \<Longrightarrow> invar ((up ^^ n) c)"
  by (induction n) (simp_all add: up_invar)

lemma downs_invar: "invar c \<Longrightarrow> invar ((down ^^ n) c)"
  by (induction n) (simp_all add: down_invar)

lemma ups_bound: "invar c \<Longrightarrow> bound ((up ^^ n) c) = bound c"
  by (induction n) (simp_all add: up_bound ups_invar)

lemma ups_val: "invar c \<Longrightarrow> val ((up ^^ n) c) = min (bound c) (val c + n)"
  by (induction n) (auto simp: up_val ups_invar ups_bound min_def dest: val_bound)

lemma downs_val: "invar c \<Longrightarrow> val ((down ^^ n) c) = val c - n"
  by (induction n) (simp_all add: down_val downs_invar)

text \<open>Training: enough steps up cross any threshold below the bound, and stay across it.\<close>

lemma trained_up: "invar c \<Longrightarrow> t < bound c \<Longrightarrow> t < n \<Longrightarrow> t < val ((up ^^ n) c)"
  by (simp add: ups_val)

lemma trained_down: "invar c \<Longrightarrow> bound c \<le> t + n \<Longrightarrow> \<not> t < val ((down ^^ n) c)"
  using val_bound [of c] by (simp add: downs_val)

text \<open>Hysteresis: from a saturated counter, fewer than \<open>bound - t\<close> steps down do not cross \<open>t\<close>.\<close>

lemma hysteresis: "invar c \<Longrightarrow> val c = bound c \<Longrightarrow> n < bound c - t \<Longrightarrow> t < val ((down ^^ n) c)"
  by (simp add: downs_val)

end

interpretation sat: saturating increment_counter decrement_counter counter_val counter_max counter_wf
  by unfold_locales
    (simp_all add: counter_val_increment counter_val_decrement counter_val_le_max)

end
