(* ===== verification/Bpred_Bimod.thy ===== *)
theory Bpred_Bimod
  imports Sat_Counter
begin

text \<open>
  The bi-mode branch predictor of \<open>hsim-stub/bpred_bimod.c\<close> and its driver
  \<open>hsim-stub/bpredsim.c\<close>. Three tables of saturating counters (a choice table and a taken
  and a not-taken direction table) are indexed by the branch address and by the address
  xor a global history register. A \<open>BPHistory\<close> carries what a lookup saw to the update.

  Shown here: every table access is in range, the tables stay well-formed in every state the
  driver reaches, the update changes exactly what the comment above it promises, a branch
  whose outcome does not change is mispredicted at most four times, and (a defect) the
  history register of the driver's predictor never leaves zero.
\<close>

section \<open>State\<close>

record BPHistory =
  bh_globalHistoryReg :: u32
  takenUsed :: bool
  takenPred :: bool
  notTakenPred :: bool
  finalPred :: bool
  bh_valid :: bool

record bpred_t =
  choiceCounters :: "SatCounter list"
  takenCounters :: "SatCounter list"
  notTakenCounters :: "SatCounter list"
  globalHistoryReg :: u32
  globalHistoryBits :: u32
  historyRegisterMask :: u32
  choicePredictorSize :: u32
  choiceCtrBits :: u32
  choiceHistoryMask :: u32
  globalPredictorSize :: u32
  globalCtrBits :: u32
  globalHistoryMask :: u32
  choiceThreshold :: u32
  takenThreshold :: u32
  notTakenThreshold :: u32
  num_lookup :: u32
  num_miss :: u32
  instShiftAmt :: u32

section \<open>Operations\<close>

definition mask64 :: "u32 \<Rightarrow> u64" where
  "mask64 nbits = (if nbits = 64 then - 1 else shl64 1 (unat nbits) - 1)"

text \<open>
  The three arrays come from \<open>malloc\<close>; every element is overwritten by \<open>init_counter\<close>, so the
  content \<open>g\<close> of fresh memory does not matter.
\<close>

definition bpred_create :: "SatCounter \<Rightarrow> bpred_t \<Rightarrow> u32 \<Rightarrow> u32 \<Rightarrow> u32 \<Rightarrow> u32 \<Rightarrow> u32 \<Rightarrow> bpred_t" where
  "bpred_create g pred a_instShiftAmt a_globalPredictorSize a_choicePredictorSize
       a_choiceCtrBits a_globalCtrBits =
     (let choice_c = init_counter g 0 (unat a_choiceCtrBits);
          global_c = init_counter g 0 (unat a_globalCtrBits);
          threshold = ucast (shl64 1 (unat (a_choiceCtrBits - 1)) - 1)
      in pred\<lparr>
        instShiftAmt := a_instShiftAmt,
        globalHistoryReg := 0,
        globalHistoryBits := a_globalPredictorSize,
        choicePredictorSize := a_choicePredictorSize,
        choiceCtrBits := a_choiceCtrBits,
        globalPredictorSize := a_globalPredictorSize,
        globalCtrBits := a_globalCtrBits,
        num_lookup := 0,
        num_miss := 0,
        choiceCounters := replicate (unat a_choicePredictorSize) choice_c,
        takenCounters := replicate (unat a_globalPredictorSize) global_c,
        notTakenCounters := replicate (unat a_globalPredictorSize) global_c,
        historyRegisterMask := ucast (mask64 a_globalPredictorSize),
        choiceHistoryMask := a_choicePredictorSize - 1,
        globalHistoryMask := a_globalPredictorSize - 1,
        choiceThreshold := threshold,
        takenThreshold := threshold,
        notTakenThreshold := threshold\<rparr>)"

definition bpred_updateGlobalHistReg :: "bpred_t \<Rightarrow> bool \<Rightarrow> bpred_t" where
  "bpred_updateGlobalHistReg pred taken =
     pred\<lparr>globalHistoryReg :=
       (if taken then push_bit 1 (globalHistoryReg pred) OR 1
        else push_bit 1 (globalHistoryReg pred)) AND historyRegisterMask pred\<rparr>"

definition bpred_uncondBranch :: "bpred_t \<Rightarrow> u32 \<Rightarrow> BPHistory \<Rightarrow> bpred_t \<times> BPHistory" where
  "bpred_uncondBranch pred pc history =
     (bpred_updateGlobalHistReg pred True,
      history\<lparr>bh_globalHistoryReg := globalHistoryReg pred, takenUsed := True,
        takenPred := True, notTakenPred := True, finalPred := True, bh_valid := True\<rparr>)"

definition bpred_squash :: "bpred_t \<Rightarrow> BPHistory \<Rightarrow> bpred_t \<times> BPHistory" where
  "bpred_squash pred history =
     (pred\<lparr>globalHistoryReg := bh_globalHistoryReg history\<rparr>, history\<lparr>bh_valid := False\<rparr>)"

text \<open>The two table indices; \<open>history\<close> is the register the xor takes.\<close>

definition choice_idx :: "bpred_t \<Rightarrow> u32 \<Rightarrow> nat" where
  "choice_idx pred branchAddr =
     unat (shr32 branchAddr (unat (instShiftAmt pred)) AND choiceHistoryMask pred)"

definition global_idx :: "bpred_t \<Rightarrow> u32 \<Rightarrow> u32 \<Rightarrow> nat" where
  "global_idx pred branchAddr history =
     unat ((shr32 branchAddr (unat (instShiftAmt pred)) XOR history) AND globalHistoryMask pred)"

definition bpred_lookup :: "bpred_t \<Rightarrow> u32 \<Rightarrow> BPHistory \<Rightarrow> u32 \<times> bpred_t \<times> BPHistory" where
  "bpred_lookup pred branchAddr history =
     (let choiceHistoryIdx = choice_idx pred branchAddr;
          globalHistoryIdx = global_idx pred branchAddr (globalHistoryReg pred);
          choicePrediction =
            (ucast (read_counter (choiceCounters pred ! choiceHistoryIdx)) > choiceThreshold pred);
          takenGHBPrediction =
            (ucast (read_counter (takenCounters pred ! globalHistoryIdx)) > takenThreshold pred);
          notTakenGHBPrediction =
            (ucast (read_counter (notTakenCounters pred ! globalHistoryIdx)) > notTakenThreshold pred);
          finalPrediction =
            (if choicePrediction then takenGHBPrediction else notTakenGHBPrediction)
      in (of_cbool finalPrediction,
          bpred_updateGlobalHistReg pred finalPrediction,
          history\<lparr>bh_globalHistoryReg := globalHistoryReg pred, takenUsed := choicePrediction,
            takenPred := takenGHBPrediction, notTakenPred := notTakenGHBPrediction,
            bh_valid := True, finalPred := finalPrediction\<rparr>))"

definition bpred_btbUpdate :: "bpred_t \<Rightarrow> bpred_t" where
  "bpred_btbUpdate pred =
     pred\<lparr>globalHistoryReg := globalHistoryReg pred AND (historyRegisterMask pred AND NOT 1)\<rparr>"

text \<open>One counter of a table moves towards the outcome.\<close>

definition train_counter :: "SatCounter list \<Rightarrow> nat \<Rightarrow> bool \<Rightarrow> SatCounter list" where
  "train_counter cs i taken =
     cs[i := (if taken then increment_counter (cs ! i) else decrement_counter (cs ! i))]"

definition bpred_update ::
    "bpred_t \<Rightarrow> u32 \<Rightarrow> bool \<Rightarrow> BPHistory option \<Rightarrow> bool \<Rightarrow> bpred_t \<times> BPHistory option" where
  "bpred_update pred branchAddr taken hist squashed =
     (case hist of
        None \<Rightarrow> (pred, None)
      | Some history \<Rightarrow>
          if \<not> bh_valid history then (pred, hist) else
          let choiceHistoryIdx = choice_idx pred branchAddr;
              globalHistoryIdx = global_idx pred branchAddr (bh_globalHistoryReg history);
              pred1 = (if takenUsed history
                then pred\<lparr>takenCounters := train_counter (takenCounters pred) globalHistoryIdx taken\<rparr>
                else pred\<lparr>notTakenCounters :=
                  train_counter (notTakenCounters pred) globalHistoryIdx taken\<rparr>);
              pred2 = (if finalPred history = taken
                then (if finalPred history = takenUsed history
                  then pred1\<lparr>choiceCounters :=
                    train_counter (choiceCounters pred1) choiceHistoryIdx taken\<rparr>
                  else pred1)
                else pred1\<lparr>choiceCounters :=
                  train_counter (choiceCounters pred1) choiceHistoryIdx taken\<rparr>)
          in if squashed
             then (pred2\<lparr>globalHistoryReg :=
                 (if taken then push_bit 1 (bh_globalHistoryReg history) OR 1
                  else push_bit 1 (bh_globalHistoryReg history)) AND historyRegisterMask pred2\<rparr>,
               hist)
             else (pred2, Some (history\<lparr>bh_valid := False\<rparr>)))"

definition bpred_retireSquashed :: "bpred_t \<Rightarrow> BPHistory \<Rightarrow> BPHistory" where
  "bpred_retireSquashed pred history = history\<lparr>bh_valid := False\<rparr>"

section \<open>The driver\<close>

definition bpredsim_initialize :: "SatCounter \<Rightarrow> bpred_t \<Rightarrow> bpred_t" where
  "bpredsim_initialize g fresh = bpred_create g fresh 2 4096 4096 2 2"

text \<open>\<open>cur_PC+sizeof(uint32_t)\<close> is computed in \<open>size_t\<close>, so it does not wrap at 32 bits.\<close>

definition actual_taken :: "u32 \<Rightarrow> u32 \<Rightarrow> bool" where
  "actual_taken cur_PC next_PC \<longleftrightarrow> (ucast next_PC :: u64) \<noteq> ucast cur_PC + 4"

text \<open>\<open>BPHistory hist\<close> is a local with no initialiser; \<open>h\<close> is what it holds at entry.\<close>

definition bpredsim_access :: "BPHistory \<Rightarrow> bpred_t \<Rightarrow> u32 \<Rightarrow> u32 \<Rightarrow> bool \<Rightarrow> bool \<times> bpred_t" where
  "bpredsim_access h pred cur_PC next_PC is_cond =
     (let pred = pred\<lparr>num_lookup := num_lookup pred + 1\<rparr>;
          act = of_cbool (actual_taken cur_PC next_PC);
          (pred_taken, pred, h) = bpred_lookup pred cur_PC h
      in if is_cond then
           (let pred = (if pred_taken \<noteq> act then pred\<lparr>num_miss := num_miss pred + 1\<rparr> else pred);
                (pred, _) = bpred_update pred cur_PC (act \<noteq> 0) (Some h) (pred_taken \<noteq> act)
            in (pred_taken = act, pred))
         else
           (let (pred, h) = bpred_uncondBranch pred cur_PC h;
                (pred, _) = bpred_update pred cur_PC (act \<noteq> 0) (Some h) (pred_taken \<noteq> act)
            in (True, pred)))"

definition bpredsim_num_mispred :: "bpred_t \<Rightarrow> u32" where
  "bpredsim_num_mispred pred = num_miss pred"

text \<open>The states the simulator's predictor can be in.\<close>

inductive bpredsim_reach :: "bpred_t \<Rightarrow> bool" where
  reach_init: "bpredsim_reach (bpredsim_initialize g fresh)"
| reach_access: "bpredsim_reach pred \<Longrightarrow>
    bpredsim_reach (snd (bpredsim_access h pred cur_PC next_PC is_cond))"

section \<open>Well-formed tables\<close>

definition table_wf :: "u32 \<Rightarrow> SatCounter list \<Rightarrow> bool" where
  "table_wf n cs \<longleftrightarrow> length cs = unat n \<and> list_all counter_wf cs"

definition bpred_wf :: "bpred_t \<Rightarrow> bool" where
  "bpred_wf pred \<longleftrightarrow>
     choicePredictorSize pred \<noteq> 0 \<and> globalPredictorSize pred \<noteq> 0 \<and>
     choiceHistoryMask pred = choicePredictorSize pred - 1 \<and>
     globalHistoryMask pred = globalPredictorSize pred - 1 \<and>
     table_wf (choicePredictorSize pred) (choiceCounters pred) \<and>
     table_wf (globalPredictorSize pred) (takenCounters pred) \<and>
     table_wf (globalPredictorSize pred) (notTakenCounters pred)"

lemma choice_idx_bound:
  "bpred_wf pred \<Longrightarrow> choice_idx pred a < length (choiceCounters pred)"
  by (simp add: bpred_wf_def table_wf_def choice_idx_def and_mask_bound)

lemma global_idx_bound:
  "bpred_wf pred \<Longrightarrow> global_idx pred a h < length (takenCounters pred)"
  "bpred_wf pred \<Longrightarrow> global_idx pred a h < length (notTakenCounters pred)"
  by (simp_all add: bpred_wf_def table_wf_def global_idx_def and_mask_bound)

lemma train_counter_length [simp]: "length (train_counter cs i t) = length cs"
  by (simp add: train_counter_def)

lemma train_counter_wf [wf_preserve, simp]: "table_wf n cs \<Longrightarrow> table_wf n (train_counter cs i t)"
  by (auto simp: table_wf_def train_counter_def intro!: list_all_upd)

lemma train_counter_other [frame_simps]: "j \<noteq> i \<Longrightarrow> train_counter cs i t ! j = cs ! j"
  by (simp add: train_counter_def)

lemma bpred_create_wf:
  assumes "n \<noteq> 0" "m \<noteq> 0"
  shows "bpred_wf (bpred_create g pred sh n m cb gb)"
  using assms
  by (simp add: bpred_wf_def bpred_create_def table_wf_def Let_def list_all_length init_counter_wf)

lemma updateGlobalHistReg_wf [wf_preserve, simp]:
  "bpred_wf (bpred_updateGlobalHistReg pred t) = bpred_wf pred"
  by (simp add: bpred_wf_def bpred_updateGlobalHistReg_def)

lemma uncondBranch_wf [wf_preserve]: "bpred_wf pred \<Longrightarrow> bpred_wf (fst (bpred_uncondBranch pred pc h))"
  by (simp add: bpred_uncondBranch_def)

lemma squash_wf [wf_preserve]: "bpred_wf pred \<Longrightarrow> bpred_wf (fst (bpred_squash pred h))"
  by (simp add: bpred_squash_def bpred_wf_def)

lemma btbUpdate_wf [wf_preserve]: "bpred_wf pred \<Longrightarrow> bpred_wf (bpred_btbUpdate pred)"
  by (simp add: bpred_btbUpdate_def bpred_wf_def)

lemma lookup_wf [wf_preserve]: "bpred_wf pred \<Longrightarrow> bpred_wf (fst (snd (bpred_lookup pred a h)))"
  by (simp add: bpred_lookup_def Let_def)

lemma update_wf [wf_preserve]: "bpred_wf pred \<Longrightarrow> bpred_wf (fst (bpred_update pred a t h sq))"
  by (cases h) (auto simp: bpred_update_def Let_def bpred_wf_def)

lemma access_wf [wf_preserve]: "bpred_wf pred \<Longrightarrow> bpred_wf (snd (bpredsim_access h pred c n b))"
proof -
  assume wf: "bpred_wf pred"
  define p0 where "p0 = pred\<lparr>num_lookup := num_lookup pred + 1\<rparr>"
  have p0: "bpred_wf p0" using wf by (simp add: p0_def bpred_wf_def)
  obtain pt p1 h1 where l: "bpred_lookup p0 c h = (pt, p1, h1)" by (metis surj_pair)
  have p1: "bpred_wf p1" using lookup_wf [OF p0, of c h] by (simp add: l)
  have p1': "bpred_wf (p1\<lparr>num_miss := x\<rparr>)" for x using p1 by (simp add: bpred_wf_def)
  show ?thesis
    using p1 p1' uncondBranch_wf [OF p1, of c h1]
    by (auto simp: bpredsim_access_def l p0_def [symmetric] Let_def split_beta update_wf)
qed

lemma reach_wf: "bpredsim_reach pred \<Longrightarrow> bpred_wf pred"
  by (induction rule: bpredsim_reach.induct)
    (auto simp: bpredsim_initialize_def bpred_create_wf access_wf)

section \<open>What the driver's predictor keeps\<close>

text \<open>The fields no operation writes, and the saturation points of the counters.\<close>

definition bpred_fixed :: "bpred_t \<Rightarrow> u32 list" where
  "bpred_fixed pred = [historyRegisterMask pred, instShiftAmt pred, choiceHistoryMask pred,
     globalHistoryMask pred, choiceThreshold pred, takenThreshold pred, notTakenThreshold pred]"

definition max_is :: "nat \<Rightarrow> SatCounter list \<Rightarrow> bool" where
  "max_is n cs \<longleftrightarrow> list_all (\<lambda>c. counter_max c = n) cs"

definition tables_max :: "nat \<Rightarrow> bpred_t \<Rightarrow> bool" where
  "tables_max n pred \<longleftrightarrow> max_is n (choiceCounters pred) \<and> max_is n (takenCounters pred) \<and>
     max_is n (notTakenCounters pred)"

lemma train_counter_max [simp]: "max_is n cs \<Longrightarrow> max_is n (train_counter cs i t)"
  by (auto simp: max_is_def train_counter_def intro!: list_all_upd)

lemma bpred_update_fixed [frame_simps]:
  "bpred_fixed (fst (bpred_update pred a t h sq)) = bpred_fixed pred"
  by (cases h) (auto simp: bpred_update_def Let_def bpred_fixed_def)

lemma bpred_update_tables_max:
  "tables_max n pred \<Longrightarrow> tables_max n (fst (bpred_update pred a t h sq))"
  by (cases h) (auto simp: bpred_update_def Let_def tables_max_def)

lemma bpred_update_history_zero:
  "globalHistoryReg pred = 0 \<Longrightarrow> historyRegisterMask pred = 0 \<Longrightarrow>
   globalHistoryReg (fst (bpred_update pred a t h sq)) = 0"
  by (cases h) (auto simp: bpred_update_def Let_def)

definition sim_inv :: "bpred_t \<Rightarrow> bool" where
  "sim_inv pred \<longleftrightarrow> bpred_wf pred \<and> tables_max 3 pred \<and> globalHistoryReg pred = 0 \<and>
     bpred_fixed pred = [0, 2, 4095, 4095, 1, 1, 1]"

lemma sim_inv_fields:
  "sim_inv pred \<Longrightarrow> historyRegisterMask pred = 0" "sim_inv pred \<Longrightarrow> globalHistoryReg pred = 0"
  "sim_inv pred \<Longrightarrow> choiceThreshold pred = 1" "sim_inv pred \<Longrightarrow> takenThreshold pred = 1"
  "sim_inv pred \<Longrightarrow> notTakenThreshold pred = 1" "sim_inv pred \<Longrightarrow> bpred_wf pred"
  by (simp_all add: sim_inv_def bpred_fixed_def)

lemma sim_inv_initialize: "sim_inv (bpredsim_initialize g fresh)"
proof -
  have m: "ucast (mask64 4096) = (0::u32)" by (simp add: mask64_def shl64_def)
  have t: "ucast (shl64 1 1 - 1 :: u64) = (1::u32)" by (simp add: shl64_def)
  have c: "counter_max (init_counter g 0 2) = 3"
    by (simp add: counter_max_def init_counter_def shl32_def)
  show ?thesis
    using m t c
    by (simp add: sim_inv_def bpredsim_initialize_def bpred_create_wf)
      (simp add: bpred_create_def bpred_fixed_def tables_max_def max_is_def list_all_length Let_def)
qed

lemma updateGlobalHistReg_sim_inv:
  "sim_inv pred \<Longrightarrow> sim_inv (bpred_updateGlobalHistReg pred t)"
  by (auto simp: sim_inv_def bpred_updateGlobalHistReg_def bpred_fixed_def tables_max_def bpred_wf_def)

lemma bpred_update_sim_inv: "sim_inv pred \<Longrightarrow> sim_inv (fst (bpred_update pred a t h sq))"
  using bpred_update_history_zero [of pred a t h sq]
  by (simp add: sim_inv_def update_wf bpred_update_tables_max bpred_update_fixed)
    (simp add: bpred_fixed_def)

lemma bpred_lookup_sim_inv: "sim_inv pred \<Longrightarrow> sim_inv (fst (snd (bpred_lookup pred a h)))"
  by (simp add: bpred_lookup_def Let_def updateGlobalHistReg_sim_inv)

lemma stats_sim_inv [simp]:
  "sim_inv (pred\<lparr>num_lookup := x\<rparr>) = sim_inv pred" "sim_inv (pred\<lparr>num_miss := x\<rparr>) = sim_inv pred"
  by (simp_all add: sim_inv_def bpred_wf_def bpred_fixed_def tables_max_def)

lemma access_sim_inv: "sim_inv pred \<Longrightarrow> sim_inv (snd (bpredsim_access h pred c n b))"
proof -
  assume inv: "sim_inv pred"
  define p0 where "p0 = pred\<lparr>num_lookup := num_lookup pred + 1\<rparr>"
  have p0: "sim_inv p0" using inv by (simp add: p0_def)
  obtain pt p1 h1 where l: "bpred_lookup p0 c h = (pt, p1, h1)" by (metis surj_pair)
  have p1: "sim_inv p1" using bpred_lookup_sim_inv [OF p0, of c h] by (simp add: l)
  then show ?thesis
    by (auto simp: bpredsim_access_def l p0_def [symmetric] Let_def split_beta
        bpred_update_sim_inv bpred_uncondBranch_def updateGlobalHistReg_sim_inv)
qed

lemma reach_sim_inv: "bpredsim_reach pred \<Longrightarrow> sim_inv pred"
  by (induction rule: bpredsim_reach.induct) (auto simp: sim_inv_initialize access_sim_inv)

section \<open>How fast a branch is learnt\<close>

text \<open>
  The three counters one branch reads, as numbers, and what one execution of a conditional
  branch with outcome \<open>out\<close> does to them: \<open>bimod_step\<close> is the predictor without tables,
  words or history. Its first component says whether the prediction was right.
\<close>

definition branch_view :: "bpred_t \<Rightarrow> u32 \<Rightarrow> nat \<times> nat \<times> nat" where
  "branch_view pred pc =
     (counter_val (choiceCounters pred ! choice_idx pred pc),
      counter_val (takenCounters pred ! global_idx pred pc 0),
      counter_val (notTakenCounters pred ! global_idx pred pc 0))"

definition move_counter :: "bool \<Rightarrow> nat \<Rightarrow> nat" where
  "move_counter out v = (if out then min 3 (v + 1) else v - 1)"

fun bimod_step :: "bool \<Rightarrow> nat \<times> nat \<times> nat \<Rightarrow> bool \<times> (nat \<times> nat \<times> nat)" where
  "bimod_step out (c, t, n) =
     (let used = 1 < c;
          p = (if used then 1 < t else 1 < n)
      in (p = out,
          (if p = out \<and> p \<noteq> used then c else move_counter out c),
          (if used then move_counter out t else t),
          (if used then n else move_counter out n)))"

text \<open>An upper bound on the mispredictions still to come while the outcome stays the same.\<close>

fun bimod_budget :: "nat \<times> nat \<times> nat \<Rightarrow> nat" where
  "bimod_budget (c, t, n) =
     (if 2 \<le> c then 2 - t else if 2 \<le> n then 0
      else if n \<le> c then (2 - c) + (2 - t) else 2 - n)"

fun bimod_mirror :: "bool \<Rightarrow> nat \<times> nat \<times> nat \<Rightarrow> nat \<times> nat \<times> nat" where
  "bimod_mirror out (c, t, n) = (if out then (c, t, n) else (3 - c, 3 - n, 3 - t))"

lemma bimod_budget_table:
  "\<forall>out. \<forall>c\<in>set [0..<4]. \<forall>t\<in>set [0..<4]. \<forall>n\<in>set [0..<4].
     bimod_budget (bimod_mirror out (snd (bimod_step out (c, t, n))))
       + (if fst (bimod_step out (c, t, n)) then 0 else 1)
     \<le> bimod_budget (bimod_mirror out (c, t, n))"
  by code_simp

lemma bimod_budget_step:
  assumes "c \<le> 3" "t \<le> 3" "n \<le> 3" and "bimod_step out (c, t, n) = (ok, s)"
  shows "bimod_budget (bimod_mirror out s) + (if ok then 0 else 1)
    \<le> bimod_budget (bimod_mirror out (c, t, n))"
proof -
  have "c \<in> set [0..<4]" "t \<in> set [0..<4]" "n \<in> set [0..<4]" using assms(1-3) by auto
  with bimod_budget_table
  have "bimod_budget (bimod_mirror out (snd (bimod_step out (c, t, n))))
       + (if fst (bimod_step out (c, t, n)) then 0 else 1)
     \<le> bimod_budget (bimod_mirror out (c, t, n))"
    by blast
  then show ?thesis by (simp only: assms(4) fst_conv snd_conv)
qed

lemma bimod_budget_le: "bimod_budget s \<le> 4"
  by (cases s) auto

lemma counter_word_gt_1: "(1::u32) < ucast (x::u8) \<longleftrightarrow> 1 < unat x"
proof -
  have "unat x < 2 ^ 8" using unsigned_less [of x] by simp
  then show ?thesis by (simp add: word_less_nat_alt unsigned_ucast_eq take_bit_nat_eq_self)
qed

lemma tables_val_train:
  assumes "table_wf m cs" "max_is 3 cs" "i < length cs"
  shows "counter_val (train_counter cs i t ! i) = move_counter t (counter_val (cs ! i))"
  using assms
  by (auto simp: train_counter_def move_counter_def table_wf_def max_is_def
      counter_val_increment counter_val_decrement dest!: list_all_nthD)

lemma lookup_view:
  assumes inv: "sim_inv pred"
  shows "bpred_lookup pred pc h =
    (let (c, t, n) = branch_view pred pc; p = (if 1 < c then 1 < t else 1 < n)
     in (of_cbool p, bpred_updateGlobalHistReg pred p,
         h\<lparr>bh_globalHistoryReg := 0, takenUsed := 1 < c, takenPred := 1 < t,
           notTakenPred := 1 < n, bh_valid := True, finalPred := p\<rparr>))"
  using sim_inv_fields [OF inv]
  by (simp add: bpred_lookup_def branch_view_def counter_word_gt_1 counter_val_def Let_def)

lemma update_view:
  assumes inv: "sim_inv pred"
    and h: "bh_valid h" "bh_globalHistoryReg h = 0"
    and eq: "finalPred h = (if takenUsed h then 1 < t else 1 < n)" "takenUsed h = (1 < c)"
    and v: "branch_view pred pc = (c, t, n)"
  shows "branch_view (fst (bpred_update pred pc out (Some h) sq)) pc = snd (bimod_step out (c, t, n))"
proof -
  let ?ci = "choice_idx pred pc" and ?gi = "global_idx pred pc 0"
  let ?p' = "fst (bpred_update pred pc out (Some h) sq)"
  have wf: "bpred_wf pred" using sim_inv_fields [OF inv] by simp
  note tr = tables_val_train [of "choicePredictorSize pred"] tables_val_train [of "globalPredictorSize pred"]
  have tab: "table_wf (choicePredictorSize pred) (choiceCounters pred)"
    "table_wf (globalPredictorSize pred) (takenCounters pred)"
    "table_wf (globalPredictorSize pred) (notTakenCounters pred)"
    "max_is 3 (choiceCounters pred)" "max_is 3 (takenCounters pred)" "max_is 3 (notTakenCounters pred)"
    using inv by (simp_all add: sim_inv_def bpred_wf_def tables_max_def)
  have b: "?ci < length (choiceCounters pred)" "?gi < length (takenCounters pred)"
    "?gi < length (notTakenCounters pred)"
    using choice_idx_bound [OF wf] global_idx_bound [OF wf] by auto
  have idx: "choice_idx ?p' pc = ?ci" "global_idx ?p' pc 0 = ?gi"
    by (simp_all add: bpred_update_def Let_def choice_idx_def global_idx_def h)
  show ?thesis
    using v h eq tr tab b
    unfolding branch_view_def idx
    by (auto simp: bpred_update_def Let_def)
qed

lemma access_view:
  assumes inv: "sim_inv pred"
  shows "(fst (bpredsim_access h pred pc nx True),
      branch_view (snd (bpredsim_access h pred pc nx True)) pc) =
    bimod_step (actual_taken pc nx) (branch_view pred pc)"
proof -
  obtain c t n where v: "branch_view pred pc = (c, t, n)" by (metis surj_pair)
  define p0 where "p0 = pred\<lparr>num_lookup := num_lookup pred + 1\<rparr>"
  have p0: "sim_inv p0" "branch_view p0 pc = (c, t, n)"
    using inv v by (simp_all add: p0_def branch_view_def choice_idx_def global_idx_def)
  let ?p = "if 1 < c then 1 < t else 1 < n"
  define p1 where "p1 = bpred_updateGlobalHistReg p0 ?p"
  have p1: "sim_inv p1" "branch_view p1 pc = (c, t, n)"
    using p0 updateGlobalHistReg_sim_inv [OF p0(1)]
    by (simp_all add: p1_def branch_view_def choice_idx_def global_idx_def bpred_updateGlobalHistReg_def)
  have p2: "sim_inv (p1\<lparr>num_miss := x\<rparr>)" "branch_view (p1\<lparr>num_miss := x\<rparr>) pc = (c, t, n)" for x
    using p1 by (simp_all add: branch_view_def choice_idx_def global_idx_def)
  have l: "bpred_lookup p0 pc h = (of_cbool ?p, p1,
      h\<lparr>bh_globalHistoryReg := 0, takenUsed := 1 < c, takenPred := 1 < t,
        notTakenPred := 1 < n, bh_valid := True, finalPred := ?p\<rparr>)"
    by (simp add: lookup_view [OF p0(1)] p0(2) Let_def p1_def)
  show ?thesis
    using update_view [OF p1(1) _ _ _ _ p1(2)] update_view [OF p2(1) _ _ _ _ p2(2)]
    by (simp add: bpredsim_access_def p0_def [symmetric] l Let_def split_beta v)
qed

primrec run_branch :: "BPHistory \<Rightarrow> u32 \<Rightarrow> u32 \<Rightarrow> nat \<Rightarrow> bpred_t \<Rightarrow> bool list" where
  "run_branch h pc nx 0 pred = []"
| "run_branch h pc nx (Suc k) pred =
     (let (ok, pred') = bpredsim_access h pred pc nx True in ok # run_branch h pc nx k pred')"

lemma sim_inv_view_le:
  assumes "sim_inv pred" "branch_view pred pc = (c, t, n)"
  shows "c \<le> 3" "t \<le> 3" "n \<le> 3"
proof -
  have wf: "bpred_wf pred" using sim_inv_fields [OF assms(1)] by simp
  have le: "counter_val (cs ! i) \<le> 3" if "table_wf m cs" "max_is 3 cs" "i < length cs" for m cs i
    using that counter_val_le_max [of "cs ! i"]
    by (auto simp: table_wf_def max_is_def dest!: list_all_nthD)
  show "c \<le> 3" "t \<le> 3" "n \<le> 3"
    using assms le choice_idx_bound [OF wf, of pc] global_idx_bound [OF wf, of pc 0]
    by (auto simp: sim_inv_def bpred_wf_def tables_max_def branch_view_def)
qed

lemma run_branch_budget:
  "sim_inv pred \<Longrightarrow> count_list (run_branch h pc nx k pred) False
     \<le> bimod_budget (bimod_mirror (actual_taken pc nx) (branch_view pred pc))"
proof (induction k arbitrary: pred)
  case 0
  then show ?case by simp
next
  case (Suc k)
  obtain ok pred' where a: "bpredsim_access h pred pc nx True = (ok, pred')" by fastforce
  obtain c t n where v: "branch_view pred pc = (c, t, n)" by (metis surj_pair)
  have inv': "sim_inv pred'" using access_sim_inv [OF Suc.prems, of h pc nx True] a by simp
  have s: "bimod_step (actual_taken pc nx) (c, t, n) = (ok, branch_view pred' pc)"
    using access_view [OF Suc.prems, of h pc nx] by (simp add: a v)
  have "count_list (run_branch h pc nx (Suc k) pred) False =
      count_list (run_branch h pc nx k pred') False + (if ok then 0 else 1)"
    by (simp add: a)
  then show ?case
    using Suc.IH [OF inv'] bimod_budget_step [OF sim_inv_view_le [OF Suc.prems v] s] 
    unfolding v by linarith
qed

section \<open>Properties\<close>

text \<open>A concrete block of fresh memory for the predictor, used by the witnesses.\<close>

definition fresh_counter :: SatCounter where
  "fresh_counter = \<lparr>initialVal = 7, maxVal = 9, counter = 200\<rparr>"

definition fresh_bpred :: bpred_t where
  "fresh_bpred = \<lparr>choiceCounters = [], takenCounters = [], notTakenCounters = [],
     globalHistoryReg = 5, globalHistoryBits = 6, historyRegisterMask = 7,
     choicePredictorSize = 8, choiceCtrBits = 9, choiceHistoryMask = 10,
     globalPredictorSize = 11, globalCtrBits = 12, globalHistoryMask = 13,
     choiceThreshold = 14, takenThreshold = 15, notTakenThreshold = 16,
     num_lookup = 17, num_miss = 18, instShiftAmt = 19\<rparr>"

definition fresh_history :: BPHistory where
  "fresh_history = \<lparr>bh_globalHistoryReg = 3, takenUsed = False, takenPred = False,
     notTakenPred = True, finalPred = False, bh_valid = False\<rparr>"

text \<open>C20: In every state of the simulator's branch predictor that is reachable from
  \<open>bpredsim_initialize\<close> by any sequence of branch accesses, the indices that \<open>bpred_lookup\<close>
  and \<open>bpred_update\<close> compute for any branch address and any history are inside the three
  counter tables, and every counter of the tables is a two-bit counter: it saturates at 3, and
  its value is at most 3.\<close>

theorem bpredsim_tables_safe:
  assumes "bpredsim_reach pred"
  shows "choice_idx pred a < length (choiceCounters pred)
    \<and> global_idx pred a h < length (takenCounters pred)
    \<and> global_idx pred a h < length (notTakenCounters pred)
    \<and> (\<forall>c \<in> set (choiceCounters pred) \<union> set (takenCounters pred) \<union> set (notTakenCounters pred).
         counter_max c = 3 \<and> counter_val c \<le> 3)"
proof -
  have wf: "bpred_wf pred" by (rule reach_wf [OF assms])
  have "counter_max c = 3 \<and> counter_wf c"
    if "c \<in> set (choiceCounters pred) \<union> set (takenCounters pred) \<union> set (notTakenCounters pred)" for c
    using that wf reach_sim_inv [OF assms]
    by (auto simp: bpred_wf_def table_wf_def sim_inv_def tables_max_def max_is_def list_all_iff)
  then show ?thesis
    using choice_idx_bound [OF wf] global_idx_bound [OF wf] counter_val_le_max by fastforce
qed

theorem bpredsim_tables_safe_witness:
  "bpredsim_reach (bpredsim_initialize fresh_counter fresh_bpred)
   \<and> choice_idx (bpredsim_initialize fresh_counter fresh_bpred) 0x8000
       < length (choiceCounters (bpredsim_initialize fresh_counter fresh_bpred))"
  using bpredsim_tables_safe [OF bpredsim_reach.reach_init, of fresh_counter fresh_bpred "0x8000" 0]
    bpredsim_reach.reach_init [of fresh_counter fresh_bpred]
  by blast

text \<open>C21: A conditional branch whose target does not change is mispredicted at most four times
  in a row of any length, from every reachable state of the predictor: the driver reports a
  wrong prediction (returns 0) at most four times among any number \<open>k\<close> of consecutive
  executions with the same outcome.\<close>

theorem bpredsim_at_most_four_misses:
  assumes "bpredsim_reach pred"
  shows "count_list (run_branch h pc nx k pred) False \<le> 4"
  using run_branch_budget [OF reach_sim_inv [OF assms]] bimod_budget_le le_trans by blast

theorem bpredsim_at_most_four_misses_witness:
  "count_list (run_branch fresh_history 0x8000 0x9000 50
     (bpredsim_initialize fresh_counter fresh_bpred)) False \<le> 4"
  using bpredsim_at_most_four_misses [OF bpredsim_reach.reach_init] .

text \<open>C22: The global history register of the simulator's predictor is 0 in every reachable state.
  \<open>bpred_create\<close> uses the table size (4096) as the number of history bits, so the history
  mask \<open>(1ULL << 4096) - 1\<close> is 0 and every bit shifted into the history is erased: the
  two direction tables are indexed by the branch address alone.\<close>

theorem bpredsim_history_always_zero:
  assumes "bpredsim_reach pred"
  shows "globalHistoryReg pred = 0 \<and> historyRegisterMask pred = 0
    \<and> global_idx pred a (globalHistoryReg pred) = choice_idx pred a"
  using reach_sim_inv [OF assms]
  by (simp add: sim_inv_def bpred_fixed_def choice_idx_def global_idx_def)

theorem bpredsim_history_always_zero_witness:
  "globalHistoryReg (snd (bpredsim_access fresh_history
     (bpredsim_initialize fresh_counter fresh_bpred) 0x8000 0x9000 True)) = 0"
  using bpredsim_history_always_zero [OF bpredsim_reach.reach_access [OF bpredsim_reach.reach_init]]
  by blast

text \<open>C17: An update with a valid history does what the comment above \<open>bpred_update\<close> says. Only the
  direction table whose prediction was used moves, by one step towards the outcome and only
  at the indexed counter. The choice table moves towards the outcome at its indexed counter,
  except when the choice was opposite to the outcome and the final prediction was right: then
  it is left alone. Counters saturate, they never wrap. After a squash the history register is
  rebuilt from the one that the history recorded, shifted by one place with the outcome as its
  lowest bit and cut to the mask, and the history stays valid; otherwise the register is
  left alone and the history is marked as used.\<close>

theorem bpred_update_effect:
  assumes wf: "bpred_wf pred" and valid: "bh_valid h"
    and upd: "bpred_update pred a taken (Some h) squashed = (pred', h')"
    and gi: "gi = global_idx pred a (bh_globalHistoryReg h)"
    and ci: "ci = choice_idx pred a"
    and moved: "moved = (\<lambda>c c'. counter_max c' = counter_max c \<and>
      counter_val c' = (if taken then min (counter_max c) (counter_val c + 1) else counter_val c - 1))"
  shows "(if takenUsed h
      then notTakenCounters pred' = notTakenCounters pred
        \<and> moved (takenCounters pred ! gi) (takenCounters pred' ! gi)
        \<and> (\<forall>j. j \<noteq> gi \<longrightarrow> takenCounters pred' ! j = takenCounters pred ! j)
      else takenCounters pred' = takenCounters pred
        \<and> moved (notTakenCounters pred ! gi) (notTakenCounters pred' ! gi)
        \<and> (\<forall>j. j \<noteq> gi \<longrightarrow> notTakenCounters pred' ! j = notTakenCounters pred ! j))
    \<and> (if takenUsed h \<noteq> taken \<and> finalPred h = taken
       then choiceCounters pred' = choiceCounters pred
       else moved (choiceCounters pred ! ci) (choiceCounters pred' ! ci)
         \<and> (\<forall>j. j \<noteq> ci \<longrightarrow> choiceCounters pred' ! j = choiceCounters pred ! j))
    \<and> globalHistoryReg pred' = (if squashed
        then (2 * bh_globalHistoryReg h + of_cbool taken) AND historyRegisterMask pred else globalHistoryReg pred)
    \<and> h' = Some (if squashed then h else h\<lparr>bh_valid := False\<rparr>)"
proof -
  have m: "moved (cs ! i) (train_counter cs i taken ! i)"
    if "list_all counter_wf cs" "i < length cs" for cs i
    using that
    by (auto simp: moved train_counter_def counter_val_increment counter_val_decrement
        dest!: list_all_nthD)
  have t: "list_all counter_wf (takenCounters pred)" "list_all counter_wf (notTakenCounters pred)"
    "list_all counter_wf (choiceCounters pred)"
    using wf by (simp_all add: bpred_wf_def table_wf_def)
  have b: "gi < length (takenCounters pred)" "gi < length (notTakenCounters pred)"
    "ci < length (choiceCounters pred)"
    using global_idx_bound [OF wf] choice_idx_bound [OF wf] by (simp_all add: gi ci)
  have sh: "2 * x OR 1 = 2 * x + 1" for x :: u32
    by (simp add: or_one_eq)
  show ?thesis
    using upd valid m t b
    by (auto simp: bpred_update_def Let_def train_counter_other of_cbool_def sh push_bit_eq_mult mult.commute [of _ 2] gi [symmetric] ci [symmetric]
        split: if_splits)
qed

theorem bpred_update_effect_witness:
  "choiceCounters (fst (bpred_update (bpredsim_initialize fresh_counter fresh_bpred) 0x8000 False
       (Some (fresh_history\<lparr>takenUsed := True, bh_valid := True\<rparr>)) True))
     = choiceCounters (bpredsim_initialize fresh_counter fresh_bpred)
   \<and> globalHistoryReg (fst (bpred_update (bpredsim_initialize fresh_counter fresh_bpred) 0x8000 False
       (Some (fresh_history\<lparr>takenUsed := True, bh_valid := True\<rparr>)) True))
     = 6 AND historyRegisterMask (bpredsim_initialize fresh_counter fresh_bpred)"
proof -
  let ?p = "bpredsim_initialize fresh_counter fresh_bpred"
  let ?h = "fresh_history\<lparr>takenUsed := True, bh_valid := True\<rparr>"
  obtain p' h' where u: "bpred_update ?p 0x8000 False (Some ?h) True = (p', h')" by fastforce
  have "choiceCounters p' = choiceCounters ?p \<and> globalHistoryReg p' = 6 AND historyRegisterMask ?p"
    using bpred_update_effect [OF reach_wf [OF bpredsim_reach.reach_init] _ u refl refl refl]
    by (simp add: fresh_history_def of_cbool_def)
  then show ?thesis by (simp only: u fst_conv)
qed

end
