(* ===== verification/Bpred_2bit_Local.thy ===== *)
theory Bpred_2bit_Local
  imports Sat_Counter
begin

text \<open>
  The alternative predictor \<open>hsim-stub/bpred_2bit_local.c\<close>: one table of saturating counters
  indexed by a hash of the branch address. Its C names are those of the bi-mode predictor
  (only one of the two files is linked), so they carry the prefix \<open>local_\<close> here. The hash has
  the table size 2048 built in, so an access can be out of range; accesses return an
  \<open>option\<close>.
\<close>

section \<open>State and operations\<close>

record local_bpred_t =
  localPredictorSize :: u32
  localPredictorSets :: u32
  localCtrBits :: u32
  local_instShiftAmt :: u32
  indexMask :: u32
  localCtrs :: "SatCounter list"
  local_num_lookup :: int
  local_num_miss :: int

text \<open>\<open>None\<close>: division by \<open>localCtrBits = 0\<close>. Fresh memory \<open>g\<close> is overwritten by \<open>init_counter\<close>.\<close>

definition local_bpred_create ::
    "SatCounter \<Rightarrow> local_bpred_t \<Rightarrow> u32 \<Rightarrow> u32 \<Rightarrow> u32 \<Rightarrow> local_bpred_t option" where
  "local_bpred_create g pred a_size a_bits a_shift =
     (if a_bits = 0 then None else
      let sets = a_size div a_bits
      in Some (pred\<lparr>localPredictorSize := a_size, localCtrBits := a_bits,
           local_instShiftAmt := a_shift, localPredictorSets := sets, indexMask := sets - 1,
           localCtrs := replicate (unat sets) (init_counter g (ucast (a_bits div 2)) (unat a_bits)),
           local_num_lookup := 0, local_num_miss := 0\<rparr>))"

definition local_bpred_reset :: "local_bpred_t \<Rightarrow> local_bpred_t" where
  "local_bpred_reset pred = pred\<lparr>localCtrs := map reset_counter (localCtrs pred)\<rparr>"

definition bpred_getLocalIndex :: "local_bpred_t \<Rightarrow> u32 \<Rightarrow> u32" where
  "bpred_getLocalIndex pred branch_addr =
     (shr32 branch_addr 19 XOR shr32 branch_addr 2) AND (2048 - 1)"

definition bpred_getPrediction :: "local_bpred_t \<Rightarrow> u8 \<Rightarrow> u32" where
  "bpred_getPrediction pred count = shr32 (ucast count) (unat (localCtrBits pred - 1))"

definition local_bpred_lookup :: "local_bpred_t \<Rightarrow> u32 \<Rightarrow> u32 option" where
  "local_bpred_lookup pred branch_addr = do {
     c \<leftarrow> nget (localCtrs pred) (unat (bpred_getLocalIndex pred branch_addr));
     Some (bpred_getPrediction pred (read_counter c)) }"

definition local_bpred_update :: "local_bpred_t \<Rightarrow> u32 \<Rightarrow> bool \<Rightarrow> local_bpred_t option" where
  "local_bpred_update pred branch_addr taken = do {
     let i = unat (bpred_getLocalIndex pred branch_addr);
     c \<leftarrow> nget (localCtrs pred) i;
     cs \<leftarrow> nupd (localCtrs pred) i (if taken then increment_counter c else decrement_counter c);
     Some (pred\<lparr>localCtrs := cs\<rparr>) }"

section \<open>Behaviour\<close>

definition local_wf :: "local_bpred_t \<Rightarrow> bool" where
  "local_wf pred \<longleftrightarrow> length (localCtrs pred) = unat (localPredictorSets pred) \<and>
     list_all (\<lambda>c. counter_wf c \<and> counter_max c = 2 ^ unat (localCtrBits pred) - 1) (localCtrs pred)"

lemma getLocalIndex_bound: "unat (bpred_getLocalIndex pred a) < 2048"
proof -
  have "unat (bpred_getLocalIndex pred a) < unat (2048::u32)"
    unfolding bpred_getLocalIndex_def by (rule and_mask_bound) simp
  then show ?thesis by simp
qed

text \<open>A counter of \<open>b\<close> bits predicts taken exactly when it is in its upper half.\<close>

lemma getPrediction_threshold:
  assumes b: "localCtrBits pred = of_nat b" "0 < b" "b \<le> 8" and c: "unat count < 2 ^ b"
  shows "bpred_getPrediction pred count = of_cbool (2 ^ (b - 1) - 1 < unat count)"
proof -
  obtain k where k: "b = Suc k" "k < 8" using b by (cases b) auto
  have s: "unat (localCtrBits pred - 1) = k"
    using b k by (simp add: unsigned_of_nat take_bit_nat_eq_self)
  have u: "unat count < 2 ^ 8" using unsigned_less [of count] by simp
  have "unat (ucast count :: u32) = unat count"
    using u by (simp add: unsigned_ucast_eq take_bit_nat_eq_self)
  then have d: "unat (drop_bit k (ucast count :: u32)) = unat count div 2 ^ k"
    unfolding unat_drop_bit_eq by (simp add: drop_bit_eq_div)
  have "unat count div 2 ^ k = (if 2 ^ k \<le> unat count then 1 else 0)"
    using c k by (auto simp: div_nat_eqI)
  moreover have "2 ^ k \<le> unat count \<longleftrightarrow> 2 ^ k - 1 < unat count"
    using zero_less_power [of "2::nat" k] by linarith
  ultimately have "unat (drop_bit k (ucast count :: u32)) = unat (of_cbool (2 ^ k - 1 < unat count))"
    using d by (simp add: of_cbool_def)
  then show ?thesis
    using k s by (simp add: bpred_getPrediction_def shr32_def word_unat_eq_iff)
qed

lemma local_update_wf [wf_preserve]:
  "local_wf pred \<Longrightarrow> local_bpred_update pred a t = Some pred' \<Longrightarrow> local_wf pred'"
  by (auto simp: local_bpred_update_def local_wf_def Let_def nget_Some_iff nupd_Some_iff
      bind_eq_Some_conv intro!: list_all_upd)

text \<open>\<open>k\<close> updates of one branch with one outcome are \<open>k\<close> steps of its counter.\<close>

primrec local_train :: "u32 \<Rightarrow> bool \<Rightarrow> nat \<Rightarrow> local_bpred_t \<Rightarrow> local_bpred_t option" where
  "local_train a t 0 pred = Some pred"
| "local_train a t (Suc k) pred = do { p \<leftarrow> local_train a t k pred; local_bpred_update p a t }"

lemma local_train_counter:
  fixes a :: u32
  assumes wf: "local_wf pred" and big: "2048 \<le> unat (localPredictorSets pred)"
  defines "n \<equiv> unat (bpred_getLocalIndex pred a)"
  shows "local_train a t k pred = Some (pred\<lparr>localCtrs := (localCtrs pred)
      [n := (if t then increment_counter ^^ k else decrement_counter ^^ k) (localCtrs pred ! n)]\<rparr>)"
proof (induction k)
  case 0
  show ?case by simp
next
  case (Suc k)
  have len: "n < length (localCtrs pred)" "unat (bpred_getLocalIndex pred a) = n"
    using wf big getLocalIndex_bound [of pred a] by (auto simp: local_wf_def n_def)
  have ix: "bpred_getLocalIndex (pred\<lparr>localCtrs := cs\<rparr>) a = bpred_getLocalIndex pred a" for cs
    by (simp add: bpred_getLocalIndex_def)
  show ?case
    using Suc len by (simp add: local_bpred_update_def Let_def ix)
qed

section \<open>Properties\<close>

lemma local_lookup_trained:
  assumes wf: "local_wf pred" and big: "2048 \<le> unat (localPredictorSets pred)"
    and b: "localCtrBits pred = of_nat b" "0 < b" "b \<le> 8"
    and tr: "local_train a t k pred = Some pred'"
  shows "\<exists>c. counter_wf c \<and> counter_max c = 2 ^ b - 1 \<and>
    local_bpred_lookup pred' a = Some (of_cbool (2 ^ (b - 1) - 1 <
      counter_val ((if t then increment_counter ^^ k else decrement_counter ^^ k) c)))"
proof -
  let ?n = "unat (bpred_getLocalIndex pred a)"
  let ?f = "if t then increment_counter ^^ k else decrement_counter ^^ k"
  let ?c = "localCtrs pred ! ?n"
  have n: "?n < length (localCtrs pred)"
    using wf big getLocalIndex_bound [of pred a] by (auto simp: local_wf_def)
  have ub: "unat (localCtrBits pred) = b" using b by (simp add: unsigned_of_nat take_bit_nat_eq_self)
  have c: "counter_wf ?c" "counter_max ?c = 2 ^ b - 1"
    using wf n ub by (auto simp: local_wf_def dest: list_all_nthD)
  have pred': "pred' = pred\<lparr>localCtrs := (localCtrs pred)[?n := ?f ?c]\<rparr>"
    using tr local_train_counter [OF wf big, of a t k] by simp
  have wf': "counter_wf (?f ?c)"
    using c sat.ups_invar [of ?c k] sat.downs_invar [of ?c k] by simp
  have "counter_max (?f ?c) = counter_max ?c"
  proof -
    have "counter_max ((decrement_counter ^^ k) ?c) = counter_max ?c" by (induction k) simp_all
    then show ?thesis using c sat.ups_bound [of ?c k] by simp
  qed
  then have "counter_val (?f ?c) < 2 ^ b"
    using counter_val_le_max [OF wf'] c(2) zero_less_power [of "2::nat" b] by linarith
  then have "bpred_getPrediction pred' (read_counter (?f ?c)) =
      of_cbool (2 ^ (b - 1) - 1 < counter_val (?f ?c))"
    using getPrediction_threshold [of pred' b "read_counter (?f ?c)"] b
    by (simp add: pred' counter_val_def)
  moreover have "bpred_getLocalIndex pred' a = bpred_getLocalIndex pred a"
    by (simp add: bpred_getLocalIndex_def)
  ultimately have "local_bpred_lookup pred' a = Some (of_cbool (2 ^ (b - 1) - 1 < counter_val (?f ?c)))"
    using n by (simp add: local_bpred_lookup_def pred')
  then show ?thesis using c by blast
qed

lemma local_learns:
  assumes wf: "local_wf pred" and big: "2048 \<le> unat (localPredictorSets pred)"
    and b: "localCtrBits pred = of_nat b" "0 < b" "b \<le> 8"
    and k: "2 ^ (b - 1) \<le> k"
  shows "\<exists>pred'. local_train a t k pred = Some pred' \<and> local_bpred_lookup pred' a = Some (of_cbool t)"
proof -
  obtain pred' where p: "local_train a t k pred = Some pred'"
    using local_train_counter [OF wf big] by blast
  obtain c where c: "counter_wf c" "counter_max c = 2 ^ b - 1"
    and l: "local_bpred_lookup pred' a = Some (of_cbool (2 ^ (b - 1) - 1 <
      counter_val ((if t then increment_counter ^^ k else decrement_counter ^^ k) c)))"
    using local_lookup_trained [OF wf big b p] by blast
  obtain m where m: "b = Suc m" using b by (cases b) auto
  have pw: "(0::nat) < 2 ^ m" by simp
  have "(2 ^ (b - 1) - 1 < counter_val ((if t then increment_counter ^^ k else decrement_counter ^^ k) c)) = t"
  proof (cases t)
    case True
    have "2 ^ m - 1 < counter_max c" "2 ^ m - 1 < k"
      using c k m pw by (auto simp only: power_Suc diff_Suc_1)
    then show ?thesis using sat.trained_up [OF c(1)] True m by simp
  next
    case False
    have "counter_max c \<le> (2 ^ m - 1) + k"
      using c k m pw by (auto simp only: power_Suc diff_Suc_1)
    then show ?thesis using sat.trained_down [OF c(1)] False m by simp
  qed
  then show ?thesis using p l by simp
qed

text \<open>A table of 2048 two-bit counters for the witnesses.\<close>

definition demo_local :: local_bpred_t where
  "demo_local = \<lparr>localPredictorSize = 4096, localPredictorSets = 2048, localCtrBits = 2,
     local_instShiftAmt = 2, indexMask = 2047,
     localCtrs = replicate 2048 \<lparr>initialVal = 1, maxVal = 3, counter = 1\<rparr>,
     local_num_lookup = 0, local_num_miss = 0\<rparr>"

lemma demo_local_wf: "local_wf demo_local"
  by (simp add: local_wf_def demo_local_def list_all_length counter_wf_def counter_max_def)

text \<open>A predictor as \<open>bpred_create\<close> makes it satisfies the invariant, and a sequence of updates keeps it.\<close>

lemma init_counter_bits:
  assumes "0 < b" "b \<le> 8"
  shows "counter_wf (init_counter g (ucast (of_nat b div 2 :: u32)) b)" "counter_max (init_counter g v b) = 2 ^ b - 1"
proof -
  have "b \<in> {1, 2, 3, 4, 5, 6, 7, 8}" using assms by auto
  then have "(ucast (of_nat b div 2 :: u32) :: u8) \<le> ucast (shl32 1 b - 1) \<and> unat (ucast (shl32 1 b - 1) :: u8) = 2 ^ b - 1"
    by (elim insertE emptyE) (simp_all add: shl32_def)
  then show "counter_wf (init_counter g (ucast (of_nat b div 2 :: u32)) b)" "counter_max (init_counter g v b) = 2 ^ b - 1"
    by (simp_all add: counter_wf_def counter_max_def init_counter_def)
qed

lemma local_create_wf:
  assumes "0 < b" "b \<le> 8"
  shows "\<exists>pred. local_bpred_create g raw a_size (of_nat b) sh = Some pred \<and> local_wf pred \<and>
    localCtrBits pred = of_nat b \<and> localPredictorSets pred = a_size div of_nat b"
proof -
  have "unat (of_nat b :: u32) = b" using assms by (simp add: unsigned_of_nat take_bit_nat_eq_self)
  then show ?thesis using assms init_counter_bits [OF assms]
    by (auto simp: local_bpred_create_def local_wf_def Let_def list_all_length word_of_nat_eq_0_iff dest: dvd_imp_le)
qed

definition local_updates :: "(u32 \<times> bool) list \<Rightarrow> local_bpred_t \<Rightarrow> local_bpred_t option" where
  "local_updates us = ofold (\<lambda>(a, t) pred. local_bpred_update pred a t) us"

lemma local_update_frame:
  "local_bpred_update pred a t = Some pred' \<Longrightarrow>
    localCtrBits pred' = localCtrBits pred \<and> localPredictorSets pred' = localPredictorSets pred"
  by (auto simp: local_bpred_update_def Let_def bind_eq_Some_conv)

lemma local_updates_train: "local_updates (replicate k (a, t)) pred = local_train a t k pred"
proof (induction k)
  case (Suc k)
  have "local_updates (replicate (Suc k) (a, t)) pred = local_updates (replicate k (a, t)) pred \<bind> (\<lambda>p. local_bpred_update p a t)"
    unfolding replicate_Suc replicate_append_same [symmetric] by (simp add: local_updates_def ofold_append)
  then show ?case using Suc by simp
qed (simp add: local_updates_def)

text \<open>C23: A local predictor learns the direction of a branch. Let \<open>bpred_create\<close> make one with
  \<open>b\<close>-bit counters (1 to 8 bits) and a size of at least \<open>2048 * b\<close>, that is with 2048 counters
  or more. After any sequence of updates, and then \<open>2 ^ (b - 1)\<close> or more updates of one
  branch with one outcome, the lookup of that branch returns this outcome (1 for taken, 0 for
  not taken), and none of the accesses is out of range. With two-bit counters two
  updates are enough.\<close>

theorem local_bpred_learns:
  assumes "0 < b" "b \<le> 8" "2048 * b \<le> unat a_size" "2 ^ (b - 1) \<le> k"
  shows "\<exists>pred pred'. local_bpred_create g raw a_size (of_nat b) sh = Some pred \<and>
    local_updates (us @ replicate k (a, t)) pred = Some pred' \<and> local_bpred_lookup pred' a = Some (of_cbool t)"
proof -
  obtain pred where p: "local_bpred_create g raw a_size (of_nat b) sh = Some pred" "local_wf pred" "localCtrBits pred = of_nat b"
    "localPredictorSets pred = a_size div of_nat b" using local_create_wf [OF assms(1,2)] by blast
  have "unat (of_nat b :: u32) = b" using assms(2) by (simp add: unsigned_of_nat take_bit_nat_eq_self)
  then have sets: "2048 \<le> unat (localPredictorSets pred)"
    using assms(1,3) by (simp add: p(4) unat_div less_eq_div_iff_mult_less_eq)
  let ?I = "\<lambda>p. local_wf p \<and> localCtrBits p = of_nat b \<and> localPredictorSets p = localPredictorSets pred"
  have step: "\<exists>p'. local_bpred_update p a t = Some p' \<and> ?I p'" if "?I p" for p a t
    using that sets local_train_counter [of p a t 1] local_update_wf [of p a t] local_update_frame [of p a t] by auto
  obtain p1 where p1: "local_updates us pred = Some p1" "?I p1"
    unfolding local_updates_def using ofold_ok [of ?I pred us "\<lambda>(a, t) pred. local_bpred_update pred a t"] step p by fastforce
  have "\<exists>pred'. local_train a t k p1 = Some pred' \<and> local_bpred_lookup pred' a = Some (of_cbool t)"
    using p1 sets assms by (intro local_learns) auto
  then show ?thesis using p(1) p1(1) local_updates_train [of k a t p1] by (auto simp: local_updates_def ofold_append)
qed

theorem local_bpred_learns_witness:
  "\<exists>pred pred'. local_bpred_create \<lparr>initialVal = 9, maxVal = 9, counter = 9\<rparr> demo_local 4096 2 2 = Some pred \<and>
     local_updates ([(0x8000, False), (0x9000, True)] @ replicate 2 (0x8000, True)) pred = Some pred'
     \<and> local_bpred_lookup pred' 0x8000 = Some 1"
  using local_bpred_learns [of 2 4096 2 "\<lparr>initialVal = 9, maxVal = 9, counter = 9\<rparr>" demo_local 2
    "[(0x8000, False), (0x9000, True)]" "0x8000" True] by (simp add: of_cbool_def)

text \<open>C24: The local predictor reads its table at an index that depends only on the branch address
  and is always below 2048, however many counters the table has: with 2048 sets or more every
  lookup is in range, and with fewer sets some branch address makes the lookup read outside
  the table.\<close>

theorem local_bpred_lookup_in_range_iff:
  assumes "local_wf pred"
  shows "(\<forall>a. local_bpred_lookup pred a \<noteq> None) \<longleftrightarrow> 2048 \<le> unat (localPredictorSets pred)"
proof
  assume "2048 \<le> unat (localPredictorSets pred)"
  then show "\<forall>a. local_bpred_lookup pred a \<noteq> None"
    using assms getLocalIndex_bound [of pred]
    by (auto simp: local_bpred_lookup_def local_wf_def nget_def intro: less_le_trans)
next
  assume all: "\<forall>a. local_bpred_lookup pred a \<noteq> None"
  have "bpred_getLocalIndex pred 8188 = 2047"
    by (simp add: bpred_getLocalIndex_def shr32_def)
  then have "nget (localCtrs pred) 2047 \<noteq> None"
    using all [rule_format, of 8188] by (auto simp: local_bpred_lookup_def bind_eq_None_conv)
  then show "2048 \<le> unat (localPredictorSets pred)"
    using assms by (auto simp: nget_def local_wf_def split: if_splits)
qed

theorem local_bpred_lookup_in_range_iff_witness:
  "(\<forall>a. local_bpred_lookup demo_local a \<noteq> None) \<longleftrightarrow> 2048 \<le> unat (localPredictorSets demo_local)"
  by (rule local_bpred_lookup_in_range_iff [OF demo_local_wf])

end
