(* ===== verification/Lru.thy ===== *)
theory Lru
  imports TQ_Prelude
begin

text \<open>
  The abstract specification of one cache set: a list of lines, most recently moved first, each
  a valid bit and a tag, and one access function per replacement policy. Below it, the
  mathematical reading of the LRU policy: the valid tags of a set of \<open>n\<close> lines are the \<open>n\<close> most
  recently used distinct tags, so an access hits exactly when fewer than \<open>n\<close> distinct other
  tags of the set were used since its tag was last used.
\<close>

section \<open>A set as a list of lines\<close>

type_synonym line = "bool \<times> u32"

fun find_line :: "u32 \<Rightarrow> line list \<Rightarrow> nat option" where
  "find_line t [] = None"
| "find_line t (l # ls) = (if l = (True, t) then Some 0 else map_option Suc (find_line t ls))"

text \<open>\<open>keep\<close>: a hit leaves the order alone (FIFO, Random); \<open>v\<close>: the line a miss replaces.\<close>

definition set_access :: "bool \<Rightarrow> nat \<Rightarrow> u32 \<Rightarrow> line list \<Rightarrow> bool \<times> line list" where
  "set_access keep v t ls =
     (case find_line t ls of
        Some i \<Rightarrow> (True, if keep then ls else pull_front i ls)
      | None \<Rightarrow> (False, pull_front v (ls[v := (True, t)])))"

lemma find_line_Some: "find_line t ls = Some i \<Longrightarrow> i < length ls \<and> ls ! i = (True, t)"
  by (induction ls arbitrary: i) (auto split: if_splits)

lemma find_line_None_iff: "find_line t ls = None \<longleftrightarrow> (True, t) \<notin> set ls"
  by (induction ls) auto

lemma length_set_access [simp]: "v < length ls \<Longrightarrow> length (snd (set_access k v t ls)) = length ls"
  by (auto simp: set_access_def find_line_Some split: option.split)

text \<open>Under every policy, the accessed tag is present afterwards, whatever was there before.\<close>

lemma set_access_present:
  assumes "v < length ls"
  shows "(True, t) \<in> set (snd (set_access k v t ls))"
  using assms find_line_Some [of t ls]
  by (auto simp: set_access_def pull_front_def split: option.split)
     (metis nth_mem)

section \<open>Recency lists\<close>

definition touch :: "'a \<Rightarrow> 'a list \<Rightarrow> 'a list" where
  "touch t R = t # removeAll t R"

definition recency :: "'a list \<Rightarrow> 'a list" where
  "recency ts = fold touch ts []"

lemma recency_snoc [simp]: "recency (ts @ [t]) = touch t (recency ts)"
  by (simp add: recency_def)

lemma recency_Nil [simp]: "recency [] = []"
  by (simp add: recency_def)

lemma distinct_recency [simp]: "distinct (recency ts)"
  by (induction ts rule: rev_induct) (auto simp: touch_def distinct_removeAll)

lemma set_recency [simp]: "set (recency ts) = set ts"
  by (induction ts rule: rev_induct) (auto simp: touch_def)

lemma length_recency: "length (recency ts) = card (set ts)"
  by (metis distinct_card distinct_recency set_recency)

lemma recency_append: "recency (us @ vs) = recency vs @ filter (\<lambda>x. x \<notin> set vs) (recency us)"
proof (induction vs rule: rev_induct)
  case Nil
  show ?case by simp
next
  case (snoc v vs)
  have "recency (us @ vs @ [v]) = touch v (recency (us @ vs))"
    by (metis append.assoc recency_snoc)
  also have "\<dots> = touch v (recency vs) @ filter (\<lambda>x. x \<notin> set (vs @ [v])) (recency us)"
    by (auto simp: snoc.IH touch_def removeAll_filter_not_eq intro: filter_cong)
  finally show ?case by simp
qed

text \<open>The position of a tag in the recency list is its reuse distance.\<close>

lemma reuse_distance:
  assumes "t \<notin> set vs"
  shows "t \<in> set (take n (recency (us @ t # vs))) \<longleftrightarrow> card (set vs) < n"
proof -
  have split: "recency (us @ t # vs) = recency vs @ t # filter (\<lambda>x. x \<notin> set vs) (removeAll t (recency us))"
    using recency_append [of "us @ [t]" vs] assms by (simp add: touch_def)
  show ?thesis
  proof (cases "card (set vs) < n")
    case True
    then obtain k where "n - card (set vs) = Suc k" by (metis Suc_diff_Suc)
    then show ?thesis using True by (simp add: split length_recency)
  next
    case False
    then have "take n (recency (us @ t # vs)) = take n (recency vs)"
      by (simp add: split length_recency)
    moreover have "t \<notin> set (take n (recency vs))"
      using assms set_take_subset [of n "recency vs"] by auto
    ultimately show ?thesis using False by simp
  qed
qed

section \<open>An LRU set holds a prefix of the recency list\<close>

definition lru_set :: "nat \<Rightarrow> u32 list \<Rightarrow> line list \<Rightarrow> bool" where
  "lru_set n ts ls \<longleftrightarrow> (\<exists>rest. ls = map (Pair True) ts @ rest \<and> (\<forall>l\<in>set rest. \<not> fst l) \<and> distinct ts \<and> length ls = n)"

lemma take_removeAll:
  "distinct R \<Longrightarrow> take n (removeAll t (take (Suc n) R)) = take n (removeAll t R)"
proof (induction R arbitrary: n)
  case Nil
  then show ?case by simp
next
  case (Cons a R)
  show ?case
  proof (cases "a = t")
    case True
    then have "t \<notin> set R" "t \<notin> set (take n R)" using Cons.prems by (auto dest: in_set_takeD)
    then show ?thesis using True by simp
  next
    case False
    then show ?thesis using Cons by (cases n) auto
  qed
qed

lemma find_line_valid:
  "(\<forall>l\<in>set rest. \<not> fst l) \<Longrightarrow> find_line t (map (Pair True) ts @ rest) =
     (if t \<in> set ts then Some (length (takeWhile (\<lambda>x. x \<noteq> t) ts)) else None)"
  by (induction ts) (auto simp: find_line_None_iff)

lemma lru_set_hit:
  assumes "lru_set n ts ls" "t \<in> set ts"
  shows "lru_set n (touch t ts) (snd (set_access False (n - 1) t ls)) \<and> fst (set_access False (n - 1) t ls)"
proof -
  obtain rest where rest: "ls = map (Pair True) ts @ rest" "\<forall>l\<in>set rest. \<not> fst l" "distinct ts" "length ls = n"
    using assms by (auto simp: lru_set_def)
  obtain as cs where ts: "ts = as @ t # cs" "t \<notin> set as" using assms split_list_first by metis
  have "takeWhile (\<lambda>x. x \<noteq> t) as = as" using ts by (auto simp: takeWhile_eq_all_conv)
  then have "find_line t ls = Some (length as)"
    using find_line_valid [OF rest(2), of t ts] rest(1) ts by (simp add: takeWhile_tail)
  moreover have "pull_front (length as) ls = map (Pair True) (t # as @ cs) @ rest"
    using pull_front_split [of "map (Pair True) as" "(True, t)" "map (Pair True) cs @ rest"] rest ts by simp
  moreover have "touch t ts = t # as @ cs" using ts rest by (auto simp: touch_def)
  ultimately show ?thesis using rest ts
    by (auto simp: set_access_def lru_set_def)
qed

lemma lru_set_miss:
  assumes "lru_set n ts ls" "t \<notin> set ts" "0 < n"
  shows "lru_set n (take n (t # ts)) (snd (set_access False (n - 1) t ls)) \<and> \<not> fst (set_access False (n - 1) t ls)"
proof -
  obtain rest where rest: "ls = map (Pair True) ts @ rest" "\<forall>l\<in>set rest. \<not> fst l" "distinct ts" "length ls = n"
    using assms by (auto simp: lru_set_def)
  have none: "find_line t ls = None" using rest assms(2) by (simp add: find_line_valid)
  have ne: "ls \<noteq> []" using rest assms(3) by auto
  then have "ls[n - 1 := (True, t)] = butlast ls @ [(True, t)]"
    using rest(4) by (metis append_butlast_last_id length_butlast list_update_length)
  then have "pull_front (n - 1) (ls[n - 1 := (True, t)]) = (True, t) # butlast ls"
    using pull_front_split [of "butlast ls" "(True, t)" "[]"] rest(4) by simp
  then have res: "set_access False (n - 1) t ls = (False, (True, t) # butlast ls)"
    using none by (simp add: set_access_def)
  show ?thesis
  proof (cases "rest = []")
    case True
    then have "butlast ls = map (Pair True) (take (n - 1) ts)"
      using rest by (simp add: butlast_conv_take take_map)
    then show ?thesis using res True rest assms
      by (auto simp: lru_set_def take_Cons' dest: in_set_takeD)
  next
    case False
    then have "butlast ls = map (Pair True) ts @ butlast rest" "length ts < n"
      using rest by (auto simp: butlast_append)
    then show ?thesis using res False rest assms
      by (auto simp: lru_set_def take_Cons' dest: in_set_butlastD intro!: exI [of _ "butlast rest"])
  qed
qed

text \<open>One access moves the recency list on; it hits exactly when the tag was in the prefix.\<close>

lemma lru_step:
  assumes "lru_set n (take n R) ls" "distinct R" "0 < n"
  shows "lru_set n (take n (touch t R)) (snd (set_access False (n - 1) t ls))"
    and "fst (set_access False (n - 1) t ls) \<longleftrightarrow> t \<in> set (take n R)"
proof -
  obtain m where n: "n = Suc m" using assms(3) by (cases n) auto
  have eq: "take n (touch t R) = take n (touch t (take n R))"
    using take_removeAll [OF assms(2), of m t] by (simp add: touch_def n)
  show "lru_set n (take n (touch t R)) (snd (set_access False (n - 1) t ls))"
  proof (cases "t \<in> set (take n R)")
    case True
    have "length (touch t (take n R)) \<le> n"
      using True assms(2,3) by (auto simp: touch_def distinct_remove1_removeAll [symmetric] length_remove1)
    then show ?thesis using lru_set_hit [OF assms(1) True] eq by simp
  next
    case False
    then have "touch t (take n R) = t # take n R" by (simp add: touch_def)
    then show ?thesis using lru_set_miss [OF assms(1) False assms(3)] eq by simp
  qed
  show "fst (set_access False (n - 1) t ls) \<longleftrightarrow> t \<in> set (take n R)"
    using lru_set_hit [OF assms(1)] lru_set_miss [OF assms(1) _ assms(3)] by blast
qed

end
