(* ===== verification/Linked_List.thy ===== *)
theory Linked_List
  imports TQ_Prelude
begin

text \<open>
  Doubly linked lists on a heap. Three components of the program keep one by hand: the blocks
  of a cache set (\<open>cache.c\<close>), the instruction queues (\<open>trace_analyzer/inst_queue.c\<close>) and the
  memory regions (\<open>hsim_mmap.c\<close>). A heap is a partial map from addresses to structs with two
  pointer fields; \<open>dlist\<close> relates a first and a last pointer to the list of the addresses
  between them. The pointer surgery each component does is a sequence of field writes; the
  lemmas here say what single writes and the usual combinations do to \<open>dlist\<close>.
\<close>

section \<open>Heap access\<close>

definition load :: "(addr \<rightharpoonup> 'n) \<Rightarrow> ptr \<Rightarrow> 'n option" where
  "load h p = do { a \<leftarrow> p; h a }"

definition store :: "(addr \<rightharpoonup> 'n) \<Rightarrow> ptr \<Rightarrow> ('n \<Rightarrow> 'n) \<Rightarrow> (addr \<rightharpoonup> 'n) option" where
  "store h p f = do { a \<leftarrow> p; n \<leftarrow> h a; Some (h(a \<mapsto> f n)) }"

lemma load_None [simp]: "load h None = None"
  by (simp add: load_def)

lemma store_None [simp]: "store h None f = None"
  by (simp add: store_def)

lemma load_Some [simp]: "load h (Some a) = h a"
  by (simp add: load_def)

lemma store_Some: "h a = Some n \<Longrightarrow> store h (Some a) f = Some (h(a \<mapsto> f n))"
  by (simp add: store_def)

lemma store_in_dom: "a \<in> dom h \<Longrightarrow> store h (Some a) f = Some (h(a \<mapsto> f (the (h a))))"
  by (auto simp: store_def)

definition fld :: "('n \<Rightarrow> ptr) \<Rightarrow> (addr \<rightharpoonup> 'n) \<Rightarrow> addr \<Rightarrow> ptr" where
  "fld f h a = Option.bind (h a) f"

lemma fld_upd [simp]: "fld f (h(a \<mapsto> n)) = (fld f h)(a := f n)"
  by (auto simp: fld_def)

lemma fld_del [simp]: "fld f (h(a := None)) = (fld f h)(a := None)"
  by (auto simp: fld_def)

lemma fld_in: "h a = Some n \<Longrightarrow> fld f h a = f n"
  by (simp add: fld_def)

lemma dom_frame: "(\<And>a. a \<notin> S \<Longrightarrow> h' a = h a) \<Longrightarrow> S \<subseteq> dom h' \<Longrightarrow> dom h' = dom h \<union> S"
proof (intro set_eqI)
  fix x assume "\<And>a. a \<notin> S \<Longrightarrow> h' a = h a" "S \<subseteq> dom h'"
  then show "x \<in> dom h' \<longleftrightarrow> x \<in> dom h \<union> S" by (cases "x \<in> S") (auto simp: domIff)
qed

section \<open>Segments\<close>

fun hdo :: "addr list \<Rightarrow> ptr \<Rightarrow> ptr" where
  "hdo [] q = q"
| "hdo (x # xs) q = Some x"

fun lasto :: "addr list \<Rightarrow> ptr \<Rightarrow> ptr" where
  "lasto [] p = p"
| "lasto (x # xs) p = lasto xs (Some x)"

text \<open>
  \<open>dseg nx pv p xs q\<close>: the nodes \<open>xs\<close> are chained in this order by \<open>nx\<close> and backwards by \<open>pv\<close>;
  the predecessor of the first is \<open>p\<close>, the successor of the last is \<open>q\<close>.
\<close>

fun dseg :: "(addr \<Rightarrow> ptr) \<Rightarrow> (addr \<Rightarrow> ptr) \<Rightarrow> ptr \<Rightarrow> addr list \<Rightarrow> ptr \<Rightarrow> bool" where
  "dseg nx pv p [] q = True"
| "dseg nx pv p (x # xs) q = (pv x = p \<and> nx x = hdo xs q \<and> dseg nx pv (Some x) xs q)"

lemma hdo_append [simp]: "hdo (xs @ ys) q = hdo xs (hdo ys q)"
  by (cases xs) auto

lemma lasto_append [simp]: "lasto (xs @ ys) p = lasto ys (lasto xs p)"
  by (induction xs arbitrary: p) auto

lemma hdo_nonempty: "xs \<noteq> [] \<Longrightarrow> hdo xs q = Some (hd xs)"
  by (cases xs) auto

lemma hdo_in: "hdo xs None = Some a \<Longrightarrow> a \<in> set xs"
  by (cases xs) auto

lemma lasto_nonempty: "xs \<noteq> [] \<Longrightarrow> lasto xs p = Some (last xs)"
  by (induction xs arbitrary: p) auto

lemma lasto_in: "lasto xs None = Some a \<Longrightarrow> a \<in> set xs"
  by (cases "xs = []") (auto simp: lasto_nonempty)

lemma hdo_None_iff [simp]: "hdo xs None = None \<longleftrightarrow> xs = []"
  by (cases xs) auto

lemma lasto_None_iff [simp]: "lasto xs None = None \<longleftrightarrow> xs = []"
  by (cases "xs = []") (auto simp: lasto_nonempty)

lemma dseg_append: "dseg nx pv p (xs @ ys) q \<longleftrightarrow> dseg nx pv p xs (hdo ys q) \<and> dseg nx pv (lasto xs p) ys q"
  by (induction xs arbitrary: p) auto

lemma dseg_cong:
  "(\<And>x. x \<in> set xs \<Longrightarrow> nx x = nx' x \<and> pv x = pv' x) \<Longrightarrow> dseg nx pv p xs q = dseg nx' pv' p xs q"
  by (induction xs arbitrary: p) auto

lemma dseg_frame_next [simp]: "a \<notin> set xs \<Longrightarrow> dseg (nx(a := v)) pv p xs q = dseg nx pv p xs q"
  by (rule dseg_cong) auto

lemma dseg_frame_prev [simp]: "a \<notin> set xs \<Longrightarrow> dseg nx (pv(a := v)) p xs q = dseg nx pv p xs q"
  by (rule dseg_cong) auto

lemma dseg_set_first:
  assumes "dseg nx pv p (x # xs) q" "x \<notin> set xs"
  shows "dseg nx (pv(x := p')) p' (x # xs) q"
  using assms by simp

lemma dseg_set_last:
  assumes "dseg nx pv p (xs @ [x]) q" "x \<notin> set xs"
  shows "dseg (nx(x := q')) pv p (xs @ [x]) q'"
  using assms by (simp add: dseg_append)

lemma dseg_find_last:
  "dseg nx pv p xs None \<Longrightarrow> List.find (\<lambda>x. nx x = None) xs = (if xs = [] then None else Some (last xs))"
  by (induction xs arbitrary: p) (auto simp: neq_Nil_conv)

text \<open>
  Moving an inner node to the front, with the four field writes that take. The field \<open>pv\<close> of the
  moved node is not written.
\<close>

lemma dseg_move_front:
  assumes dl: "dseg nx pv p (as @ b # cs) q" and d: "distinct (as @ b # cs)" and ne: "as \<noteq> []"
  shows "dseg (nx(last as := hdo cs q, b := Some (hd as)))
    ((case cs of [] \<Rightarrow> pv | c # _ \<Rightarrow> pv(c := Some (last as)))(hd as := Some b))
    (Some (last as)) (b # as @ cs) q"
proof -
  let ?pv = "(case cs of [] \<Rightarrow> pv | c # _ \<Rightarrow> pv(c := Some (last as)))(hd as := Some b)"
  have sg: "dseg nx pv p as (Some b)" "pv b = Some (last as)" "dseg nx pv (Some b) cs q"
    using dl ne by (simp_all add: dseg_append lasto_nonempty)
  have dis: "x \<notin> set cs \<and> x \<noteq> b" if "x \<in> set as" for x using d that by auto
  have no: "b \<notin> set as" "b \<notin> set cs" "hd as \<notin> set cs" "last as \<notin> set cs" "hd as \<noteq> b" "last as \<noteq> b"
    using d dis [OF hd_in_set [OF ne]] dis [OF last_in_set [OF ne]] by auto
  have "dseg (nx(last as := hdo cs q)) pv p as (hdo cs q)"
    using dseg_set_last [of nx pv p "butlast as" "last as" "Some b" "hdo cs q"] sg(1) d ne
    by (simp add: distinct_butlast) (metis append_butlast_last_id distinct_append not_distinct_conv_prefix)
  then have "dseg (nx(last as := hdo cs q)) (pv(hd as := Some b)) (Some b) as (hdo cs q)"
    using dseg_set_first [of _ pv p "hd as" "tl as" "hdo cs q" "Some b"] d ne
    by (metis distinct.simps(2) distinct_append list.collapse)
  then have "dseg (nx(last as := hdo cs q, b := Some (hd as))) ?pv (Some b) as (hdo cs q)"
  proof (rule dseg_cong [THEN iffD1, rotated])
    fix x assume "x \<in> set as"
    then show "(nx(last as := hdo cs q)) x = (nx(last as := hdo cs q, b := Some (hd as))) x \<and>
        (pv(hd as := Some b)) x = ?pv x"
      using dis [of x] by (cases cs) auto
  qed
  moreover have "dseg (nx(last as := hdo cs q, b := Some (hd as))) ?pv (Some (last as)) cs q"
    using sg(3) no d by (cases cs) auto
  moreover have "?pv b = Some (last as)" using sg(2) no by (cases cs) auto
  ultimately show ?thesis using ne no by (simp add: dseg_append lasto_nonempty hdo_nonempty)
qed

section \<open>Lists\<close>

definition dlist :: "('n \<Rightarrow> ptr) \<Rightarrow> ('n \<Rightarrow> ptr) \<Rightarrow> (addr \<rightharpoonup> 'n) \<Rightarrow> ptr \<Rightarrow> ptr \<Rightarrow> addr list \<Rightarrow> bool" where
  "dlist nxt prv h f l xs \<longleftrightarrow>
     distinct xs \<and> set xs \<subseteq> dom h \<and> f = hdo xs None \<and> l = lasto xs None \<and>
     dseg (fld nxt h) (fld prv h) None xs None"

lemma dlist_empty [simp]: "dlist nxt prv h f l [] \<longleftrightarrow> f = None \<and> l = None"
  by (simp add: dlist_def)

lemma dlist_first_None: "dlist nxt prv h None l xs \<Longrightarrow> xs = []"
  by (cases xs) (auto simp: dlist_def)

lemma dlist_in_heap: "dlist nxt prv h f l xs \<Longrightarrow> a \<in> set xs \<Longrightarrow> \<exists>n. h a = Some n"
  by (auto simp: dlist_def)

text \<open>The nodes around one node of the list, read through its fields.\<close>

lemma dlist_split_fields:
  assumes "dlist nxt prv h f l (as @ b # cs)" "h b = Some n"
  shows "prv n = lasto as None" "nxt n = hdo cs None"
  using assms fld_in [of h b n nxt] fld_in [of h b n prv] by (auto simp: dlist_def dseg_append)

text \<open>Another heap that agrees on the nodes of the list holds the same list.\<close>

lemma dlist_frame:
  assumes "dlist nxt prv h f l xs" and "\<And>a. a \<in> set xs \<Longrightarrow> h' a = h a"
  shows "dlist nxt prv h' f l xs"
proof -
  have "dseg (fld nxt h') (fld prv h') None xs None = dseg (fld nxt h) (fld prv h) None xs None"
    using assms(2) by (intro dseg_cong) (simp add: fld_def)
  moreover have "set xs \<subseteq> dom h'" using assms by (auto simp: dlist_def)
  ultimately show ?thesis using assms(1) by (simp add: dlist_def)
qed

lemma dlist_frame_upd: "dlist nxt prv h f l xs \<Longrightarrow> a \<notin> set xs \<Longrightarrow> dlist nxt prv (h(a := v)) f l xs"
  by (erule dlist_frame) auto

text \<open>Writing a node's other fields keeps the list.\<close>

lemma dlist_upd_payload:
  assumes "dlist nxt prv h f l xs" "h a = Some n" "nxt n' = nxt n" "prv n' = prv n"
  shows "dlist nxt prv (h(a \<mapsto> n')) f l xs"
proof -
  have "(fld nxt h)(a := nxt n) = fld nxt h" "(fld prv h)(a := prv n) = fld prv h"
    using assms(2) by (auto simp: fld_def)
  then show ?thesis using assms by (auto simp: dlist_def)
qed

section \<open>Walking a list\<close>

text \<open>
  The loop \<open>while (p != NULL) { if (P *p) break; p = p->next; }\<close>. A cyclic chain would make it
  run forever, which is the value \<open>None\<close>, as is a dangling pointer.
\<close>

partial_function (option) walk_find ::
    "(addr \<rightharpoonup> 'n) \<Rightarrow> ('n \<Rightarrow> ptr) \<Rightarrow> ('n \<Rightarrow> bool) \<Rightarrow> ptr \<Rightarrow> ptr option" where
  "walk_find h nxt P p =
     (case p of None \<Rightarrow> Some None
      | Some a \<Rightarrow> Option.bind (h a) (\<lambda>n. if P n then Some p else walk_find h nxt P (nxt n)))"

lemma walk_find_seg:
  "dseg (fld nxt h) pv p xs None \<Longrightarrow> set xs \<subseteq> dom h \<Longrightarrow>
   walk_find h nxt P (hdo xs None) = Some (List.find (\<lambda>a. P (the (h a))) xs)"
proof (induction xs arbitrary: p)
  case Nil
  show ?case by (simp add: walk_find.simps)
next
  case (Cons a xs)
  then obtain n where n: "h a = Some n" by auto
  have "nxt n = hdo xs None" using Cons.prems fld_in [of h a n nxt] n by simp
  then show ?case
    using Cons.IH [of "Some a"] Cons.prems n by (simp add: walk_find.simps)
qed

lemma walk_find_dlist:
  "dlist nxt prv h f l xs \<Longrightarrow> walk_find h nxt P f = Some (List.find (\<lambda>a. P (the (h a))) xs)"
  by (auto simp: dlist_def intro: walk_find_seg)

text \<open>\<open>for (i=0; i<k; i++) p = p->next\<close>.\<close>

primrec walk_n :: "(addr \<rightharpoonup> 'n) \<Rightarrow> ('n \<Rightarrow> ptr) \<Rightarrow> nat \<Rightarrow> ptr \<Rightarrow> ptr option" where
  "walk_n h nxt 0 p = Some p"
| "walk_n h nxt (Suc k) p = do { n \<leftarrow> load h p; walk_n h nxt k (nxt n) }"

lemma walk_n_seg:
  "dseg (fld nxt h) pv p xs q \<Longrightarrow> set xs \<subseteq> dom h \<Longrightarrow> k < length xs \<Longrightarrow>
   walk_n h nxt k (hdo xs q) = Some (Some (xs ! k))"
proof (induction xs arbitrary: p k)
  case Nil
  then show ?case by simp
next
  case (Cons a xs)
  then obtain n where n: "h a = Some n" by auto
  have nx: "nxt n = hdo xs q" using Cons.prems fld_in [of h a n nxt] n by simp
  show ?case
    using Cons.IH [of "Some a"] Cons.prems n nx by (cases k) auto
qed

lemma walk_n_dlist:
  "dlist nxt prv h f l xs \<Longrightarrow> k < length xs \<Longrightarrow> walk_n h nxt k f = Some (Some (xs ! k))"
  by (auto simp: dlist_def intro: walk_n_seg)

text \<open>
  \<open>while (p != NULL) { q = p->next; ...write *p...; p = q; }\<close>, where the body gives every node a
  new content or frees it.
\<close>

partial_function (option) walk_upd ::
    "(addr \<rightharpoonup> 'n) \<Rightarrow> ('n \<Rightarrow> ptr) \<Rightarrow> ('n \<Rightarrow> 'n option) \<Rightarrow> ptr \<Rightarrow> (addr \<rightharpoonup> 'n) option" where
  "walk_upd h nxt g p =
     (case p of None \<Rightarrow> Some h
      | Some a \<Rightarrow> Option.bind (h a) (\<lambda>n. walk_upd (h(a := g n)) nxt g (nxt n)))"

lemma walk_upd_seg:
  "dseg (fld nxt h) pv p xs None \<Longrightarrow> set xs \<subseteq> dom h \<Longrightarrow> distinct xs \<Longrightarrow>
   walk_upd h nxt g (hdo xs None) = Some (\<lambda>a. if a \<in> set xs then Option.bind (h a) g else h a)"
proof (induction xs arbitrary: p h)
  case Nil
  show ?case by (simp add: walk_upd.simps)
next
  case (Cons a xs)
  then obtain n where n: "h a = Some n" by auto
  have nx: "nxt n = hdo xs None" using Cons.prems fld_in [of h a n nxt] n by simp
  define h1 where "h1 = h(a := g n)"
  have same: "h1 b = h b" if "b \<in> set xs" for b
    using that Cons.prems by (auto simp: h1_def)
  then have "dseg (fld nxt h1) pv (Some a) xs None = dseg (fld nxt h) pv (Some a) xs None"
    by (intro dseg_cong) (simp add: fld_def)
  moreover have "set xs \<subseteq> dom h1" using Cons.prems same by auto
  ultimately have "walk_upd h1 nxt g (hdo xs None)
      = Some (\<lambda>b. if b \<in> set xs then Option.bind (h1 b) g else h1 b)"
    using Cons.IH [of h1 "Some a"] Cons.prems by simp
  then show ?case using n nx Cons.prems
    by (subst walk_upd.simps) (auto simp: fun_eq_iff h1_def)
qed

lemma walk_upd_dlist:
  "dlist nxt prv h f l xs \<Longrightarrow>
   walk_upd h nxt g f = Some (\<lambda>a. if a \<in> set xs then Option.bind (h a) g else h a)"
  by (auto simp: dlist_def intro: walk_upd_seg)

section \<open>List surgery\<close>

text \<open>
  The interface of a node type: two pointer fields and their updates. Each component
  interprets it for its struct, and gets the effect of the three standard edits: taking a
  node out, putting one in front, putting one at the end.
\<close>

locale linked =
  fixes nxt :: "'n \<Rightarrow> ptr" and prv :: "'n \<Rightarrow> ptr"
    and set_nxt :: "ptr \<Rightarrow> 'n \<Rightarrow> 'n" and set_prv :: "ptr \<Rightarrow> 'n \<Rightarrow> 'n"
  assumes nxt_set_nxt: "nxt (set_nxt v n) = v" and prv_set_nxt: "prv (set_nxt v n) = prv n"
    and prv_set_prv: "prv (set_prv v n) = v" and nxt_set_prv: "nxt (set_prv v n) = nxt n"
begin

lemmas node_laws = nxt_set_nxt prv_set_nxt prv_set_prv nxt_set_prv

definition relink_next :: "(addr \<rightharpoonup> 'n) \<Rightarrow> ptr \<Rightarrow> ptr \<Rightarrow> (addr \<rightharpoonup> 'n)" where
  "relink_next h p v = (case p of None \<Rightarrow> h | Some a \<Rightarrow> h(a \<mapsto> set_nxt v (the (h a))))"

definition relink_prev :: "(addr \<rightharpoonup> 'n) \<Rightarrow> ptr \<Rightarrow> ptr \<Rightarrow> (addr \<rightharpoonup> 'n)" where
  "relink_prev h p v = (case p of None \<Rightarrow> h | Some a \<Rightarrow> h(a \<mapsto> set_prv v (the (h a))))"

lemma dom_relink:
  "set_option p \<subseteq> dom h \<Longrightarrow> dom (relink_next h p v) = dom h"
  "set_option p \<subseteq> dom h \<Longrightarrow> dom (relink_prev h p v) = dom h"
  by (auto simp: relink_next_def relink_prev_def split: option.splits)

lemma relink_None [simp]: "relink_next h None v = h" "relink_prev h None v = h"
  by (simp_all add: relink_next_def relink_prev_def)

lemma store_relink:
  "a \<in> dom h \<Longrightarrow> store h (Some a) (set_nxt v) = Some (relink_next h (Some a) v)"
  "a \<in> dom h \<Longrightarrow> store h (Some a) (set_prv v) = Some (relink_prev h (Some a) v)"
  by (auto simp: store_def relink_next_def relink_prev_def)

lemma fld_relink:
  "a \<in> dom h \<Longrightarrow> fld nxt (relink_next h (Some a) v) = (fld nxt h)(a := v)"
  "a \<in> dom h \<Longrightarrow> fld prv (relink_next h (Some a) v) = fld prv h"
  "a \<in> dom h \<Longrightarrow> fld prv (relink_prev h (Some a) v) = (fld prv h)(a := v)"
  "a \<in> dom h \<Longrightarrow> fld nxt (relink_prev h (Some a) v) = fld nxt h"
  by (auto simp: relink_next_def relink_prev_def node_laws fld_def fun_eq_iff)

lemma relink_fields:
  "h a = Some n \<Longrightarrow> relink_next h (Some b) v a = Some (if a = b then set_nxt v n else n)"
  "h a = Some n \<Longrightarrow> relink_prev h (Some b) v a = Some (if a = b then set_prv v n else n)"
  by (auto simp: relink_next_def relink_prev_def)

lemma relink_frame:
  "p \<noteq> Some a \<Longrightarrow> relink_next h p v a = h a"
  "p \<noteq> Some a \<Longrightarrow> relink_prev h p v a = h a"
  by (auto simp: relink_next_def relink_prev_def split: option.splits)

text \<open>Taking the node \<open>b\<close> out: its neighbours are joined.\<close>

lemma dlist_unlink:
  assumes dl: "dlist nxt prv h f l (as @ b # cs)"
  shows "dlist nxt prv (relink_prev (relink_next h (lasto as None) (hdo cs None)) (hdo cs None) (lasto as None))
    (hdo (as @ cs) None) (lasto (as @ cs) None) (as @ cs)"
proof -
  have d: "distinct (as @ b # cs)" "set (as @ b # cs) \<subseteq> dom h"
    and sg: "dseg (fld nxt h) (fld prv h) None as (Some b)"
      "dseg (fld nxt h) (fld prv h) (Some b) cs None"
    using dl by (auto simp: dlist_def dseg_append)
  show ?thesis
  proof (cases as rule: rev_cases)
    case Nil
    then show ?thesis using d sg
      by (cases cs) (auto simp: dlist_def relink_next_def relink_prev_def node_laws fld_def)
  next
    case as: (snoc as' a)
    then show ?thesis using d sg
      by (cases cs) (auto simp: dlist_def dseg_append relink_next_def relink_prev_def node_laws fld_def)
  qed
qed

lemma relink_commute: "p \<noteq> q \<Longrightarrow> relink_next (relink_prev h q v) p w = relink_prev (relink_next h p w) q v"
  by (auto simp: relink_next_def relink_prev_def fun_eq_iff split: option.splits)

lemma relink_same:
  "dlist nxt prv h f l xs \<Longrightarrow> set_option p \<subseteq> set xs \<Longrightarrow> a \<notin> set xs \<Longrightarrow> relink_next h p v a = h a"
  "dlist nxt prv h f l xs \<Longrightarrow> set_option p \<subseteq> set xs \<Longrightarrow> a \<notin> set xs \<Longrightarrow> relink_prev h p v a = h a"
  by (auto simp: relink_next_def relink_prev_def split: option.splits)

text \<open>Putting the node \<open>b\<close> in front.\<close>

lemma dlist_link_front:
  assumes dl: "dlist nxt prv h f l xs" and b: "b \<notin> set xs" and n: "nxt n = f" "prv n = None"
  shows "dlist nxt prv (relink_prev (h(b \<mapsto> n)) f (Some b)) (Some b) (lasto (b # xs) None) (b # xs)"
  using assms
  by (cases xs) (auto simp: dlist_def relink_prev_def node_laws fld_def)

text \<open>Putting the node \<open>b\<close> at the end.\<close>

lemma dlist_link_back:
  assumes dl: "dlist nxt prv h f l xs" and b: "b \<notin> set xs" and n: "nxt n = None" "prv n = l"
  shows "dlist nxt prv (relink_next (h(b \<mapsto> n)) l (Some b)) (hdo (xs @ [b]) None) (Some b) (xs @ [b])"
proof (cases xs rule: rev_cases)
  case Nil
  then show ?thesis using assms by (simp add: dlist_def relink_next_def)
next
  case (snoc xs' x)
  then show ?thesis using assms
    by (auto simp: dlist_def dseg_append relink_next_def node_laws fld_def)
qed

end

end
