(* ===== verification/Cache.thy ===== *)
theory Cache
  imports Lru Linked_List
begin

text \<open>
  The cache simulator of \<open>cache.c\<close>: tag arrays without data, one doubly linked list of blocks per
  set, with LRU, FIFO and Random replacement.

  The blocks of a cache live in its heap \<open>blks\<close>; \<open>malloc\<close> takes the next address from \<open>blk_brk\<close>
  and \<open>free\<close> removes an address. The \<open>data\<close> buffer of a block is allocated and freed but never
  read or written, so the block record has no such field. \<open>cache_set\<close> is \<open>None\<close> for the \<open>NULL\<close>
  that \<open>cache_invalidate\<close> and \<open>cache_close\<close> test for. \<open>perfmodel.core.rob_size\<close> and the value
  \<open>rand()\<close> returns are arguments.
\<close>

section \<open>Data\<close>

datatype Cache_policy = LRU | Random | FIFO

datatype CacheAccessType = Read | Write

record Cache_config =
  name :: string
  nset :: int
  bsize :: int
  assoc :: int
  policy :: Cache_policy
  hit_lat :: u32
  miss_lat :: u32

record Cache_blk_t =
  valid :: bool
  dirty :: bool
  tag :: u32
  prev_blk :: ptr
  next_blk :: ptr

record Cache_set_t =
  first_blk :: ptr
  last_blk :: ptr

record Cache_t =
  cache_set :: "Cache_set_t list option"
  config :: Cache_config
  num_access :: u64
  num_miss :: u64
  num_read_miss :: u64
  num_miss_star :: u64
  len_tag_bit :: u32
  len_idx_bit :: u32
  len_offset_bit :: u32
  last_miss_inst_id :: u64
  last_miss_addr :: u32
  offset_mask :: u32
  addr_mask :: u32
  blks :: "addr \<rightharpoonup> Cache_blk_t"
  blk_brk :: nat

section \<open>Initialisation\<close>

definition cacheblock_initialize ::
    "(addr \<rightharpoonup> Cache_blk_t) \<Rightarrow> ptr \<Rightarrow> (addr \<rightharpoonup> Cache_blk_t) option" where
  "cacheblock_initialize h block =
     store h block (\<lambda>b. b\<lparr>valid := False, dirty := False, tag := 0, prev_blk := None, next_blk := None\<rparr>)"

text \<open>One round of the loop of \<open>cacheset_initialize\<close>; \<open>raw\<close> is the content of fresh memory.\<close>

definition cacheset_add_blk ::
    "Cache_blk_t \<Rightarrow> nat \<Rightarrow> Cache_t \<times> Cache_set_t \<Rightarrow> (Cache_t \<times> Cache_set_t) option" where
  "cacheset_add_blk raw i = (\<lambda>(cache, cset). do {
     let blk = Some (blk_brk cache);
     h \<leftarrow> cacheblock_initialize ((blks cache)(blk_brk cache \<mapsto> raw)) blk;
     (h, cset) \<leftarrow> (if i = 0 then Some (h, cset\<lparr>first_blk := blk, last_blk := blk\<rparr>)
       else do {
         h \<leftarrow> store h blk (\<lambda>b. b\<lparr>prev_blk := last_blk cset, next_blk := None\<rparr>);
         h \<leftarrow> store h (last_blk cset) (\<lambda>b. b\<lparr>next_blk := blk\<rparr>);
         Some (h, cset\<lparr>last_blk := blk\<rparr>) });
     Some (cache\<lparr>blks := h, blk_brk := Suc (blk_brk cache)\<rparr>, cset) })"

definition cacheset_initialize ::
    "Cache_blk_t \<Rightarrow> Cache_t \<Rightarrow> Cache_set_t \<Rightarrow> int \<Rightarrow> (Cache_t \<times> Cache_set_t) option" where
  "cacheset_initialize raw cache cset assc = ofold (cacheset_add_blk raw) [0..<nat assc] (cache, cset)"

text \<open>\<open>(int) log2((double) n)\<close>; the conversion is undefined for \<open>n \<le> 0\<close>.\<close>

fun ilog2 :: "nat \<Rightarrow> nat" where
  "ilog2 n = (if n < 2 then 0 else Suc (ilog2 (n div 2)))"

declare ilog2.simps [simp del]

definition log2_int :: "int \<Rightarrow> u32 option" where
  "log2_int n = (if n \<le> 0 then None else Some (of_nat (ilog2 (nat n))))"

definition cache_initialize ::
    "Cache_blk_t \<Rightarrow> Cache_set_t \<Rightarrow> Cache_t \<Rightarrow> string \<Rightarrow> int \<Rightarrow> int \<Rightarrow> int \<Rightarrow> Cache_policy \<Rightarrow> u32 \<Rightarrow> u32
     \<Rightarrow> Cache_t option" where
  "cache_initialize raw rawset cache nm nsets bsz assc plcy hlat mlat = do {
     let cache = cache\<lparr>num_access := 0, num_miss := 0, num_read_miss := 0, num_miss_star := 0,
       last_miss_inst_id := - 1,
       config := \<lparr>name = nm, nset = nsets, bsize = bsz, assoc = assc, policy = plcy,
                  hit_lat = hlat, miss_lat = mlat\<rparr>,
       blks := Map.empty, blk_brk := 0\<rparr>;
     off \<leftarrow> log2_int bsz;
     idx \<leftarrow> log2_int nsets;
     let cache = cache\<lparr>len_offset_bit := off, len_idx_bit := idx, len_tag_bit := 32 - off - idx,
       offset_mask := shl32 1 (unat off) - 1,
       addr_mask := NOT (shl32 1 (unat off) - 1)\<rparr>;
     (cache, sets) \<leftarrow> ofold (\<lambda>i (cache, sets). do {
         (cache, cset) \<leftarrow> cacheset_initialize raw cache rawset assc;
         Some (cache, sets @ [cset]) }) [0..<nat nsets] (cache, []);
     Some (cache\<lparr>cache_set := Some sets\<rparr>) }"

section \<open>Access\<close>

definition cacheset_moveBlkAtFirst ::
    "(addr \<rightharpoonup> Cache_blk_t) \<Rightarrow> Cache_set_t \<Rightarrow> ptr \<Rightarrow> ((addr \<rightharpoonup> Cache_blk_t) \<times> Cache_set_t) option" where
  "cacheset_moveBlkAtFirst h cset blk =
     (if first_blk cset = blk then Some (h, cset) else do {
       b \<leftarrow> load h blk;
       (h, cset) \<leftarrow> (if prev_blk b \<noteq> None
         then do { h \<leftarrow> store h (prev_blk b) (\<lambda>n. n\<lparr>next_blk := next_blk b\<rparr>); Some (h, cset) }
         else Some (h, cset\<lparr>first_blk := next_blk b\<rparr>));
       b \<leftarrow> load h blk;
       (h, cset) \<leftarrow> (if next_blk b \<noteq> None
         then do { h \<leftarrow> store h (next_blk b) (\<lambda>n. n\<lparr>prev_blk := prev_blk b\<rparr>); Some (h, cset) }
         else Some (h, cset\<lparr>last_blk := prev_blk b\<rparr>));
       h \<leftarrow> store h blk (\<lambda>n. n\<lparr>prev_blk := None, next_blk := first_blk cset\<rparr>);
       h \<leftarrow> store h (first_blk cset) (\<lambda>n. n\<lparr>prev_blk := blk\<rparr>);
       Some (h, cset\<lparr>first_blk := blk\<rparr>) })"

definition cache_idx :: "Cache_t \<Rightarrow> u32 \<Rightarrow> u32" where
  "cache_idx cache a = shr32 a (unat (len_offset_bit cache)) AND (shl32 1 (unat (len_idx_bit cache)) - 1)"

definition cache_tag :: "Cache_t \<Rightarrow> u32 \<Rightarrow> u32" where
  "cache_tag cache a = shr32 a (unat (len_offset_bit cache + len_idx_bit cache))"

text \<open>The block a miss replaces; \<open>rnd\<close> is the value of \<open>rand()\<close>.\<close>

definition cache_victim :: "int \<Rightarrow> Cache_t \<Rightarrow> Cache_set_t \<Rightarrow> ptr option" where
  "cache_victim rnd cache cset =
     (case policy (config cache) of
        LRU \<Rightarrow> Some (last_blk cset)
      | FIFO \<Rightarrow> Some (last_blk cset)
      | Random \<Rightarrow> (if assoc (config cache) = 0 then None
          else walk_n (blks cache) next_blk (nat (rnd mod \<bar>assoc (config cache)\<bar>)) (first_blk cset)))"

definition count_miss :: "int \<Rightarrow> u64 \<Rightarrow> CacheAccessType \<Rightarrow> Cache_t \<Rightarrow> Cache_t" where
  "count_miss rob_size inst_id type cache =
     (let cache = (if type = Read then
            cache\<lparr>num_miss_star :=
                (if last_miss_inst_id cache = - 1 \<or> word_of_int rob_size < inst_id - last_miss_inst_id cache
                 then num_miss_star cache + 1 else num_miss_star cache),
              last_miss_inst_id := inst_id, num_read_miss := num_read_miss cache + 1\<rparr>
          else cache)
      in cache\<lparr>num_miss := num_miss cache + 1\<rparr>)"

definition cache_access ::
    "int \<Rightarrow> int \<Rightarrow> u64 \<Rightarrow> Cache_t \<Rightarrow> CacheAccessType \<Rightarrow> u32 \<Rightarrow> (bool \<times> Cache_t) option" where
  "cache_access rob_size rnd inst_id cache type a = do {
     let idx = unat (cache_idx cache a);
     let tg = cache_tag cache a;
     let cache = cache\<lparr>num_access := num_access cache + 1\<rparr>;
     sets \<leftarrow> cache_set cache;
     cset \<leftarrow> nget sets idx;
     target_blk \<leftarrow> walk_find (blks cache) next_blk (\<lambda>b. valid b \<and> tag b = tg) (first_blk cset);
     if target_blk \<noteq> None then
       (if policy (config cache) = LRU then do {
          (h, cset) \<leftarrow> cacheset_moveBlkAtFirst (blks cache) cset target_blk;
          Some (True, cache\<lparr>blks := h, cache_set := Some (sets[idx := cset])\<rparr>) }
        else Some (True, cache))
     else do {
       target_blk \<leftarrow> cache_victim rnd cache cset;
       h \<leftarrow> store (blks cache) target_blk (\<lambda>b. b\<lparr>valid := True, tag := tg\<rparr>);
       let cache = count_miss rob_size inst_id type (cache\<lparr>blks := h\<rparr>);
       (h, cset) \<leftarrow> cacheset_moveBlkAtFirst h cset target_blk;
       Some (False, cache\<lparr>blks := h, cache_set := Some (sets[idx := cset])\<rparr>) } }"

section \<open>Invalidation and release\<close>

definition cache_invalidate :: "Cache_t \<Rightarrow> Cache_t option" where
  "cache_invalidate cache =
     (case cache_set cache of None \<Rightarrow> Some cache
      | Some sets \<Rightarrow> ofold (\<lambda>i cache. do {
          cset \<leftarrow> nget sets i;
          h \<leftarrow> walk_upd (blks cache) next_blk (\<lambda>b. Some (b\<lparr>valid := False, dirty := False\<rparr>)) (first_blk cset);
          Some (cache\<lparr>blks := h\<rparr>) }) [0..<nat (nset (config cache))] cache)"

definition cache_close :: "Cache_t \<Rightarrow> (addr \<rightharpoonup> Cache_blk_t) option" where
  "cache_close cache =
     (case cache_set cache of None \<Rightarrow> Some (blks cache)
      | Some sets \<Rightarrow> ofold (\<lambda>i h. do {
          cset \<leftarrow> nget sets i;
          walk_upd h next_blk (\<lambda>b. None) (first_blk cset) }) [0..<nat (nset (config cache))] (blks cache))"

text \<open>Each policy's access, as a sequence; an access is an instruction number, a random value, a type and an address.\<close>

type_synonym access = "u64 \<times> int \<times> CacheAccessType \<times> u32"

definition cache_step :: "int \<Rightarrow> access \<Rightarrow> Cache_t \<Rightarrow> Cache_t option" where
  "cache_step rob_size = (\<lambda>(inst_id, rnd, type, a) cache. do {
     (hit, cache) \<leftarrow> cache_access rob_size rnd inst_id cache type a; Some cache })"

definition cache_run :: "int \<Rightarrow> access list \<Rightarrow> Cache_t \<Rightarrow> Cache_t option" where
  "cache_run rob_size accs cache = ofold (cache_step rob_size) accs cache"

section \<open>The list of a set\<close>

interpretation blk: linked next_blk prev_blk "\<lambda>v. next_blk_update (\<lambda>_. v)" "\<lambda>v. prev_blk_update (\<lambda>_. v)"
  by unfold_locales simp_all

abbreviation blist :: "(addr \<rightharpoonup> Cache_blk_t) \<Rightarrow> Cache_set_t \<Rightarrow> addr list \<Rightarrow> bool" where
  "blist h cset xs \<equiv> dlist next_blk prev_blk h (first_blk cset) (last_blk cset) xs"

definition block_line :: "Cache_blk_t \<Rightarrow> line" where
  "block_line b = (valid b, tag b)"

definition same_lines :: "(addr \<rightharpoonup> Cache_blk_t) \<Rightarrow> (addr \<rightharpoonup> Cache_blk_t) \<Rightarrow> bool" where
  "same_lines h h' \<longleftrightarrow> (\<forall>a. map_option block_line (h' a) = map_option block_line (h a))"

lemma same_lines_refl [simp]: "same_lines h h"
  by (simp add: same_lines_def)

lemma same_lines_dom: "same_lines h h' \<Longrightarrow> dom h' = dom h"
  by (auto simp: same_lines_def dom_def) (metis not_None_eq option.map_disc_iff)+

lemma same_lines_the: "same_lines h h' \<Longrightarrow> a \<in> dom h \<Longrightarrow> block_line (the (h' a)) = block_line (the (h a))"
  by (auto simp: same_lines_def dom_def) (metis option.map_sel option.sel option.simps(3) option.map_disc_iff)

lemma same_lines_trans [trans]: "same_lines h h1 \<Longrightarrow> same_lines h1 h2 \<Longrightarrow> same_lines h h2"
  by (simp add: same_lines_def)

lemma same_lines_upd: "h a = Some n \<Longrightarrow> block_line n' = block_line n \<Longrightarrow> same_lines h (h(a \<mapsto> n'))"
  by (simp add: same_lines_def)

lemma same_lines_relink:
  "set_option p \<subseteq> dom h \<Longrightarrow> same_lines h (blk.relink_next h p v)"
  "set_option p \<subseteq> dom h \<Longrightarrow> same_lines h (blk.relink_prev h p v)"
  by (auto simp: blk.relink_next_def blk.relink_prev_def same_lines_def block_line_def split: option.splits)

text \<open>\<open>cacheset_moveBlkAtFirst\<close> on a block of the list: it succeeds, the block is first, nothing else moves.\<close>

lemma moveBlkAtFirst_list:
  assumes dl: "blist h s (as @ b # cs)"
  shows "\<exists>h' s'. cacheset_moveBlkAtFirst h s (Some b) = Some (h', s') \<and> blist h' s' (b # as @ cs) \<and>
    same_lines h h' \<and> (\<forall>a. a \<notin> set (as @ b # cs) \<longrightarrow> h' a = h a)"
proof (cases as rule: rev_cases)
  case Nil
  then show ?thesis using dl by (auto simp: cacheset_moveBlkAtFirst_def dlist_def)
next
  case (snoc as' p)
  obtain n m where n: "h b = Some n" and m: "h p = Some m"
    using dl snoc by (auto simp: dlist_def)
  have fields: "prev_blk n = Some p" "next_blk n = hdo cs None"
    using dlist_split_fields [OF dl n] snoc by auto
  have ne: "as \<noteq> []" using snoc by simp
  obtain f where f: "first_blk s = Some f" "f \<in> set as" "f = hd as"
    using dl ne by (simp add: dlist_def hdo_nonempty)
  have d: "b \<notin> set as" "b \<notin> set cs" "p \<notin> set cs" "p \<noteq> b" "f \<noteq> b" "f \<notin> set cs" "set as \<union> set cs \<subseteq> dom h"
    using dl snoc f by (auto simp: dlist_def)
  have la: "lasto as q = Some p" for q using snoc by simp
  have lb: "last_blk s = lasto cs (Some b)"
    using dl by (auto simp: dlist_def)
  obtain k where k: "h f = Some k" using d f by auto
  define h2 where "h2 = blk.relink_prev (blk.relink_next h (lasto as None) (hdo cs None)) (hdo cs None) (lasto as None)"
  have un: "dlist next_blk prev_blk h2 (hdo (as @ cs) None) (lasto (as @ cs) None) (as @ cs)"
    unfolding h2_def by (rule blk.dlist_unlink [OF dl])
  have h2b: "h2 b = Some n"
    using n d snoc by (cases cs) (auto simp: h2_def blk.relink_prev_def blk.relink_next_def)
  have fst2: "hdo (as @ cs) None = Some f" using f ne by (simp add: hdo_nonempty)
  define nb where "nb = n\<lparr>prev_blk := None, next_blk := Some f\<rparr>"
  define h4 where "h4 = blk.relink_prev (h2(b \<mapsto> nb)) (Some f) (Some b)"
  have new: "dlist next_blk prev_blk h4 (Some b) (lasto (b # as @ cs) None) (b # as @ cs)"
    unfolding h4_def using un d fst2 by (intro blk.dlist_link_front) (auto simp: nb_def)
  have "\<exists>s'. cacheset_moveBlkAtFirst h s (Some b) = Some (h4, s') \<and> first_blk s' = Some b \<and>
      last_blk s' = lasto (b # as @ cs) None"
    using n m fields f(1,2) d h2b lb k
    by (cases cs) (auto simp: la cacheset_moveBlkAtFirst_def h4_def h2_def nb_def store_def
      blk.relink_prev_def blk.relink_next_def split: option.split)
  moreover have "same_lines h h4"
  proof -
    have in_dom: "set_option (lasto as None) \<subseteq> dom h" "set_option (hdo cs None) \<subseteq> dom h"
      using d(7) hdo_in [of cs] lasto_in [of as] by (auto simp: subset_iff)
    have r1: "same_lines h (blk.relink_next h (lasto as None) (hdo cs None))"
      by (rule same_lines_relink(1) [OF in_dom(1)])
    also have "same_lines \<dots> h2"
      unfolding h2_def using in_dom(2) same_lines_dom [OF r1] by (intro same_lines_relink) simp
    also have "same_lines h2 (h2(b \<mapsto> nb))"
      using h2b by (rule same_lines_upd) (simp add: nb_def block_line_def)
    finally have "same_lines h (h2(b \<mapsto> nb))" .
    moreover have "same_lines (h2(b \<mapsto> nb)) h4"
      unfolding h4_def using k same_lines_dom [OF calculation] by (intro same_lines_relink) auto
    ultimately show ?thesis by (rule same_lines_trans)
  qed
  moreover have "\<forall>a. a \<notin> set (as @ b # cs) \<longrightarrow> h4 a = h a"
  proof (intro allI impI)
    fix a assume a: "a \<notin> set (as @ b # cs)"
    then have "hdo cs None \<noteq> Some a" "lasto as None \<noteq> Some a" "f \<noteq> a" "a \<noteq> b"
      using f(2) hdo_in [of cs a] lasto_in [of as a] by auto
    then show "h4 a = h a" by (simp add: h4_def h2_def blk.relink_frame)
  qed
  ultimately show ?thesis using new by auto
qed

section \<open>The cache as a list of sets\<close>

definition blist_lines :: "(addr \<rightharpoonup> Cache_blk_t) \<Rightarrow> addr list \<Rightarrow> line list" where
  "blist_lines h xs = map (\<lambda>a. block_line (the (h a))) xs"

text \<open>
  \<open>cache_wf c xss\<close>: every set of the cache is a well-formed list of \<open>assoc\<close> blocks, whose addresses
  are \<open>xss\<close>, no block is in two sets, and the index bits cannot reach past the last set.
\<close>

definition cache_wf :: "Cache_t \<Rightarrow> addr list list \<Rightarrow> bool" where
  "cache_wf c xss \<longleftrightarrow> (\<exists>sets. cache_set c = Some sets \<and> length sets = length xss \<and>
     (\<forall>i<length xss. blist (blks c) (sets ! i) (xss ! i) \<and> length (xss ! i) = nat (assoc (config c))) \<and>
     (\<forall>i<length xss. \<forall>j<length xss. i \<noteq> j \<longrightarrow> set (xss ! i) \<inter> set (xss ! j) = {}) \<and>
     dom (blks c) = (\<Union>i<length xss. set (xss ! i)) \<and>
     0 < assoc (config c) \<and> nset (config c) = int (length xss) \<and>
     unat (len_idx_bit c) < 32 \<and> 2 ^ unat (len_idx_bit c) \<le> length xss)"

definition cache_models :: "Cache_t \<Rightarrow> line list list \<Rightarrow> bool" where
  "cache_models c lss \<longleftrightarrow> (\<exists>xss. cache_wf c xss \<and> lss = map (blist_lines (blks c)) xss)"

definition victim_pos :: "int \<Rightarrow> Cache_config \<Rightarrow> nat" where
  "victim_pos rnd cf = (if policy cf = Random then nat (rnd mod assoc cf) else nat (assoc cf) - 1)"

lemma length_blist_lines [simp]: "length (blist_lines h xs) = length xs"
  by (simp add: blist_lines_def)

lemma blist_lines_cong: "(\<And>a. a \<in> set xs \<Longrightarrow> h' a = h a) \<Longrightarrow> blist_lines h' xs = blist_lines h xs"
  by (simp add: blist_lines_def)

lemma blist_lines_same: "same_lines h h' \<Longrightarrow> set xs \<subseteq> dom h \<Longrightarrow> blist_lines h' xs = blist_lines h xs"
  by (auto simp: blist_lines_def same_lines_the subset_iff)

lemma blist_lines_upd:
  "distinct xs \<Longrightarrow> v < length xs \<Longrightarrow>
   blist_lines (h(xs ! v \<mapsto> b)) xs = (blist_lines h xs)[v := block_line b]"
  by (rule nth_equalityI) (auto simp: blist_lines_def nth_list_update nth_eq_iff_index_eq)

lemma find_block:
  "List.find (\<lambda>a. valid (the (h a)) \<and> tag (the (h a)) = t) xs
    = map_option (\<lambda>i. xs ! i) (find_line t (blist_lines h xs))"
  by (induction xs) (auto simp: blist_lines_def block_line_def option.map_comp comp_def)

lemma blist_lines_pull: "i < length xs \<Longrightarrow> blist_lines h (pull_front i xs) = pull_front i (blist_lines h xs)"
  by (simp add: blist_lines_def map_pull_front)

lemma move_nth:
  assumes "blist h s xs" "i < length xs"
  shows "\<exists>h' s'. cacheset_moveBlkAtFirst h s (Some (xs ! i)) = Some (h', s') \<and>
    blist h' s' (pull_front i xs) \<and> blist_lines h' (pull_front i xs) = pull_front i (blist_lines h xs) \<and>
    (\<forall>a. a \<notin> set xs \<longrightarrow> h' a = h a)"
proof -
  have xs: "xs = take i xs @ xs ! i # drop (Suc i) xs" using assms(2) by (rule id_take_nth_drop)
  then obtain h' s' where "cacheset_moveBlkAtFirst h s (Some (xs ! i)) = Some (h', s')"
    "blist h' s' (pull_front i xs)" and sl: "same_lines h h'" and "\<forall>a. a \<notin> set xs \<longrightarrow> h' a = h a"
    using moveBlkAtFirst_list [of h s "take i xs" "xs ! i" "drop (Suc i) xs"] assms(1)
    by (auto simp: pull_front_def)
  moreover have "blist_lines h' (pull_front i xs) = pull_front i (blist_lines h xs)"
  proof -
    have "set (pull_front i xs) \<subseteq> dom h"
      using assms pull_front_perm [OF assms(2)] by (simp add: dlist_def)
    then have "blist_lines h' (pull_front i xs) = blist_lines h (pull_front i xs)"
      by (rule blist_lines_same [OF sl])
    then show ?thesis by (simp only: blist_lines_pull [OF assms(2)])
  qed
  ultimately show ?thesis by blast
qed

text \<open>Replacing one set's list, and nothing outside it, keeps the cache well formed.\<close>

lemma cache_models_update:
  assumes wf: "cache_wf c xss" and sets: "cache_set c = Some sets" and i: "i < length xss"
    and ys: "blist h' s' ys" "set ys = set (xss ! i)" "length ys = length (xss ! i)"
    and frame: "\<And>a. a \<notin> set (xss ! i) \<Longrightarrow> h' a = blks c a"
    and c': "cache_set c' = Some (sets[i := s'])" "blks c' = h'" "config c' = config c" "len_idx_bit c' = len_idx_bit c"
  shows "cache_models c' ((map (blist_lines (blks c)) xss)[i := blist_lines h' ys])"
proof -
  have other: "h' a = blks c a" if "j < length xss" "j \<noteq> i" "a \<in> set (xss ! j)" for j a
    using that wf i by (intro frame) (fastforce simp: cache_wf_def)
  have keep: "blist h' (sets ! j) (xss ! j)" if "j < length xss" "j \<noteq> i" for j
  proof -
    have "blist (blks c) (sets ! j) (xss ! j)" using wf sets that by (auto simp: cache_wf_def)
    then show ?thesis by (rule dlist_frame) (rule other [OF that])
  qed
  have "set (xss ! i) \<subseteq> dom (blks c)" "set (xss ! i) \<subseteq> dom h'"
    using wf i ys by (auto simp: cache_wf_def dlist_def)
  then have "dom h' = dom (blks c)" using dom_frame [of "set (xss ! i)" h' "blks c"] frame by blast
  moreover have same: "set (xss[i := ys] ! j) = set (xss ! j)" for j
    using i ys(2) by (cases "j = i") simp_all
  ultimately have dm: "dom h' = (\<Union>j<length xss. set (xss[i := ys] ! j))"
    using wf by (auto simp: cache_wf_def)
  have "cache_wf c' (xss[i := ys])"
    using wf sets i ys c' dm unfolding cache_wf_def
    by (auto simp: same nth_list_update keep)
  moreover have "map (blist_lines h') (xss[i := ys]) = (map (blist_lines (blks c)) xss)[i := blist_lines h' ys]"
  proof (rule nth_equalityI)
    fix j assume "j < length (map (blist_lines h') (xss[i := ys]))"
    moreover have "blist_lines h' (xss ! j) = blist_lines (blks c) (xss ! j)" if "j < length xss" "j \<noteq> i"
      by (rule blist_lines_cong) (rule other [OF that])
    ultimately show "map (blist_lines h') (xss[i := ys]) ! j
        = (map (blist_lines (blks c)) xss)[i := blist_lines h' ys] ! j"
      using i by (auto simp: nth_list_update)
  qed simp
  ultimately show ?thesis using c'(2) by (auto simp: cache_models_def)
qed

text \<open>The index of every address is the index of a set.\<close>

lemma cache_idx_bound:
  assumes "cache_wf c xss"
  shows "unat (cache_idx c a) < length xss"
proof -
  let ?n = "shl32 1 (unat (len_idx_bit c))"
  have "unat ?n = 2 ^ unat (len_idx_bit c)"
    using assms by (auto simp: cache_wf_def unat_shl32_one)
  moreover have "unat (cache_idx c a) < unat ?n"
    unfolding cache_idx_def by (rule and_mask_bound) (use calculation in auto)
  ultimately show ?thesis using assms by (auto simp: cache_wf_def)
qed

definition same_geometry :: "Cache_t \<Rightarrow> Cache_t \<Rightarrow> bool" where
  "same_geometry c c' \<longleftrightarrow> config c' = config c \<and> len_idx_bit c' = len_idx_bit c \<and>
     len_offset_bit c' = len_offset_bit c"

lemma count_miss_fields [simp]:
  "blks (count_miss r iid ty c) = blks c" "cache_set (count_miss r iid ty c) = cache_set c"
  "config (count_miss r iid ty c) = config c" "len_idx_bit (count_miss r iid ty c) = len_idx_bit c"
  "len_offset_bit (count_miss r iid ty c) = len_offset_bit c"
  "num_access (count_miss r iid ty c) = num_access c" "num_miss (count_miss r iid ty c) = num_miss c + 1"
  by (simp_all add: count_miss_def Let_def)

text \<open>One call against the specification of a set.\<close>

definition spec_access :: "int \<Rightarrow> Cache_t \<Rightarrow> u32 \<Rightarrow> line list list \<Rightarrow> bool \<times> line list" where
  "spec_access rnd c a lss =
     set_access (policy (config c) \<noteq> LRU) (victim_pos rnd (config c)) (cache_tag c a)
       (lss ! unat (cache_idx c a))"

lemma cache_victim_num_access [simp]: "cache_victim rnd (c\<lparr>num_access := n\<rparr>) s = cache_victim rnd c s"
  by (simp add: cache_victim_def split: Cache_policy.split)

lemma cache_victim_pos:
  assumes "cache_wf c xss" "cache_set c = Some sets" "i < length xss"
  shows "cache_victim rnd c (sets ! i) = Some (Some (xss ! i ! victim_pos rnd (config c)))"
    and "victim_pos rnd (config c) < length (xss ! i)"
proof -
  have dl: "blist (blks c) (sets ! i) (xss ! i)" and len: "length (xss ! i) = nat (assoc (config c))"
    and pos: "0 < assoc (config c)" using assms by (auto simp: cache_wf_def)
  have m: "0 \<le> rnd mod assoc (config c)" "rnd mod assoc (config c) < assoc (config c)"
    using pos by simp_all
  show v: "victim_pos rnd (config c) < length (xss ! i)"
    using m pos len by (auto simp: victim_pos_def)
  have "xss ! i \<noteq> []" using len pos by auto
  then have "last_blk (sets ! i) = Some (xss ! i ! (length (xss ! i) - 1))"
    using dl by (simp add: dlist_def lasto_nonempty last_conv_nth)
  then show "cache_victim rnd c (sets ! i) = Some (Some (xss ! i ! victim_pos rnd (config c)))"
    using v pos len walk_n_dlist [OF dl]
    by (auto simp: cache_victim_def victim_pos_def split: Cache_policy.split)
qed

text \<open>A hit: under LRU the block moves to the front; otherwise nothing moves.\<close>

lemma cache_access_hit:
  assumes wf: "cache_wf c xss" and ls: "lss = map (blist_lines (blks c)) xss"
    and hit: "find_line (cache_tag c a) (lss ! unat (cache_idx c a)) = Some k"
  shows "\<exists>c'. cache_access r rnd iid c ty a = Some (True, c') \<and>
    cache_models c' (lss[unat (cache_idx c a) := snd (spec_access rnd c a lss)]) \<and>
    same_geometry c c' \<and> num_access c' = num_access c + 1 \<and> num_miss c' = num_miss c"
proof -
  define i where "i = unat (cache_idx c a)"
  have i: "i < length xss" unfolding i_def by (rule cache_idx_bound [OF wf])
  obtain sets where sets: "cache_set c = Some sets" "length sets = length xss"
    and dl: "blist (blks c) (sets ! i) (xss ! i)" using wf i by (auto simp: cache_wf_def)
  have li: "lss ! i = blist_lines (blks c) (xss ! i)" using ls i by simp
  then have k: "k < length (xss ! i)" using find_line_Some [OF hit] by (simp add: i_def [symmetric])
  have fnd: "walk_find (blks c) next_blk (\<lambda>b. valid b \<and> tag b = cache_tag c a) (first_blk (sets ! i))
      = Some (Some (xss ! i ! k))"
    using walk_find_dlist [OF dl] hit li by (simp add: find_block i_def [symmetric])
  show ?thesis
  proof (cases "policy (config c) = LRU")
    case True
    obtain h' s' where mv: "cacheset_moveBlkAtFirst (blks c) (sets ! i) (Some (xss ! i ! k)) = Some (h', s')"
      and new: "blist h' s' (pull_front k (xss ! i))"
        "blist_lines h' (pull_front k (xss ! i)) = pull_front k (lss ! i)"
        "\<And>a. a \<notin> set (xss ! i) \<Longrightarrow> h' a = blks c a"
      using move_nth [OF dl k] li by auto
    let ?c' = "c\<lparr>num_access := num_access c + 1, blks := h', cache_set := Some (sets[i := s'])\<rparr>"
    have "cache_models ?c' (lss[i := pull_front k (lss ! i)])"
      using cache_models_update [OF wf sets(1) i new(1) _ _ new(3), of ?c'] new(2) k
      by (simp add: ls pull_front_perm)
    moreover have "cache_access r rnd iid c ty a = Some (True, ?c')"
      using True sets i fnd mv by (simp add: cache_access_def i_def [symmetric] Let_def)
    ultimately show ?thesis using True hit
      by (auto simp: spec_access_def set_access_def same_geometry_def i_def [symmetric])
  next
    case False
    let ?c' = "c\<lparr>num_access := num_access c + 1\<rparr>"
    have "cache_models ?c' lss" using wf ls by (auto simp: cache_models_def cache_wf_def)
    moreover have "cache_access r rnd iid c ty a = Some (True, ?c')"
      using False sets i fnd by (simp add: cache_access_def i_def [symmetric] Let_def)
    ultimately show ?thesis using False hit
      by (auto simp: spec_access_def set_access_def same_geometry_def i_def [symmetric])
  qed
qed

text \<open>A miss: the victim of the policy is overwritten with the new tag and moves to the front.\<close>

lemma cache_access_miss:
  assumes wf: "cache_wf c xss" and ls: "lss = map (blist_lines (blks c)) xss"
    and miss: "find_line (cache_tag c a) (lss ! unat (cache_idx c a)) = None"
  shows "\<exists>c'. cache_access r rnd iid c ty a = Some (False, c') \<and>
    cache_models c' (lss[unat (cache_idx c a) := snd (spec_access rnd c a lss)]) \<and>
    same_geometry c c' \<and> num_access c' = num_access c + 1 \<and> num_miss c' = num_miss c + 1"
proof -
  define i where "i = unat (cache_idx c a)"
  define v where "v = victim_pos rnd (config c)"
  have i: "i < length xss" unfolding i_def by (rule cache_idx_bound [OF wf])
  obtain sets where sets: "cache_set c = Some sets" "length sets = length xss"
    and dl: "blist (blks c) (sets ! i) (xss ! i)" using wf i by (auto simp: cache_wf_def)
  have li: "lss ! i = blist_lines (blks c) (xss ! i)" using ls i by simp
  have v: "v < length (xss ! i)" "\<And>n. cache_victim rnd (c\<lparr>num_access := n\<rparr>) (sets ! i) = Some (Some (xss ! i ! v))"
    using cache_victim_pos [OF wf sets(1) i, of rnd] by (simp_all add: v_def)
  obtain b where b: "blks c (xss ! i ! v) = Some b" using dl v(1) by (meson dlist_in_heap nth_mem)
  define b' where "b' = b\<lparr>valid := True, tag := cache_tag c a\<rparr>"
  define h1 where "h1 = (blks c)(xss ! i ! v \<mapsto> b')"
  have fnd: "walk_find (blks c) next_blk (\<lambda>b. valid b \<and> tag b = cache_tag c a) (first_blk (sets ! i)) = Some None"
    using walk_find_dlist [OF dl] miss li by (simp add: find_block i_def [symmetric])
  have dl1: "blist h1 (sets ! i) (xss ! i)"
    unfolding h1_def by (rule dlist_upd_payload [OF dl b]) (simp_all add: b'_def)
  have l1: "blist_lines h1 (xss ! i) = (lss ! i)[v := (True, cache_tag c a)]"
    using dl v(1) li by (simp add: h1_def dlist_def blist_lines_upd) (simp add: block_line_def b'_def)
  obtain h' s' where mv: "cacheset_moveBlkAtFirst h1 (sets ! i) (Some (xss ! i ! v)) = Some (h', s')"
    and new: "blist h' s' (pull_front v (xss ! i))"
      "blist_lines h' (pull_front v (xss ! i)) = pull_front v ((lss ! i)[v := (True, cache_tag c a)])"
    and fr: "\<And>a. a \<notin> set (xss ! i) \<Longrightarrow> h' a = h1 a"
    using move_nth [OF dl1 v(1)] l1 by auto
  have fr': "h' x = blks c x" if "x \<notin> set (xss ! i)" for x
    using fr [OF that] that v(1) by (auto simp: h1_def)
  let ?c' = "count_miss r iid ty (c\<lparr>num_access := num_access c + 1, blks := h1\<rparr>)
    \<lparr>blks := h', cache_set := Some (sets[i := s'])\<rparr>"
  have "cache_models ?c' (lss[i := pull_front v ((lss ! i)[v := (True, cache_tag c a)])])"
    using cache_models_update [OF wf sets(1) i new(1) _ _ fr', of ?c'] new(2) v(1)
    by (simp add: ls pull_front_perm)
  moreover have "cache_access r rnd iid c ty a = Some (False, ?c')"
    using sets i fnd mv v(2) b
    by (simp add: cache_access_def i_def [symmetric] Let_def store_Some b'_def [symmetric] h1_def [symmetric])
  ultimately show ?thesis using miss
    by (auto simp: spec_access_def set_access_def same_geometry_def i_def [symmetric] v_def [symmetric])
qed

section \<open>A fresh cache\<close>

lemma cacheset_add_blk_step:
  assumes dl: "i \<noteq> 0 \<Longrightarrow> blist (blks c) s xs" and i: "i = length xs" and b: "b = blk_brk c" "b \<notin> set xs"
  shows "\<exists>h' s'. cacheset_add_blk raw i (c, s) = Some (c\<lparr>blks := h', blk_brk := Suc b\<rparr>, s') \<and>
    blist h' s' (xs @ [b]) \<and> blist_lines h' (xs @ [b]) = blist_lines (blks c) xs @ [(False, 0)] \<and>
    (\<forall>a. a \<notin> set (xs @ [b]) \<longrightarrow> h' a = blks c a)"
proof (cases "i = 0")
  case True
  define nb where "nb = raw\<lparr>valid := False, dirty := False, tag := 0, prev_blk := None, next_blk := None\<rparr>"
  have "cacheset_add_blk raw i (c, s) = Some (c\<lparr>blks := (blks c)(b \<mapsto> nb), blk_brk := Suc b\<rparr>,
      s\<lparr>first_blk := Some b, last_blk := Some b\<rparr>)"
    using True b by (simp add: cacheset_add_blk_def cacheblock_initialize_def store_def Let_def nb_def)
  moreover have "blist ((blks c)(b \<mapsto> nb)) (s\<lparr>first_blk := Some b, last_blk := Some b\<rparr>) [b]"
    by (simp add: dlist_def nb_def)
  ultimately show ?thesis using True i by (fastforce simp: blist_lines_def block_line_def nb_def)
next
  case False
  define nb where "nb = raw\<lparr>valid := False, dirty := False, tag := 0, prev_blk := last_blk s, next_blk := None\<rparr>"
  define h' where "h' = blk.relink_next ((blks c)(b \<mapsto> nb)) (last_blk s) (Some b)"
  have ne: "xs \<noteq> []" using False i by auto
  have "last_blk s = Some (last xs)" using dl [OF False] ne by (simp add: dlist_def lasto_nonempty)
  then obtain l m where l: "last_blk s = Some l" "l \<in> set xs" "blks c l = Some m"
    using dlist_in_heap [OF dl [OF False] last_in_set [OF ne]] last_in_set [OF ne] by blast
  have lb: "l \<noteq> b" using l b by auto
  have "dlist next_blk prev_blk h' (hdo (xs @ [b]) None) (Some b) (xs @ [b])"
    unfolding h'_def by (rule blk.dlist_link_back [OF dl [OF False] b(2)]) (simp_all add: nb_def)
  then have bl: "blist h' (s\<lparr>last_blk := Some b\<rparr>) (xs @ [b])"
    using dl [OF False] ne by (simp add: dlist_def hdo_nonempty)
  have "cacheset_add_blk raw i (c, s) = Some (c\<lparr>blks := h', blk_brk := Suc b\<rparr>, s\<lparr>last_blk := Some b\<rparr>)"
    using False l lb b
    by (simp add: cacheset_add_blk_def cacheblock_initialize_def store_def Let_def h'_def nb_def blk.relink_next_def)
  moreover have "blist_lines h' (xs @ [b]) = blist_lines (blks c) xs @ [(False, 0)]"
    using l lb b(2) by (auto simp: blist_lines_def h'_def blk.relink_next_def block_line_def nb_def)
  moreover have "\<forall>a. a \<notin> set (xs @ [b]) \<longrightarrow> h' a = blks c a"
    using l by (auto simp: h'_def blk.relink_next_def)
  ultimately show ?thesis using bl by blast
qed

lemma cacheset_initialize_list:
  assumes "0 < n"
  shows "\<exists>h' s'. cacheset_initialize raw c s (int n) = Some (c\<lparr>blks := h', blk_brk := blk_brk c + n\<rparr>, s') \<and>
    blist h' s' [blk_brk c..<blk_brk c + n] \<and>
    blist_lines h' [blk_brk c..<blk_brk c + n] = replicate n (False, 0) \<and>
    (\<forall>a. a \<notin> {blk_brk c..<blk_brk c + n} \<longrightarrow> h' a = blks c a)"
proof -
  let ?b = "blk_brk c"
  define I where "I = (\<lambda>i (c', s'). \<exists>h. c' = c\<lparr>blks := h, blk_brk := ?b + i\<rparr> \<and>
    (i \<noteq> 0 \<longrightarrow> blist h s' [?b..<?b + i]) \<and>
    blist_lines h [?b..<?b + i] = replicate i (False, 0) \<and>
    (\<forall>a. a \<notin> {?b..<?b + i} \<longrightarrow> h a = blks c a))"
  have "\<exists>r. ofold (cacheset_add_blk raw) [0..<n] (c, s) = Some r \<and> I n r"
  proof (rule ofold_upt)
    show "I 0 (c, s)" by (auto simp: I_def blist_lines_def intro!: exI [of _ "blks c"])
    fix i r assume "i < n" and I: "I i r"
    then obtain h s' where r: "r = (c\<lparr>blks := h, blk_brk := ?b + i\<rparr>, s')"
      and dl: "i \<noteq> 0 \<Longrightarrow> blist h s' [?b..<?b + i]"
      and lines: "blist_lines h [?b..<?b + i] = replicate i (False, 0)"
        "\<forall>a. a \<notin> {?b..<?b + i} \<longrightarrow> h a = blks c a"
      by (auto simp: I_def)
    let ?c = "c\<lparr>blks := h, blk_brk := ?b + i\<rparr>"
    obtain h'' s'' where *: "cacheset_add_blk raw i (?c, s') = Some (?c\<lparr>blks := h'', blk_brk := Suc (?b + i)\<rparr>, s'')"
      "blist h'' s'' ([?b..<?b + i] @ [?b + i])"
      "blist_lines h'' ([?b..<?b + i] @ [?b + i]) = blist_lines h [?b..<?b + i] @ [(False, 0)]"
      "\<forall>a. a \<notin> set ([?b..<?b + i] @ [?b + i]) \<longrightarrow> h'' a = h a"
      using cacheset_add_blk_step [of i ?c s' "[?b..<?b + i]" "?b + i" raw] dl by auto
    have "I (Suc i) (?c\<lparr>blks := h'', blk_brk := Suc (?b + i)\<rparr>, s'')"
      unfolding I_def using *(2,3,4) lines
      by (auto simp: replicate_append_same intro!: exI [of _ h''])
    then show "\<exists>r'. cacheset_add_blk raw i r = Some r' \<and> I (Suc i) r'" using * r by blast
  qed
  then show ?thesis using assms by (auto simp: cacheset_initialize_def I_def)
qed

lemma ilog2_bounds: "0 < n \<Longrightarrow> 2 ^ ilog2 n \<le> n \<and> n < 2 ^ Suc (ilog2 n)"
proof (induction n rule: ilog2.induct)
  case (1 n)
  show ?case
  proof (cases "n < 2")
    case True
    then show ?thesis using 1(2) by (simp add: ilog2.simps)
  next
    case False
    then have "2 ^ ilog2 (n div 2) \<le> n div 2" "n div 2 < 2 ^ Suc (ilog2 (n div 2))"
      using 1(1) by auto
    moreover have "ilog2 n = Suc (ilog2 (n div 2))" using False by (simp add: ilog2.simps [of n])
    ultimately show ?thesis by simp linarith
  qed
qed

lemma log2_int_val:
  assumes "0 < n" "n < 2 ^ 31"
  shows "\<exists>w. log2_int n = Some w \<and> unat w = ilog2 (nat n) \<and> unat w < 31"
proof -
  have "2 ^ ilog2 (nat n) \<le> nat n" "nat n < 2 ^ 31"
    using ilog2_bounds [of "nat n"] assms by auto
  then have "(2::nat) ^ ilog2 (nat n) < 2 ^ 31" by linarith
  then have lt: "ilog2 (nat n) < 31" by (simp only: power_strict_increasing_iff)
  then have "unat (of_nat (ilog2 (nat n)) :: u32) = ilog2 (nat n)"
    by (simp add: unsigned_of_nat take_bit_nat_eq_self)
  then show ?thesis using assms lt by (simp add: log2_int_def)
qed

definition fresh_sets :: "nat \<Rightarrow> nat \<Rightarrow> addr list list" where
  "fresh_sets n k = map (\<lambda>j. [j * n..<j * n + n]) [0..<k]"

lemma cache_sets_loop:
  assumes n: "0 < n" and c: "blks c = Map.empty" "blk_brk c = 0"
  shows "\<exists>h sets. ofold (\<lambda>i (cache, sets). do {
         (cache, cset) \<leftarrow> cacheset_initialize raw cache rawset (int n);
         Some (cache, sets @ [cset]) }) [0..<k] (c, []) = Some (c\<lparr>blks := h, blk_brk := k * n\<rparr>, sets) \<and>
    length sets = k \<and> dom h = {..<k * n} \<and> (\<forall>j<k. blist h (sets ! j) (fresh_sets n k ! j) \<and>
      blist_lines h (fresh_sets n k ! j) = replicate n (False, 0))"
proof -
  define I where "I = (\<lambda>k (c', sets). \<exists>h. c' = c\<lparr>blks := h, blk_brk := k * n\<rparr> \<and> length sets = k \<and> dom h = {..<k * n} \<and>
    (\<forall>j<k. blist h (sets ! j) [j * n..<j * n + n] \<and> blist_lines h [j * n..<j * n + n] = replicate n (False, 0)))"
  let ?body = "\<lambda>i (cache, sets). do {
         (cache, cset) \<leftarrow> cacheset_initialize raw cache rawset (int n);
         Some (cache, sets @ [cset]) }"
  have "\<exists>r. ofold ?body [0..<k] (c, []) = Some r \<and> I k r"
  proof (rule ofold_upt)
    show "I 0 (c, [])" using c by (auto simp: I_def intro!: exI [of _ Map.empty])
    fix i r assume "i < k" and I: "I i r"
    then obtain h sets where r: "r = (c\<lparr>blks := h, blk_brk := i * n\<rparr>, sets)" "length sets = i"
      and dm: "dom h = {..<i * n}"
      and old: "\<And>j. j < i \<Longrightarrow> blist h (sets ! j) [j * n..<j * n + n] \<and>
        blist_lines h [j * n..<j * n + n] = replicate n (False, 0)"
      by (auto simp: I_def)
    let ?c = "c\<lparr>blks := h, blk_brk := i * n\<rparr>"
    obtain h' s' where new: "cacheset_initialize raw ?c rawset (int n) = Some (?c\<lparr>blks := h', blk_brk := i * n + n\<rparr>, s')"
      "blist h' s' [i * n..<i * n + n]" "blist_lines h' [i * n..<i * n + n] = replicate n (False, 0)"
      and fr: "\<forall>a. a \<notin> {i * n..<i * n + n} \<longrightarrow> h' a = h a"
      using cacheset_initialize_list [OF n, of raw ?c rawset] by auto
    have keep: "blist h' (sets ! j) [j * n..<j * n + n] \<and> blist_lines h' [j * n..<j * n + n] = replicate n (False, 0)"
      if j: "j < i" for j
    proof -
      have "j * n + n \<le> i * n" using j by (metis Suc_leI add.commute mult_Suc mult_le_mono1)
      then have same: "h' a = h a" if "a \<in> set [j * n..<j * n + n]" for a using that fr by auto
      show ?thesis using old [OF j] same dlist_frame [of next_blk prev_blk h _ _ _ h'] blist_lines_cong [of _ h' h]
        by metis
    qed
    have dm': "dom h' = {..<i * n + n}"
      using dom_frame [of "{i * n..<i * n + n}" h' h] fr dm new(2) by (auto simp: dlist_def)
    have "I (Suc i) (?c\<lparr>blks := h', blk_brk := i * n + n\<rparr>, sets @ [s'])"
      unfolding I_def using new(2,3) keep r(2) dm'
      by (auto simp: less_Suc_eq nth_append add.commute intro!: exI [of _ h'])
    moreover have "?body i r = Some (?c\<lparr>blks := h', blk_brk := i * n + n\<rparr>, sets @ [s'])"
      using r(1) new(1) by simp
    ultimately show "\<exists>r'. ?body i r = Some r' \<and> I (Suc i) r'" by blast
  qed
  then show ?thesis by (auto simp: I_def fresh_sets_def)
qed

lemma fresh_sets_disjoint:
  assumes "i < k" "j < k" "i \<noteq> j"
  shows "set (fresh_sets n k ! i) \<inter> set (fresh_sets n k ! j) = {}"
proof -
  have "{i * n..<i * n + n} \<inter> {j * n..<j * n + n} = {}" if "i < j" for i j
  proof -
    have "i * n + n \<le> j * n" using that by (metis Suc_leI add.commute mult_Suc mult_le_mono1)
    then show ?thesis by auto
  qed
  then show ?thesis using assms by (cases "i < j") (auto simp: fresh_sets_def)
qed

lemma fresh_sets_nth [simp]: "i < k \<Longrightarrow> fresh_sets n k ! i = [i * n..<i * n + n]" "length (fresh_sets n k) = k"
  by (simp_all add: fresh_sets_def)

lemma fresh_sets_Union: "(\<Union>i<k. set (fresh_sets n k ! i)) = {..<k * n}"
proof -
  have "(\<Union>i<k. set (fresh_sets n k ! i)) = (\<Union>i<k. {i * n..<i * n + n})" by auto
  also have "\<dots> = {..<k * n}" by (induction k) (auto simp: lessThan_Suc)
  finally show ?thesis .
qed

text \<open>The state \<open>cache_initialize\<close> leaves: all lines invalid, and the geometry the code computed.\<close>

lemma cache_initialize_models:
  assumes "0 < nsets" "nsets < 2 ^ 31" "0 < bsz" "bsz < 2 ^ 31" "0 < assc"
  shows "\<exists>c. cache_initialize raw rawset c0 nm nsets bsz assc plcy hlat mlat = Some c \<and>
    cache_models c (replicate (nat nsets) (replicate (nat assc) (False, 0))) \<and>
    config c = \<lparr>name = nm, nset = nsets, bsize = bsz, assoc = assc, policy = plcy, hit_lat = hlat, miss_lat = mlat\<rparr> \<and>
    unat (len_idx_bit c) = ilog2 (nat nsets) \<and> unat (len_offset_bit c) = ilog2 (nat bsz) \<and>
    num_access c = 0 \<and> num_miss c = 0 \<and> dom (blks c) = {..<nat nsets * nat assc}"
proof -
  obtain off where off: "log2_int bsz = Some off" "unat off = ilog2 (nat bsz)"
    using log2_int_val [OF assms(3,4)] by auto
  obtain idx where idx: "log2_int nsets = Some idx" "unat idx = ilog2 (nat nsets)" "unat idx < 31"
    using log2_int_val [OF assms(1,2)] by auto
  let ?n = "nat assc" and ?k = "nat nsets"
  define c1 where "c1 = c0\<lparr>num_access := 0, num_miss := 0, num_read_miss := 0, num_miss_star := 0,
    last_miss_inst_id := - 1, config := \<lparr>name = nm, nset = nsets, bsize = bsz, assoc = assc, policy = plcy,
      hit_lat = hlat, miss_lat = mlat\<rparr>, blks := Map.empty, blk_brk := 0,
    len_offset_bit := off, len_idx_bit := idx, len_tag_bit := 32 - off - idx,
    offset_mask := shl32 1 (unat off) - 1, addr_mask := NOT (shl32 1 (unat off) - 1)\<rparr>"
  have n: "0 < ?n" "int ?n = assc" using assms by auto
  obtain h sets where loop: "ofold (\<lambda>i (cache, sets). do {
         (cache, cset) \<leftarrow> cacheset_initialize raw cache rawset assc;
         Some (cache, sets @ [cset]) }) [0..<?k] (c1, []) = Some (c1\<lparr>blks := h, blk_brk := ?k * ?n\<rparr>, sets)"
    "length sets = ?k" and dm: "dom h = {..<?k * ?n}" and all: "\<forall>j<?k. blist h (sets ! j) (fresh_sets ?n ?k ! j) \<and>
      blist_lines h (fresh_sets ?n ?k ! j) = replicate ?n (False, 0)"
    using cache_sets_loop [OF n(1), of c1 raw rawset ?k] n(2) by (auto simp: c1_def)
  let ?c = "c1\<lparr>blks := h, blk_brk := ?k * ?n, cache_set := Some sets\<rparr>"
  have "cache_initialize raw rawset c0 nm nsets bsz assc plcy hlat mlat = Some ?c"
    using loop(1) off idx by (simp add: cache_initialize_def Let_def c1_def)
  moreover have "cache_wf ?c (fresh_sets ?n ?k)"
    unfolding cache_wf_def using fresh_sets_Union [of ?n ?k] dm all loop(2) idx assms ilog2_bounds [of ?k] fresh_sets_disjoint [of _ ?k _ ?n]
    by (auto simp: c1_def fresh_sets_def)
  moreover have "map (blist_lines h) (fresh_sets ?n ?k) = replicate ?k (replicate ?n (False, 0))"
    using all by (intro nth_equalityI) (auto simp: fresh_sets_def)
  ultimately show ?thesis using off idx dm
    by (intro exI [of _ ?c]) (auto simp: cache_models_def c1_def)
qed

section \<open>Block numbers\<close>

text \<open>The block an address is in, and the set that block maps to, for a geometry in bits.\<close>

definition block_no :: "nat \<Rightarrow> u32 \<Rightarrow> u32" where
  "block_no off a = drop_bit off a"

definition set_no :: "nat \<Rightarrow> nat \<Rightarrow> u32 \<Rightarrow> nat" where
  "set_no off idx a = unat (take_bit idx (block_no off a))"

definition geometry :: "Cache_t \<Rightarrow> nat \<Rightarrow> nat \<Rightarrow> bool" where
  "geometry c off idx \<longleftrightarrow> unat (len_offset_bit c) = off \<and> unat (len_idx_bit c) = idx \<and> off + idx < 32"

lemma geometry_cong: "same_geometry c c' \<Longrightarrow> geometry c off idx \<Longrightarrow> geometry c' off idx"
  by (simp add: same_geometry_def geometry_def)

lemma cache_idx_set_no: "geometry c off idx \<Longrightarrow> unat (cache_idx c a) = set_no off idx a"
  by (simp add: geometry_def cache_idx_def set_no_def block_no_def shr32_def shl32_def
      take_bit_eq_mask mask_eq_exp_minus_1 push_bit_eq_mult)

lemma cache_tag_block: 
  assumes "geometry c off idx"
  shows "cache_tag c a = drop_bit idx (block_no off a)"
proof -
  have "unat (len_offset_bit c + len_idx_bit c) = off + idx"
    using assms by (subst unat_add_lem [THEN iffD1]) (auto simp: geometry_def)
  then show ?thesis
    using assms by (simp add: geometry_def cache_tag_def block_no_def shr32_def drop_bit_drop_bit add.commute)
qed

text \<open>Set index and tag together identify the block.\<close>

lemma same_block_iff:
  assumes "geometry c off idx"
  shows "block_no off a = block_no off b \<longleftrightarrow> set_no off idx a = set_no off idx b \<and> cache_tag c a = cache_tag c b"
proof
  assume eq: "set_no off idx a = set_no off idx b \<and> cache_tag c a = cache_tag c b"
  then have "take_bit idx (block_no off a) = take_bit idx (block_no off b)"
    by (simp add: set_no_def word_unat_eq_iff)
  moreover have "drop_bit idx (block_no off a) = drop_bit idx (block_no off b)"
    using eq cache_tag_block [OF assms] by simp
  ultimately show "block_no off a = block_no off b" by (metis bits_ident)
qed (auto simp: set_no_def cache_tag_block [OF assms])

section \<open>Runs of a cache\<close>

text \<open>The refinement of one call, hit and miss together.\<close>

lemma cache_access_spec:
  assumes "cache_models c lss"
  shows "\<exists>c'. cache_access r rnd iid c ty a = Some (fst (spec_access rnd c a lss), c') \<and>
    cache_models c' (lss[unat (cache_idx c a) := snd (spec_access rnd c a lss)]) \<and>
    same_geometry c c' \<and> num_access c' = num_access c + 1 \<and>
    num_miss c' = num_miss c + (if fst (spec_access rnd c a lss) then 0 else 1)"
proof -
  obtain xss where wf: "cache_wf c xss" "lss = map (blist_lines (blks c)) xss"
    using assms by (auto simp: cache_models_def)
  show ?thesis
  proof (cases "find_line (cache_tag c a) (lss ! unat (cache_idx c a))")
    case None
    then show ?thesis using cache_access_miss [OF wf None, of r rnd iid ty]
      by (simp add: spec_access_def set_access_def)
  next
    case (Some k)
    then show ?thesis using cache_access_hit [OF wf Some, of r rnd iid ty]
      by (simp add: spec_access_def set_access_def)
  qed
qed

lemma cache_models_idx:
  assumes "cache_models c lss"
  shows "unat (cache_idx c a) < length lss"
    and "length (lss ! unat (cache_idx c a)) = nat (assoc (config c))" and "0 < assoc (config c)"
    and "victim_pos rnd (config c) < nat (assoc (config c))"
proof -
  obtain xss where wf: "cache_wf c xss" and ls: "lss = map (blist_lines (blks c)) xss"
    using assms by (auto simp: cache_models_def)
  show i: "unat (cache_idx c a) < length lss" using cache_idx_bound [OF wf] ls by simp
  then show "length (lss ! unat (cache_idx c a)) = nat (assoc (config c))"
    using wf ls by (auto simp: cache_wf_def)
  show pos: "0 < assoc (config c)" using wf by (auto simp: cache_wf_def)
  have "rnd mod assoc (config c) < assoc (config c)" using pos by simp
  then show "victim_pos rnd (config c) < nat (assoc (config c))"
    using pos by (auto simp: victim_pos_def)
qed

text \<open>
  The LRU invariant: the lines of set \<open>i\<close> are the most recent tags of the accesses \<open>as\<close> (addresses)
  that map to it.
\<close>

definition tags_in :: "nat \<Rightarrow> nat \<Rightarrow> Cache_t \<Rightarrow> nat \<Rightarrow> u32 list \<Rightarrow> u32 list" where
  "tags_in off idx c i as = map (cache_tag c) (filter (\<lambda>a. set_no off idx a = i) as)"

definition lru_inv :: "nat \<Rightarrow> nat \<Rightarrow> nat \<Rightarrow> u32 list \<Rightarrow> Cache_t \<Rightarrow> bool" where
  "lru_inv off idx n as c \<longleftrightarrow> geometry c off idx \<and> policy (config c) = LRU \<and> nat (assoc (config c)) = n \<and>
     (\<exists>lss. cache_models c lss \<and>
       (\<forall>i<length lss. lru_set n (take n (recency (tags_in off idx c i as))) (lss ! i)))"

lemma tags_in_cong: "same_geometry c c' \<Longrightarrow> tags_in off idx c' i as = tags_in off idx c i as"
  by (simp add: tags_in_def cache_tag_def same_geometry_def)

lemma lru_inv_step:
  assumes "lru_inv off idx n as c"
  shows "\<exists>c' hit. cache_access r rnd iid c ty a = Some (hit, c') \<and> lru_inv off idx n (as @ [a]) c' \<and>
    (hit \<longleftrightarrow> cache_tag c a \<in> set (take n (recency (tags_in off idx c (set_no off idx a) as)))) \<and>
    same_geometry c c'"
proof -
  obtain lss where g: "geometry c off idx" "policy (config c) = LRU" "nat (assoc (config c)) = n"
    and m: "cache_models c lss"
    and lru: "\<And>i. i < length lss \<Longrightarrow> lru_set n (take n (recency (tags_in off idx c i as))) (lss ! i)"
    using assms by (auto simp: lru_inv_def)
  define i where "i = set_no off idx a"
  have i: "unat (cache_idx c a) = i" "i < length lss" "0 < n" "victim_pos rnd (config c) = n - 1"
    using cache_idx_set_no [OF g(1)] cache_models_idx(1) [OF m, of a] cache_models_idx(3) [OF m] g
    by (auto simp: i_def victim_pos_def)
  have sa: "spec_access rnd c a lss = set_access False (n - 1) (cache_tag c a) (lss ! i)"
    using i g by (simp add: spec_access_def)
  obtain c' where acc: "cache_access r rnd iid c ty a = Some (fst (spec_access rnd c a lss), c')"
    and m': "cache_models c' (lss[i := snd (spec_access rnd c a lss)])" and sg: "same_geometry c c'"
    using cache_access_spec [OF m, of r rnd iid ty a] i(1) by auto
  note step = lru_step [OF lru [OF i(2)] distinct_recency i(3), of "cache_tag c a"]
  have "lru_set n (take n (recency (tags_in off idx c' j (as @ [a])))) ((lss[i := snd (spec_access rnd c a lss)]) ! j)"
    if "j < length lss" for j
    using that step(1) lru [OF that] i(2)
    unfolding tags_in_cong [OF sg] by (auto simp: tags_in_def sa i_def [symmetric] nth_list_update)
  then have "lru_inv off idx n (as @ [a]) c'"
    using m' geometry_cong [OF sg g(1)] g(2,3) sg by (auto simp: lru_inv_def same_geometry_def)
  then show ?thesis using acc sg step(2) by (auto simp: sa i_def)
qed

definition acc_addr :: "access \<Rightarrow> u32" where
  "acc_addr = (\<lambda>(iid, rnd, ty, a). a)"

lemma cache_run_lru:
  assumes "lru_inv off idx n [] c"
  shows "\<exists>c'. cache_run r accs c = Some c' \<and> lru_inv off idx n (map acc_addr accs) c'"
proof (induction accs rule: rev_induct)
  case Nil
  then show ?case using assms by (simp add: cache_run_def)
next
  case (snoc x accs)
  then obtain c' where c': "cache_run r accs c = Some c'" "lru_inv off idx n (map acc_addr accs) c'" by auto
  obtain iid rnd ty a where x: "x = (iid, rnd, ty, a)" by (cases x)
  then show ?case
    using c' lru_inv_step [OF c'(2), of r rnd iid ty a]
    by (auto simp: cache_run_def ofold_append cache_step_def acc_addr_def)
qed

lemma lru_inv_init:
  assumes "cache_models c (replicate k (replicate n (False, 0)))" "geometry c off idx"
    "policy (config c) = LRU" "nat (assoc (config c)) = n"
  shows "lru_inv off idx n [] c"
  using assms by (auto simp: lru_inv_def tags_in_def lru_set_def intro!: exI [of _ "replicate k (replicate n (False, 0))"])

lemma tags_in_append [simp]: "tags_in off idx c i (as @ bs) = tags_in off idx c i as @ tags_in off idx c i bs"
  by (simp add: tags_in_def)

text \<open>Distinct tags of a set and distinct blocks of the set are equally many.\<close>

lemma card_tags_in:
  assumes "geometry c off idx"
  shows "card (set (tags_in off idx c i as)) = card (block_no off ` {a \<in> set as. set_no off idx a = i})"
proof -
  have "cache_tag c = drop_bit idx \<circ> block_no off" using cache_tag_block [OF assms] by auto
  then have "set (tags_in off idx c i as) = drop_bit idx ` block_no off ` {a \<in> set as. set_no off idx a = i}"
    by (auto simp: tags_in_def)
  moreover have "inj_on (drop_bit idx) (block_no off ` {a \<in> set as. set_no off idx a = i})"
    using same_block_iff [OF assms] cache_tag_block [OF assms] by (auto simp: inj_on_def)
  ultimately show ?thesis by (simp add: card_image)
qed

lemma lru_inv_hit_iff:
  assumes inv: "lru_inv off idx n (us @ b # vs) c" and same: "block_no off b = block_no off a"
    and fresh: "\<forall>v\<in>set vs. block_no off v \<noteq> block_no off a"
    and acc: "cache_access r rnd iid c ty a = Some (hit, c')"
  shows "hit \<longleftrightarrow> card (block_no off ` {v \<in> set vs. set_no off idx v = set_no off idx a}) < n"
proof -
  have g: "geometry c off idx" using inv by (simp add: lru_inv_def)
  let ?t = "\<lambda>as. tags_in off idx c (set_no off idx a) as"
  have b: "?t (us @ b # vs) = ?t us @ cache_tag c a # ?t vs"
    using same same_block_iff [OF g, of b a] by (simp add: tags_in_def)
  have "cache_tag c a \<notin> set (?t vs)"
    using fresh same_block_iff [OF g] by (auto simp: tags_in_def)
  then have "cache_tag c a \<in> set (take n (recency (?t (us @ b # vs)))) \<longleftrightarrow> card (set (?t vs)) < n"
    unfolding b by (rule reuse_distance)
  then show ?thesis
    using lru_inv_step [OF inv, of r rnd iid ty a] acc card_tags_in [OF g] by auto
qed

section \<open>Cold misses, invalidation, release\<close>

definition seen_inv :: "nat \<Rightarrow> nat \<Rightarrow> u32 list \<Rightarrow> Cache_t \<Rightarrow> bool" where
  "seen_inv off idx as c \<longleftrightarrow> geometry c off idx \<and> (\<exists>lss. cache_models c lss \<and>
     (\<forall>i<length lss. \<forall>t. (True, t) \<in> set (lss ! i) \<longrightarrow> t \<in> set (tags_in off idx c i as)))"

lemma set_access_tags:
  "v < length ls \<Longrightarrow> (True, x) \<in> set (snd (set_access k v t ls)) \<Longrightarrow> x = t \<or> (True, x) \<in> set ls"
  by (auto simp: set_access_def pull_front_perm find_line_Some split: option.splits if_splits
      dest!: set_update_subset_insert [THEN subsetD])

lemma seen_inv_step:
  assumes "seen_inv off idx as c"
  shows "\<exists>c' hit. cache_access r rnd iid c ty a = Some (hit, c') \<and> seen_inv off idx (as @ [a]) c' \<and>
    (hit \<longrightarrow> cache_tag c a \<in> set (tags_in off idx c (set_no off idx a) as))"
proof -
  obtain lss where g: "geometry c off idx" and m: "cache_models c lss"
    and seen: "\<And>i t. i < length lss \<Longrightarrow> (True, t) \<in> set (lss ! i) \<Longrightarrow> t \<in> set (tags_in off idx c i as)"
    using assms by (auto simp: seen_inv_def)
  define i where "i = set_no off idx a"
  have i: "unat (cache_idx c a) = i" "i < length lss" "victim_pos rnd (config c) < length (lss ! i)"
    using cache_idx_set_no [OF g, of a] cache_models_idx(1,2) [OF m, of a] cache_models_idx(4) [OF m, of rnd]
    by (auto simp: i_def)
  obtain c' where acc: "cache_access r rnd iid c ty a = Some (fst (spec_access rnd c a lss), c')"
    and m': "cache_models c' (lss[i := snd (spec_access rnd c a lss)])" and sg: "same_geometry c c'"
    using cache_access_spec [OF m, of r rnd iid ty a] i(1) by auto
  have "t \<in> set (tags_in off idx c' j (as @ [a]))"
    if "j < length lss" "(True, t) \<in> set (lss[i := snd (spec_access rnd c a lss)] ! j)" for j t
    using that seen [of j t] set_access_tags [OF i(3), of t] i(1)
    unfolding tags_in_cong [OF sg]
    by (cases "j = i") (auto simp: spec_access_def tags_in_def i_def)
  then have "seen_inv off idx (as @ [a]) c'"
    unfolding seen_inv_def using m' geometry_cong [OF sg g]
    by (intro conjI exI [of _ "lss[i := snd (spec_access rnd c a lss)]"]) auto
  moreover have "fst (spec_access rnd c a lss) \<Longrightarrow> (True, cache_tag c a) \<in> set (lss ! i)"
    using i(1) find_line_None_iff [of "cache_tag c a" "lss ! i"]
    by (auto simp: spec_access_def set_access_def split: option.splits)
  ultimately show ?thesis using acc seen i(2) by (auto simp: i_def)
qed

lemma cache_run_seen:
  assumes "seen_inv off idx [] c"
  shows "\<exists>c'. cache_run r accs c = Some c' \<and> seen_inv off idx (map acc_addr accs) c'"
proof (induction accs rule: rev_induct)
  case Nil
  then show ?case using assms by (simp add: cache_run_def)
next
  case (snoc x accs)
  then obtain c' where c': "cache_run r accs c = Some c'" "seen_inv off idx (map acc_addr accs) c'" by auto
  obtain iid rnd ty a where x: "x = (iid, rnd, ty, a)" by (cases x)
  then show ?case
    using c' seen_inv_step [OF c'(2), of r rnd iid ty a]
    by (auto simp: cache_run_def ofold_append cache_step_def acc_addr_def)
qed

lemma invalid_seen_inv:
  assumes "cache_models c lss" "\<forall>ls\<in>set lss. \<forall>l\<in>set ls. \<not> fst l" "geometry c off idx"
  shows "seen_inv off idx [] c"
  using assms by (fastforce simp: seen_inv_def dest: nth_mem)

lemma cache_invalidate_models:
  assumes "cache_models c lss"
  shows "\<exists>c'. cache_invalidate c = Some c' \<and> cache_models c' (map (map (\<lambda>l. (False, snd l))) lss) \<and>
    same_geometry c c'"
proof -
  obtain xss sets where wf: "cache_wf c xss" and ls: "lss = map (blist_lines (blks c)) xss"
    and sets: "cache_set c = Some sets" "length sets = length xss" "nset (config c) = int (length xss)"
    and dl: "\<And>i. i < length xss \<Longrightarrow> blist (blks c) (sets ! i) (xss ! i)"
    using assms by (auto simp: cache_models_def cache_wf_def)
  define off where "off = (\<lambda>b::Cache_blk_t. b\<lparr>valid := False, dirty := False\<rparr>)"
  define hk where "hk = (\<lambda>k a. if a \<in> (\<Union>i<k. set (xss ! i)) then map_option off (blks c a) else blks c a)"
  let ?body = "\<lambda>i cache. do {
          cset \<leftarrow> nget sets i;
          h \<leftarrow> walk_upd (blks cache) next_blk (\<lambda>b. Some (b\<lparr>valid := False, dirty := False\<rparr>)) (first_blk cset);
          Some (cache\<lparr>blks := h\<rparr>) }"
  have keep: "blist (hk k) (sets ! i) (xss ! i)" if "i < length xss" for i k
  proof -
    have "Option.bind (map_option off ob) next_blk = Option.bind ob next_blk"
      "Option.bind (map_option off ob) prev_blk = Option.bind ob prev_blk" for ob
      by (cases ob; simp add: off_def)+
    then have "fld next_blk (hk k) = fld next_blk (blks c)" "fld prev_blk (hk k) = fld prev_blk (blks c)"
      by (auto simp: hk_def fld_def fun_eq_iff)
    moreover have "dom (hk k) = dom (blks c)" by (auto simp: hk_def dom_def split: if_splits)
    ultimately show ?thesis using dl [OF that] by (simp add: dlist_def)
  qed
  have "\<exists>c'. ofold ?body [0..<length xss] c = Some c' \<and> c' = c\<lparr>blks := hk (length xss)\<rparr>"
  proof (rule ofold_upt [where I = "\<lambda>k c'. c' = c\<lparr>blks := hk k\<rparr>"])
    show "c = c\<lparr>blks := hk 0\<rparr>" by (simp add: hk_def)
    fix i c' assume i: "i < length xss" and c': "c' = c\<lparr>blks := hk i\<rparr>"
    have "walk_upd (hk i) next_blk (\<lambda>b. Some (off b)) (first_blk (sets ! i)) =
        Some (\<lambda>a. if a \<in> set (xss ! i) then Option.bind (hk i a) (\<lambda>b. Some (off b)) else hk i a)"
      by (rule walk_upd_dlist [OF keep [OF i]])
    also have "(\<lambda>a. if a \<in> set (xss ! i) then Option.bind (hk i a) (\<lambda>b. Some (off b)) else hk i a) = hk (Suc i)"
      by (auto simp: hk_def fun_eq_iff lessThan_Suc off_def map_option_case split: option.split)
    finally show "\<exists>s'. ?body i c' = Some s' \<and> s' = c\<lparr>blks := hk (Suc i)\<rparr>"
      using i c' sets by (simp add: off_def)
  qed
  then have "cache_invalidate c = Some (c\<lparr>blks := hk (length xss)\<rparr>)"
    using sets by (simp add: cache_invalidate_def)
  moreover have "cache_wf (c\<lparr>blks := hk (length xss)\<rparr>) xss"
    using wf sets keep by (auto simp: cache_wf_def hk_def dom_def)
  moreover have "blist_lines (hk (length xss)) (xss ! i) = map (\<lambda>l. (False, snd l)) (blist_lines (blks c) (xss ! i))"
    if "i < length xss" for i
    using that dlist_in_heap [OF dl [OF that]] by (auto simp: blist_lines_def hk_def block_line_def off_def) fastforce+
  then have "map (blist_lines (hk (length xss))) xss = map (map (\<lambda>l. (False, snd l))) lss"
    by (intro nth_equalityI) (auto simp: ls)
  ultimately show ?thesis
    by (auto simp: cache_models_def same_geometry_def intro!: exI [of _ "c\<lparr>blks := hk (length xss)\<rparr>"])
qed

lemma cache_close_empty:
  assumes "cache_models c lss"
  shows "cache_close c = Some Map.empty"
proof -
  obtain xss where wf: "cache_wf c xss" using assms by (auto simp: cache_models_def)
  then obtain sets where sets: "cache_set c = Some sets" "length sets = length xss" "nset (config c) = int (length xss)"
    and dl: "\<And>i. i < length xss \<Longrightarrow> blist (blks c) (sets ! i) (xss ! i)"
    by (auto simp: cache_wf_def)
  have disj: "set (xss ! i) \<inter> set (xss ! j) = {}" if "i < length xss" "j < length xss" "i \<noteq> j" for i j
    using wf that unfolding cache_wf_def by blast
  have dm: "dom (blks c) = (\<Union>i<length xss. set (xss ! i))"
    using wf unfolding cache_wf_def by blast
  define hk where "hk = (\<lambda>k a. if a \<in> (\<Union>i<k. set (xss ! i)) then None else blks c a)"
  let ?body = "\<lambda>i h. do { cset \<leftarrow> nget sets i; walk_upd h next_blk (\<lambda>b. None) (first_blk cset) }"
  have keep: "blist (hk i) (sets ! i) (xss ! i)" if "i < length xss" for i
  proof (rule dlist_frame [OF dl [OF that]])
    fix a assume "a \<in> set (xss ! i)"
    then have "a \<notin> set (xss ! j)" if "j < i" for j
      using disj [of j i] that \<open>i < length xss\<close> by auto
    then show "hk i a = blks c a" by (simp add: hk_def)
  qed
  have "\<exists>h. ofold ?body [0..<length xss] (blks c) = Some h \<and> h = hk (length xss)"
  proof (rule ofold_upt [where I = "\<lambda>k h. h = hk k"])
    show "blks c = hk 0" by (simp add: hk_def)
    fix i h assume i: "i < length xss" and h: "h = hk i"
    show "\<exists>s'. ?body i h = Some s' \<and> s' = hk (Suc i)"
    proof -
      have "(\<lambda>a. if a \<in> set (xss ! i) then Option.bind (hk i a) (\<lambda>b. None) else hk i a) = hk (Suc i)"
        by (rule ext) (simp add: hk_def lessThan_Suc)
      then show ?thesis using walk_upd_dlist [OF keep [OF i], of "\<lambda>b. None"] i h sets by simp
    qed
  qed
  moreover have "hk (length xss) = Map.empty"
  proof
    fix a show "hk (length xss) a = None"
      unfolding hk_def dm [symmetric] by (simp add: domIff)
  qed
  ultimately show ?thesis using sets by (simp add: cache_close_def)
qed

lemma cache_run_models:
  assumes "cache_models c lss"
  shows "\<exists>c' lss'. cache_run r accs c = Some c' \<and> cache_models c' lss'"
proof (induction accs rule: rev_induct)
  case Nil
  then show ?case using assms by (auto simp: cache_run_def)
next
  case (snoc x accs)
  then obtain c' lss' where c': "cache_run r accs c = Some c'" "cache_models c' lss'" by auto
  obtain iid rnd ty a where x: "x = (iid, rnd, ty, a)" by (cases x)
  then show ?case
    using c' cache_access_spec [OF c'(2), of r rnd iid ty a]
    by (auto simp: cache_run_def ofold_append cache_step_def)
qed

text \<open>An access right after one to the same set and tag hits, under every policy.\<close>

lemma cache_access_again:
  assumes m: "cache_models c lss" and same: "cache_tag c b = cache_tag c a" "unat (cache_idx c b) = unat (cache_idx c a)"
  shows "\<exists>hit c1 c2. cache_access r rnd iid c ty a = Some (hit, c1) \<and>
    cache_access r rnd' iid' c1 ty' b = Some (True, c2)"
proof -
  let ?i = "unat (cache_idx c a)" and ?r = "snd (spec_access rnd c a lss)"
  obtain c1 where c1: "cache_access r rnd iid c ty a = Some (fst (spec_access rnd c a lss), c1)"
    and m1: "cache_models c1 (lss[?i := ?r])" and sg: "same_geometry c c1"
    using cache_access_spec [OF m] by blast
  note gs = cache_models_idx(1,2) [OF m, of a] cache_models_idx(4) [OF m, of rnd]
  have "(True, cache_tag c a) \<in> set ?r"
    unfolding spec_access_def by (rule set_access_present) (use gs in simp)
  then have pres: "(True, cache_tag c a) \<in> set (lss[?i := ?r] ! ?i)" using gs by simp
  have "cache_tag c1 b = cache_tag c a" "unat (cache_idx c1 b) = ?i"
    using sg same by (simp_all add: same_geometry_def cache_tag_def cache_idx_def)
  then have "fst (spec_access rnd' c1 b (lss[?i := ?r]))"
    using pres find_line_None_iff by (auto simp: spec_access_def set_access_def split: option.split)
  then show ?thesis using cache_access_spec [OF m1, of r rnd' iid' ty' b] c1 by auto
qed

section \<open>Properties\<close>

text \<open>
  C5: One call of \<open>cache_access\<close> on a well-formed cache never touches memory outside its sets and
  does what the list specification says: it reports a hit exactly when a valid line of the set has
  the tag, it changes only that set, under LRU a hit moves the line to the front, and a miss
  overwrites the victim of the policy and moves it to the front. Every call counts one access, and
  a miss counts one miss.
\<close>

theorem cache_access_refines:
  assumes "cache_models c lss"
  shows "\<exists>c'. cache_access r rnd iid c ty a = Some (fst (spec_access rnd c a lss), c') \<and>
    cache_models c' (lss[unat (cache_idx c a) := snd (spec_access rnd c a lss)]) \<and>
    num_access c' = num_access c + 1 \<and>
    num_miss c' = num_miss c + (if fst (spec_access rnd c a lss) then 0 else 1)"
  using cache_access_spec [OF assms] by blast

definition demo_blk :: Cache_blk_t where
  "demo_blk = \<lparr>valid = True, dirty = True, tag = 9, prev_blk = Some 3, next_blk = Some 3\<rparr>"

definition demo_set :: Cache_set_t where
  "demo_set = \<lparr>first_blk = Some 5, last_blk = None\<rparr>"

definition demo_cache :: Cache_t where
  "demo_cache = \<lparr>cache_set = None, config = \<lparr>name = [], nset = 0, bsize = 0, assoc = 0, policy = FIFO,
     hit_lat = 0, miss_lat = 0\<rparr>, num_access = 7, num_miss = 7, num_read_miss = 7, num_miss_star = 7,
     len_tag_bit = 0, len_idx_bit = 0, len_offset_bit = 0, last_miss_inst_id = 0, last_miss_addr = 0,
     offset_mask = 0, addr_mask = 0, blks = Map.empty, blk_brk = 0\<rparr>"

lemma cache_access_refines_witness:
  "\<exists>c c'. cache_initialize demo_blk demo_set demo_cache ''L1'' 2 16 2 LRU 1 20 = Some c \<and>
     cache_access 40 0 5 c Read 48 = Some (False, c') \<and> num_access c' = 1 \<and> num_miss c' = 1"
proof -
  obtain c where c: "cache_initialize demo_blk demo_set demo_cache ''L1'' 2 16 2 LRU 1 20 = Some c"
    and m: "cache_models c (replicate 2 (replicate 2 (False, 0)))" "num_access c = 0" "num_miss c = 0"
    using cache_initialize_models [of 2 16 2 demo_blk demo_set demo_cache "''L1''" LRU 1 20] by auto
  let ?lss = "replicate 2 (replicate 2 (False, 0)) :: line list list"
  have "\<not> fst (spec_access 0 c 48 ?lss)"
    using cache_models_idx(1) [OF m(1), of 48]
    by (auto simp: spec_access_def set_access_def find_line_None_iff split: option.split
        dest!: find_line_Some)
  then show ?thesis
    using cache_access_refines [OF m(1), of 40 0 5 Read 48] c m(2,3) by auto
qed

text \<open>
  C4: The LRU cache is exact. Take a cache initialised with any positive geometry whose index and
  offset bits fit an address, and any sequence of accesses in which a block is used and then not
  used again. The next access to that block hits exactly when fewer than \<open>assoc\<close> distinct other
  blocks of its set were used in between. No access of the sequence faults.
\<close>

theorem cache_lru_reuse_distance:
  assumes "0 < nsets" "nsets < 2 ^ 31" "0 < bsz" "bsz < 2 ^ 31" "0 < assc"
    and "off = ilog2 (nat bsz)" "idx = ilog2 (nat nsets)" "off + idx < 32"
    and "block_no off (acc_addr x) = block_no off a"
    and "\<forall>v\<in>set vs. block_no off (acc_addr v) \<noteq> block_no off a"
  shows "\<exists>c0 c1 c2 hit.
    cache_initialize raw rawset cm nm nsets bsz assc LRU hlat mlat = Some c0 \<and>
    cache_run r (us @ x # vs) c0 = Some c1 \<and>
    cache_access r rnd iid c1 ty a = Some (hit, c2) \<and>
    (hit \<longleftrightarrow> card (block_no off ` {v \<in> acc_addr ` set vs. set_no off idx v = set_no off idx a}) < nat assc)"
proof -
  obtain c0 where c0: "cache_initialize raw rawset cm nm nsets bsz assc LRU hlat mlat = Some c0"
    and m: "cache_models c0 (replicate (nat nsets) (replicate (nat assc) (False, 0)))"
    and cf: "config c0 = \<lparr>name = nm, nset = nsets, bsize = bsz, assoc = assc, policy = LRU, hit_lat = hlat, miss_lat = mlat\<rparr>"
    and bits: "unat (len_idx_bit c0) = idx" "unat (len_offset_bit c0) = off"
    using cache_initialize_models [OF assms(1-5)] assms(6,7) by blast
  have "lru_inv off idx (nat assc) [] c0"
    using lru_inv_init [OF m, of off idx] cf bits assms(8) by (simp add: geometry_def)
  then obtain c1 where c1: "cache_run r (us @ x # vs) c0 = Some c1"
    and inv: "lru_inv off idx (nat assc) (map acc_addr us @ acc_addr x # map acc_addr vs) c1"
    using cache_run_lru [of off idx "nat assc" c0 r "us @ x # vs"] by auto
  obtain c2 hit where acc: "cache_access r rnd iid c1 ty a = Some (hit, c2)"
    using lru_inv_step [OF inv] by blast
  then have "hit \<longleftrightarrow> card (block_no off ` {v \<in> set (map acc_addr vs). set_no off idx v = set_no off idx a}) < nat assc"
    using assms(9,10) by (intro lru_inv_hit_iff [OF inv]) auto
  then show ?thesis using c0 c1 acc by auto
qed

lemma cache_lru_reuse_distance_witness:
  "\<exists>c0 c1 c2. cache_initialize demo_blk demo_set demo_cache ''L1'' 2 16 2 LRU 1 20 = Some c0 \<and>
     cache_run 40 [(1, 0, Read, 16), (2, 0, Read, 48)] c0 = Some c1 \<and>
     cache_access 40 0 3 c1 Read 20 = Some (True, c2)"
proof -
  have l: "ilog2 16 = 4" "ilog2 2 = 1" by (simp_all add: ilog2.simps)
  have "block_no 4 (acc_addr (1, 0, Read, 16)) = block_no 4 20"
    "\<forall>v\<in>set [(2, 0, Read, 48) :: access]. block_no 4 (acc_addr v) \<noteq> block_no 4 20"
    by (simp_all add: block_no_def acc_addr_def)
  moreover have "card (block_no 4 ` {v \<in> acc_addr ` set [(2, 0, Read, 48) :: access]. set_no 4 1 v = set_no 4 1 20}) < nat 2"
    by (simp add: acc_addr_def set_no_def block_no_def Collect_conv_if)
  ultimately show ?thesis
    using cache_lru_reuse_distance [of 2 16 2 4 1 "(1, 0, Read, 16)" 20 "[(2, 0, Read, 48)]"
      demo_blk demo_set demo_cache "''L1''" 1 20 40 "[]" 0 3 Read] l by auto
qed

text \<open>
  C25: Under every replacement policy, a block that was not used since the cache was initialised or
  invalidated misses, and a block that was just used hits, whatever happened before.
\<close>

theorem cache_cold_miss_then_hit:
  assumes "cache_models c lss" "geometry c off idx"
    and "\<forall>v\<in>set accs. block_no off (acc_addr v) \<noteq> block_no off a"
    and "block_no off b = block_no off a"
  shows "\<exists>c0 c1 c2 c3. cache_invalidate c = Some c0 \<and> cache_run r accs c0 = Some c1 \<and>
    cache_access r rnd iid c1 ty a = Some (False, c2) \<and>
    cache_access r rnd' iid' c2 ty' b = Some (True, c3)"
proof -
  obtain c0 where c0: "cache_invalidate c = Some c0"
    and m0: "cache_models c0 (map (map (\<lambda>l. (False, snd l))) lss)" and g0: "geometry c0 off idx"
    using cache_invalidate_models [OF assms(1)] geometry_cong assms(2) by blast
  have "seen_inv off idx [] c0" by (rule invalid_seen_inv [OF m0 _ g0]) auto
  then obtain c1 where c1: "cache_run r accs c0 = Some c1" and s1: "seen_inv off idx (map acc_addr accs) c1"
    using cache_run_seen by blast
  have g1: "geometry c1 off idx" using s1 by (simp add: seen_inv_def)
  obtain c2 hit where c2: "cache_access r rnd iid c1 ty a = Some (hit, c2)"
    and h: "hit \<longrightarrow> cache_tag c1 a \<in> set (tags_in off idx c1 (set_no off idx a) (map acc_addr accs))"
    using seen_inv_step [OF s1] by blast
  have miss: "\<not> hit"
    using h assms(3) same_block_iff [OF g1] by (auto simp: tags_in_def)
  obtain l1 where m1: "cache_models c1 l1" using s1 by (auto simp: seen_inv_def)
  have "cache_tag c1 b = cache_tag c1 a" "unat (cache_idx c1 b) = unat (cache_idx c1 a)"
    using cache_tag_block [OF g1] cache_idx_set_no [OF g1] assms(4) by (simp_all add: set_no_def)
  then show ?thesis
    using cache_access_again [OF m1, of b a r rnd iid ty rnd' iid' ty'] c0 c1 c2 miss by auto
qed

lemma cache_cold_miss_then_hit_witness:
  "\<exists>c c0 c1 c2 c3. cache_initialize demo_blk demo_set demo_cache ''L1'' 2 16 2 FIFO 1 20 = Some c \<and>
     cache_invalidate c = Some c0 \<and> cache_run 40 [(1, 0, Write, 16)] c0 = Some c1 \<and>
     cache_access 40 0 2 c1 Read 48 = Some (False, c2) \<and>
     cache_access 40 0 3 c2 Read 52 = Some (True, c3)"
proof -
  obtain c where c: "cache_initialize demo_blk demo_set demo_cache ''L1'' 2 16 2 FIFO 1 20 = Some c"
    and m: "cache_models c (replicate 2 (replicate 2 (False, 0)))"
    and g: "unat (len_idx_bit c) = ilog2 2" "unat (len_offset_bit c) = ilog2 16"
    using cache_initialize_models [of 2 16 2 demo_blk demo_set demo_cache "''L1''" FIFO 1 20] by auto
  have "geometry c 4 1" using g by (simp add: geometry_def ilog2.simps)
  moreover have "\<forall>v\<in>set [(1, 0, Write, 16) :: access]. block_no 4 (acc_addr v) \<noteq> block_no 4 48"
    "block_no 4 52 = block_no 4 48"
    by (simp_all add: block_no_def acc_addr_def)
  ultimately show ?thesis
    using cache_cold_miss_then_hit [OF m, of 4 1 "[(1, 0, Write, 16)]" 48 52 40 0 2 Read 0 3 Read] c by blast
qed

text \<open>
  C26: A cache of any positive geometry and policy can be initialised, used for any sequence of
  accesses and closed without a fault, and closing frees every block that was allocated.
\<close>

theorem cache_lifecycle_no_leak:
  assumes "0 < nsets" "nsets < 2 ^ 31" "0 < bsz" "bsz < 2 ^ 31" "0 < assc"
  shows "\<exists>c0 c1. cache_initialize raw rawset cm nm nsets bsz assc plcy hlat mlat = Some c0 \<and>
    dom (blks c0) = {..<nat nsets * nat assc} \<and>
    cache_run r accs c0 = Some c1 \<and> cache_close c1 = Some Map.empty"
proof -
  obtain c0 where c0: "cache_initialize raw rawset cm nm nsets bsz assc plcy hlat mlat = Some c0"
    and m: "cache_models c0 (replicate (nat nsets) (replicate (nat assc) (False, 0)))"
      "dom (blks c0) = {..<nat nsets * nat assc}"
    using cache_initialize_models [OF assms] by blast
  then show ?thesis using cache_run_models [OF m(1), of r accs] cache_close_empty by blast
qed

lemma cache_lifecycle_no_leak_witness:
  "\<exists>c0 c1. cache_initialize demo_blk demo_set demo_cache ''L2'' 3 16 4 Random 1 20 = Some c0 \<and>
    dom (blks c0) = {..<12} \<and> cache_run 40 [(1, 7, Write, 16), (2, 9, Read, 80)] c0 = Some c1 \<and>
    cache_close c1 = Some Map.empty"
  using cache_lifecycle_no_leak [of 3 16 4 demo_blk demo_set demo_cache "''L2''" Random 1 20 40
    "[(1, 7, Write, 16), (2, 9, Read, 80)]"] by simp

end
