(* ===== verification/Perf_Config.thy ===== *)
theory Perf_Config
  imports TQ_Prelude Complex_Main
begin

text \<open>
  The configuration of the simulated core (\<open>config.h\<close>, \<open>config.c\<close>). The XML document is what
  libxml2 returns: a forest of nodes with their attributes; the parser itself is an argument of
  \<open>load_configfile\<close>. \<open>atoi\<close> and \<open>strncpy\<close> are written out; an absent attribute makes the code
  call \<open>atoi(NULL)\<close>, and a number that does not fit an \<open>int\<close> is undefined too: both are \<open>None\<close>.
  The one floating point attribute is read by \<open>atof\<close>, written out too; the rounding of the number to
  a \<open>double\<close> is the argument \<open>round64\<close>. An infinite or undefined width is no rational number and
  is outside the model, so that it is \<open>None\<close> as well.
\<close>

section \<open>Data\<close>

record sample_config =
  sample_length :: int
  default_period :: int
  initial_effective_dispatch_width :: rat

record core_config =
  frontend_width :: int
  backend_width :: int
  rob_size :: int
  iq_size :: int

record numfu_config =
  num_intalu :: int
  num_intmultdiv :: int
  num_mem_rwport :: int

record latency_config =
  lat_intalu :: int
  lat_branch :: int
  lat_intmult :: int
  lat_intdiv :: int
  lat_mem :: int
  lat_coproc :: int

record etc_config =
  syscall_penalty :: int

record cache_config =
  perfect :: int
  num_set :: int
  size_blk :: int
  c_assoc :: int
  replacement_policy :: string
  c_latency :: int

record memory_config =
  mem_latency :: int

record bpred_config =
  bimod_table_size :: int
  mispredict_penalty :: int

record perfmodel_config =
  sample :: sample_config
  core :: core_config
  numfu :: numfu_config
  latency :: latency_config
  etc :: etc_config
  dl1 :: cache_config
  il1 :: cache_config
  ul2 :: cache_config
  mem :: memory_config
  bpred :: bpred_config
  existDL1 :: int
  existIL1 :: int
  existUL2 :: int

datatype xml_node = XNode (is_element: bool) (xname: string) (xprops: "(string \<times> string) list") (xchildren: "xml_node list")

section \<open>The C library\<close>

definition c_isspace :: "char \<Rightarrow> bool" where
  "c_isspace c \<longleftrightarrow> of_char c = (32::nat) \<or> (9 \<le> (of_char c :: nat) \<and> of_char c \<le> (13::nat))"

definition c_isdigit :: "char \<Rightarrow> bool" where
  "c_isdigit c \<longleftrightarrow> 48 \<le> (of_char c :: nat) \<and> of_char c \<le> (57::nat)"

definition digits_val :: "string \<Rightarrow> int" where
  "digits_val ds = foldl (\<lambda>v c. 10 * v + (int (of_char c) - 48)) 0 ds"

definition leading_sign :: "string \<Rightarrow> int \<times> string" where
  "leading_sign t = (case t of [] \<Rightarrow> (1, t)
     | c # cs \<Rightarrow> if c = CHR ''-'' then (-1, cs) else if c = CHR ''+'' then (1, cs) else (1, t))"

definition split_sign :: "string \<Rightarrow> int \<times> string" where
  "split_sign s = leading_sign (dropWhile c_isspace s)"

definition c_atoi :: "string \<Rightarrow> int option" where
  "c_atoi s = (let (sg, t) = split_sign s; v = sg * digits_val (takeWhile c_isdigit t)
     in if - (2 ^ 31) \<le> v \<and> v < 2 ^ 31 then Some v else None)"

text \<open>
  \<open>atof\<close> is \<open>strtod\<close> without its end pointer. It reads a sign and then a decimal number with an
  optional fraction and an optional decimal exponent, or after \<open>0x\<close> a hexadecimal one with an
  optional binary exponent; text that starts with no number is 0. The result is \<open>None\<close> for the
  values that are no number: \<open>inf\<close>, \<open>nan\<close>, and what is too large for a \<open>double\<close>.
\<close>

definition c_tolower :: "char \<Rightarrow> char" where
  "c_tolower c = (if 65 \<le> (of_char c :: nat) \<and> of_char c \<le> (90::nat) then char_of (of_char c + 32 :: nat) else c)"

definition c_isxdigit :: "char \<Rightarrow> bool" where
  "c_isxdigit c \<longleftrightarrow> c_isdigit c \<or> (97 \<le> (of_char (c_tolower c) :: nat) \<and> of_char (c_tolower c) \<le> (102::nat))"

definition xdigits_val :: "string \<Rightarrow> int" where
  "xdigits_val ds = foldl (\<lambda>v c. 16 * v + (if c_isdigit c then int (of_char c) - 48 else int (of_char (c_tolower c)) - 87)) 0 ds"

text \<open>The digits after a point, and the number after the exponent letter \<open>e\<close>.\<close>

definition fraction_part :: "(char \<Rightarrow> bool) \<Rightarrow> string \<Rightarrow> string \<times> string" where
  "fraction_part digit t = (case t of [] \<Rightarrow> ([], t)
     | c # cs \<Rightarrow> if c = CHR ''.'' then (takeWhile digit cs, dropWhile digit cs) else ([], t))"

definition exponent_part :: "char \<Rightarrow> string \<Rightarrow> int" where
  "exponent_part e t = (case t of [] \<Rightarrow> 0
     | c # cs \<Rightarrow> if c_tolower c = e then (let (sg, ds) = leading_sign cs in sg * digits_val (takeWhile c_isdigit ds)) else 0)"

definition scale :: "rat \<Rightarrow> int \<Rightarrow> rat" where
  "scale b k = (if 0 \<le> k then b ^ nat k else 1 / b ^ nat (- k))"

definition decimal_val :: "string \<Rightarrow> rat" where
  "decimal_val t = (let ds = takeWhile c_isdigit t; (fs, rest) = fraction_part c_isdigit (dropWhile c_isdigit t)
     in (of_int (digits_val ds) + of_int (digits_val fs) / 10 ^ length fs) * scale 10 (exponent_part (CHR ''e'') rest))"

definition hexadecimal_val :: "string \<Rightarrow> rat" where
  "hexadecimal_val t = (let ds = takeWhile c_isxdigit t; (fs, rest) = fraction_part c_isxdigit (dropWhile c_isxdigit t)
     in (of_int (xdigits_val ds) + of_int (xdigits_val fs) / 16 ^ length fs) * scale 2 (exponent_part (CHR ''p'') rest))"

definition fits_double :: "rat \<Rightarrow> bool" where
  "fits_double v \<longleftrightarrow> \<bar>v\<bar> < 2 ^ 1024 - 2 ^ 970"

definition c_atof :: "(rat \<Rightarrow> rat) \<Rightarrow> string \<Rightarrow> rat option" where
  "c_atof round64 s = (let (sg, t) = split_sign s; l = map c_tolower (take 3 t);
       v = of_int sg * (if take 2 l = ''0x'' then hexadecimal_val (drop 2 t) else decimal_val t)
     in if l = ''inf'' \<or> l = ''nan'' \<or> \<not> fits_double v then None else Some (round64 v))"

lemma c_atof_examples:
  "c_atof id ''1e3'' = Some 1000" "c_atof id '' -2.5E-1x'' = Some (- 1 / 4)" "c_atof id ''0x1.8p1'' = Some 3"
  "c_atof id ''wide'' = Some 0" "c_atof id ''-Infinity'' = None" "c_atof id ''NaN'' = None"
  by (simp_all add: c_atof_def split_sign_def leading_sign_def c_isspace_def c_tolower_def decimal_val_def hexadecimal_val_def
    c_isdigit_def c_isxdigit_def fraction_part_def exponent_part_def digits_val_def xdigits_val_def scale_def fits_double_def Let_def)
    code_simp+

definition c_strncpy8 :: "string \<Rightarrow> string" where
  "c_strncpy8 s = take 8 (takeWhile (\<lambda>c. c \<noteq> CHR 0x00) s @ replicate 8 (CHR 0x00))"

section \<open>Reading the document\<close>

definition get_int :: "(string \<times> string) list \<Rightarrow> string \<Rightarrow> int option" where
  "get_int ps a = do { s \<leftarrow> map_of ps a; c_atoi s }"

definition load_sample :: "(rat \<Rightarrow> rat) \<Rightarrow> (string \<times> string) list \<Rightarrow> perfmodel_config \<Rightarrow> perfmodel_config option" where
  "load_sample round64 ps pm = do {
     l \<leftarrow> get_int ps ''length'';
     p \<leftarrow> get_int ps ''default_period'';
     s \<leftarrow> map_of ps ''initial_effective_dispatch_width'';
     w \<leftarrow> c_atof round64 s;
     Some (pm\<lparr>sample := \<lparr>sample_length = l, default_period = p,
       initial_effective_dispatch_width = w\<rparr>\<rparr>) }"

definition load_core :: "(string \<times> string) list \<Rightarrow> perfmodel_config \<Rightarrow> perfmodel_config option" where
  "load_core ps pm = do {
     f \<leftarrow> get_int ps ''frontend_width'';
     b \<leftarrow> get_int ps ''backend_width'';
     r \<leftarrow> get_int ps ''rob_size'';
     i \<leftarrow> get_int ps ''iq_size'';
     Some (pm\<lparr>core := \<lparr>frontend_width = f, backend_width = b, rob_size = r, iq_size = i\<rparr>\<rparr>) }"

definition load_numfu :: "(string \<times> string) list \<Rightarrow> perfmodel_config \<Rightarrow> perfmodel_config option" where
  "load_numfu ps pm = do {
     a \<leftarrow> get_int ps ''intalu'';
     m \<leftarrow> get_int ps ''intmultdiv'';
     p \<leftarrow> get_int ps ''mem_rwport'';
     Some (pm\<lparr>numfu := \<lparr>num_intalu = a, num_intmultdiv = m, num_mem_rwport = p\<rparr>\<rparr>) }"

definition load_latency :: "(string \<times> string) list \<Rightarrow> perfmodel_config \<Rightarrow> perfmodel_config option" where
  "load_latency ps pm = do {
     a \<leftarrow> get_int ps ''intalu'';
     b \<leftarrow> get_int ps ''branch'';
     m \<leftarrow> get_int ps ''intmult'';
     d \<leftarrow> get_int ps ''intdiv'';
     l \<leftarrow> get_int ps ''mem'';
     c \<leftarrow> get_int ps ''coproc'';
     Some (pm\<lparr>latency := \<lparr>lat_intalu = a, lat_branch = b, lat_intmult = m, lat_intdiv = d,
       lat_mem = l, lat_coproc = c\<rparr>\<rparr>) }"

definition load_etc :: "(string \<times> string) list \<Rightarrow> perfmodel_config \<Rightarrow> perfmodel_config option" where
  "load_etc ps pm = do { s \<leftarrow> get_int ps ''syscall_penalty''; Some (pm\<lparr>etc := \<lparr>syscall_penalty = s\<rparr>\<rparr>) }"

definition load_cache :: "(string \<times> string) list \<Rightarrow> cache_config option" where
  "load_cache ps = do {
     p \<leftarrow> get_int ps ''perfect'';
     n \<leftarrow> get_int ps ''num_set'';
     b \<leftarrow> get_int ps ''size_blk'';
     a \<leftarrow> get_int ps ''assoc'';
     l \<leftarrow> get_int ps ''latency'';
     r \<leftarrow> map_of ps ''replacement_policy'';
     Some \<lparr>perfect = p, num_set = n, size_blk = b, c_assoc = a, replacement_policy = c_strncpy8 r, c_latency = l\<rparr> }"

definition load_dl1 :: "(string \<times> string) list \<Rightarrow> perfmodel_config \<Rightarrow> perfmodel_config option" where
  "load_dl1 ps pm = do { c \<leftarrow> load_cache ps; Some (pm\<lparr>existDL1 := 1, dl1 := c\<rparr>) }"

definition load_il1 :: "(string \<times> string) list \<Rightarrow> perfmodel_config \<Rightarrow> perfmodel_config option" where
  "load_il1 ps pm = do { c \<leftarrow> load_cache ps; Some (pm\<lparr>existIL1 := 1, il1 := c\<rparr>) }"

definition load_ul2 :: "(string \<times> string) list \<Rightarrow> perfmodel_config \<Rightarrow> perfmodel_config option" where
  "load_ul2 ps pm = do { c \<leftarrow> load_cache ps; Some (pm\<lparr>existUL2 := 1, ul2 := c\<rparr>) }"

definition load_memory :: "(string \<times> string) list \<Rightarrow> perfmodel_config \<Rightarrow> perfmodel_config option" where
  "load_memory ps pm = do { l \<leftarrow> get_int ps ''latency''; Some (pm\<lparr>mem := \<lparr>mem_latency = l\<rparr>\<rparr>) }"

definition load_bpred :: "(string \<times> string) list \<Rightarrow> perfmodel_config \<Rightarrow> perfmodel_config option" where
  "load_bpred ps pm = do {
     t \<leftarrow> get_int ps ''bimod_table_size'';
     p \<leftarrow> get_int ps ''mispredict_penalty'';
     Some (pm\<lparr>bpred := \<lparr>bimod_table_size = t, mispredict_penalty = p\<rparr>\<rparr>) }"

definition load_element ::
    "(rat \<Rightarrow> rat) \<Rightarrow> string \<Rightarrow> (string \<times> string) list \<Rightarrow> perfmodel_config \<Rightarrow> perfmodel_config option" where
  "load_element round64 nm ps pm =
     (if nm = ''sample'' then load_sample round64 ps pm
      else if nm = ''core'' then load_core ps pm
      else if nm = ''numfu'' then load_numfu ps pm
      else if nm = ''latency'' then load_latency ps pm
      else if nm = ''etc'' then load_etc ps pm
      else if nm = ''dl1_cache'' then load_dl1 ps pm
      else if nm = ''il1_cache'' then load_il1 ps pm
      else if nm = ''ul2_cache'' then load_ul2 ps pm
      else if nm = ''memory'' then load_memory ps pm
      else if nm = ''bpred'' then load_bpred ps pm
      else Some pm)"

fun print_element_names :: "(rat \<Rightarrow> rat) \<Rightarrow> xml_node list \<Rightarrow> perfmodel_config \<Rightarrow> perfmodel_config option" where
  "print_element_names round64 [] pm = Some pm"
| "print_element_names round64 (XNode el nm ps children # next) pm = do {
     pm \<leftarrow> (if el then load_element round64 nm ps pm else Some pm);
     pm \<leftarrow> print_element_names round64 children pm;
     print_element_names round64 next pm }"

definition perfmodel_init :: "perfmodel_config \<Rightarrow> perfmodel_config" where
  "perfmodel_init pm = pm\<lparr>existDL1 := 0, existIL1 := 0, existUL2 := 0\<rparr>"

text \<open>\<open>xmlReadFile\<close> is the argument \<open>parse\<close>; the first component of the result is the return value.\<close>

definition load_configfile ::
    "(rat \<Rightarrow> rat) \<Rightarrow> (string \<Rightarrow> xml_node option) \<Rightarrow> string \<Rightarrow> perfmodel_config \<Rightarrow> (int \<times> perfmodel_config) option" where
  "load_configfile round64 parse filename pm =
     (let pm = perfmodel_init pm in
      case parse filename of
        None \<Rightarrow> Some (- 1, pm)
      | Some doc_root \<Rightarrow> do { pm \<leftarrow> print_element_names round64 [doc_root] pm; Some (0, pm) })"

section \<open>Writing a configuration\<close>

text \<open>The reference direction: a document for a configuration, with numbers in decimal.\<close>

fun show_nat :: "nat \<Rightarrow> string" where
  "show_nat n = (if n < 10 then [char_of (48 + n)] else show_nat (n div 10) @ [char_of (48 + n mod 10)])"

declare show_nat.simps [simp del]

definition show_int :: "int \<Rightarrow> string" where
  "show_int v = (if v < 0 then CHR ''-'' # show_nat (nat (- v)) else show_nat (nat v))"

text \<open>
  A \<open>double\<close> is an integer divided by a power of two, so it has a finite decimal expansion: the
  numerator times a power of five, and the exponent.
\<close>

fun exponent_of :: "nat \<Rightarrow> nat" where
  "exponent_of d = (if d \<le> 1 then 0 else Suc (exponent_of (d div 2)))"

declare exponent_of.simps [simp del]

definition show_double :: "rat \<Rightarrow> string" where
  "show_double v = (let (n, d) = quotient_of v; k = exponent_of (nat d) in show_int (n * 5 ^ k) @ ''e-'' @ show_nat k)"

definition is_double :: "(rat \<Rightarrow> rat) \<Rightarrow> rat \<Rightarrow> bool" where
  "is_double round64 v \<longleftrightarrow> round64 v = v \<and> fits_double v \<and> snd (quotient_of v) = 2 ^ exponent_of (nat (snd (quotient_of v)))"

definition fits_int :: "int \<Rightarrow> bool" where
  "fits_int v \<longleftrightarrow> - (2 ^ 31) \<le> v \<and> v < 2 ^ 31"

lemma digit_char: "d < 10 \<Longrightarrow> c_isdigit (char_of (48 + d)) \<and> of_char (char_of (48 + d) :: char) = 48 + d" for d :: nat
  by (simp add: c_isdigit_def)

lemma digits_val_snoc: "digits_val (ds @ [c]) = 10 * digits_val ds + (int (of_char c) - 48)"
  by (simp add: digits_val_def)

lemma show_nat_digits: "list_all c_isdigit (show_nat n) \<and> digits_val (show_nat n) = int n \<and> show_nat n \<noteq> []"
proof (induction n rule: show_nat.induct)
  case (1 n)
  show ?case
  proof (cases "n < 10")
    case True
    then show ?thesis using digit_char [of n] by (simp add: show_nat.simps [of n] digits_val_def)
  next
    case False
    then have "show_nat n = show_nat (n div 10) @ [char_of (48 + n mod 10)]"
      by (simp add: show_nat.simps [of n])
    moreover have "list_all c_isdigit (show_nat (n div 10))" "digits_val (show_nat (n div 10)) = int (n div 10)"
      using 1 False by auto
    moreover have "10 * int (n div 10) + int (n mod 10) = int n" by presburger
    ultimately show ?thesis using digit_char [of "n mod 10"] by (simp add: digits_val_snoc)
  qed
qed

lemma digit_not_sign: "c_isdigit c \<Longrightarrow> \<not> c_isspace c \<and> c \<noteq> CHR ''-'' \<and> c \<noteq> CHR ''+''"
  by (auto simp: c_isdigit_def c_isspace_def)

lemma split_sign_digits:
  assumes "list_all c_isdigit ds" "ds \<noteq> []"
  shows "split_sign (ds @ t) = (1, ds @ t)" "split_sign (CHR ''-'' # ds @ t) = (-1, ds @ t)"
  using assms by (cases ds; auto simp: split_sign_def leading_sign_def c_isspace_def dest: digit_not_sign)+

lemma c_atoi_show_int: "fits_int v \<Longrightarrow> c_atoi (show_int v) = Some v"
proof -
  assume v: "fits_int v"
  have tw: "takeWhile c_isdigit (show_nat n) = show_nat n" for n
    using show_nat_digits [of n] by (simp add: takeWhile_eq_all_conv list_all_iff)
  show ?thesis using v show_nat_digits split_sign_digits [where t = "[]"]
    by (auto simp: c_atoi_def show_int_def fits_int_def tw Let_def)
qed

lemma digits_then:
  assumes "list_all c_isdigit ds" "\<not> c_isdigit c"
  shows "takeWhile c_isdigit (ds @ c # t) = ds" "dropWhile c_isdigit (ds @ c # t) = c # t"
  using assms by (induction ds) auto

lemma decimal_val_digits:
  assumes "list_all c_isdigit ds"
  shows "decimal_val (ds @ ''e-'' @ show_nat k) = of_int (digits_val ds) / 10 ^ k"
proof -
  have n: "takeWhile c_isdigit (show_nat k) = show_nat k" "digits_val (show_nat k) = int k" "digits_val [] = 0"
    using show_nat_digits [of k] by (auto simp: takeWhile_eq_all_conv list_all_iff) (simp add: digits_val_def)
  have e: "\<not> c_isdigit (CHR ''e'')" "c_tolower (CHR ''e'') = CHR ''e''" by (simp_all add: c_isdigit_def c_tolower_def)
  have "exponent_part (CHR ''e'') (''e-'' @ show_nat k) = - int k" by (simp add: exponent_part_def leading_sign_def n e)
  moreover have "scale 10 (- int k) = 1 / 10 ^ k" by (simp add: scale_def)
  ultimately show ?thesis using e digits_then [OF assms, of "CHR ''e''" "CHR ''-'' # show_nat k"]
    by (simp add: decimal_val_def fraction_part_def n(3))
qed

lemma tolower_digit: "c_isdigit c \<Longrightarrow> c_tolower c = c"
  by (simp add: c_isdigit_def c_tolower_def)

lemma digits_no_word:
  assumes "list_all c_isdigit ds" "ds \<noteq> []"
  shows "map c_tolower (take 3 (ds @ CHR ''e'' # t)) \<notin> {''inf'', ''nan''}"
    "take 2 (map c_tolower (take 3 (ds @ CHR ''e'' # t))) \<noteq> ''0x''"
proof -
  have x: "\<not> c_isdigit (CHR ''i'')" "\<not> c_isdigit (CHR ''n'')" "\<not> c_isdigit (CHR ''x'')" "c_tolower (CHR ''e'') = CHR ''e''"
    by (simp_all add: c_isdigit_def c_tolower_def)
  obtain c cs where ds: "ds = c # cs" using assms(2) by (cases ds) auto
  show "map c_tolower (take 3 (ds @ CHR ''e'' # t)) \<notin> {''inf'', ''nan''}"
    using assms(1) x by (auto simp: ds tolower_digit numeral_3_eq_3)
  show "take 2 (map c_tolower (take 3 (ds @ CHR ''e'' # t))) \<noteq> ''0x''"
    using assms(1) x by (cases cs) (auto simp: ds tolower_digit numeral_3_eq_3 numeral_2_eq_2)
qed

lemma c_atof_decimal:
  fixes v :: int
  assumes "fits_double (of_int v / 10 ^ k)"
  shows "c_atof round64 (show_int v @ ''e-'' @ show_nat k) = Some (round64 (of_int v / 10 ^ k))"
proof -
  define ds where "ds = show_nat (nat \<bar>v\<bar>)"
  have d: "list_all c_isdigit ds" "ds \<noteq> []" "digits_val ds = \<bar>v\<bar>" using show_nat_digits [of "nat \<bar>v\<bar>"] by (simp_all add: ds_def)
  have "split_sign (show_int v @ ''e-'' @ show_nat k) = (if v < 0 then -1 else 1, ds @ ''e-'' @ show_nat k)"
    using split_sign_digits [OF d(1,2), of "''e-'' @ show_nat k"] by (auto simp: show_int_def ds_def)
  then show ?thesis using assms decimal_val_digits [OF d(1), of k] digits_no_word [OF d(1,2), of "CHR ''-'' # show_nat k"]
    by (simp add: c_atof_def Let_def d(3))
qed

lemma c_atof_show_double: "is_double round64 v \<Longrightarrow> c_atof round64 (show_double v) = Some v"
proof -
  assume v: "is_double round64 v"
  obtain n d where q: "quotient_of v = (n, d)" by fastforce
  define k where "k = exponent_of (nat d)"
  have "v = of_int n / of_int d" by (rule quotient_of_div [OF q])
  moreover have "d = 2 ^ k" using v by (simp add: is_double_def q k_def)
  moreover have "(10 :: rat) ^ k = 5 ^ k * 2 ^ k" by (simp flip: power_mult_distrib)
  ultimately have e: "of_int (n * 5 ^ k) / 10 ^ k = v" by simp
  have "show_double v = show_int (n * 5 ^ k) @ ''e-'' @ show_nat k" by (simp add: show_double_def q k_def Let_def)
  then show ?thesis using v c_atof_decimal [of "n * 5 ^ k" k round64] unfolding e by (simp add: is_double_def)
qed

definition cache_attrs :: "cache_config \<Rightarrow> (string \<times> string) list" where
  "cache_attrs c = [(''perfect'', show_int (perfect c)), (''num_set'', show_int (num_set c)),
     (''size_blk'', show_int (size_blk c)), (''assoc'', show_int (c_assoc c)),
     (''latency'', show_int (c_latency c)),
     (''replacement_policy'', takeWhile (\<lambda>c. c \<noteq> CHR 0x00) (replacement_policy c))]"

definition config_document :: "perfmodel_config \<Rightarrow> xml_node" where
  "config_document pm = XNode True ''perfmodel'' [] [
     XNode True ''sample'' [(''length'', show_int (sample_length (sample pm))),
       (''default_period'', show_int (default_period (sample pm))), (''initial_effective_dispatch_width'', show_double (initial_effective_dispatch_width (sample pm)))] [],
     XNode True ''core'' [(''frontend_width'', show_int (frontend_width (core pm))),
       (''backend_width'', show_int (backend_width (core pm))), (''rob_size'', show_int (rob_size (core pm))),
       (''iq_size'', show_int (iq_size (core pm)))] [],
     XNode True ''numfu'' [(''intalu'', show_int (num_intalu (numfu pm))),
       (''intmultdiv'', show_int (num_intmultdiv (numfu pm))), (''mem_rwport'', show_int (num_mem_rwport (numfu pm)))] [],
     XNode True ''latency'' [(''intalu'', show_int (lat_intalu (latency pm))), (''branch'', show_int (lat_branch (latency pm))),
       (''intmult'', show_int (lat_intmult (latency pm))), (''intdiv'', show_int (lat_intdiv (latency pm))),
       (''mem'', show_int (lat_mem (latency pm))), (''coproc'', show_int (lat_coproc (latency pm)))] [],
     XNode True ''etc'' [(''syscall_penalty'', show_int (syscall_penalty (etc pm)))] [],
     XNode True ''dl1_cache'' (cache_attrs (dl1 pm)) [],
     XNode True ''il1_cache'' (cache_attrs (il1 pm)) [],
     XNode True ''ul2_cache'' (cache_attrs (ul2 pm)) [],
     XNode True ''memory'' [(''latency'', show_int (mem_latency (mem pm)))] [],
     XNode True ''bpred'' [(''bimod_table_size'', show_int (bimod_table_size (bpred pm))),
       (''mispredict_penalty'', show_int (mispredict_penalty (bpred pm)))] []]"

definition cache_fits :: "cache_config \<Rightarrow> bool" where
  "cache_fits c \<longleftrightarrow> list_all fits_int [perfect c, num_set c, size_blk c, c_assoc c, c_latency c] \<and>
     c_strncpy8 (replacement_policy c) = replacement_policy c"

definition config_fits :: "(rat \<Rightarrow> rat) \<Rightarrow> perfmodel_config \<Rightarrow> bool" where
  "config_fits round64 pm \<longleftrightarrow> is_double round64 (initial_effective_dispatch_width (sample pm)) \<and> list_all fits_int [sample_length (sample pm), default_period (sample pm),
     frontend_width (core pm), backend_width (core pm), rob_size (core pm), iq_size (core pm),
     num_intalu (numfu pm), num_intmultdiv (numfu pm), num_mem_rwport (numfu pm),
     lat_intalu (latency pm), lat_branch (latency pm), lat_intmult (latency pm), lat_intdiv (latency pm),
     lat_mem (latency pm), lat_coproc (latency pm), syscall_penalty (etc pm), mem_latency (mem pm),
     bimod_table_size (bpred pm), mispredict_penalty (bpred pm)] \<and>
     cache_fits (dl1 pm) \<and> cache_fits (il1 pm) \<and> cache_fits (ul2 pm)"

lemma load_cache_attrs:
  assumes "cache_fits c"
  shows "load_cache (cache_attrs c) = Some c"
proof -
  have "c_strncpy8 (takeWhile (\<lambda>c. c \<noteq> CHR 0x00) (replacement_policy c)) = replacement_policy c"
    using assms by (simp add: cache_fits_def c_strncpy8_def)
  then show ?thesis using assms
    by (simp add: load_cache_def cache_attrs_def get_int_def cache_fits_def c_atoi_show_int)
qed

section \<open>Properties\<close>

text \<open>
  C28: A configuration file sets every parameter from the attribute it is named after. Take any
  configuration whose integers fit an \<open>int\<close>, whose policy names fill their eight bytes as
  \<open>strncpy\<close> does, and whose dispatch width is a finite \<open>double\<close>. Loading the document that states
  its values, the width written as a decimal number with an exponent, gives back that
  configuration with the three caches present, whatever the parameters were before.
\<close>

theorem load_configfile_roundtrip:
  assumes "config_fits round64 pm" "parse file = Some (config_document pm)"
  shows "load_configfile round64 parse file pm0 = Some (0, pm\<lparr>existDL1 := 1, existIL1 := 1, existUL2 := 1\<rparr>)"
  using assms
  by (simp add: load_configfile_def config_document_def load_element_def load_sample_def load_core_def
      load_numfu_def load_latency_def load_etc_def load_dl1_def load_il1_def load_ul2_def load_memory_def
      load_bpred_def get_int_def config_fits_def c_atoi_show_int c_atof_show_double load_cache_attrs perfmodel_init_def)

definition demo_cache_config :: cache_config where
  "demo_cache_config = \<lparr>perfect = 0, num_set = 256, size_blk = 64, c_assoc = 2,
     replacement_policy = ''LRU'' @ replicate 5 (CHR 0x00), c_latency = 3\<rparr>"

definition demo_config :: perfmodel_config where
  "demo_config = \<lparr>sample = \<lparr>sample_length = 1000, default_period = 50, initial_effective_dispatch_width = 5 / 2\<rparr>,
     core = \<lparr>frontend_width = 3, backend_width = 6, rob_size = 40, iq_size = 32\<rparr>,
     numfu = \<lparr>num_intalu = 2, num_intmultdiv = 1, num_mem_rwport = 1\<rparr>,
     latency = \<lparr>lat_intalu = 1, lat_branch = 1, lat_intmult = 4, lat_intdiv = 12, lat_mem = 2, lat_coproc = 3\<rparr>,
     etc = \<lparr>syscall_penalty = -5\<rparr>, dl1 = demo_cache_config, il1 = demo_cache_config,
     ul2 = demo_cache_config, mem = \<lparr>mem_latency = 100\<rparr>,
     bpred = \<lparr>bimod_table_size = 4096, mispredict_penalty = 14\<rparr>, existDL1 = 7, existIL1 = 7, existUL2 = 7\<rparr>"

lemma demo_config_fits: "config_fits id demo_config"
proof -
  have "quotient_of (5 / 2) = (5, 2)" "exponent_of 2 = 1" by code_simp+
  then show ?thesis
    by (simp add: config_fits_def demo_config_def cache_fits_def demo_cache_config_def fits_int_def c_strncpy8_def is_double_def fits_double_def)
qed

lemma load_configfile_roundtrip_witness:
  "load_configfile id (\<lambda>_. Some (config_document demo_config)) ''core.xml'' demo_config
    = Some (0, demo_config\<lparr>existDL1 := 1, existIL1 := 1, existUL2 := 1\<rparr>)"
  by (rule load_configfile_roundtrip [OF demo_config_fits]) simp

text \<open>The elements of a forest, in the order the code visits them.\<close>

fun xml_elements :: "xml_node list \<Rightarrow> (string \<times> (string \<times> string) list) list" where
  "xml_elements [] = []"
| "xml_elements (XNode el nm ps ch # rest) = (if el then [(nm, ps)] else []) @ xml_elements ch @ xml_elements rest"

lemma print_element_names_fold:
  "print_element_names r ns pm = ofold (\<lambda>(nm, ps). load_element r nm ps) (xml_elements ns) pm"
  by (induction r ns pm rule: print_element_names.induct)
     (auto simp: ofold_append bind_assoc cong: option.case_cong intro!: Option.bind_cong)

lemmas load_defs = load_sample_def load_core_def load_numfu_def load_latency_def load_etc_def
  load_dl1_def load_il1_def load_ul2_def load_memory_def load_bpred_def

lemma load_element_caches:
  assumes "load_element r nm ps pm = Some pm'"
  shows "existDL1 pm' = (if nm = ''dl1_cache'' then 1 else existDL1 pm)"
    "existIL1 pm' = (if nm = ''il1_cache'' then 1 else existIL1 pm)"
    "existUL2 pm' = (if nm = ''ul2_cache'' then 1 else existUL2 pm)"
    "nm \<noteq> ''dl1_cache'' \<Longrightarrow> dl1 pm' = dl1 pm" "nm \<noteq> ''il1_cache'' \<Longrightarrow> il1 pm' = il1 pm"
    "nm \<noteq> ''ul2_cache'' \<Longrightarrow> ul2 pm' = ul2 pm" "nm \<noteq> ''core'' \<Longrightarrow> core pm' = core pm"
  using assms by (auto simp: load_element_def load_defs bind_eq_Some_conv split: if_splits)

definition has_element :: "string \<Rightarrow> xml_node \<Rightarrow> bool" where
  "has_element nm doc \<longleftrightarrow> (\<exists>e\<in>set (xml_elements [doc]). fst e = nm)"

text \<open>
  C29: After a successful load, each cache is marked present exactly when the document has its
  element, at any depth; without an element for the data
  cache or the core their parameters stay as they were.
\<close>

theorem load_configfile_presence:
  assumes "parse file = Some doc" "load_configfile round64 parse file pm0 = Some (0, pm)"
  shows "existDL1 pm = of_bool (has_element ''dl1_cache'' doc) \<and>
    existIL1 pm = of_bool (has_element ''il1_cache'' doc) \<and>
    existUL2 pm = of_bool (has_element ''ul2_cache'' doc) \<and>
    (\<not> has_element ''dl1_cache'' doc \<longrightarrow> dl1 pm = dl1 pm0) \<and>
    (\<not> has_element ''core'' doc \<longrightarrow> core pm = core pm0)"
proof -
  let ?f = "\<lambda>(nm, ps). load_element round64 nm ps"
  have *: "ofold ?f (xml_elements [doc]) (perfmodel_init pm0) = Some pm"
    using assms by (auto simp: load_configfile_def print_element_names_fold bind_eq_Some_conv)
  note flag = ofold_flag [OF *]
  have "existDL1 pm = (if has_element ''dl1_cache'' doc then 1 else existDL1 (perfmodel_init pm0))"
    unfolding has_element_def by (rule flag) (auto dest: load_element_caches)
  moreover have "existIL1 pm = (if has_element ''il1_cache'' doc then 1 else existIL1 (perfmodel_init pm0))"
    unfolding has_element_def by (rule flag) (auto dest: load_element_caches)
  moreover have "existUL2 pm = (if has_element ''ul2_cache'' doc then 1 else existUL2 (perfmodel_init pm0))"
    unfolding has_element_def by (rule flag) (auto dest: load_element_caches)
  moreover have "dl1 pm = dl1 pm0" if "\<not> has_element ''dl1_cache'' doc"
    using that ofold_invariant [OF *, of "\<lambda>p. dl1 p = dl1 pm0"] load_element_caches(4)
    by (fastforce simp: has_element_def perfmodel_init_def)
  moreover have "core pm = core pm0" if "\<not> has_element ''core'' doc"
    using that ofold_invariant [OF *, of "\<lambda>p. core p = core pm0"] load_element_caches(7)
    by (fastforce simp: has_element_def perfmodel_init_def)
  ultimately show ?thesis by (simp add: perfmodel_init_def)
qed

lemma load_configfile_presence_witness:
  "\<exists>pm. load_configfile id (\<lambda>_. Some (config_document demo_config)) ''core.xml'' demo_config = Some (0, pm) \<and>
     existDL1 pm = 1"
proof -
  obtain pm where pm: "load_configfile id (\<lambda>_. Some (config_document demo_config)) ''core.xml'' demo_config = Some (0, pm)"
    using demo_config_fits by (auto simp: load_configfile_def config_document_def load_element_def load_defs get_int_def config_fits_def
      c_atoi_show_int c_atof_show_double load_cache_attrs perfmodel_init_def)
  have "has_element ''dl1_cache'' (config_document demo_config)"
    by (simp add: has_element_def config_document_def)
  then show ?thesis
    using load_configfile_presence [OF _ pm] pm by simp
qed

end
