(* ===== verification/Cachesim_Types.thy ===== *)
theory Cachesim_Types
  imports Main
begin

text \<open>The kinds of cache miss (\<open>cachesim.h\<close>), which the cache hierarchy reports and the trace records.\<close>

datatype CacheMissType = L1Hit | L1Miss | L2Miss

text \<open>The numeric order of the enumeration.\<close>

fun miss_rank :: "CacheMissType \<Rightarrow> nat" where
  "miss_rank L1Hit = 0"
| "miss_rank L1Miss = 1"
| "miss_rank L2Miss = 2"

end
