(* ===== verification/Cachesim.thy ===== *)
theory Cachesim
  imports Cache Perf_Config Cachesim_Types
begin

text \<open>
  The cache hierarchy of \<open>cachesim.c\<close>: optional first-level instruction and data caches and an
  optional unified second level. The three globals are one state record; \<open>hsim\<close> is the build option
  \<open>CONFIG_HSIM\<close>, under which the second level is not simulated. \<open>miss_type\<close> is not initialised when
  the first-level cache is absent: its value then is the argument \<open>g\<close>.
\<close>

section \<open>State and operations\<close>

record cachesim_state =
  il1_cache :: "Cache_t option"
  dl1_cache :: "Cache_t option"
  ul2_cache :: "Cache_t option"
  fetchBufferMask :: u32

definition fetchBufferSize :: u32 where
  "fetchBufferSize = 64"

text \<open>\<open>raw\<close>, \<open>rawset\<close> and \<open>cm\<close> are the contents of fresh memory.\<close>

definition cachesim_initialize ::
    "Cache_blk_t \<Rightarrow> Cache_set_t \<Rightarrow> Cache_t \<Rightarrow> perfmodel_config \<Rightarrow> cachesim_state option" where
  "cachesim_initialize raw rawset cm pm = do {
     i \<leftarrow> (if existIL1 pm \<noteq> 0 then map_option Some (cache_initialize raw rawset cm ''il1''
          (num_set (il1 pm)) (size_blk (il1 pm)) (c_assoc (il1 pm)) LRU (word_of_int (c_latency (il1 pm)))
          (word_of_int (if existUL2 pm \<noteq> 0 then c_latency (ul2 pm) + c_latency (il1 pm) * 2
             else mem_latency (mem pm) + c_latency (il1 pm) * 2))) else Some None);
     d \<leftarrow> (if existDL1 pm \<noteq> 0 then map_option Some (cache_initialize raw rawset cm ''dl1''
          (num_set (dl1 pm)) (size_blk (dl1 pm)) (c_assoc (dl1 pm)) LRU (word_of_int (c_latency (dl1 pm)))
          (word_of_int (if existUL2 pm \<noteq> 0 then c_latency (ul2 pm) + c_latency (dl1 pm) * 2
             else mem_latency (mem pm) + c_latency (dl1 pm) * 2))) else Some None);
     u \<leftarrow> (if existUL2 pm \<noteq> 0 then map_option Some (cache_initialize raw rawset cm ''ul2''
          (num_set (ul2 pm)) (size_blk (ul2 pm)) (c_assoc (ul2 pm)) LRU (word_of_int (c_latency (ul2 pm)))
          (word_of_int (mem_latency (mem pm) + c_latency (ul2 pm) * 2))) else Some None);
     Some \<lparr>il1_cache = i, dl1_cache = d, ul2_cache = u, fetchBufferMask = fetchBufferSize - 1\<rparr> }"

definition fetchbufferalignpc :: "cachesim_state \<Rightarrow> u32 \<Rightarrow> u32" where
  "fetchbufferalignpc s a = a AND NOT (fetchBufferMask s)"

text \<open>The second-level part, the same code in both access functions.\<close>

definition ul2_lookup ::
    "bool \<Rightarrow> int \<Rightarrow> int \<Rightarrow> u64 \<Rightarrow> CacheAccessType \<Rightarrow> u32 \<Rightarrow> CacheMissType \<Rightarrow> cachesim_state
     \<Rightarrow> (CacheMissType \<times> cachesim_state) option" where
  "ul2_lookup hsim rob rnd cur_cycle ty a miss_type s =
     (if hsim then Some (miss_type, s) else
      case ul2_cache s of
        None \<Rightarrow> Some (miss_type, s)
      | Some c \<Rightarrow> if miss_type = L1Miss then do {
            (hit, c) \<leftarrow> cache_access rob rnd cur_cycle c ty a;
            Some (if hit then miss_type else L2Miss, s\<lparr>ul2_cache := Some c\<rparr>) }
          else Some (miss_type, s))"

definition cachesim_iaccess ::
    "bool \<Rightarrow> perfmodel_config \<Rightarrow> CacheMissType \<Rightarrow> int \<Rightarrow> u64 \<Rightarrow> u32 \<Rightarrow> cachesim_state
     \<Rightarrow> (CacheMissType \<times> cachesim_state) option" where
  "cachesim_iaccess hsim pm g rnd cur_cycle a s = do {
     let eaddr = fetchbufferalignpc s a;
     (miss_type, s) \<leftarrow> (case il1_cache s of
         None \<Rightarrow> Some (g, s)
       | Some c \<Rightarrow> do {
           (hit, c) \<leftarrow> cache_access (rob_size (core pm)) rnd cur_cycle c Read eaddr;
           Some (if hit then L1Hit else L1Miss, s\<lparr>il1_cache := Some c\<rparr>) });
     ul2_lookup hsim (rob_size (core pm)) rnd cur_cycle Read eaddr miss_type s }"

definition cachesim_daccess ::
    "bool \<Rightarrow> perfmodel_config \<Rightarrow> CacheMissType \<Rightarrow> int \<Rightarrow> u64 \<Rightarrow> u32 \<Rightarrow> bool \<Rightarrow> cachesim_state
     \<Rightarrow> (CacheMissType \<times> cachesim_state) option" where
  "cachesim_daccess hsim pm g rnd cur_cycle a is_write s = do {
     let ty = (if is_write then Write else Read);
     (miss_type, s) \<leftarrow> (case dl1_cache s of
         None \<Rightarrow> Some (g, s)
       | Some c \<Rightarrow> do {
           (hit, c) \<leftarrow> cache_access (rob_size (core pm)) rnd cur_cycle c ty a;
           Some (if hit then L1Hit else L1Miss, s\<lparr>dl1_cache := Some c\<rparr>) });
     ul2_lookup hsim (rob_size (core pm)) rnd cur_cycle ty a miss_type s }"

definition cachesim_il1_num_miss :: "cachesim_state \<Rightarrow> u64" where
  "cachesim_il1_num_miss s = (case il1_cache s of Some c \<Rightarrow> num_read_miss c | None \<Rightarrow> 0)"

definition cachesim_dl1_num_miss :: "cachesim_state \<Rightarrow> u64" where
  "cachesim_dl1_num_miss s = (case dl1_cache s of Some c \<Rightarrow> num_read_miss c | None \<Rightarrow> 0)"

definition cachesim_ul2_num_miss :: "cachesim_state \<Rightarrow> u64" where
  "cachesim_ul2_num_miss s = (case ul2_cache s of Some c \<Rightarrow> num_miss_star c | None \<Rightarrow> 0)"

definition cachesim_il1_num_access :: "cachesim_state \<Rightarrow> u64" where
  "cachesim_il1_num_access s = (case il1_cache s of Some c \<Rightarrow> num_access c | None \<Rightarrow> 0)"

definition cachesim_dl1_num_access :: "cachesim_state \<Rightarrow> u64" where
  "cachesim_dl1_num_access s = (case dl1_cache s of Some c \<Rightarrow> num_access c | None \<Rightarrow> 0)"

definition cachesim_ul2_num_access :: "cachesim_state \<Rightarrow> u64" where
  "cachesim_ul2_num_access s = (case ul2_cache s of Some c \<Rightarrow> num_access c | None \<Rightarrow> 0)"

text \<open>The latency fields are \<open>unsigned\<close> and returned as \<open>int\<close>.\<close>

definition cachesim_il1_hit_latency :: "cachesim_state \<Rightarrow> int" where
  "cachesim_il1_hit_latency s = (case il1_cache s of Some c \<Rightarrow> sint (hit_lat (config c)) | None \<Rightarrow> 0)"

definition cachesim_dl1_hit_latency :: "cachesim_state \<Rightarrow> int" where
  "cachesim_dl1_hit_latency s = (case dl1_cache s of Some c \<Rightarrow> sint (hit_lat (config c)) | None \<Rightarrow> 0)"

definition cachesim_ul2_hit_latency :: "cachesim_state \<Rightarrow> int" where
  "cachesim_ul2_hit_latency s = (case ul2_cache s of Some c \<Rightarrow> sint (hit_lat (config c)) | None \<Rightarrow> 0)"

definition cachesim_il1_miss_latency :: "cachesim_state \<Rightarrow> int" where
  "cachesim_il1_miss_latency s = (case il1_cache s of Some c \<Rightarrow> sint (miss_lat (config c)) | None \<Rightarrow> 0)"

definition cachesim_dl1_miss_latency :: "cachesim_state \<Rightarrow> int" where
  "cachesim_dl1_miss_latency s = (case dl1_cache s of Some c \<Rightarrow> sint (miss_lat (config c)) | None \<Rightarrow> 0)"

definition cachesim_ul2_miss_latency :: "cachesim_state \<Rightarrow> int" where
  "cachesim_ul2_miss_latency s = (case ul2_cache s of Some c \<Rightarrow> sint (miss_lat (config c)) | None \<Rightarrow> 0)"

text \<open>The heaps of blocks left after closing the three caches.\<close>

definition close_opt :: "Cache_t option \<Rightarrow> (addr \<rightharpoonup> Cache_blk_t) option" where
  "close_opt oc = (case oc of None \<Rightarrow> Some Map.empty | Some c \<Rightarrow> cache_close c)"

definition cachesim_end ::
    "cachesim_state \<Rightarrow> ((addr \<rightharpoonup> Cache_blk_t) \<times> (addr \<rightharpoonup> Cache_blk_t) \<times> (addr \<rightharpoonup> Cache_blk_t)) option" where
  "cachesim_end s = do {
     i \<leftarrow> close_opt (il1_cache s);
     d \<leftarrow> close_opt (dl1_cache s);
     u \<leftarrow> close_opt (ul2_cache s);
     Some (i, d, u) }"

section \<open>Sequences of accesses\<close>

datatype mem_op = Fetch u64 u32 int | Data u64 u32 bool int

fun cachesim_op :: "bool \<Rightarrow> perfmodel_config \<Rightarrow> CacheMissType \<Rightarrow> mem_op \<Rightarrow> cachesim_state
    \<Rightarrow> (CacheMissType \<times> cachesim_state) option" where
  "cachesim_op hsim pm g (Fetch t a rnd) s = cachesim_iaccess hsim pm g rnd t a s"
| "cachesim_op hsim pm g (Data t a w rnd) s = cachesim_daccess hsim pm g rnd t a w s"

definition cachesim_run ::
    "bool \<Rightarrow> perfmodel_config \<Rightarrow> CacheMissType \<Rightarrow> mem_op list \<Rightarrow> cachesim_state \<Rightarrow> cachesim_state option" where
  "cachesim_run hsim pm g ops s = ofold (\<lambda>x s. map_option snd (cachesim_op hsim pm g x s)) ops s"

section \<open>The hierarchy never faults\<close>

definition copt_wf :: "Cache_t option \<Rightarrow> bool" where
  "copt_wf oc \<longleftrightarrow> (case oc of None \<Rightarrow> True | Some c \<Rightarrow> \<exists>lss. cache_models c lss)"

definition hier_wf :: "cachesim_state \<Rightarrow> bool" where
  "hier_wf s \<longleftrightarrow> copt_wf (il1_cache s) \<and> copt_wf (dl1_cache s) \<and> copt_wf (ul2_cache s)"

text \<open>Misses of the first level, which are the accesses of the second.\<close>

definition l1_misses :: "cachesim_state \<Rightarrow> u64" where
  "l1_misses s = (case il1_cache s of Some c \<Rightarrow> num_miss c | None \<Rightarrow> 0) +
     (case dl1_cache s of Some c \<Rightarrow> num_miss c | None \<Rightarrow> 0)"

lemma cache_access_wf:
  assumes "copt_wf (Some c)"
  shows "\<exists>hit c'. cache_access r rnd iid c ty a = Some (hit, c') \<and> copt_wf (Some c') \<and>
    num_access c' = num_access c + 1 \<and> num_miss c' = num_miss c + (if hit then 0 else 1) \<and> config c' = config c"
  using assms cache_access_spec [of c _ r rnd iid ty a] by (fastforce simp: copt_wf_def same_geometry_def)

definition l2_account :: "bool \<Rightarrow> cachesim_state \<Rightarrow> cachesim_state \<Rightarrow> bool" where
  "l2_account hsim s s' \<longleftrightarrow>
     (\<not> hsim \<and> il1_cache s \<noteq> None \<and> dl1_cache s \<noteq> None \<and> ul2_cache s \<noteq> None \<longrightarrow>
        cachesim_ul2_num_access s' - l1_misses s' = cachesim_ul2_num_access s - l1_misses s) \<and>
     (il1_cache s' = None) = (il1_cache s = None) \<and> (dl1_cache s' = None) = (dl1_cache s = None) \<and>
     (ul2_cache s' = None) = (ul2_cache s = None)"

lemma ul2_lookup_wf:
  assumes "hier_wf s"
  shows "\<exists>m s'. ul2_lookup hsim rob rnd t ty a mt s = Some (m, s') \<and> hier_wf s' \<and>
    il1_cache s' = il1_cache s \<and> dl1_cache s' = dl1_cache s \<and>
    (ul2_cache s' = None) = (ul2_cache s = None) \<and> fetchBufferMask s' = fetchBufferMask s \<and>
    cachesim_ul2_num_access s' = cachesim_ul2_num_access s +
      (if \<not> hsim \<and> ul2_cache s \<noteq> None \<and> mt = L1Miss then 1 else 0) \<and>
    (mt = L1Hit \<longrightarrow> m = L1Hit \<and> s' = s)"
proof (cases "ul2_cache s")
  case None
  then show ?thesis using assms by (simp add: ul2_lookup_def)
next
  case (Some c)
  then have "copt_wf (Some c)" using assms by (simp add: hier_wf_def)
  then obtain hit c' where "cache_access rob rnd t c ty a = Some (hit, c')" "copt_wf (Some c')"
    "num_access c' = num_access c + 1"
    using cache_access_wf by blast
  then show ?thesis using Some assms
    by (auto simp: ul2_lookup_def hier_wf_def cachesim_ul2_num_access_def)
qed

lemma cachesim_iaccess_wf:
  assumes "hier_wf s"
  shows "\<exists>m s'. cachesim_iaccess hsim pm g rnd t a s = Some (m, s') \<and> hier_wf s' \<and> l2_account hsim s s' \<and>
    fetchBufferMask s' = fetchBufferMask s"
proof (cases "il1_cache s")
  case None
  then show ?thesis
    using ul2_lookup_wf [OF assms, of hsim "rob_size (core pm)" rnd t Read "fetchbufferalignpc s a" g]
    by (auto simp: cachesim_iaccess_def l2_account_def)
next
  case (Some c)
  let ?e = "fetchbufferalignpc s a"
  have "copt_wf (Some c)" using assms Some by (simp add: hier_wf_def)
  then obtain hit c' where acc: "cache_access (rob_size (core pm)) rnd t c Read ?e = Some (hit, c')"
    and c': "copt_wf (Some c')" "num_miss c' = num_miss c + (if hit then 0 else 1)"
    using cache_access_wf by blast
  let ?s = "s\<lparr>il1_cache := Some c'\<rparr>"
  have "hier_wf ?s" using assms c' by (simp add: hier_wf_def)
  then show ?thesis
    using ul2_lookup_wf [of ?s hsim "rob_size (core pm)" rnd t Read ?e "if hit then L1Hit else L1Miss"] acc c'(2) Some
    by (auto simp: cachesim_iaccess_def l2_account_def l1_misses_def cachesim_ul2_num_access_def split: if_splits)
qed

lemma cachesim_daccess_wf:
  assumes "hier_wf s"
  shows "\<exists>m s'. cachesim_daccess hsim pm g rnd t a w s = Some (m, s') \<and> hier_wf s' \<and> l2_account hsim s s' \<and>
    fetchBufferMask s' = fetchBufferMask s"
proof (cases "dl1_cache s")
  case None
  then show ?thesis
    using ul2_lookup_wf [OF assms, of hsim "rob_size (core pm)" rnd t "if w then Write else Read" a g]
    by (auto simp: cachesim_daccess_def l2_account_def)
next
  case (Some c)
  let ?ty = "if w then Write else Read"
  have "copt_wf (Some c)" using assms Some by (simp add: hier_wf_def)
  then obtain hit c' where acc: "cache_access (rob_size (core pm)) rnd t c ?ty a = Some (hit, c')"
    and c': "copt_wf (Some c')" "num_miss c' = num_miss c + (if hit then 0 else 1)"
    using cache_access_wf by blast
  let ?s = "s\<lparr>dl1_cache := Some c'\<rparr>"
  have "hier_wf ?s" using assms c' by (simp add: hier_wf_def)
  then show ?thesis
    using ul2_lookup_wf [of ?s hsim "rob_size (core pm)" rnd t ?ty a "if hit then L1Hit else L1Miss"] acc c'(2) Some
    by (auto simp: cachesim_daccess_def l2_account_def l1_misses_def cachesim_ul2_num_access_def Let_def
        split: if_splits)
qed

lemma cachesim_op_wf:
  "hier_wf s \<Longrightarrow> \<exists>m s'. cachesim_op hsim pm g x s = Some (m, s') \<and> hier_wf s' \<and> l2_account hsim s s'"
  by (cases x) (use cachesim_iaccess_wf cachesim_daccess_wf in \<open>fastforce+\<close>)

lemma l2_account_refl: "l2_account hsim s s"
  by (simp add: l2_account_def)

lemma l2_account_trans: "l2_account hsim s s1 \<Longrightarrow> l2_account hsim s1 s2 \<Longrightarrow> l2_account hsim s s2"
  by (simp add: l2_account_def)

lemma cachesim_run_wf:
  assumes "hier_wf s"
  shows "\<exists>s'. cachesim_run hsim pm g ops s = Some s' \<and> hier_wf s' \<and> l2_account hsim s s'"
proof (induction ops rule: rev_induct)
  case Nil
  then show ?case using assms by (simp add: cachesim_run_def l2_account_refl)
next
  case (snoc x ops)
  then obtain s' where s': "cachesim_run hsim pm g ops s = Some s'" "hier_wf s'" "l2_account hsim s s'" by auto
  then show ?case
    using cachesim_op_wf [OF s'(2), of hsim pm g x] l2_account_trans [OF s'(3)]
    by (auto simp: cachesim_run_def ofold_append)
qed

definition geom_ok :: "cache_config \<Rightarrow> bool" where
  "geom_ok c \<longleftrightarrow> 0 < num_set c \<and> num_set c < 2 ^ 31 \<and> 0 < size_blk c \<and> size_blk c < 2 ^ 31 \<and> 0 < c_assoc c"

definition hier_geom_ok :: "perfmodel_config \<Rightarrow> bool" where
  "hier_geom_ok pm \<longleftrightarrow> (existIL1 pm \<noteq> 0 \<longrightarrow> geom_ok (il1 pm)) \<and> (existDL1 pm \<noteq> 0 \<longrightarrow> geom_ok (dl1 pm)) \<and>
     (existUL2 pm \<noteq> 0 \<longrightarrow> geom_ok (ul2 pm))"

lemma level_initialize:
  assumes "ex \<noteq> 0 \<longrightarrow> geom_ok cf"
  shows "\<exists>oc. (if ex \<noteq> (0::int) then map_option Some (cache_initialize raw rawset cm nm
      (num_set cf) (size_blk cf) (c_assoc cf) LRU hl ml) else Some None) = Some oc \<and> copt_wf oc \<and>
    (oc = None) = (ex = 0) \<and> (\<forall>c. oc = Some c \<longrightarrow> num_access c = 0 \<and> num_miss c = 0)"
proof (cases "ex = 0")
  case False
  then show ?thesis
    using assms cache_initialize_models [of "num_set cf" "size_blk cf" "c_assoc cf" raw rawset cm nm LRU hl ml]
    by (auto simp: geom_ok_def copt_wf_def)
qed (simp add: copt_wf_def)

lemma cachesim_initialize_wf:
  assumes "hier_geom_ok pm"
  shows "\<exists>s. cachesim_initialize raw rawset cm pm = Some s \<and> hier_wf s \<and>
    cachesim_ul2_num_access s = 0 \<and> l1_misses s = 0 \<and>
    (il1_cache s = None) = (existIL1 pm = 0) \<and> (dl1_cache s = None) = (existDL1 pm = 0) \<and>
    (ul2_cache s = None) = (existUL2 pm = 0) \<and> fetchBufferMask s = 63"
proof -
  note lv = level_initialize [where raw = raw and rawset = rawset and cm = cm]
  from assms have g: "existIL1 pm \<noteq> 0 \<longrightarrow> geom_ok (il1 pm)" "existDL1 pm \<noteq> 0 \<longrightarrow> geom_ok (dl1 pm)"
    "existUL2 pm \<noteq> 0 \<longrightarrow> geom_ok (ul2 pm)" by (simp_all add: hier_geom_ok_def)
  show ?thesis
    using lv [OF g(1), of "''il1''" "word_of_int (c_latency (il1 pm))"
        "word_of_int (if existUL2 pm \<noteq> 0 then c_latency (ul2 pm) + c_latency (il1 pm) * 2
             else mem_latency (mem pm) + c_latency (il1 pm) * 2)"]
      lv [OF g(2), of "''dl1''" "word_of_int (c_latency (dl1 pm))"
        "word_of_int (if existUL2 pm \<noteq> 0 then c_latency (ul2 pm) + c_latency (dl1 pm) * 2
             else mem_latency (mem pm) + c_latency (dl1 pm) * 2)"]
      lv [OF g(3), of "''ul2''" "word_of_int (c_latency (ul2 pm))"
        "word_of_int (mem_latency (mem pm) + c_latency (ul2 pm) * 2)"]
    unfolding cachesim_initialize_def
    by (elim exE conjE)
      (simp add: hier_wf_def cachesim_ul2_num_access_def l1_misses_def fetchBufferSize_def split: option.split)
qed

lemma close_opt_empty: "copt_wf oc \<Longrightarrow> close_opt oc = Some Map.empty"
  by (auto simp: copt_wf_def close_opt_def cache_close_empty split: option.splits)

lemma cachesim_op_mask: "cachesim_op hsim pm g x s = Some (m, s') \<Longrightarrow> fetchBufferMask s' = fetchBufferMask s"
  by (cases x) (auto simp: cachesim_iaccess_def cachesim_daccess_def ul2_lookup_def bind_eq_Some_conv Let_def
      split: option.splits if_splits)

lemma cachesim_run_mask: "cachesim_run hsim pm g ops s = Some s' \<Longrightarrow> fetchBufferMask s' = fetchBufferMask s"
  unfolding cachesim_run_def
  by (erule ofold_invariant [where P = "\<lambda>x. fetchBufferMask x = fetchBufferMask s"]) (auto dest: cachesim_op_mask)

lemma fetch_align_eq:
  assumes "drop_bit 6 a = drop_bit 6 b" "fetchBufferMask s = 63" "fetchBufferMask s' = 63"
  shows "fetchbufferalignpc s a = fetchbufferalignpc s' b"
proof -
  have "x AND NOT (mask 6) = push_bit 6 (drop_bit 6 x)" for x :: u32
    by (rule bit_word_eqI) (auto simp: bit_simps)
  moreover have "(63::u32) = mask 6" by (simp add: mask_eq_exp_minus_1)
  ultimately show ?thesis using assms by (simp add: fetchbufferalignpc_def)
qed

lemma ul2_lookup_hit: "ul2_lookup hsim rob rnd t ty a L1Hit s = Some (L1Hit, s)"
  by (simp add: ul2_lookup_def split: option.split)

lemma iaccess_twice:
  assumes wf: "hier_wf s" and c: "il1_cache s = Some c" and m: "cache_models c lss"
    and same: "drop_bit 6 a = drop_bit 6 b" "fetchBufferMask s = 63"
  shows "\<exists>m1 s1 s2. cachesim_iaccess hsim pm g rnd t a s = Some (m1, s1) \<and>
    cachesim_iaccess hsim pm g rnd' t' b s1 = Some (L1Hit, s2)"
proof -
  let ?e = "fetchbufferalignpc s a" and ?r = "rob_size (core pm)"
  obtain hit c1 c2 where acc: "cache_access ?r rnd t c Read ?e = Some (hit, c1)"
    "cache_access ?r rnd' t' c1 Read ?e = Some (True, c2)"
    using cache_access_again [OF m refl refl] by blast
  let ?s = "s\<lparr>il1_cache := Some c1\<rparr>"
  have "hier_wf ?s"
    using wf cache_access_wf [of c ?r rnd t Read ?e] acc(1) m by (auto simp: hier_wf_def copt_wf_def)
  then obtain m1 s1 where s1: "ul2_lookup hsim ?r rnd t Read ?e (if hit then L1Hit else L1Miss) ?s = Some (m1, s1)"
    "il1_cache s1 = Some c1" "fetchBufferMask s1 = 63"
    using ul2_lookup_wf [of ?s hsim ?r rnd t Read ?e "if hit then L1Hit else L1Miss"] same(2) by auto
  have "fetchbufferalignpc s1 b = ?e" by (rule fetch_align_eq [OF same(1) [symmetric] s1(3) same(2)])
  then have "cachesim_iaccess hsim pm g rnd' t' b s1 = Some (L1Hit, s1\<lparr>il1_cache := Some c2\<rparr>)"
    using acc(2) s1(2) by (simp add: cachesim_iaccess_def ul2_lookup_hit)
  moreover have "cachesim_iaccess hsim pm g rnd t a s = Some (m1, s1)"
    using acc(1) c s1(1) by (simp add: cachesim_iaccess_def)
  ultimately show ?thesis by blast
qed

section \<open>Properties\<close>

text \<open>
  C6: For every configuration with positive cache geometries, the hierarchy can be initialised, take
  any sequence of instruction fetches and data accesses, and be closed, without a fault and with
  every block freed. With all three caches present, the second level is accessed exactly once for
  every miss of a first-level cache (modulo the width of the counters).
\<close>

theorem cachesim_l2_accesses_are_l1_misses:
  assumes "hier_geom_ok pm"
  shows "\<exists>s0 s. cachesim_initialize raw rawset cm pm = Some s0 \<and> cachesim_run False pm g ops s0 = Some s \<and>
    (existIL1 pm \<noteq> 0 \<and> existDL1 pm \<noteq> 0 \<and> existUL2 pm \<noteq> 0 \<longrightarrow> cachesim_ul2_num_access s = l1_misses s) \<and>
    cachesim_end s = Some (Map.empty, Map.empty, Map.empty)"
proof -
  obtain s0 where s0: "cachesim_initialize raw rawset cm pm = Some s0" "hier_wf s0"
    "cachesim_ul2_num_access s0 = 0" "l1_misses s0 = 0"
    "(il1_cache s0 = None) = (existIL1 pm = 0)" "(dl1_cache s0 = None) = (existDL1 pm = 0)"
    "(ul2_cache s0 = None) = (existUL2 pm = 0)"
    using cachesim_initialize_wf [OF assms, of raw rawset cm] by - (elim exE conjE, rule that)
  obtain s where s: "cachesim_run False pm g ops s0 = Some s" "hier_wf s" "l2_account False s0 s"
    using cachesim_run_wf [OF s0(2)] by blast
  have "cachesim_end s = Some (Map.empty, Map.empty, Map.empty)"
    using s(2) by (simp add: cachesim_end_def hier_wf_def close_opt_empty)
  moreover have "cachesim_ul2_num_access s = l1_misses s"
    if "existIL1 pm \<noteq> 0 \<and> existDL1 pm \<noteq> 0 \<and> existUL2 pm \<noteq> 0"
    using s(3) s0(3-7) that unfolding l2_account_def by simp
  ultimately show ?thesis using s0(1) s(1) by blast
qed

lemma cachesim_l2_accesses_are_l1_misses_witness:
  "\<exists>s0 s. cachesim_initialize demo_blk demo_set demo_cache demo_config = Some s0 \<and>
    cachesim_run False demo_config L2Miss [Fetch 1 4096 0, Data 2 64 True 0, Fetch 3 4100 0] s0 = Some s \<and>
    cachesim_ul2_num_access s = l1_misses s"
proof -
  have "hier_geom_ok demo_config"
    by (simp add: hier_geom_ok_def geom_ok_def demo_config_def demo_cache_config_def)
  moreover have "existIL1 demo_config \<noteq> 0 \<and> existDL1 demo_config \<noteq> 0 \<and> existUL2 demo_config \<noteq> 0"
    by (simp add: demo_config_def)
  ultimately show ?thesis
    using cachesim_l2_accesses_are_l1_misses [of demo_config demo_blk demo_set demo_cache L2Miss
      "[Fetch 1 4096 0, Data 2 64 True 0, Fetch 3 4100 0]"] by blast
qed

text \<open>
  C27: A fetch from the same 64-byte fetch buffer as the fetch before it never misses: after the
  fetch of one program counter, the fetch of any other in its aligned 64 bytes is a first-level hit.
\<close>

theorem cachesim_fetch_buffer_hit:
  assumes "hier_geom_ok pm" "existIL1 pm \<noteq> 0" "drop_bit 6 a = drop_bit 6 b"
  shows "\<exists>s0 s m1 s1 s2. cachesim_initialize raw rawset cm pm = Some s0 \<and> cachesim_run hsim pm g ops s0 = Some s \<and>
    cachesim_iaccess hsim pm g rnd t a s = Some (m1, s1) \<and>
    cachesim_iaccess hsim pm g rnd' t' b s1 = Some (L1Hit, s2)"
proof -
  obtain s0 where s0: "cachesim_initialize raw rawset cm pm = Some s0" "hier_wf s0" "il1_cache s0 \<noteq> None"
    "fetchBufferMask s0 = 63"
    using cachesim_initialize_wf [OF assms(1), of raw rawset cm] assms(2) by blast
  obtain s where s: "cachesim_run hsim pm g ops s0 = Some s" "hier_wf s" "l2_account hsim s0 s"
    using cachesim_run_wf [OF s0(2)] by blast
  have mask: "fetchBufferMask s = 63" using cachesim_run_mask [OF s(1)] s0(4) by simp
  obtain c where c: "il1_cache s = Some c" using s(3) s0(3) by (auto simp: l2_account_def)
  then obtain lss where m: "cache_models c lss" using s(2) by (auto simp: hier_wf_def copt_wf_def)
  show ?thesis
    using iaccess_twice [OF s(2) c m assms(3) mask, of hsim pm g rnd t rnd' t'] s0(1) s(1) by blast
qed

lemma cachesim_fetch_buffer_hit_witness:
  "\<exists>s0 s m1 s1 s2. cachesim_initialize demo_blk demo_set demo_cache demo_config = Some s0 \<and>
    cachesim_run True demo_config L2Miss [Fetch 1 4096 0] s0 = Some s \<and>
    cachesim_iaccess True demo_config L2Miss 0 2 65600 s = Some (m1, s1) \<and>
    cachesim_iaccess True demo_config L2Miss 0 3 65660 s1 = Some (L1Hit, s2)"
  using cachesim_fetch_buffer_hit [of demo_config 65600 65660 demo_blk demo_set demo_cache True L2Miss
    "[Fetch 1 4096 0]" 0 2 0 3]
  by (simp add: hier_geom_ok_def geom_ok_def demo_config_def demo_cache_config_def)

end
