(* ===== verification/Ring.thy ===== *)
theory Ring
  imports TQ_Prelude
begin

text \<open>
  Ring buffers. The packet buffers between the simulator and the host (\<open>packet_buffer.c\<close>,
  \<open>ringbuffer.h\<close>) and the reorder buffer (\<open>rob.c\<close>) keep a window of an array that wraps around.
  \<open>ring_list\<close> is the window as a list, and the locale \<open>bounded_queue\<close> is the contract the users of a
  packet buffer rely on: they check for full or empty before every write or read.
\<close>

section \<open>The window of a ring\<close>

definition ring_list :: "nat \<Rightarrow> nat \<Rightarrow> nat \<Rightarrow> 'a list \<Rightarrow> 'a list" where
  "ring_list N s n xs = map (\<lambda>i. xs ! ((s + i) mod N)) [0..<n]"

lemma length_ring_list [simp]: "length (ring_list N s n xs) = n"
  by (simp add: ring_list_def)

lemma ring_list_0 [simp]: "ring_list N s 0 xs = []"
  by (simp add: ring_list_def)

lemma ring_list_nth: "i < n \<Longrightarrow> ring_list N s n xs ! i = xs ! ((s + i) mod N)"
  by (simp add: ring_list_def)

lemma ring_slot_inj:
  fixes i j n N s :: nat
  assumes "i < N" "j < N" "(s + i) mod N = (s + j) mod N"
  shows "i = j"
proof (rule ccontr)
  assume "i \<noteq> j"
  moreover have "\<not> (s + a) mod N = (s + b) mod N" if "a < b" "b < N" for a b
  proof
    assume "(s + a) mod N = (s + b) mod N"
    then have "(b - a) mod N = 0"
      using that by (metis add_diff_cancel_left less_imp_le_nat mod_eq_dvd_iff_nat nat_add_left_cancel_le dvd_imp_mod_0)
    then show False using that by simp
  qed
  ultimately show False using assms by (metis nat_neq_iff)
qed

lemma ring_list_write:
  assumes "n < N" "N \<le> length xs"
  shows "ring_list N s (Suc n) (xs[(s + n) mod N := v]) = ring_list N s n xs @ [v]"
proof (rule nth_equalityI)
  fix i assume i: "i < length (ring_list N s (Suc n) (xs[(s + n) mod N := v]))"
  have lt: "(s + n) mod N < length xs" using assms by (metis mod_less_divisor not_less_zero order_less_le_trans gr0I)
  show "ring_list N s (Suc n) (xs[(s + n) mod N := v]) ! i = (ring_list N s n xs @ [v]) ! i"
  proof (cases "i = n")
    case True
    then show ?thesis using lt by (simp add: ring_list_nth nth_append)
  next
    case False
    then have "i < n" using i by simp
    moreover have "(s + i) mod N \<noteq> (s + n) mod N" using ring_slot_inj [of i N n s] assms \<open>i < n\<close> by auto
    ultimately show ?thesis by (simp add: ring_list_nth nth_append)
  qed
qed simp

lemma ring_list_read:
  "ring_list N s (Suc n) xs = xs ! (s mod N) # ring_list N ((s + 1) mod N) n xs"
proof (rule nth_equalityI)
  fix i assume i: "i < length (ring_list N s (Suc n) xs)"
  show "ring_list N s (Suc n) xs ! i = (xs ! (s mod N) # ring_list N ((s + 1) mod N) n xs) ! i"
    using i by (cases i) (simp_all add: ring_list_nth mod_simps)
qed simp

lemma ring_list_frame:
  assumes "n < N" "j < N" "(s + n) mod N = j"
  shows "ring_list N s n (xs[j := v]) = ring_list N s n xs"
proof (rule nth_equalityI)
  fix i assume i: "i < length (ring_list N s n (xs[j := v]))"
  then have "(s + i) mod N \<noteq> j" using ring_slot_inj [of i N n s] assms by auto
  then show "ring_list N s n (xs[j := v]) ! i = ring_list N s n xs ! i"
    using i by (simp add: ring_list_nth)
qed simp

section \<open>The contract of a bounded queue\<close>

text \<open>
  A history of a queue shared by a writer and a reader: each tries its operation and does nothing
  when the queue is full (empty). The result is what was written, what was read, and the queue.
\<close>

datatype 'v qop = QPut 'v | QGet

fun qrun :: "('q \<Rightarrow> bool) \<Rightarrow> ('q \<Rightarrow> bool) \<Rightarrow> ('v \<Rightarrow> 'q \<Rightarrow> 'q option) \<Rightarrow> ('q \<Rightarrow> ('v \<times> 'q) option) \<Rightarrow>
    'v qop list \<Rightarrow> 'q \<Rightarrow> ('v list \<times> 'v list \<times> 'q) option" where
  "qrun full emp wr rd [] q = Some ([], [], q)"
| "qrun full emp wr rd (QPut v # ops) q =
     (if full q then qrun full emp wr rd ops q
      else do { q \<leftarrow> wr v q; (ws, rs, q) \<leftarrow> qrun full emp wr rd ops q; Some (v # ws, rs, q) })"
| "qrun full emp wr rd (QGet # ops) q =
     (if emp q then qrun full emp wr rd ops q
      else do { (v, q) \<leftarrow> rd q; (ws, rs, q) \<leftarrow> qrun full emp wr rd ops q; Some (ws, v # rs, q) })"

fun put_values :: "'v qop list \<Rightarrow> 'v list" where
  "put_values [] = []"
| "put_values (QPut v # ops) = v # put_values ops"
| "put_values (QGet # ops) = put_values ops"

text \<open>
  \<open>vok v q\<close>: the value \<open>v\<close> can be written in state \<open>q\<close>; for a queue of pointers, that it points to an
  object. The operations keep it.
\<close>

locale bounded_queue =
  fixes invar :: "'q \<Rightarrow> bool" and contents :: "'q \<Rightarrow> 'v list" and cap :: nat
    and full :: "'q \<Rightarrow> bool" and emp :: "'q \<Rightarrow> bool"
    and wr :: "'v \<Rightarrow> 'q \<Rightarrow> 'q option" and rd :: "'q \<Rightarrow> ('v \<times> 'q) option"
    and vok :: "'v \<Rightarrow> 'q \<Rightarrow> bool"
  assumes bound: "invar q \<Longrightarrow> length (contents q) \<le> cap"
    and full_iff: "invar q \<Longrightarrow> full q \<longleftrightarrow> length (contents q) = cap"
    and emp_iff: "invar q \<Longrightarrow> emp q \<longleftrightarrow> contents q = []"
    and wr_ok: "invar q \<Longrightarrow> vok v q \<Longrightarrow> length (contents q) < cap \<Longrightarrow>
      \<exists>q'. wr v q = Some q' \<and> invar q' \<and> contents q' = contents q @ [v] \<and> (\<forall>u. vok u q \<longrightarrow> vok u q')"
    and rd_ok: "invar q \<Longrightarrow> contents q \<noteq> [] \<Longrightarrow>
      \<exists>q'. rd q = Some (hd (contents q), q') \<and> invar q' \<and> contents q' = tl (contents q) \<and>
        (\<forall>u. vok u q \<longrightarrow> vok u q')"
begin

text \<open>No history loses, duplicates or reorders an element.\<close>

lemma fifo_history:
  assumes "invar q" "\<forall>v\<in>set (put_values ops). vok v q"
  shows "\<exists>ws rs q'. qrun full emp wr rd ops q = Some (ws, rs, q') \<and> invar q' \<and>
    contents q @ ws = rs @ contents q'"
  using assms
proof (induction ops arbitrary: q)
  case Nil
  then show ?case by simp
next
  case (Cons x ops)
  show ?case
  proof (cases x)
    case (QPut v)
    show ?thesis
    proof (cases "full q")
      case True
      then show ?thesis using QPut Cons by simp
    next
      case False
      have "vok v q" using Cons.prems(2) QPut by simp
      then obtain q1 where q1: "wr v q = Some q1" "invar q1" "contents q1 = contents q @ [v]" "\<forall>u. vok u q \<longrightarrow> vok u q1"
        using wr_ok [OF Cons.prems(1)] full_iff [OF Cons.prems(1)] bound [OF Cons.prems(1)] False by (metis order_le_less)
      have "\<forall>u\<in>set (put_values ops). vok u q1" using Cons.prems(2) QPut q1(4) by simp
      then show ?thesis using Cons.IH [OF q1(2)] QPut False q1 by fastforce
    qed
  next
    case QGet
    show ?thesis
    proof (cases "emp q")
      case True
      then show ?thesis using QGet Cons by simp
    next
      case False
      then have ne: "contents q \<noteq> []" using emp_iff [OF Cons.prems(1)] by simp
      then obtain q1 where q1: "rd q = Some (hd (contents q), q1)" "invar q1" "contents q1 = tl (contents q)" "\<forall>u. vok u q \<longrightarrow> vok u q1"
        using rd_ok [OF Cons.prems(1)] by blast
      have "\<forall>u\<in>set (put_values ops). vok u q1" using Cons.prems(2) QGet q1(4) by simp
      then obtain ws rs q' where r: "qrun full emp wr rd ops q1 = Some (ws, rs, q')" "invar q'"
        "contents q1 @ ws = rs @ contents q'" using Cons.IH [OF q1(2)] by blast
      then have "contents q @ ws = (hd (contents q) # rs) @ contents q'" using q1(3) ne by (metis append_Cons list.collapse)
      then show ?thesis using r q1(1) QGet False by auto
    qed
  qed
qed

end

section \<open>Start and end indices\<close>

text \<open>The number of elements between two indices of a ring that keeps one slot free.\<close>

definition ring_count :: "nat \<Rightarrow> nat \<Rightarrow> nat \<Rightarrow> nat" where
  "ring_count N s e = (if s \<le> e then e - s else e + N - s)"

lemma ring_count_lt: "s < N \<Longrightarrow> e < N \<Longrightarrow> ring_count N s e < N"
  by (auto simp: ring_count_def)

lemma ring_count_end: "s < N \<Longrightarrow> e < N \<Longrightarrow> (s + ring_count N s e) mod N = e"
  by (auto simp: ring_count_def)

lemma ring_count_empty: "s < N \<Longrightarrow> e < N \<Longrightarrow> ring_count N s e = 0 \<longleftrightarrow> e = s"
  by (auto simp: ring_count_def)

lemma mod_Suc_ring: "x < N \<Longrightarrow> Suc x mod N = (if Suc x = N then 0 else Suc x)" for x :: nat
  by simp

lemma ring_count_full: "s < N \<Longrightarrow> e < N \<Longrightarrow> ring_count N s e = N - 1 \<longleftrightarrow> (e + 1) mod N = s"
  by (auto simp: ring_count_def mod_Suc_ring)

lemma ring_count_write:
  "s < N \<Longrightarrow> e < N \<Longrightarrow> ring_count N s e < N - 1 \<Longrightarrow> ring_count N s ((e + 1) mod N) = Suc (ring_count N s e)"
  by (auto simp: ring_count_def mod_Suc_ring split: if_splits)

lemma ring_count_read:
  "s < N \<Longrightarrow> e < N \<Longrightarrow> ring_count N s e \<noteq> 0 \<Longrightarrow> ring_count N s e = Suc (ring_count N ((s + 1) mod N) e)"
  by (auto simp: ring_count_def mod_Suc_ring split: if_splits)

end
