(* ===== verification/Packet_Buffer.thy ===== *)
theory Packet_Buffer
  imports Ring
begin

text \<open>
  The buffers shared between the simulator and the host process: the packet ring of
  \<open>packet_buffer.c\<close>, the older ring of \<open>ringbuffer.h\<close> over larger packets, and the single-message
  buffer of \<open>spm_buffer.c\<close>. The rings are interpreted as bounded queues; both keep one slot free, so
  their capacity is one less than their modulus. The operations fault (\<open>None\<close>) when an index is
  outside the array or a copy is longer than the buffer.
\<close>

section \<open>Packets\<close>

datatype PacketType = packet_read | packet_write | packet_iread | packet_iwrite | packet_elapsed | packet_syscall

record Packet =
  pkt_type :: PacketType
  pkt_size :: u32
  pkt_cycle :: u64
  pkt_address :: u32
  pkt_data :: "u8 list"
  pkt_flags :: u32

text \<open>\<open>struct packet\<close> of \<open>esim_type.h\<close>; the union \<open>param\<close> is one 64-bit word.\<close>

record esim_packet =
  e_size :: u32
  e_type :: u32
  e_cycle :: u64
  e_address :: u32
  e_data :: "u8 list"
  e_param :: u64
  e_needFeedback :: u32
  e_interrupt :: u32
  e_reserved :: u32

section \<open>The packet ring\<close>

definition PKT_BUFFER_SIZE :: int where
  "PKT_BUFFER_SIZE = 4096"

definition sizeof_Packet :: int where
  "sizeof_Packet = 32"

record PacketBuffer =
  pb_start :: int
  pb_end :: int
  pb_elems :: "Packet list"

definition pb_init :: "PacketBuffer \<Rightarrow> PacketBuffer" where
  "pb_init pb = pb\<lparr>pb_start := 0, pb_end := 0\<rparr>"

definition pb_is_full :: "PacketBuffer \<Rightarrow> bool" where
  "pb_is_full pb \<longleftrightarrow> (pb_end pb + 1) mod PKT_BUFFER_SIZE = pb_start pb"

definition pb_is_empty :: "PacketBuffer \<Rightarrow> bool" where
  "pb_is_empty pb \<longleftrightarrow> pb_end pb = pb_start pb"

definition pb_write :: "PacketBuffer \<Rightarrow> Packet \<Rightarrow> (int \<times> PacketBuffer) option" where
  "pb_write pb elem = do {
     es \<leftarrow> aset (pb_elems pb) (pb_end pb) elem;
     Some (sizeof_Packet, pb\<lparr>pb_elems := es, pb_end := (pb_end pb + 1) mod PKT_BUFFER_SIZE\<rparr>) }"

definition pb_read :: "PacketBuffer \<Rightarrow> (int \<times> Packet \<times> PacketBuffer) option" where
  "pb_read pb = do {
     elem \<leftarrow> aget (pb_elems pb) (pb_start pb);
     Some (sizeof_Packet, elem, pb\<lparr>pb_start := (pb_start pb + 1) mod PKT_BUFFER_SIZE\<rparr>) }"

section \<open>The ring of \<open>ringbuffer.h\<close>\<close>

definition BUFFER_SIZE :: int where
  "BUFFER_SIZE = 100"

record CircularBuffer =
  cb_start :: int
  cb_end :: int
  cb_elems :: "esim_packet list"

definition cbInit :: "CircularBuffer \<Rightarrow> CircularBuffer" where
  "cbInit cb = cb\<lparr>cb_start := 0, cb_end := 0\<rparr>"

definition cbIsFull :: "CircularBuffer \<Rightarrow> bool" where
  "cbIsFull cb \<longleftrightarrow> (cb_end cb + 1) mod BUFFER_SIZE = cb_start cb"

definition cbIsEmpty :: "CircularBuffer \<Rightarrow> bool" where
  "cbIsEmpty cb \<longleftrightarrow> cb_end cb = cb_start cb"

definition cbWrite :: "CircularBuffer \<Rightarrow> esim_packet \<Rightarrow> CircularBuffer option" where
  "cbWrite cb elem = do {
     es \<leftarrow> aset (cb_elems cb) (cb_end cb) elem;
     Some (cb\<lparr>cb_elems := es, cb_end := (cb_end cb + 1) mod BUFFER_SIZE\<rparr>) }"

definition cbRead :: "CircularBuffer \<Rightarrow> (esim_packet \<times> CircularBuffer) option" where
  "cbRead cb = do {
     elem \<leftarrow> aget (cb_elems cb) (cb_start cb);
     Some (elem, cb\<lparr>cb_start := (cb_start cb + 1) mod BUFFER_SIZE\<rparr>) }"

section \<open>The message buffer\<close>

definition SP_BUFFER_SIZE :: nat where
  "SP_BUFFER_SIZE = 4096"

record SPMBuffer =
  sp_size :: u32
  sp_payload :: "u8 list"

definition sp_init :: "SPMBuffer \<Rightarrow> SPMBuffer" where
  "sp_init sb = sb\<lparr>sp_size := 0\<rparr>"

definition sp_is_full :: "SPMBuffer \<Rightarrow> bool" where
  "sp_is_full sb \<longleftrightarrow> 0 < sp_size sb"

definition sp_is_empty :: "SPMBuffer \<Rightarrow> bool" where
  "sp_is_empty sb \<longleftrightarrow> sp_size sb = 0"

text \<open>\<open>memcpy\<close> of \<open>n\<close> bytes to the front of a buffer.\<close>

definition copy_bytes :: "nat \<Rightarrow> u8 list \<Rightarrow> u8 list \<Rightarrow> u8 list option" where
  "copy_bytes n src dst = (if n \<le> length src \<and> n \<le> length dst then Some (take n src @ drop n dst) else None)"

definition sp_write :: "SPMBuffer \<Rightarrow> u8 list \<Rightarrow> u32 \<Rightarrow> SPMBuffer option" where
  "sp_write sb data sz = do {
     p \<leftarrow> copy_bytes (unat sz) data (sp_payload sb);
     Some (sb\<lparr>sp_payload := p, sp_size := sz\<rparr>) }"

definition sp_read :: "SPMBuffer \<Rightarrow> u8 list \<Rightarrow> u32 \<Rightarrow> (u8 list \<times> SPMBuffer) option" where
  "sp_read sb data sz = do {
     d \<leftarrow> copy_bytes (unat sz) (sp_payload sb) data;
     Some (d, sb\<lparr>sp_size := 0\<rparr>) }"

section \<open>Both rings are bounded queues\<close>

text \<open>The common part: two indices into an array with a modulus \<open>N\<close> no larger than the array.\<close>

definition idx_ok :: "nat \<Rightarrow> int \<Rightarrow> int \<Rightarrow> 'a list \<Rightarrow> bool" where
  "idx_ok N s e xs \<longleftrightarrow> 0 \<le> s \<and> s < int N \<and> 0 \<le> e \<and> e < int N \<and> N \<le> length xs"

definition idx_list :: "nat \<Rightarrow> int \<Rightarrow> int \<Rightarrow> 'a list \<Rightarrow> 'a list" where
  "idx_list N s e xs = ring_list N (nat s) (ring_count N (nat s) (nat e)) xs"

lemma idx_ok_nat:
  assumes "idx_ok N s e xs"
  obtains a b where "s = int a" "e = int b" "a < N" "b < N" "N \<le> length xs"
  using assms by (auto simp: idx_ok_def elim!: nonneg_int_cases)

lemma idx_list_int [simp]: "idx_list N (int a) (int b) xs = ring_list N a (ring_count N a b) xs"
  by (simp add: idx_list_def)

lemma int_mod_Suc: "(int b + 1) mod int N = int ((b + 1) mod N)"
  by (simp add: zmod_int add.commute)

lemma idx_length: "idx_ok N s e xs \<Longrightarrow> length (idx_list N s e xs) \<le> N - 1"
  using ring_count_lt by (fastforce elim!: idx_ok_nat)

lemma idx_full: "idx_ok N s e xs \<Longrightarrow> (e + 1) mod int N = s \<longleftrightarrow> length (idx_list N s e xs) = N - 1"
proof -
  assume "idx_ok N s e xs"
  then obtain a b where "s = int a" "e = int b" "a < N" "b < N" by (rule idx_ok_nat)
  then show ?thesis using ring_count_full [of a N b] int_mod_Suc [of b N] by auto
qed

lemma idx_empty: "idx_ok N s e xs \<Longrightarrow> e = s \<longleftrightarrow> idx_list N s e xs = []"
proof -
  assume "idx_ok N s e xs"
  then obtain a b where "s = int a" "e = int b" "a < N" "b < N" by (rule idx_ok_nat)
  then show ?thesis
    using ring_count_empty [of a N b] length_ring_list [of N a "ring_count N a b" xs] by (auto simp del: length_ring_list)
qed

lemma idx_write:
  assumes "idx_ok N s e xs" "length (idx_list N s e xs) < N - 1"
  shows "\<exists>ys. aset xs e v = Some ys \<and> idx_ok N s ((e + 1) mod int N) ys \<and> length ys = length xs \<and>
    idx_list N s ((e + 1) mod int N) ys = idx_list N s e xs @ [v]"
proof -
  obtain a b where ab: "s = int a" "e = int b" "a < N" "b < N" "N \<le> length xs" using assms(1) by (rule idx_ok_nat)
  let ?n = "ring_count N a b"
  have n: "?n < N - 1" using assms(2) ab by simp
  have "ring_list N a (Suc ?n) (xs[b := v]) = ring_list N a ?n xs @ [v]"
    using ring_list_write [of ?n N xs a v] ring_count_end [OF ab(3,4)] n ab(5) by simp
  moreover have "ring_count N a ((b + 1) mod N) = Suc ?n" by (rule ring_count_write [OF ab(3,4) n])
  moreover have "aset xs e v = Some (xs[b := v])" using ab by simp
  moreover have "idx_ok N s ((e + 1) mod int N) (xs[b := v])" using ab by (simp add: idx_ok_def)
  ultimately show ?thesis using ab by (auto simp: int_mod_Suc)
qed

lemma idx_read:
  assumes "idx_ok N s e xs" "idx_list N s e xs \<noteq> []"
  shows "aget xs s = Some (hd (idx_list N s e xs)) \<and> idx_ok N ((s + 1) mod int N) e xs \<and>
    idx_list N ((s + 1) mod int N) e xs = tl (idx_list N s e xs)"
proof -
  obtain a b where ab: "s = int a" "e = int b" "a < N" "b < N" "N \<le> length xs" using assms(1) by (rule idx_ok_nat)
  have "ring_count N a b \<noteq> 0" using assms(2) ab by (intro notI) simp
  then have c: "ring_count N a b = Suc (ring_count N ((a + 1) mod N) b)" by (rule ring_count_read [OF ab(3,4)])
  then have "ring_list N a (ring_count N a b) xs = xs ! a # ring_list N ((a + 1) mod N) (ring_count N ((a + 1) mod N) b) xs"
    using ring_list_read [of N a _ xs] ab by simp
  then show ?thesis using ab by (simp add: int_mod_Suc idx_ok_def)
qed

definition pb_inv :: "PacketBuffer \<Rightarrow> bool" where
  "pb_inv pb \<longleftrightarrow> idx_ok 4096 (pb_start pb) (pb_end pb) (pb_elems pb)"

definition pb_list :: "PacketBuffer \<Rightarrow> Packet list" where
  "pb_list pb = idx_list 4096 (pb_start pb) (pb_end pb) (pb_elems pb)"

definition pb_put :: "Packet \<Rightarrow> PacketBuffer \<Rightarrow> PacketBuffer option" where
  "pb_put p pb = map_option snd (pb_write pb p)"

definition pb_get :: "PacketBuffer \<Rightarrow> (Packet \<times> PacketBuffer) option" where
  "pb_get pb = map_option snd (pb_read pb)"

interpretation pbq: bounded_queue pb_inv pb_list 4095 pb_is_full pb_is_empty pb_put pb_get "\<lambda>_ _. True"
proof unfold_locales
  fix q :: PacketBuffer and v :: Packet
  assume inv: "pb_inv q"
  show "length (pb_list q) \<le> 4095" using idx_length inv by (fastforce simp: pb_inv_def pb_list_def)
  show "pb_is_full q \<longleftrightarrow> length (pb_list q) = 4095"
    using idx_full inv by (fastforce simp: pb_inv_def pb_list_def pb_is_full_def PKT_BUFFER_SIZE_def)
  show "pb_is_empty q \<longleftrightarrow> pb_list q = []"
    using idx_empty inv by (simp add: pb_inv_def pb_list_def pb_is_empty_def)
  show "\<exists>q'. pb_put v q = Some q' \<and> pb_inv q' \<and> pb_list q' = pb_list q @ [v] \<and> (\<forall>u. True \<longrightarrow> True)" if "length (pb_list q) < 4095"
    using idx_write [of 4096 "pb_start q" "pb_end q" "pb_elems q" v] inv that
    by (auto simp: pb_inv_def pb_list_def pb_put_def pb_write_def PKT_BUFFER_SIZE_def)
  show "\<exists>q'. pb_get q = Some (hd (pb_list q), q') \<and> pb_inv q' \<and> pb_list q' = tl (pb_list q) \<and> (\<forall>u. True \<longrightarrow> True)" if "pb_list q \<noteq> []"
    using idx_read [of 4096 "pb_start q" "pb_end q" "pb_elems q"] inv that
    by (auto simp: pb_inv_def pb_list_def pb_get_def pb_read_def PKT_BUFFER_SIZE_def)
qed

definition cb_inv :: "CircularBuffer \<Rightarrow> bool" where
  "cb_inv cb \<longleftrightarrow> idx_ok 100 (cb_start cb) (cb_end cb) (cb_elems cb)"

definition cb_list :: "CircularBuffer \<Rightarrow> esim_packet list" where
  "cb_list cb = idx_list 100 (cb_start cb) (cb_end cb) (cb_elems cb)"

definition cb_put :: "esim_packet \<Rightarrow> CircularBuffer \<Rightarrow> CircularBuffer option" where
  "cb_put p cb = cbWrite cb p"

interpretation cbq: bounded_queue cb_inv cb_list 99 cbIsFull cbIsEmpty cb_put cbRead "\<lambda>_ _. True"
proof unfold_locales
  fix q :: CircularBuffer and v :: esim_packet
  assume inv: "cb_inv q"
  show "length (cb_list q) \<le> 99" using idx_length inv by (fastforce simp: cb_inv_def cb_list_def)
  show "cbIsFull q \<longleftrightarrow> length (cb_list q) = 99"
    using idx_full inv by (fastforce simp: cb_inv_def cb_list_def cbIsFull_def BUFFER_SIZE_def)
  show "cbIsEmpty q \<longleftrightarrow> cb_list q = []"
    using idx_empty inv by (simp add: cb_inv_def cb_list_def cbIsEmpty_def)
  show "\<exists>q'. cb_put v q = Some q' \<and> cb_inv q' \<and> cb_list q' = cb_list q @ [v] \<and> (\<forall>u. True \<longrightarrow> True)" if "length (cb_list q) < 99"
    using idx_write [of 100 "cb_start q" "cb_end q" "cb_elems q" v] inv that
    by (auto simp: cb_inv_def cb_list_def cb_put_def cbWrite_def BUFFER_SIZE_def)
  show "\<exists>q'. cbRead q = Some (hd (cb_list q), q') \<and> cb_inv q' \<and> cb_list q' = tl (cb_list q) \<and> (\<forall>u. True \<longrightarrow> True)" if "cb_list q \<noteq> []"
    using idx_read [of 100 "cb_start q" "cb_end q" "cb_elems q"] inv that
    by (auto simp: cb_inv_def cb_list_def cbRead_def BUFFER_SIZE_def)
qed

section \<open>Properties\<close>

text \<open>
  C30: The packet ring is a first-in first-out channel. After \<open>pb_init\<close>, in every interleaving of a
  writer and a reader that check for full and empty as \<open>comm_send\<close> and \<open>comm_recv\<close> do, no access
  leaves the array, the packets read are the packets written in the same order, and those still
  missing, at most 4095, are in the ring.
\<close>

theorem packet_buffer_fifo:
  assumes "length (pb_elems pb) = 4097"
  shows "\<exists>ws rs pb'. qrun pb_is_full pb_is_empty pb_put pb_get ops (pb_init pb) = Some (ws, rs, pb') \<and>
    ws = rs @ pb_list pb' \<and> length (pb_list pb') \<le> 4095"
proof -
  have inv: "pb_inv (pb_init pb)" "pb_list (pb_init pb) = []"
    using assms by (simp_all add: pb_inv_def pb_init_def idx_ok_def pb_list_def idx_list_def ring_count_def)
  then obtain ws rs pb' where r: "qrun pb_is_full pb_is_empty pb_put pb_get ops (pb_init pb) = Some (ws, rs, pb')"
    "pb_inv pb'" "pb_list (pb_init pb) @ ws = rs @ pb_list pb'"
    using pbq.fifo_history [OF inv(1), of ops] by blast
  then show ?thesis using pbq.bound [OF r(2)] inv(2) by simp
qed

definition demo_packet :: "u32 \<Rightarrow> Packet" where
  "demo_packet a = \<lparr>pkt_type = packet_read, pkt_size = 4, pkt_cycle = 10, pkt_address = a,
     pkt_data = replicate 8 0, pkt_flags = 1\<rparr>"

lemma packet_buffer_fifo_witness:
  "\<exists>ws rs pb'. qrun pb_is_full pb_is_empty pb_put pb_get [QPut (demo_packet 1), QGet, QGet, QPut (demo_packet 2)]
      (pb_init \<lparr>pb_start = 7, pb_end = 9, pb_elems = replicate 4097 (demo_packet 0)\<rparr>) = Some (ws, rs, pb') \<and>
    ws = rs @ pb_list pb' \<and> length (pb_list pb') \<le> 4095"
  using packet_buffer_fifo [of "\<lparr>pb_start = 7, pb_end = 9, pb_elems = replicate 4097 (demo_packet 0)\<rparr>"
    "[QPut (demo_packet 1), QGet, QGet, QPut (demo_packet 2)]"] by simp

text \<open>
  C31: The message buffer carries a message unchanged exactly when it fits: writing \<open>sz\<close> bytes of
  data stays inside the payload if and only if \<open>sz\<close> is at most 4096, the buffer then counts as full
  when \<open>sz\<close> is not 0, and reading \<open>sz\<close> bytes gives the data back and empties the buffer.
\<close>

theorem spm_buffer_roundtrip:
  assumes "length (sp_payload sb) = SP_BUFFER_SIZE" "length data = unat sz" "length dst = unat sz"
  shows "(sp_write sb data sz \<noteq> None) = (unat sz \<le> SP_BUFFER_SIZE) \<and>
    (\<forall>sb'. sp_write sb data sz = Some sb' \<longrightarrow> sp_is_full sb' = (sz \<noteq> 0) \<and>
       (\<exists>sb''. sp_read sb' dst sz = Some (data, sb'') \<and> sp_is_empty sb''))"
proof -
  have full: "0 < sz \<longleftrightarrow> sz \<noteq> 0" by (simp add: word_gt_0)
  show ?thesis
    using assms by (auto simp: sp_write_def sp_read_def copy_bytes_def sp_is_full_def sp_is_empty_def full)
qed

lemma spm_buffer_roundtrip_witness:
  "sp_write \<lparr>sp_size = 0, sp_payload = replicate 4096 0\<rparr> [1, 2, 3] 3 \<noteq> None"
  using spm_buffer_roundtrip [of "\<lparr>sp_size = 0, sp_payload = replicate 4096 0\<rparr>" "[1, 2, 3]" 3 "[0, 0, 0]"]
  by (simp add: SP_BUFFER_SIZE_def)

end
