(* ===== verification/Hsim_Mmap.thy ===== *)
theory Hsim_Mmap
  imports Linked_List "HOL-Library.Multiset"
begin

text \<open>
  The memory map of \<open>hsim_mmap.c\<close>: a linked list of regions, searched from the head, in which a
  region that is found moves to the front. Moving it leaves the \<open>prev\<close> field of the new head as it
  was; the list predicate \<open>flist\<close> therefore says nothing about that one field.
\<close>

section \<open>State\<close>

text \<open>\<open>MEM_OTHER\<close> is a number outside the enumeration, which the environment file can contain.\<close>

datatype MemoryType = MEM_VIRTUAL | MEM_INTERNAL | MEM_LOCAL | MEM_SCRATCHPAD | MEM_SHARED_C
  | MEM_SHARED_NC | MEM_UNKNOWN | MEM_UNDEFINED | MEM_OTHER u32

record mem_region =
  mr_base :: u32
  mr_size :: u32
  mr_latency :: u64
  mr_type :: MemoryType
  mr_next :: ptr
  mr_prev :: ptr

record memmap =
  mem_region_head :: ptr
  regions :: "addr \<rightharpoonup> mem_region"

definition SYS_REG_BASE :: u32 where
  "SYS_REG_BASE = 0xE0000000"

definition NUM_SYS_REG :: nat where
  "NUM_SYS_REG = 8"

definition MEM_LOCAL_BASE :: u32 where
  "MEM_LOCAL_BASE = 0"

definition MEM_LOCAL_SIZE :: u32 where
  "MEM_LOCAL_SIZE = 0x30000000"

section \<open>Operations\<close>

definition memmap_initialize :: "memmap \<Rightarrow> memmap" where
  "memmap_initialize m = m\<lparr>mem_region_head := None\<rparr>"

definition memmap_destroy :: "memmap \<Rightarrow> memmap option" where
  "memmap_destroy m = do {
     h \<leftarrow> walk_upd (regions m) mr_next (\<lambda>r. None) (mem_region_head m);
     Some (m\<lparr>regions := h\<rparr>) }"

definition memmap_add_region :: "ptr \<Rightarrow> memmap \<Rightarrow> memmap option" where
  "memmap_add_region pRegion m = do {
     h \<leftarrow> store (regions m) pRegion (\<lambda>r. r\<lparr>mr_prev := None, mr_next := None\<rparr>);
     if mem_region_head m = None then Some (m\<lparr>mem_region_head := pRegion, regions := h\<rparr>)
     else do {
       prevRegion \<leftarrow> walk_find h mr_next (\<lambda>r. mr_next r = None) (mem_region_head m);
       h \<leftarrow> store h prevRegion (\<lambda>r. r\<lparr>mr_next := pRegion\<rparr>);
       h \<leftarrow> store h pRegion (\<lambda>r. r\<lparr>mr_prev := prevRegion\<rparr>);
       Some (m\<lparr>regions := h\<rparr>) } }"

definition memmap_is_local :: "u32 \<Rightarrow> bool" where
  "memmap_is_local a \<longleftrightarrow> a < MEM_LOCAL_BASE + MEM_LOCAL_SIZE"

definition in_region :: "u32 \<Rightarrow> mem_region \<Rightarrow> bool" where
  "in_region a r \<longleftrightarrow> mr_base r \<le> a \<and> a < mr_base r + mr_size r"

definition memmap_find_mem_region :: "u32 \<Rightarrow> memmap \<Rightarrow> (ptr \<times> memmap) option" where
  "memmap_find_mem_region a m = do {
     pRegion \<leftarrow> walk_find (regions m) mr_next (in_region a) (mem_region_head m);
     if pRegion \<noteq> None \<and> pRegion \<noteq> mem_region_head m then do {
       let h = regions m;
       r \<leftarrow> load h pRegion;
       h \<leftarrow> store h (mr_prev r) (\<lambda>n. n\<lparr>mr_next := mr_next r\<rparr>);
       r \<leftarrow> load h pRegion;
       h \<leftarrow> (if mr_next r \<noteq> None then store h (mr_next r) (\<lambda>n. n\<lparr>mr_prev := mr_prev r\<rparr>) else Some h);
       h \<leftarrow> store h pRegion (\<lambda>n. n\<lparr>mr_next := mem_region_head m\<rparr>);
       h \<leftarrow> store h (mem_region_head m) (\<lambda>n. n\<lparr>mr_prev := pRegion\<rparr>);
       Some (pRegion, m\<lparr>regions := h, mem_region_head := pRegion\<rparr>) }
     else Some (pRegion, m) }"

text \<open>The comparison is done in 64 bits (\<open>sizeof\<close> is a \<open>size_t\<close>).\<close>

definition is_sysreg :: "u32 \<Rightarrow> bool" where
  "is_sysreg a \<longleftrightarrow> SYS_REG_BASE \<le> a \<and> unat a < unat SYS_REG_BASE + NUM_SYS_REG * 4"

definition memmap_is_shared :: "u32 \<Rightarrow> memmap \<Rightarrow> (bool \<times> memmap) option" where
  "memmap_is_shared a m = do {
     (pRegion, m) \<leftarrow> memmap_find_mem_region a m;
     if is_sysreg a then Some (True, m)
     else if pRegion \<noteq> None then do {
       r \<leftarrow> load (regions m) pRegion;
       Some (mr_type r = MEM_SCRATCHPAD \<or> mr_type r = MEM_SHARED_C \<or> mr_type r = MEM_SHARED_NC, m) }
     else Some (False, m) }"

definition memmap_get_type :: "u32 \<Rightarrow> memmap \<Rightarrow> (MemoryType \<times> memmap) option" where
  "memmap_get_type a m =
     (if is_sysreg a then Some (MEM_INTERNAL, m)
      else do {
        (pRegion, m) \<leftarrow> memmap_find_mem_region a m;
        if pRegion \<noteq> None then do { r \<leftarrow> load (regions m) pRegion; Some (mr_type r, m) }
        else Some (MEM_UNKNOWN, m) })"

section \<open>The list of regions\<close>

interpretation reg: linked mr_next mr_prev "\<lambda>v. mr_next_update (\<lambda>_. v)" "\<lambda>v. mr_prev_update (\<lambda>_. v)"
  by unfold_locales simp_all

definition flist :: "(addr \<rightharpoonup> mem_region) \<Rightarrow> ptr \<Rightarrow> addr list \<Rightarrow> bool" where
  "flist h f xs \<longleftrightarrow> distinct xs \<and> set xs \<subseteq> dom h \<and> f = hdo xs None \<and>
     (\<exists>p. dseg (fld mr_next h) (fld mr_prev h) p xs None)"

text \<open>What a region says, apart from its place in the list.\<close>

type_synonym region = "u32 \<times> u32 \<times> MemoryType"

definition region_of :: "mem_region \<Rightarrow> region" where
  "region_of r = (mr_base r, mr_size r, mr_type r)"

definition region_has :: "u32 \<Rightarrow> region \<Rightarrow> bool" where
  "region_has a = (\<lambda>(b, s, t). b \<le> a \<and> a < b + s)"

definition map_regions :: "memmap \<Rightarrow> addr list \<Rightarrow> region list" where
  "map_regions m xs = map (\<lambda>a. region_of (the (regions m a))) xs"

lemma in_region_has [simp]: "in_region a r \<longleftrightarrow> region_has a (region_of r)"
  by (simp add: in_region_def region_has_def region_of_def)

definition same_regions :: "(addr \<rightharpoonup> mem_region) \<Rightarrow> (addr \<rightharpoonup> mem_region) \<Rightarrow> bool" where
  "same_regions h h' \<longleftrightarrow> (\<forall>a. map_option region_of (h' a) = map_option region_of (h a))"

lemma same_regions_the: "same_regions h h' \<Longrightarrow> a \<in> dom h \<Longrightarrow> region_of (the (h' a)) = region_of (the (h a))"
  by (auto simp: same_regions_def dom_def) (metis option.map_sel option.sel option.simps(3) option.map_disc_iff)

lemma same_regions_dom: "same_regions h h' \<Longrightarrow> dom h' = dom h"
  unfolding same_regions_def dom_def set_eq_iff mem_Collect_eq by (metis option.map_disc_iff)

lemma same_regions_upd:
  "same_regions h h1 \<Longrightarrow> a \<in> dom h1 \<Longrightarrow> region_of n = region_of (the (h1 a)) \<Longrightarrow> same_regions h (h1(a \<mapsto> n))"
  by (simp add: same_regions_def) (metis domIff option.exhaust_sel option.simps(9))

lemma same_regions_relink:
  assumes "same_regions h h1" "set_option p \<subseteq> dom h1"
  shows "same_regions h (reg.relink_next h1 p v)" "same_regions h (reg.relink_prev h1 p v)"
  using assms same_regions_upd [of h h1]
  by (cases p; simp add: reg.relink_next_def reg.relink_prev_def region_of_def)+

lemma same_regions_refl [simp]: "same_regions h h"
  by (simp add: same_regions_def)

lemma find_nth:
  "List.find P xs = Some x \<Longrightarrow> \<exists>i<length xs. x = xs ! i \<and> P (xs ! i) \<and> (\<forall>j<i. \<not> P (xs ! j))"
  by (auto simp: find_Some_iff)

lemma find_first: "P y \<Longrightarrow> \<forall>x\<in>set xs. \<not> P x \<Longrightarrow> List.find P (xs @ y # ys) = Some y"
  by (induction xs) auto

lemma flist_walk:
  "flist h f xs \<Longrightarrow> walk_find h mr_next P f = Some (List.find (\<lambda>a. P (the (h a))) xs)"
  by (auto simp: flist_def intro: walk_find_seg)

text \<open>Looking an address up: the first region that has it, moved to the front.\<close>

lemma find_region_move:
  assumes fl: "flist (regions m) (mem_region_head m) (as @ b # cs)"
    and hit: "in_region a (the (regions m b))" "\<forall>x\<in>set as. \<not> in_region a (the (regions m x))"
  shows "\<exists>m'. memmap_find_mem_region a m = Some (Some b, m') \<and>
    flist (regions m') (mem_region_head m') (b # as @ cs) \<and> same_regions (regions m) (regions m')"
proof -
  let ?h = "regions m"
  have "List.find (\<lambda>x. in_region a (the (?h x))) (as @ b # cs) = Some b"
    using hit by (rule find_first)
  then have w: "walk_find ?h mr_next (in_region a) (mem_region_head m) = Some (Some b)"
    using flist_walk [OF fl] by simp
  show ?thesis
  proof (cases "as = []")
    case True
    then show ?thesis using fl w by (auto simp: memmap_find_mem_region_def flist_def same_regions_def)
  next
    case ne: False
    obtain p where sg: "dseg (fld mr_next ?h) (fld mr_prev ?h) p (as @ b # cs) None"
      and d: "distinct (as @ b # cs)" "set (as @ b # cs) \<subseteq> dom ?h" and hd0: "mem_region_head m = Some (hd as)"
      using fl ne by (auto simp: flist_def hdo_nonempty)
    define q f where "q = last as" and "f = hd as"
    have q: "q \<in> set as" "f \<in> set as" using ne by (simp_all add: q_def f_def)
    obtain n where n: "?h b = Some n" using d by auto
    have fn: "mr_prev n = Some q" "mr_next n = hdo cs None"
      using sg n ne by (simp_all add: dseg_append lasto_nonempty q_def fld_def)
    have ne3: "q \<noteq> b" "f \<noteq> b" "f \<notin> set cs" "q \<notin> set cs" "b \<notin> set cs" using d(1) q by auto
    have dm: "q \<in> dom ?h" "f \<in> dom ?h" "b \<in> dom ?h" using d(2) q by auto
    define h1 where "h1 = reg.relink_next ?h (Some q) (hdo cs None)"
    define h2 where "h2 = reg.relink_prev h1 (hdo cs None) (Some q)"
    define h3 where "h3 = reg.relink_next h2 (Some b) (Some f)"
    define h4 where "h4 = reg.relink_prev h3 (Some f) (Some b)"
    have c: "set_option (hdo cs None) \<subseteq> dom ?h" using d(2) by (cases cs) auto
    have dom1: "dom h1 = dom ?h" using dm by (simp add: h1_def reg.dom_relink)
    have dom2: "dom h2 = dom ?h" using dom1 c by (simp add: h2_def reg.dom_relink)
    have dom3: "dom h3 = dom ?h" using dom2 dm by (simp add: h3_def reg.dom_relink)
    have b1: "h1 b = Some n" using n ne3 by (simp add: h1_def reg.relink_fields)
    have s1: "store ?h (Some q) (mr_next_update (\<lambda>_. hdo cs None)) = Some h1"
      using reg.store_relink(1) [OF dm(1)] by (simp add: h1_def)
    have s2: "(if hdo cs None \<noteq> None then store h1 (hdo cs None) (mr_prev_update (\<lambda>_. Some q)) else Some h1) = Some h2"
      using reg.store_relink(2) [of _ h1] c dom1 by (cases cs) (auto simp: h2_def)
    have s3: "store h2 (Some b) (mr_next_update (\<lambda>_. Some f)) = Some h3"
      using reg.store_relink(1) [of b h2] dm dom2 by (simp add: h3_def)
    have s4: "store h3 (Some f) (mr_prev_update (\<lambda>_. Some b)) = Some h4"
      using reg.store_relink(2) [of f h3] dm dom3 by (simp add: h4_def)
    have "memmap_find_mem_region a m = Some (Some b, m\<lparr>regions := h4, mem_region_head := Some b\<rparr>)"
      using w hd0 ne3 n fn b1 s1 s2 s3 s4
      by (cases cs) (simp_all add: memmap_find_mem_region_def f_def [symmetric] Let_def)
    moreover have "flist h4 (Some b) (b # as @ cs)"
    proof -
      have "fld mr_next h4 = (fld mr_next ?h)(q := hdo cs None, b := Some f)"
        using dm dom1 dom2 dom3 c by (cases cs) (simp_all add: h4_def h3_def h2_def h1_def reg.fld_relink reg.dom_relink)
      moreover have "fld mr_prev h4 = (case cs of [] \<Rightarrow> fld mr_prev ?h | c # _ \<Rightarrow> (fld mr_prev ?h)(c := Some q))(f := Some b)"
        using dm dom1 dom2 dom3 c by (cases cs) (simp_all add: h4_def h3_def h2_def h1_def reg.fld_relink reg.dom_relink)
      ultimately have "dseg (fld mr_next h4) (fld mr_prev h4) (Some q) (b # as @ cs) None"
        using dseg_move_front [OF sg d(1) ne] by (simp only: q_def f_def)
      moreover have "dom h4 = dom ?h" using dom3 dm by (simp add: h4_def reg.dom_relink)
      ultimately show ?thesis using d by (auto simp: flist_def)
    qed
    moreover have "same_regions ?h h4"
      unfolding h4_def h3_def h2_def h1_def
      by (intro same_regions_relink) (use dm c in \<open>auto simp: reg.dom_relink\<close>)
    ultimately show ?thesis by auto
  qed
qed

lemma find_region_miss:
  assumes "flist (regions m) (mem_region_head m) xs" "\<forall>x\<in>set xs. \<not> in_region a (the (regions m x))"
  shows "memmap_find_mem_region a m = Some (None, m)"
proof -
  have "List.find (\<lambda>x. in_region a (the (regions m x))) xs = None" using assms(2) by (simp add: find_None_iff)
  then show ?thesis using flist_walk [OF assms(1)] by (simp add: memmap_find_mem_region_def)
qed

lemma add_region_appends:
  assumes fl: "flist (regions m) (mem_region_head m) xs" and a: "a \<in> dom (regions m)" "a \<notin> set xs"
  shows "\<exists>m'. memmap_add_region (Some a) m = Some m' \<and>
    flist (regions m') (mem_region_head m') (xs @ [a]) \<and> same_regions (regions m) (regions m')"
proof -
  obtain n where n: "regions m a = Some n" using a by auto
  define h1 where "h1 = (regions m)(a \<mapsto> n\<lparr>mr_prev := None, mr_next := None\<rparr>)"
  have s1: "store (regions m) (Some a) (\<lambda>r. r\<lparr>mr_prev := None, mr_next := None\<rparr>) = Some h1"
    using n by (simp add: store_Some h1_def)
  have fl1: "flist h1 (mem_region_head m) xs" using fl a by (auto simp: flist_def h1_def)
  have sr: "same_regions (regions m) h1" using n by (auto simp: same_regions_def h1_def region_of_def)
  have fa: "fld mr_next h1 a = None" "a \<in> dom h1" by (simp_all add: h1_def)
  show ?thesis
  proof (cases xs rule: rev_cases)
    case Nil
    then show ?thesis using fl fl1 s1 sr fa
      by (auto simp: memmap_add_region_def flist_def)
  next
    case (snoc ys z)
    obtain p where sg: "dseg (fld mr_next h1) (fld mr_prev h1) p (ys @ [z]) None" and z: "z \<in> dom h1" "z \<notin> set ys" "z \<noteq> a"
      using fl1 a snoc by (auto simp: flist_def)
    have hd0: "mem_region_head m \<noteq> None" using fl snoc by (cases ys) (auto simp: flist_def)
    have "List.find (\<lambda>x. mr_next (the (h1 x)) = None) xs = List.find (\<lambda>x. fld mr_next h1 x = None) xs"
      using fl1 by (intro find_cong) (auto simp: flist_def fld_def)
    then have w: "walk_find h1 mr_next (\<lambda>r. mr_next r = None) (mem_region_head m) = Some (Some z)"
      using flist_walk [OF fl1] dseg_find_last [OF sg] snoc by simp
    define h2 where "h2 = reg.relink_next h1 (Some z) (Some a)"
    define h3 where "h3 = reg.relink_prev h2 (Some a) (Some z)"
    have d2: "dom h2 = dom h1" "dom h3 = dom h1" using z fa by (simp_all add: h2_def h3_def reg.dom_relink insert_absorb)
    have s2: "store h1 (Some z) (mr_next_update (\<lambda>_. Some a)) = Some h2"
      using reg.store_relink(1) [OF z(1)] by (simp add: h2_def)
    have s3: "store h2 (Some a) (mr_prev_update (\<lambda>_. Some z)) = Some h3"
      using reg.store_relink(2) [of a h2] d2 fa by (simp add: h3_def)
    have "memmap_add_region (Some a) m = Some (m\<lparr>regions := h3\<rparr>)"
      using s1 w s2 s3 hd0 by (auto simp: memmap_add_region_def)
    moreover have "fld mr_next h3 = (fld mr_next h1)(z := Some a)" "fld mr_prev h3 = (fld mr_prev h1)(a := Some z)"
      using z fa d2 by (simp_all add: h3_def h2_def reg.fld_relink reg.dom_relink)
    then have "dseg (fld mr_next h3) (fld mr_prev h3) p (xs @ [a]) None"
      using dseg_set_last [OF sg z(2), of "Some a"] a fa z snoc by (simp add: dseg_append)
    then have "flist h3 (mem_region_head m) (xs @ [a])"
      using fl1 a fa d2 snoc by (auto simp: flist_def)
    moreover have "same_regions (regions m) h3"
      unfolding h3_def h2_def using sr z fa by (auto intro!: same_regions_relink simp: reg.relink_fields)
    ultimately show ?thesis by auto
  qed
qed

lemma destroy_frees:
  assumes "flist (regions m) (mem_region_head m) xs"
  shows "memmap_destroy m = Some (m\<lparr>regions := (\<lambda>a. if a \<in> set xs then None else regions m a)\<rparr>)"
proof -
  obtain p where "dseg (fld mr_next (regions m)) (fld mr_prev (regions m)) p xs None" "set xs \<subseteq> dom (regions m)"
    "distinct xs" "mem_region_head m = hdo xs None" using assms by (auto simp: flist_def)
  then show ?thesis by (simp add: memmap_destroy_def walk_upd_seg cong: if_cong)
qed

section \<open>What a lookup answers\<close>

fun region_disjoint :: "region \<Rightarrow> region \<Rightarrow> bool" where
  "region_disjoint (b, s, t) (b', s', t') = (b + s \<le> b' \<or> b' + s' \<le> b)"

fun non_overlapping :: "region list \<Rightarrow> bool" where
  "non_overlapping [] = True"
| "non_overlapping (r # rs) = (list_all (region_disjoint r) rs \<and> non_overlapping rs)"

definition table_find :: "region list \<Rightarrow> u32 \<Rightarrow> MemoryType option" where
  "table_find rs a = map_option (\<lambda>(b, s, t). t) (List.find (region_has a) rs)"

definition table_type :: "region list \<Rightarrow> u32 \<Rightarrow> MemoryType" where
  "table_type rs a = (if is_sysreg a then MEM_INTERNAL else case table_find rs a of None \<Rightarrow> MEM_UNKNOWN | Some t \<Rightarrow> t)"

definition table_shared :: "region list \<Rightarrow> u32 \<Rightarrow> bool" where
  "table_shared rs a \<longleftrightarrow> is_sysreg a \<or>
     table_find rs a \<in> {Some MEM_SCRATCHPAD, Some MEM_SHARED_C, Some MEM_SHARED_NC}"

lemma region_disjoint_has: "region_disjoint r r' \<Longrightarrow> region_has a r \<Longrightarrow> \<not> region_has a r'"
  by (cases r; cases r') (auto simp: region_has_def)

lemma non_overlapping_unique:
  "non_overlapping rs \<Longrightarrow> r \<in> set rs \<Longrightarrow> r' \<in> set rs \<Longrightarrow> region_has a r \<Longrightarrow> region_has a r' \<Longrightarrow> r = r'"
  by (induction rs) (auto simp: list_all_iff dest: region_disjoint_has)

lemma table_find_same:
  assumes "non_overlapping rs" "set rs' = set rs"
  shows "table_find rs' a = table_find rs a"
proof (cases "List.find (region_has a) rs")
  case None
  then have "List.find (region_has a) rs' = None" using assms(2) by (simp add: find_None_iff)
  then show ?thesis using None by (simp add: table_find_def)
next
  case (Some r)
  then have r: "r \<in> set rs" "region_has a r" by (auto simp: find_Some_iff)
  then have "List.find (region_has a) rs' \<noteq> None" using assms(2) unfolding find_None_iff by blast
  then obtain r' where r': "List.find (region_has a) rs' = Some r'" by blast
  then have "r' \<in> set rs" "region_has a r'" using assms(2) by (auto simp: find_Some_iff dest: nth_mem)
  then show ?thesis using non_overlapping_unique [OF assms(1), of r r' a] r r' Some by (simp add: table_find_def)
qed

text \<open>The map holds the regions of a table, in any order.\<close>

definition memmap_table :: "memmap \<Rightarrow> region list \<Rightarrow> bool" where
  "memmap_table m rs \<longleftrightarrow>
     (\<exists>xs. flist (regions m) (mem_region_head m) xs \<and> mset (map_regions m xs) = mset rs)"

lemma memmap_table_initialize: "memmap_table (memmap_initialize m) []"
  by (auto simp: memmap_table_def memmap_initialize_def flist_def map_regions_def)

lemma map_regions_same:
  "same_regions (regions m) (regions m') \<Longrightarrow> set xs \<subseteq> dom (regions m) \<Longrightarrow> map_regions m' xs = map_regions m xs"
  by (auto simp: map_regions_def same_regions_the subset_iff)

lemma memmap_find_table:
  assumes t: "memmap_table m rs" and no: "non_overlapping rs"
  shows "\<exists>p m'. memmap_find_mem_region a m = Some (p, m') \<and> memmap_table m' rs \<and>
    map_option mr_type (load (regions m') p) = table_find rs a \<and> (p = None \<longleftrightarrow> table_find rs a = None)"
proof -
  obtain xs where xs: "flist (regions m) (mem_region_head m) xs" "mset (map_regions m xs) = mset rs"
    using t by (auto simp: memmap_table_def)
  have dom: "set xs \<subseteq> dom (regions m)" using xs(1) by (simp add: flist_def)
  have tf: "table_find rs a = table_find (map_regions m xs) a"
    using table_find_same [OF no, of "map_regions m xs"] mset_eq_setD [OF xs(2)] by simp
  show ?thesis
  proof (cases "List.find (\<lambda>x. in_region a (the (regions m x))) xs")
    case None
    then have no: "\<forall>x\<in>set xs. \<not> in_region a (the (regions m x))" by (simp add: find_None_iff)
    then have "List.find (region_has a) (map_regions m xs) = None"
      unfolding find_None_iff map_regions_def by force
    then show ?thesis using find_region_miss [OF xs(1) no] t tf by (simp add: table_find_def)
  next
    case (Some b)
    then obtain i where i: "i < length xs" "b = xs ! i" "in_region a (the (regions m b))"
      "\<forall>j<i. \<not> in_region a (the (regions m (xs ! j)))" using find_nth [OF Some] by metis
    define as cs where "as = take i xs" and "cs = drop (Suc i) xs"
    have sp: "xs = as @ b # cs" using i by (simp add: as_def cs_def id_take_nth_drop)
    have miss: "\<forall>x\<in>set as. \<not> in_region a (the (regions m x))" using i by (auto simp: as_def in_set_conv_nth)
    obtain m' where m': "memmap_find_mem_region a m = Some (Some b, m')"
      "flist (regions m') (mem_region_head m') (b # as @ cs)" "same_regions (regions m) (regions m')"
      using find_region_move [of m as b cs a] xs(1) i(3) miss sp by auto
    have eq: "map_regions m' (b # as @ cs) = map_regions m (b # as @ cs)"
      using dom sp by (intro map_regions_same [OF m'(3)]) auto
    have "mset (map_regions m' (b # as @ cs)) = mset rs"
      unfolding eq using xs(2) by (simp add: sp map_regions_def)
    then have tab: "memmap_table m' rs" using m'(2) unfolding memmap_table_def by blast
    obtain n where n: "regions m' b = Some n" using m'(2) by (auto simp: flist_def)
    have "region_of n = region_of (the (regions m b))"
      using same_regions_the [OF m'(3), of b] dom sp n by auto
    moreover have "List.find (region_has a) (map_regions m xs) = Some (region_of (the (regions m b)))"
      using i(3) miss unfolding sp map_regions_def map_append list.map by (intro find_first) auto
    ultimately have "table_find rs a = Some (mr_type n)"
      using tf by (simp add: table_find_def region_of_def)
    then show ?thesis using m'(1) tab n by simp
  qed
qed

lemma memmap_get_type_table:
  assumes "memmap_table m rs" "non_overlapping rs"
  shows "\<exists>m'. memmap_get_type a m = Some (table_type rs a, m') \<and> memmap_table m' rs"
proof -
  obtain p m' where f: "memmap_find_mem_region a m = Some (p, m')" "memmap_table m' rs"
    "map_option mr_type (load (regions m') p) = table_find rs a" "p = None \<longleftrightarrow> table_find rs a = None"
    using memmap_find_table [OF assms] by blast
  then show ?thesis using assms(1)
    by (cases "table_find rs a") (auto simp: memmap_get_type_def table_type_def)
qed

lemma memmap_is_shared_table:
  assumes "memmap_table m rs" "non_overlapping rs"
  shows "\<exists>m'. memmap_is_shared a m = Some (table_shared rs a, m') \<and> memmap_table m' rs"
proof -
  obtain p m' where f: "memmap_find_mem_region a m = Some (p, m')" "memmap_table m' rs"
    "map_option mr_type (load (regions m') p) = table_find rs a" "p = None \<longleftrightarrow> table_find rs a = None"
    using memmap_find_table [OF assms] by blast
  then show ?thesis
    by (cases "table_find rs a") (auto simp: memmap_is_shared_def table_shared_def)
qed

lemma memmap_add_region_table:
  assumes "memmap_table m rs" "a \<notin> dom (regions m)"
  shows "\<exists>m'. memmap_add_region (Some a) (m\<lparr>regions := (regions m)(a \<mapsto> r)\<rparr>) = Some m' \<and>
    memmap_table m' (rs @ [region_of r]) \<and> dom (regions m') = insert a (dom (regions m))"
proof -
  obtain xs where xs: "flist (regions m) (mem_region_head m) xs" "mset (map_regions m xs) = mset rs"
    using assms(1) by (auto simp: memmap_table_def)
  define m1 where "m1 = m\<lparr>regions := (regions m)(a \<mapsto> r)\<rparr>"
  have a: "a \<notin> set xs" "a \<in> dom (regions m1)" using xs(1) assms(2) by (auto simp: flist_def m1_def)
  have fl: "flist (regions m1) (mem_region_head m1) xs" using xs(1) a by (auto simp: flist_def m1_def)
  obtain m' where m': "memmap_add_region (Some a) m1 = Some m'"
    "flist (regions m') (mem_region_head m') (xs @ [a])" "same_regions (regions m1) (regions m')"
    using add_region_appends [OF fl a(2,1)] by blast
  have "map_regions m' (xs @ [a]) = map_regions m1 (xs @ [a])"
    using fl a by (intro map_regions_same [OF m'(3)]) (auto simp: flist_def)
  also have "\<dots> = map_regions m xs @ [region_of r]" using a(1) by (auto simp: map_regions_def m1_def)
  finally have "memmap_table m' (rs @ [region_of r])" using m'(2) xs(2) unfolding memmap_table_def by force
  moreover have "dom (regions m') = dom (regions m1)" using m'(3) by (rule same_regions_dom)
  ultimately show ?thesis using m'(1) by (auto simp: m1_def)
qed

section \<open>A run of the map\<close>

text \<open>
  The start-up code allocates one node per line of the environment file and adds it; afterwards
  the simulator asks for types and for sharing, in any order.
\<close>

definition memmap_install :: "(addr \<times> mem_region) list \<Rightarrow> memmap \<Rightarrow> memmap option" where
  "memmap_install = ofold (\<lambda>(a, r) m. memmap_add_region (Some a) (m\<lparr>regions := (regions m)(a \<mapsto> r)\<rparr>))"

datatype map_query = Get_Type u32 | Is_Shared u32

fun map_answer :: "region list \<Rightarrow> map_query \<Rightarrow> MemoryType + bool" where
  "map_answer rs (Get_Type a) = Inl (table_type rs a)"
| "map_answer rs (Is_Shared a) = Inr (table_shared rs a)"

fun memmap_query :: "map_query \<Rightarrow> memmap \<Rightarrow> ((MemoryType + bool) \<times> memmap) option" where
  "memmap_query (Get_Type a) m = map_option (\<lambda>(t, m). (Inl t, m)) (memmap_get_type a m)"
| "memmap_query (Is_Shared a) m = map_option (\<lambda>(s, m). (Inr s, m)) (memmap_is_shared a m)"

fun memmap_queries :: "map_query list \<Rightarrow> memmap \<Rightarrow> ((MemoryType + bool) list \<times> memmap) option" where
  "memmap_queries [] m = Some ([], m)"
| "memmap_queries (q # qs) m = do {
     (x, m) \<leftarrow> memmap_query q m;
     (xs, m) \<leftarrow> memmap_queries qs m;
     Some (x # xs, m) }"

lemma memmap_query_table:
  "memmap_table m rs \<Longrightarrow> non_overlapping rs \<Longrightarrow>
   \<exists>m'. memmap_query q m = Some (map_answer rs q, m') \<and> memmap_table m' rs"
  using memmap_get_type_table memmap_is_shared_table by (cases q) force+

lemma memmap_queries_table:
  "memmap_table m rs \<Longrightarrow> non_overlapping rs \<Longrightarrow>
   \<exists>m'. memmap_queries qs m = Some (map (map_answer rs) qs, m') \<and> memmap_table m' rs"
proof (induction qs arbitrary: m)
  case (Cons q qs)
  obtain m1 where m1: "memmap_query q m = Some (map_answer rs q, m1)" "memmap_table m1 rs"
    using memmap_query_table [OF Cons.prems] by blast
  then obtain m2 where "memmap_queries qs m1 = Some (map (map_answer rs) qs, m2)" "memmap_table m2 rs"
    using Cons.IH Cons.prems(2) by blast
  then show ?case using m1 by simp
qed simp

lemma memmap_install_table:
  "memmap_table m rs \<Longrightarrow> distinct (map fst ars) \<Longrightarrow> fst ` set ars \<inter> dom (regions m) = {} \<Longrightarrow>
   \<exists>m'. memmap_install ars m = Some m' \<and> memmap_table m' (rs @ map (region_of \<circ> snd) ars)"
proof (induction ars arbitrary: m rs)
  case (Cons ar ars)
  obtain a r where ar: "ar = (a, r)" by fastforce
  obtain m1 where m1: "memmap_add_region (Some a) (m\<lparr>regions := (regions m)(a \<mapsto> r)\<rparr>) = Some m1"
    "memmap_table m1 (rs @ [region_of r])" "dom (regions m1) = insert a (dom (regions m))"
    using memmap_add_region_table [OF Cons.prems(1), of a r] Cons.prems(3) ar by auto
  have "fst ` set ars \<inter> dom (regions m1) = {}" using Cons.prems(2,3) m1(3) ar by auto
  then obtain m2 where "memmap_install ars m1 = Some m2"
    "memmap_table m2 ((rs @ [region_of r]) @ map (region_of \<circ> snd) ars)"
    using Cons.IH [OF m1(2)] Cons.prems(2) unfolding list.map distinct.simps by blast
  then show ?case using m1(1) ar by (simp add: memmap_install_def comp_def)
qed (simp add: memmap_install_def)

text \<open>
  C10: Once a set of non-overlapping regions has been added to an initialised map, every lookup
  answers by the region that contains the address, whatever was looked up before: the
  move-to-front heuristic is never visible. The lookups always return.
\<close>

theorem memmap_answers_by_region:
  assumes "distinct (map fst ars)" "fst ` set ars \<inter> dom (regions m) = {}"
    and "non_overlapping (map (region_of \<circ> snd) ars)"
  shows "\<exists>m1 m2. memmap_install ars (memmap_initialize m) = Some m1 \<and>
    memmap_queries qs m1 = Some (map (map_answer (map (region_of \<circ> snd) ars)) qs, m2)"
proof -
  obtain m1 where m1: "memmap_install ars (memmap_initialize m) = Some m1"
    "memmap_table m1 (map (region_of \<circ> snd) ars)"
    using memmap_install_table [OF memmap_table_initialize [of m] assms(1)] assms(2)
    by (auto simp: memmap_initialize_def)
  then show ?thesis using memmap_queries_table [OF m1(2) assms(3), of qs] by blast
qed

definition demo_region :: "u32 \<Rightarrow> u32 \<Rightarrow> MemoryType \<Rightarrow> mem_region" where
  "demo_region b s t = \<lparr>mr_base = b, mr_size = s, mr_latency = 0, mr_type = t, mr_next = None, mr_prev = None\<rparr>"

definition demo_regions :: "(addr \<times> mem_region) list" where
  "demo_regions = [(8, demo_region 0x30000000 0x1000 MEM_SHARED_NC), (16, demo_region 0x40000000 0x2000 MEM_SCRATCHPAD)]"

theorem memmap_answers_by_region_witness:
  "(\<exists>m1 m2. memmap_install demo_regions (memmap_initialize \<lparr>mem_region_head = None, regions = Map.empty\<rparr>) = Some m1 \<and>
     memmap_queries [Get_Type 0x40000010, Get_Type 0x30000010, Is_Shared 0x50000000, Get_Type 0x40000010] m1 =
       Some (map (map_answer (map (region_of \<circ> snd) demo_regions))
         [Get_Type 0x40000010, Get_Type 0x30000010, Is_Shared 0x50000000, Get_Type 0x40000010], m2)) \<and>
   map (map_answer (map (region_of \<circ> snd) demo_regions))
     [Get_Type 0x40000010, Get_Type 0x30000010, Is_Shared 0x50000000, Get_Type 0x40000010] =
     [Inl MEM_SCRATCHPAD, Inl MEM_SHARED_NC, Inr False, Inl MEM_SCRATCHPAD]"
proof
  show "\<exists>m1 m2. memmap_install demo_regions (memmap_initialize \<lparr>mem_region_head = None, regions = Map.empty\<rparr>) = Some m1 \<and>
     memmap_queries [Get_Type 0x40000010, Get_Type 0x30000010, Is_Shared 0x50000000, Get_Type 0x40000010] m1 =
       Some (map (map_answer (map (region_of \<circ> snd) demo_regions))
         [Get_Type 0x40000010, Get_Type 0x30000010, Is_Shared 0x50000000, Get_Type 0x40000010], m2)"
    by (rule memmap_answers_by_region) (simp_all add: demo_regions_def demo_region_def region_of_def)
  show "map (map_answer (map (region_of \<circ> snd) demo_regions))
     [Get_Type 0x40000010, Get_Type 0x30000010, Is_Shared 0x50000000, Get_Type 0x40000010] =
     [Inl MEM_SCRATCHPAD, Inl MEM_SHARED_NC, Inr False, Inl MEM_SCRATCHPAD]"
    by (simp add: demo_regions_def demo_region_def region_of_def region_has_def table_type_def table_find_def
      table_shared_def is_sysreg_def SYS_REG_BASE_def NUM_SYS_REG_def)
qed

end
