(* ===== verification/Darm_Tbl.thy ===== *)
theory Darm_Tbl
  imports TQ_Prelude
begin

text \<open>
  The enumerations and lookup tables of the ARM decoder library \<open>darm\<close> that the trace analyzer
  carries (\<open>trace_analyzer/darm/darm-tbl.h\<close>, \<open>darm-tbl.c\<close>, \<open>armv7-tbl.c\<close>). A C enumeration is its
  number: an instruction label or an encoding type is a \<open>nat\<close>, and the names are abbreviations in
  the order of the source.
\<close>

section \<open>Instruction labels\<close>

type_synonym darm_instr_t = nat

type_synonym darm_enctype_t = nat

abbreviation (input) I_INVLD :: nat where "I_INVLD \<equiv> 0"
abbreviation (input) I_ADC :: nat where "I_ADC \<equiv> 1"
abbreviation (input) I_ADD :: nat where "I_ADD \<equiv> 2"
abbreviation (input) I_ADDW :: nat where "I_ADDW \<equiv> 3"
abbreviation (input) I_ADR :: nat where "I_ADR \<equiv> 4"
abbreviation (input) I_AND :: nat where "I_AND \<equiv> 5"
abbreviation (input) I_ASR :: nat where "I_ASR \<equiv> 6"
abbreviation (input) I_B :: nat where "I_B \<equiv> 7"
abbreviation (input) I_BFC :: nat where "I_BFC \<equiv> 8"
abbreviation (input) I_BFI :: nat where "I_BFI \<equiv> 9"
abbreviation (input) I_BIC :: nat where "I_BIC \<equiv> 10"
abbreviation (input) I_BKPT :: nat where "I_BKPT \<equiv> 11"
abbreviation (input) I_BL :: nat where "I_BL \<equiv> 12"
abbreviation (input) I_BLX :: nat where "I_BLX \<equiv> 13"
abbreviation (input) I_BX :: nat where "I_BX \<equiv> 14"
abbreviation (input) I_BXJ :: nat where "I_BXJ \<equiv> 15"
abbreviation (input) I_CBNZ :: nat where "I_CBNZ \<equiv> 16"
abbreviation (input) I_CBZ :: nat where "I_CBZ \<equiv> 17"
abbreviation (input) I_CDP :: nat where "I_CDP \<equiv> 18"
abbreviation (input) I_CDP2 :: nat where "I_CDP2 \<equiv> 19"
abbreviation (input) I_CHKA :: nat where "I_CHKA \<equiv> 20"
abbreviation (input) I_CLREX :: nat where "I_CLREX \<equiv> 21"
abbreviation (input) I_CLZ :: nat where "I_CLZ \<equiv> 22"
abbreviation (input) I_CMN :: nat where "I_CMN \<equiv> 23"
abbreviation (input) I_CMP :: nat where "I_CMP \<equiv> 24"
abbreviation (input) I_CPS :: nat where "I_CPS \<equiv> 25"
abbreviation (input) I_CPY :: nat where "I_CPY \<equiv> 26"
abbreviation (input) I_DBG :: nat where "I_DBG \<equiv> 27"
abbreviation (input) I_DMB :: nat where "I_DMB \<equiv> 28"
abbreviation (input) I_DSB :: nat where "I_DSB \<equiv> 29"
abbreviation (input) I_ENTERX :: nat where "I_ENTERX \<equiv> 30"
abbreviation (input) I_EOR :: nat where "I_EOR \<equiv> 31"
abbreviation (input) I_HB :: nat where "I_HB \<equiv> 32"
abbreviation (input) I_HBL :: nat where "I_HBL \<equiv> 33"
abbreviation (input) I_HBLP :: nat where "I_HBLP \<equiv> 34"
abbreviation (input) I_HBP :: nat where "I_HBP \<equiv> 35"
abbreviation (input) I_ISB :: nat where "I_ISB \<equiv> 36"
abbreviation (input) I_IT :: nat where "I_IT \<equiv> 37"
abbreviation (input) I_LDC :: nat where "I_LDC \<equiv> 38"
abbreviation (input) I_LDC2 :: nat where "I_LDC2 \<equiv> 39"
abbreviation (input) I_LDM :: nat where "I_LDM \<equiv> 40"
abbreviation (input) I_LDMDA :: nat where "I_LDMDA \<equiv> 41"
abbreviation (input) I_LDMDB :: nat where "I_LDMDB \<equiv> 42"
abbreviation (input) I_LDMIB :: nat where "I_LDMIB \<equiv> 43"
abbreviation (input) I_LDR :: nat where "I_LDR \<equiv> 44"
abbreviation (input) I_LDRB :: nat where "I_LDRB \<equiv> 45"
abbreviation (input) I_LDRBT :: nat where "I_LDRBT \<equiv> 46"
abbreviation (input) I_LDRD :: nat where "I_LDRD \<equiv> 47"
abbreviation (input) I_LDREX :: nat where "I_LDREX \<equiv> 48"
abbreviation (input) I_LDREXB :: nat where "I_LDREXB \<equiv> 49"
abbreviation (input) I_LDREXD :: nat where "I_LDREXD \<equiv> 50"
abbreviation (input) I_LDREXH :: nat where "I_LDREXH \<equiv> 51"
abbreviation (input) I_LDRH :: nat where "I_LDRH \<equiv> 52"
abbreviation (input) I_LDRHT :: nat where "I_LDRHT \<equiv> 53"
abbreviation (input) I_LDRSB :: nat where "I_LDRSB \<equiv> 54"
abbreviation (input) I_LDRSBT :: nat where "I_LDRSBT \<equiv> 55"
abbreviation (input) I_LDRSH :: nat where "I_LDRSH \<equiv> 56"
abbreviation (input) I_LDRSHT :: nat where "I_LDRSHT \<equiv> 57"
abbreviation (input) I_LDRT :: nat where "I_LDRT \<equiv> 58"
abbreviation (input) I_LEAVEX :: nat where "I_LEAVEX \<equiv> 59"
abbreviation (input) I_LSL :: nat where "I_LSL \<equiv> 60"
abbreviation (input) I_LSR :: nat where "I_LSR \<equiv> 61"
abbreviation (input) I_MCR :: nat where "I_MCR \<equiv> 62"
abbreviation (input) I_MCR2 :: nat where "I_MCR2 \<equiv> 63"
abbreviation (input) I_MCRR :: nat where "I_MCRR \<equiv> 64"
abbreviation (input) I_MCRR2 :: nat where "I_MCRR2 \<equiv> 65"
abbreviation (input) I_MLA :: nat where "I_MLA \<equiv> 66"
abbreviation (input) I_MLS :: nat where "I_MLS \<equiv> 67"
abbreviation (input) I_MOV :: nat where "I_MOV \<equiv> 68"
abbreviation (input) I_MOVT :: nat where "I_MOVT \<equiv> 69"
abbreviation (input) I_MOVW :: nat where "I_MOVW \<equiv> 70"
abbreviation (input) I_MRC :: nat where "I_MRC \<equiv> 71"
abbreviation (input) I_MRC2 :: nat where "I_MRC2 \<equiv> 72"
abbreviation (input) I_MRRC :: nat where "I_MRRC \<equiv> 73"
abbreviation (input) I_MRRC2 :: nat where "I_MRRC2 \<equiv> 74"
abbreviation (input) I_MRS :: nat where "I_MRS \<equiv> 75"
abbreviation (input) I_MSR :: nat where "I_MSR \<equiv> 76"
abbreviation (input) I_MUL :: nat where "I_MUL \<equiv> 77"
abbreviation (input) I_MVN :: nat where "I_MVN \<equiv> 78"
abbreviation (input) I_NEG :: nat where "I_NEG \<equiv> 79"
abbreviation (input) I_NOP :: nat where "I_NOP \<equiv> 80"
abbreviation (input) I_ORN :: nat where "I_ORN \<equiv> 81"
abbreviation (input) I_ORR :: nat where "I_ORR \<equiv> 82"
abbreviation (input) I_PKH :: nat where "I_PKH \<equiv> 83"
abbreviation (input) I_PLD :: nat where "I_PLD \<equiv> 84"
abbreviation (input) I_PLDW :: nat where "I_PLDW \<equiv> 85"
abbreviation (input) I_PLI :: nat where "I_PLI \<equiv> 86"
abbreviation (input) I_POP :: nat where "I_POP \<equiv> 87"
abbreviation (input) I_PUSH :: nat where "I_PUSH \<equiv> 88"
abbreviation (input) I_QADD :: nat where "I_QADD \<equiv> 89"
abbreviation (input) I_QADD16 :: nat where "I_QADD16 \<equiv> 90"
abbreviation (input) I_QADD8 :: nat where "I_QADD8 \<equiv> 91"
abbreviation (input) I_QASX :: nat where "I_QASX \<equiv> 92"
abbreviation (input) I_QDADD :: nat where "I_QDADD \<equiv> 93"
abbreviation (input) I_QDSUB :: nat where "I_QDSUB \<equiv> 94"
abbreviation (input) I_QSAX :: nat where "I_QSAX \<equiv> 95"
abbreviation (input) I_QSUB :: nat where "I_QSUB \<equiv> 96"
abbreviation (input) I_QSUB16 :: nat where "I_QSUB16 \<equiv> 97"
abbreviation (input) I_QSUB8 :: nat where "I_QSUB8 \<equiv> 98"
abbreviation (input) I_RBIT :: nat where "I_RBIT \<equiv> 99"
abbreviation (input) I_REV :: nat where "I_REV \<equiv> 100"
abbreviation (input) I_REV16 :: nat where "I_REV16 \<equiv> 101"
abbreviation (input) I_REVSH :: nat where "I_REVSH \<equiv> 102"
abbreviation (input) I_RFE :: nat where "I_RFE \<equiv> 103"
abbreviation (input) I_ROR :: nat where "I_ROR \<equiv> 104"
abbreviation (input) I_RRX :: nat where "I_RRX \<equiv> 105"
abbreviation (input) I_RSB :: nat where "I_RSB \<equiv> 106"
abbreviation (input) I_RSC :: nat where "I_RSC \<equiv> 107"
abbreviation (input) I_SADD16 :: nat where "I_SADD16 \<equiv> 108"
abbreviation (input) I_SADD8 :: nat where "I_SADD8 \<equiv> 109"
abbreviation (input) I_SASX :: nat where "I_SASX \<equiv> 110"
abbreviation (input) I_SBC :: nat where "I_SBC \<equiv> 111"
abbreviation (input) I_SBFX :: nat where "I_SBFX \<equiv> 112"
abbreviation (input) I_SDIV :: nat where "I_SDIV \<equiv> 113"
abbreviation (input) I_SEL :: nat where "I_SEL \<equiv> 114"
abbreviation (input) I_SETEND :: nat where "I_SETEND \<equiv> 115"
abbreviation (input) I_SEV :: nat where "I_SEV \<equiv> 116"
abbreviation (input) I_SHADD16 :: nat where "I_SHADD16 \<equiv> 117"
abbreviation (input) I_SHADD8 :: nat where "I_SHADD8 \<equiv> 118"
abbreviation (input) I_SHASX :: nat where "I_SHASX \<equiv> 119"
abbreviation (input) I_SHSAX :: nat where "I_SHSAX \<equiv> 120"
abbreviation (input) I_SHSUB16 :: nat where "I_SHSUB16 \<equiv> 121"
abbreviation (input) I_SHSUB8 :: nat where "I_SHSUB8 \<equiv> 122"
abbreviation (input) I_SMC :: nat where "I_SMC \<equiv> 123"
abbreviation (input) I_SMLA :: nat where "I_SMLA \<equiv> 124"
abbreviation (input) I_SMLABB :: nat where "I_SMLABB \<equiv> 125"
abbreviation (input) I_SMLABT :: nat where "I_SMLABT \<equiv> 126"
abbreviation (input) I_SMLAD :: nat where "I_SMLAD \<equiv> 127"
abbreviation (input) I_SMLAL :: nat where "I_SMLAL \<equiv> 128"
abbreviation (input) I_SMLALBB :: nat where "I_SMLALBB \<equiv> 129"
abbreviation (input) I_SMLALBT :: nat where "I_SMLALBT \<equiv> 130"
abbreviation (input) I_SMLALD :: nat where "I_SMLALD \<equiv> 131"
abbreviation (input) I_SMLALTB :: nat where "I_SMLALTB \<equiv> 132"
abbreviation (input) I_SMLALTT :: nat where "I_SMLALTT \<equiv> 133"
abbreviation (input) I_SMLATB :: nat where "I_SMLATB \<equiv> 134"
abbreviation (input) I_SMLATT :: nat where "I_SMLATT \<equiv> 135"
abbreviation (input) I_SMLAW :: nat where "I_SMLAW \<equiv> 136"
abbreviation (input) I_SMLSD :: nat where "I_SMLSD \<equiv> 137"
abbreviation (input) I_SMLSLD :: nat where "I_SMLSLD \<equiv> 138"
abbreviation (input) I_SMMLA :: nat where "I_SMMLA \<equiv> 139"
abbreviation (input) I_SMMLS :: nat where "I_SMMLS \<equiv> 140"
abbreviation (input) I_SMMUL :: nat where "I_SMMUL \<equiv> 141"
abbreviation (input) I_SMUAD :: nat where "I_SMUAD \<equiv> 142"
abbreviation (input) I_SMUL :: nat where "I_SMUL \<equiv> 143"
abbreviation (input) I_SMULBB :: nat where "I_SMULBB \<equiv> 144"
abbreviation (input) I_SMULBT :: nat where "I_SMULBT \<equiv> 145"
abbreviation (input) I_SMULL :: nat where "I_SMULL \<equiv> 146"
abbreviation (input) I_SMULTB :: nat where "I_SMULTB \<equiv> 147"
abbreviation (input) I_SMULTT :: nat where "I_SMULTT \<equiv> 148"
abbreviation (input) I_SMULW :: nat where "I_SMULW \<equiv> 149"
abbreviation (input) I_SMUSD :: nat where "I_SMUSD \<equiv> 150"
abbreviation (input) I_SRS :: nat where "I_SRS \<equiv> 151"
abbreviation (input) I_SSAT :: nat where "I_SSAT \<equiv> 152"
abbreviation (input) I_SSAT16 :: nat where "I_SSAT16 \<equiv> 153"
abbreviation (input) I_SSAX :: nat where "I_SSAX \<equiv> 154"
abbreviation (input) I_SSUB16 :: nat where "I_SSUB16 \<equiv> 155"
abbreviation (input) I_SSUB8 :: nat where "I_SSUB8 \<equiv> 156"
abbreviation (input) I_STC :: nat where "I_STC \<equiv> 157"
abbreviation (input) I_STC2 :: nat where "I_STC2 \<equiv> 158"
abbreviation (input) I_STM :: nat where "I_STM \<equiv> 159"
abbreviation (input) I_STMDA :: nat where "I_STMDA \<equiv> 160"
abbreviation (input) I_STMDB :: nat where "I_STMDB \<equiv> 161"
abbreviation (input) I_STMIB :: nat where "I_STMIB \<equiv> 162"
abbreviation (input) I_STR :: nat where "I_STR \<equiv> 163"
abbreviation (input) I_STRB :: nat where "I_STRB \<equiv> 164"
abbreviation (input) I_STRBT :: nat where "I_STRBT \<equiv> 165"
abbreviation (input) I_STRD :: nat where "I_STRD \<equiv> 166"
abbreviation (input) I_STREX :: nat where "I_STREX \<equiv> 167"
abbreviation (input) I_STREXB :: nat where "I_STREXB \<equiv> 168"
abbreviation (input) I_STREXD :: nat where "I_STREXD \<equiv> 169"
abbreviation (input) I_STREXH :: nat where "I_STREXH \<equiv> 170"
abbreviation (input) I_STRH :: nat where "I_STRH \<equiv> 171"
abbreviation (input) I_STRHT :: nat where "I_STRHT \<equiv> 172"
abbreviation (input) I_STRT :: nat where "I_STRT \<equiv> 173"
abbreviation (input) I_SUB :: nat where "I_SUB \<equiv> 174"
abbreviation (input) I_SUBW :: nat where "I_SUBW \<equiv> 175"
abbreviation (input) I_SVC :: nat where "I_SVC \<equiv> 176"
abbreviation (input) I_SWP :: nat where "I_SWP \<equiv> 177"
abbreviation (input) I_SWPB :: nat where "I_SWPB \<equiv> 178"
abbreviation (input) I_SXTAB :: nat where "I_SXTAB \<equiv> 179"
abbreviation (input) I_SXTAB16 :: nat where "I_SXTAB16 \<equiv> 180"
abbreviation (input) I_SXTAH :: nat where "I_SXTAH \<equiv> 181"
abbreviation (input) I_SXTB :: nat where "I_SXTB \<equiv> 182"
abbreviation (input) I_SXTB16 :: nat where "I_SXTB16 \<equiv> 183"
abbreviation (input) I_SXTH :: nat where "I_SXTH \<equiv> 184"
abbreviation (input) I_TBB :: nat where "I_TBB \<equiv> 185"
abbreviation (input) I_TBH :: nat where "I_TBH \<equiv> 186"
abbreviation (input) I_TEQ :: nat where "I_TEQ \<equiv> 187"
abbreviation (input) I_TST :: nat where "I_TST \<equiv> 188"
abbreviation (input) I_UADD16 :: nat where "I_UADD16 \<equiv> 189"
abbreviation (input) I_UADD8 :: nat where "I_UADD8 \<equiv> 190"
abbreviation (input) I_UASX :: nat where "I_UASX \<equiv> 191"
abbreviation (input) I_UBFX :: nat where "I_UBFX \<equiv> 192"
abbreviation (input) I_UDF :: nat where "I_UDF \<equiv> 193"
abbreviation (input) I_UDIV :: nat where "I_UDIV \<equiv> 194"
abbreviation (input) I_UHADD16 :: nat where "I_UHADD16 \<equiv> 195"
abbreviation (input) I_UHADD8 :: nat where "I_UHADD8 \<equiv> 196"
abbreviation (input) I_UHASX :: nat where "I_UHASX \<equiv> 197"
abbreviation (input) I_UHSAX :: nat where "I_UHSAX \<equiv> 198"
abbreviation (input) I_UHSUB16 :: nat where "I_UHSUB16 \<equiv> 199"
abbreviation (input) I_UHSUB8 :: nat where "I_UHSUB8 \<equiv> 200"
abbreviation (input) I_UMAAL :: nat where "I_UMAAL \<equiv> 201"
abbreviation (input) I_UMLAL :: nat where "I_UMLAL \<equiv> 202"
abbreviation (input) I_UMULL :: nat where "I_UMULL \<equiv> 203"
abbreviation (input) I_UQADD16 :: nat where "I_UQADD16 \<equiv> 204"
abbreviation (input) I_UQADD8 :: nat where "I_UQADD8 \<equiv> 205"
abbreviation (input) I_UQASX :: nat where "I_UQASX \<equiv> 206"
abbreviation (input) I_UQSAX :: nat where "I_UQSAX \<equiv> 207"
abbreviation (input) I_UQSUB16 :: nat where "I_UQSUB16 \<equiv> 208"
abbreviation (input) I_UQSUB8 :: nat where "I_UQSUB8 \<equiv> 209"
abbreviation (input) I_USAD8 :: nat where "I_USAD8 \<equiv> 210"
abbreviation (input) I_USADA8 :: nat where "I_USADA8 \<equiv> 211"
abbreviation (input) I_USAT :: nat where "I_USAT \<equiv> 212"
abbreviation (input) I_USAT16 :: nat where "I_USAT16 \<equiv> 213"
abbreviation (input) I_USAX :: nat where "I_USAX \<equiv> 214"
abbreviation (input) I_USUB16 :: nat where "I_USUB16 \<equiv> 215"
abbreviation (input) I_USUB8 :: nat where "I_USUB8 \<equiv> 216"
abbreviation (input) I_UXTAB :: nat where "I_UXTAB \<equiv> 217"
abbreviation (input) I_UXTAB16 :: nat where "I_UXTAB16 \<equiv> 218"
abbreviation (input) I_UXTAH :: nat where "I_UXTAH \<equiv> 219"
abbreviation (input) I_UXTB :: nat where "I_UXTB \<equiv> 220"
abbreviation (input) I_UXTB16 :: nat where "I_UXTB16 \<equiv> 221"
abbreviation (input) I_UXTH :: nat where "I_UXTH \<equiv> 222"
abbreviation (input) I_VABA :: nat where "I_VABA \<equiv> 223"
abbreviation (input) I_VABAL :: nat where "I_VABAL \<equiv> 224"
abbreviation (input) I_VABD :: nat where "I_VABD \<equiv> 225"
abbreviation (input) I_VABDL :: nat where "I_VABDL \<equiv> 226"
abbreviation (input) I_VABS :: nat where "I_VABS \<equiv> 227"
abbreviation (input) I_VACGE :: nat where "I_VACGE \<equiv> 228"
abbreviation (input) I_VACGT :: nat where "I_VACGT \<equiv> 229"
abbreviation (input) I_VACLE :: nat where "I_VACLE \<equiv> 230"
abbreviation (input) I_VACLT :: nat where "I_VACLT \<equiv> 231"
abbreviation (input) I_VADD :: nat where "I_VADD \<equiv> 232"
abbreviation (input) I_VADDHN :: nat where "I_VADDHN \<equiv> 233"
abbreviation (input) I_VADDL :: nat where "I_VADDL \<equiv> 234"
abbreviation (input) I_VADDW :: nat where "I_VADDW \<equiv> 235"
abbreviation (input) I_VAND :: nat where "I_VAND \<equiv> 236"
abbreviation (input) I_VBIC :: nat where "I_VBIC \<equiv> 237"
abbreviation (input) I_VBIF :: nat where "I_VBIF \<equiv> 238"
abbreviation (input) I_VBIT :: nat where "I_VBIT \<equiv> 239"
abbreviation (input) I_VBSL :: nat where "I_VBSL \<equiv> 240"
abbreviation (input) I_VCEQ :: nat where "I_VCEQ \<equiv> 241"
abbreviation (input) I_VCGE :: nat where "I_VCGE \<equiv> 242"
abbreviation (input) I_VCGT :: nat where "I_VCGT \<equiv> 243"
abbreviation (input) I_VCLE :: nat where "I_VCLE \<equiv> 244"
abbreviation (input) I_VCLS :: nat where "I_VCLS \<equiv> 245"
abbreviation (input) I_VCLT :: nat where "I_VCLT \<equiv> 246"
abbreviation (input) I_VCLZ :: nat where "I_VCLZ \<equiv> 247"
abbreviation (input) I_VCMP :: nat where "I_VCMP \<equiv> 248"
abbreviation (input) I_VCMPE :: nat where "I_VCMPE \<equiv> 249"
abbreviation (input) I_VCNT :: nat where "I_VCNT \<equiv> 250"
abbreviation (input) I_VCVT :: nat where "I_VCVT \<equiv> 251"
abbreviation (input) I_VCVTB :: nat where "I_VCVTB \<equiv> 252"
abbreviation (input) I_VCVTR :: nat where "I_VCVTR \<equiv> 253"
abbreviation (input) I_VCVTT :: nat where "I_VCVTT \<equiv> 254"
abbreviation (input) I_VDIV :: nat where "I_VDIV \<equiv> 255"
abbreviation (input) I_VDUP :: nat where "I_VDUP \<equiv> 256"
abbreviation (input) I_VEOR :: nat where "I_VEOR \<equiv> 257"
abbreviation (input) I_VEXT :: nat where "I_VEXT \<equiv> 258"
abbreviation (input) I_VHADD :: nat where "I_VHADD \<equiv> 259"
abbreviation (input) I_VHSUB :: nat where "I_VHSUB \<equiv> 260"
abbreviation (input) I_VLD1 :: nat where "I_VLD1 \<equiv> 261"
abbreviation (input) I_VLD2 :: nat where "I_VLD2 \<equiv> 262"
abbreviation (input) I_VLD3 :: nat where "I_VLD3 \<equiv> 263"
abbreviation (input) I_VLD4 :: nat where "I_VLD4 \<equiv> 264"
abbreviation (input) I_VLDM :: nat where "I_VLDM \<equiv> 265"
abbreviation (input) I_VLDR :: nat where "I_VLDR \<equiv> 266"
abbreviation (input) I_VMAX :: nat where "I_VMAX \<equiv> 267"
abbreviation (input) I_VMIN :: nat where "I_VMIN \<equiv> 268"
abbreviation (input) I_VMLA :: nat where "I_VMLA \<equiv> 269"
abbreviation (input) I_VMLAL :: nat where "I_VMLAL \<equiv> 270"
abbreviation (input) I_VMLS :: nat where "I_VMLS \<equiv> 271"
abbreviation (input) I_VMLSL :: nat where "I_VMLSL \<equiv> 272"
abbreviation (input) I_VMOV :: nat where "I_VMOV \<equiv> 273"
abbreviation (input) I_VMOVL :: nat where "I_VMOVL \<equiv> 274"
abbreviation (input) I_VMOVN :: nat where "I_VMOVN \<equiv> 275"
abbreviation (input) I_VMRS :: nat where "I_VMRS \<equiv> 276"
abbreviation (input) I_VMSR :: nat where "I_VMSR \<equiv> 277"
abbreviation (input) I_VMUL :: nat where "I_VMUL \<equiv> 278"
abbreviation (input) I_VMULL :: nat where "I_VMULL \<equiv> 279"
abbreviation (input) I_VMVN :: nat where "I_VMVN \<equiv> 280"
abbreviation (input) I_VNEG :: nat where "I_VNEG \<equiv> 281"
abbreviation (input) I_VNMLA :: nat where "I_VNMLA \<equiv> 282"
abbreviation (input) I_VNMLS :: nat where "I_VNMLS \<equiv> 283"
abbreviation (input) I_VNMUL :: nat where "I_VNMUL \<equiv> 284"
abbreviation (input) I_VORN :: nat where "I_VORN \<equiv> 285"
abbreviation (input) I_VORR :: nat where "I_VORR \<equiv> 286"
abbreviation (input) I_VPADAL :: nat where "I_VPADAL \<equiv> 287"
abbreviation (input) I_VPADD :: nat where "I_VPADD \<equiv> 288"
abbreviation (input) I_VPADDL :: nat where "I_VPADDL \<equiv> 289"
abbreviation (input) I_VPMAX :: nat where "I_VPMAX \<equiv> 290"
abbreviation (input) I_VPMIN :: nat where "I_VPMIN \<equiv> 291"
abbreviation (input) I_VPOP :: nat where "I_VPOP \<equiv> 292"
abbreviation (input) I_VPUSH :: nat where "I_VPUSH \<equiv> 293"
abbreviation (input) I_VQABS :: nat where "I_VQABS \<equiv> 294"
abbreviation (input) I_VQADD :: nat where "I_VQADD \<equiv> 295"
abbreviation (input) I_VQDMLAL :: nat where "I_VQDMLAL \<equiv> 296"
abbreviation (input) I_VQDMLSL :: nat where "I_VQDMLSL \<equiv> 297"
abbreviation (input) I_VQDMULH :: nat where "I_VQDMULH \<equiv> 298"
abbreviation (input) I_VQDMULL :: nat where "I_VQDMULL \<equiv> 299"
abbreviation (input) I_VQMOVN :: nat where "I_VQMOVN \<equiv> 300"
abbreviation (input) I_VQMOVUN :: nat where "I_VQMOVUN \<equiv> 301"
abbreviation (input) I_VQNEG :: nat where "I_VQNEG \<equiv> 302"
abbreviation (input) I_VQRDMULH :: nat where "I_VQRDMULH \<equiv> 303"
abbreviation (input) I_VQRSHL :: nat where "I_VQRSHL \<equiv> 304"
abbreviation (input) I_VQRSHRN :: nat where "I_VQRSHRN \<equiv> 305"
abbreviation (input) I_VQRSHRUN :: nat where "I_VQRSHRUN \<equiv> 306"
abbreviation (input) I_VQSHL :: nat where "I_VQSHL \<equiv> 307"
abbreviation (input) I_VQSHLU :: nat where "I_VQSHLU \<equiv> 308"
abbreviation (input) I_VQSHRN :: nat where "I_VQSHRN \<equiv> 309"
abbreviation (input) I_VQSHRUN :: nat where "I_VQSHRUN \<equiv> 310"
abbreviation (input) I_VQSUB :: nat where "I_VQSUB \<equiv> 311"
abbreviation (input) I_VRADDHN :: nat where "I_VRADDHN \<equiv> 312"
abbreviation (input) I_VRECPE :: nat where "I_VRECPE \<equiv> 313"
abbreviation (input) I_VRECPS :: nat where "I_VRECPS \<equiv> 314"
abbreviation (input) I_VREV16 :: nat where "I_VREV16 \<equiv> 315"
abbreviation (input) I_VREV32 :: nat where "I_VREV32 \<equiv> 316"
abbreviation (input) I_VREV64 :: nat where "I_VREV64 \<equiv> 317"
abbreviation (input) I_VRHADD :: nat where "I_VRHADD \<equiv> 318"
abbreviation (input) I_VRSHL :: nat where "I_VRSHL \<equiv> 319"
abbreviation (input) I_VRSHR :: nat where "I_VRSHR \<equiv> 320"
abbreviation (input) I_VRSHRN :: nat where "I_VRSHRN \<equiv> 321"
abbreviation (input) I_VRSQRTE :: nat where "I_VRSQRTE \<equiv> 322"
abbreviation (input) I_VRSQRTS :: nat where "I_VRSQRTS \<equiv> 323"
abbreviation (input) I_VRSRA :: nat where "I_VRSRA \<equiv> 324"
abbreviation (input) I_VRSUBHN :: nat where "I_VRSUBHN \<equiv> 325"
abbreviation (input) I_VSHL :: nat where "I_VSHL \<equiv> 326"
abbreviation (input) I_VSHLL :: nat where "I_VSHLL \<equiv> 327"
abbreviation (input) I_VSHR :: nat where "I_VSHR \<equiv> 328"
abbreviation (input) I_VSHRN :: nat where "I_VSHRN \<equiv> 329"
abbreviation (input) I_VSLI :: nat where "I_VSLI \<equiv> 330"
abbreviation (input) I_VSQRT :: nat where "I_VSQRT \<equiv> 331"
abbreviation (input) I_VSRA :: nat where "I_VSRA \<equiv> 332"
abbreviation (input) I_VSRI :: nat where "I_VSRI \<equiv> 333"
abbreviation (input) I_VST1 :: nat where "I_VST1 \<equiv> 334"
abbreviation (input) I_VST2 :: nat where "I_VST2 \<equiv> 335"
abbreviation (input) I_VST3 :: nat where "I_VST3 \<equiv> 336"
abbreviation (input) I_VST4 :: nat where "I_VST4 \<equiv> 337"
abbreviation (input) I_VSTM :: nat where "I_VSTM \<equiv> 338"
abbreviation (input) I_VSTR :: nat where "I_VSTR \<equiv> 339"
abbreviation (input) I_VSUB :: nat where "I_VSUB \<equiv> 340"
abbreviation (input) I_VSUBHN :: nat where "I_VSUBHN \<equiv> 341"
abbreviation (input) I_VSUBL :: nat where "I_VSUBL \<equiv> 342"
abbreviation (input) I_VSUBW :: nat where "I_VSUBW \<equiv> 343"
abbreviation (input) I_VSWP :: nat where "I_VSWP \<equiv> 344"
abbreviation (input) I_VTBL :: nat where "I_VTBL \<equiv> 345"
abbreviation (input) I_VTBX :: nat where "I_VTBX \<equiv> 346"
abbreviation (input) I_VTRN :: nat where "I_VTRN \<equiv> 347"
abbreviation (input) I_VTST :: nat where "I_VTST \<equiv> 348"
abbreviation (input) I_VUZP :: nat where "I_VUZP \<equiv> 349"
abbreviation (input) I_VZIP :: nat where "I_VZIP \<equiv> 350"
abbreviation (input) I_WFE :: nat where "I_WFE \<equiv> 351"
abbreviation (input) I_WFI :: nat where "I_WFI \<equiv> 352"
abbreviation (input) I_YIELD :: nat where "I_YIELD \<equiv> 353"
abbreviation (input) I_INSTRCNT :: nat where "I_INSTRCNT \<equiv> 354"

section \<open>Encoding types\<close>

abbreviation (input) T_INVLD :: nat where "T_INVLD \<equiv> 0"
abbreviation (input) T_ARM_ADR :: nat where "T_ARM_ADR \<equiv> 1"
abbreviation (input) T_ARM_UNCOND :: nat where "T_ARM_UNCOND \<equiv> 2"
abbreviation (input) T_ARM_MUL :: nat where "T_ARM_MUL \<equiv> 3"
abbreviation (input) T_ARM_STACK0 :: nat where "T_ARM_STACK0 \<equiv> 4"
abbreviation (input) T_ARM_STACK1 :: nat where "T_ARM_STACK1 \<equiv> 5"
abbreviation (input) T_ARM_STACK2 :: nat where "T_ARM_STACK2 \<equiv> 6"
abbreviation (input) T_ARM_ARITH_SHIFT :: nat where "T_ARM_ARITH_SHIFT \<equiv> 7"
abbreviation (input) T_ARM_ARITH_IMM :: nat where "T_ARM_ARITH_IMM \<equiv> 8"
abbreviation (input) T_ARM_BITS :: nat where "T_ARM_BITS \<equiv> 9"
abbreviation (input) T_ARM_BRNCHSC :: nat where "T_ARM_BRNCHSC \<equiv> 10"
abbreviation (input) T_ARM_BRNCHMISC :: nat where "T_ARM_BRNCHMISC \<equiv> 11"
abbreviation (input) T_ARM_MOV_IMM :: nat where "T_ARM_MOV_IMM \<equiv> 12"
abbreviation (input) T_ARM_CMP_OP :: nat where "T_ARM_CMP_OP \<equiv> 13"
abbreviation (input) T_ARM_CMP_IMM :: nat where "T_ARM_CMP_IMM \<equiv> 14"
abbreviation (input) T_ARM_OPLESS :: nat where "T_ARM_OPLESS \<equiv> 15"
abbreviation (input) T_ARM_DST_SRC :: nat where "T_ARM_DST_SRC \<equiv> 16"
abbreviation (input) T_ARM_LDSTREGS :: nat where "T_ARM_LDSTREGS \<equiv> 17"
abbreviation (input) T_ARM_BITREV :: nat where "T_ARM_BITREV \<equiv> 18"
abbreviation (input) T_ARM_MISC :: nat where "T_ARM_MISC \<equiv> 19"
abbreviation (input) T_ARM_SM :: nat where "T_ARM_SM \<equiv> 20"
abbreviation (input) T_ARM_PAS :: nat where "T_ARM_PAS \<equiv> 21"
abbreviation (input) T_ARM_SAT :: nat where "T_ARM_SAT \<equiv> 22"
abbreviation (input) T_ARM_SYNC :: nat where "T_ARM_SYNC \<equiv> 23"
abbreviation (input) T_ARM_PUSR :: nat where "T_ARM_PUSR \<equiv> 24"
abbreviation (input) T_ARM_MVCR :: nat where "T_ARM_MVCR \<equiv> 25"
abbreviation (input) T_ARM_UDF :: nat where "T_ARM_UDF \<equiv> 26"
abbreviation (input) T_THUMB_ONLY_IMM8 :: nat where "T_THUMB_ONLY_IMM8 \<equiv> 27"
abbreviation (input) T_THUMB_COND_BRANCH :: nat where "T_THUMB_COND_BRANCH \<equiv> 28"
abbreviation (input) T_THUMB_UNCOND_BRANCH :: nat where "T_THUMB_UNCOND_BRANCH \<equiv> 29"
abbreviation (input) T_THUMB_SHIFT_IMM :: nat where "T_THUMB_SHIFT_IMM \<equiv> 30"
abbreviation (input) T_THUMB_STACK :: nat where "T_THUMB_STACK \<equiv> 31"
abbreviation (input) T_THUMB_LDR_PC :: nat where "T_THUMB_LDR_PC \<equiv> 32"
abbreviation (input) T_THUMB_GPI :: nat where "T_THUMB_GPI \<equiv> 33"
abbreviation (input) T_THUMB_BRANCH_REG :: nat where "T_THUMB_BRANCH_REG \<equiv> 34"
abbreviation (input) T_THUMB_IT_HINTS :: nat where "T_THUMB_IT_HINTS \<equiv> 35"
abbreviation (input) T_THUMB_HAS_IMM8 :: nat where "T_THUMB_HAS_IMM8 \<equiv> 36"
abbreviation (input) T_THUMB_EXTEND :: nat where "T_THUMB_EXTEND \<equiv> 37"
abbreviation (input) T_THUMB_MOD_SP_IMM :: nat where "T_THUMB_MOD_SP_IMM \<equiv> 38"
abbreviation (input) T_THUMB_3REG :: nat where "T_THUMB_3REG \<equiv> 39"
abbreviation (input) T_THUMB_2REG_IMM :: nat where "T_THUMB_2REG_IMM \<equiv> 40"
abbreviation (input) T_THUMB_ADD_SP_IMM :: nat where "T_THUMB_ADD_SP_IMM \<equiv> 41"
abbreviation (input) T_THUMB_MOV4 :: nat where "T_THUMB_MOV4 \<equiv> 42"
abbreviation (input) T_THUMB_RW_MEMI :: nat where "T_THUMB_RW_MEMI \<equiv> 43"
abbreviation (input) T_THUMB_RW_MEMO :: nat where "T_THUMB_RW_MEMO \<equiv> 44"
abbreviation (input) T_THUMB_RW_REG :: nat where "T_THUMB_RW_REG \<equiv> 45"
abbreviation (input) T_THUMB_REV :: nat where "T_THUMB_REV \<equiv> 46"
abbreviation (input) T_THUMB_SETEND :: nat where "T_THUMB_SETEND \<equiv> 47"
abbreviation (input) T_THUMB_PUSHPOP :: nat where "T_THUMB_PUSHPOP \<equiv> 48"
abbreviation (input) T_THUMB_CMP :: nat where "T_THUMB_CMP \<equiv> 49"
abbreviation (input) T_THUMB_MOD_SP_REG :: nat where "T_THUMB_MOD_SP_REG \<equiv> 50"
abbreviation (input) T_THUMB_CBZ :: nat where "T_THUMB_CBZ \<equiv> 51"
abbreviation (input) T_THUMB2_NO_REG :: nat where "T_THUMB2_NO_REG \<equiv> 52"
abbreviation (input) T_THUMB2_RT_REG :: nat where "T_THUMB2_RT_REG \<equiv> 53"
abbreviation (input) T_THUMB2_RT_RT2_REG :: nat where "T_THUMB2_RT_RT2_REG \<equiv> 54"
abbreviation (input) T_THUMB2_RM_REG :: nat where "T_THUMB2_RM_REG \<equiv> 55"
abbreviation (input) T_THUMB2_RD_REG :: nat where "T_THUMB2_RD_REG \<equiv> 56"
abbreviation (input) T_THUMB2_RD_RM_REG :: nat where "T_THUMB2_RD_RM_REG \<equiv> 57"
abbreviation (input) T_THUMB2_RN_REG :: nat where "T_THUMB2_RN_REG \<equiv> 58"
abbreviation (input) T_THUMB2_RN_RT_REG :: nat where "T_THUMB2_RN_RT_REG \<equiv> 59"
abbreviation (input) T_THUMB2_RN_RT_RT2_REG :: nat where "T_THUMB2_RN_RT_RT2_REG \<equiv> 60"
abbreviation (input) T_THUMB2_RN_RM_REG :: nat where "T_THUMB2_RN_RM_REG \<equiv> 61"
abbreviation (input) T_THUMB2_RN_RM_RT_REG :: nat where "T_THUMB2_RN_RM_RT_REG \<equiv> 62"
abbreviation (input) T_THUMB2_RN_RD_REG :: nat where "T_THUMB2_RN_RD_REG \<equiv> 63"
abbreviation (input) T_THUMB2_RN_RD_RT_REG :: nat where "T_THUMB2_RN_RD_RT_REG \<equiv> 64"
abbreviation (input) T_THUMB2_RN_RD_RT_RT2_REG :: nat where "T_THUMB2_RN_RD_RT_RT2_REG \<equiv> 65"
abbreviation (input) T_THUMB2_RN_RD_RM_REG :: nat where "T_THUMB2_RN_RD_RM_REG \<equiv> 66"
abbreviation (input) T_THUMB2_RN_RD_RM_RA_REG :: nat where "T_THUMB2_RN_RD_RM_RA_REG \<equiv> 67"
abbreviation (input) T_THUMB2_NO_IMM :: nat where "T_THUMB2_NO_IMM \<equiv> 68"
abbreviation (input) T_THUMB2_IMM12 :: nat where "T_THUMB2_IMM12 \<equiv> 69"
abbreviation (input) T_THUMB2_IMM8 :: nat where "T_THUMB2_IMM8 \<equiv> 70"
abbreviation (input) T_THUMB2_IMM2 :: nat where "T_THUMB2_IMM2 \<equiv> 71"
abbreviation (input) T_THUMB2_IMM2_IMM3 :: nat where "T_THUMB2_IMM2_IMM3 \<equiv> 72"
abbreviation (input) T_THUMB2_IMM1_IMM3_IMM8 :: nat where "T_THUMB2_IMM1_IMM3_IMM8 \<equiv> 73"
abbreviation (input) T_THUMB2_NO_FLAG :: nat where "T_THUMB2_NO_FLAG \<equiv> 74"
abbreviation (input) T_THUMB2_ROTATE_FLAG :: nat where "T_THUMB2_ROTATE_FLAG \<equiv> 75"
abbreviation (input) T_THUMB2_U_FLAG :: nat where "T_THUMB2_U_FLAG \<equiv> 76"
abbreviation (input) T_THUMB2_WUP_FLAG :: nat where "T_THUMB2_WUP_FLAG \<equiv> 77"
abbreviation (input) T_THUMB2_TYPE_FLAG :: nat where "T_THUMB2_TYPE_FLAG \<equiv> 78"
abbreviation (input) T_THUMB2_REGLIST_FLAG :: nat where "T_THUMB2_REGLIST_FLAG \<equiv> 79"
abbreviation (input) T_THUMB2_WP_REGLIST_FLAG :: nat where "T_THUMB2_WP_REGLIST_FLAG \<equiv> 80"
abbreviation (input) T_THUMB2_S_FLAG :: nat where "T_THUMB2_S_FLAG \<equiv> 81"
abbreviation (input) T_THUMB2_S_TYPE_FLAG :: nat where "T_THUMB2_S_TYPE_FLAG \<equiv> 82"

section \<open>Tables of the ARMv7 decoder\<close>

definition armv7_instr_types :: "darm_enctype_t list" where
  "armv7_instr_types = [
    T_ARM_ARITH_SHIFT, T_ARM_ARITH_SHIFT, T_ARM_ARITH_SHIFT, T_ARM_ARITH_SHIFT,
    T_ARM_ARITH_SHIFT, T_ARM_ARITH_SHIFT, T_ARM_ARITH_SHIFT, T_ARM_ARITH_SHIFT,
    T_ARM_ARITH_SHIFT, T_ARM_ARITH_SHIFT, T_ARM_ARITH_SHIFT, T_ARM_ARITH_SHIFT,
    T_ARM_ARITH_SHIFT, T_ARM_ARITH_SHIFT, T_ARM_ARITH_SHIFT, T_ARM_ARITH_SHIFT, T_ARM_SM,
    T_ARM_CMP_OP, T_ARM_BRNCHMISC, T_ARM_CMP_OP, T_ARM_SM, T_ARM_CMP_OP, T_ARM_MISC,
    T_ARM_CMP_OP, T_ARM_ARITH_SHIFT, T_ARM_ARITH_SHIFT, T_ARM_DST_SRC, T_ARM_DST_SRC,
    T_ARM_ARITH_SHIFT, T_ARM_ARITH_SHIFT, T_ARM_MISC, T_ARM_MISC, T_ARM_ARITH_IMM,
    T_ARM_ARITH_IMM, T_ARM_ARITH_IMM, T_ARM_ARITH_IMM, T_ARM_ARITH_IMM, T_ARM_ARITH_IMM,
    T_ARM_ARITH_IMM, T_ARM_ARITH_IMM, T_ARM_ARITH_IMM, T_ARM_ARITH_IMM, T_ARM_ARITH_IMM,
    T_ARM_ARITH_IMM, T_ARM_ARITH_IMM, T_ARM_ARITH_IMM, T_ARM_ARITH_IMM, T_ARM_ARITH_IMM,
    T_ARM_MOV_IMM, T_ARM_CMP_IMM, T_ARM_OPLESS, T_ARM_CMP_IMM, T_ARM_MOV_IMM, T_ARM_CMP_IMM,
    T_INVLD, T_ARM_CMP_IMM, T_ARM_ARITH_IMM, T_ARM_ARITH_IMM, T_ARM_MOV_IMM, T_ARM_MOV_IMM,
    T_ARM_ARITH_IMM, T_ARM_ARITH_IMM, T_ARM_MOV_IMM, T_ARM_MOV_IMM, T_INVLD, T_INVLD, T_INVLD,
    T_INVLD, T_INVLD, T_INVLD, T_INVLD, T_INVLD, T_INVLD, T_INVLD, T_INVLD, T_INVLD, T_INVLD,
    T_INVLD, T_INVLD, T_INVLD, T_INVLD, T_INVLD, T_INVLD, T_INVLD, T_INVLD, T_INVLD, T_INVLD,
    T_INVLD, T_INVLD, T_INVLD, T_INVLD, T_INVLD, T_INVLD, T_INVLD, T_INVLD, T_INVLD, T_INVLD,
    T_ARM_PAS, T_ARM_PAS, T_ARM_PAS, T_INVLD, T_ARM_PAS, T_ARM_PAS, T_ARM_PAS, T_ARM_MISC,
    T_INVLD, T_INVLD, T_ARM_BITREV, T_INVLD, T_INVLD, T_INVLD, T_ARM_BITREV, T_ARM_SM, T_INVLD,
    T_INVLD, T_INVLD, T_ARM_SM, T_ARM_SM, T_INVLD, T_INVLD, T_INVLD, T_INVLD, T_ARM_BITS,
    T_ARM_BITS, T_ARM_BITS, T_ARM_BITS, T_ARM_BITS, T_ARM_UDF, T_ARM_LDSTREGS, T_ARM_LDSTREGS,
    T_ARM_LDSTREGS, T_ARM_LDSTREGS, T_INVLD, T_INVLD, T_INVLD, T_INVLD, T_ARM_LDSTREGS,
    T_ARM_LDSTREGS, T_ARM_LDSTREGS, T_ARM_LDSTREGS, T_INVLD, T_INVLD, T_INVLD, T_INVLD,
    T_ARM_LDSTREGS, T_ARM_LDSTREGS, T_ARM_LDSTREGS, T_ARM_LDSTREGS, T_INVLD, T_INVLD, T_INVLD,
    T_INVLD, T_ARM_LDSTREGS, T_ARM_LDSTREGS, T_ARM_LDSTREGS, T_ARM_LDSTREGS, T_INVLD, T_INVLD,
    T_INVLD, T_INVLD, T_ARM_BRNCHSC, T_ARM_BRNCHSC, T_ARM_BRNCHSC, T_ARM_BRNCHSC, T_ARM_BRNCHSC,
    T_ARM_BRNCHSC, T_ARM_BRNCHSC, T_ARM_BRNCHSC, T_ARM_BRNCHSC, T_ARM_BRNCHSC, T_ARM_BRNCHSC,
    T_ARM_BRNCHSC, T_ARM_BRNCHSC, T_ARM_BRNCHSC, T_ARM_BRNCHSC, T_ARM_BRNCHSC, T_ARM_BRNCHSC,
    T_ARM_BRNCHSC, T_ARM_BRNCHSC, T_ARM_BRNCHSC, T_ARM_BRNCHSC, T_ARM_BRNCHSC, T_ARM_BRNCHSC,
    T_ARM_BRNCHSC, T_ARM_BRNCHSC, T_ARM_BRNCHSC, T_ARM_BRNCHSC, T_ARM_BRNCHSC, T_ARM_BRNCHSC,
    T_ARM_BRNCHSC, T_ARM_BRNCHSC, T_ARM_BRNCHSC, T_INVLD, T_INVLD, T_INVLD, T_INVLD, T_INVLD,
    T_INVLD, T_INVLD, T_INVLD, T_INVLD, T_INVLD, T_INVLD, T_INVLD, T_INVLD, T_INVLD, T_INVLD,
    T_INVLD, T_INVLD, T_INVLD, T_INVLD, T_INVLD, T_INVLD, T_INVLD, T_INVLD, T_INVLD, T_INVLD,
    T_INVLD, T_INVLD, T_INVLD, T_INVLD, T_INVLD, T_INVLD, T_INVLD, T_ARM_MVCR, T_ARM_MVCR,
    T_ARM_MVCR, T_ARM_MVCR, T_ARM_MVCR, T_ARM_MVCR, T_ARM_MVCR, T_ARM_MVCR, T_ARM_MVCR,
    T_ARM_MVCR, T_ARM_MVCR, T_ARM_MVCR, T_ARM_MVCR, T_ARM_MVCR, T_ARM_MVCR, T_ARM_MVCR,
    T_ARM_BRNCHSC, T_ARM_BRNCHSC, T_ARM_BRNCHSC, T_ARM_BRNCHSC, T_ARM_BRNCHSC, T_ARM_BRNCHSC,
    T_ARM_BRNCHSC, T_ARM_BRNCHSC, T_ARM_BRNCHSC, T_ARM_BRNCHSC, T_ARM_BRNCHSC, T_ARM_BRNCHSC,
    T_ARM_BRNCHSC, T_ARM_BRNCHSC, T_ARM_BRNCHSC, T_ARM_BRNCHSC]"

definition armv7_instr_labels :: "darm_instr_t list" where
  "armv7_instr_labels = [
    I_AND, I_AND, I_EOR, I_EOR, I_SUB, I_SUB, I_RSB, I_RSB, I_ADD, I_ADD, I_ADC, I_ADC, I_SBC,
    I_SBC, I_RSC, I_RSC, I_SMLA, I_TST, I_SMULW, I_TEQ, I_SMLAL, I_CMP, I_SMC, I_CMN, I_ORR,
    I_ORR, I_STREXD, I_RRX, I_BIC, I_BIC, I_MVN, I_MVN, I_AND, I_AND, I_EOR, I_EOR, I_SUB,
    I_SUB, I_RSB, I_RSB, I_ADD, I_ADD, I_ADC, I_ADC, I_SBC, I_SBC, I_RSC, I_RSC, I_MOVW, I_TST,
    I_YIELD, I_TEQ, I_MOVT, I_CMP, I_INVLD, I_CMN, I_ORR, I_ORR, I_MOV, I_MOV, I_BIC, I_BIC,
    I_MVN, I_MVN, I_INVLD, I_INVLD, I_INVLD, I_INVLD, I_INVLD, I_INVLD, I_INVLD, I_INVLD,
    I_INVLD, I_INVLD, I_INVLD, I_INVLD, I_INVLD, I_INVLD, I_INVLD, I_INVLD, I_INVLD, I_INVLD,
    I_INVLD, I_INVLD, I_INVLD, I_INVLD, I_INVLD, I_INVLD, I_INVLD, I_INVLD, I_INVLD, I_INVLD,
    I_INVLD, I_INVLD, I_INVLD, I_INVLD, I_INVLD, I_SSUB8, I_QSUB8, I_SHSUB8, I_INVLD, I_USUB8,
    I_UQSUB8, I_UHSUB8, I_SEL, I_INVLD, I_INVLD, I_REV16, I_INVLD, I_INVLD, I_INVLD, I_REVSH,
    I_SMUSD, I_INVLD, I_INVLD, I_INVLD, I_SMLSLD, I_SMMUL, I_INVLD, I_INVLD, I_INVLD, I_INVLD,
    I_SBFX, I_SBFX, I_BFI, I_BFI, I_UBFX, I_UDF, I_STMDA, I_LDMDA, I_STMDA, I_LDMDA, I_INVLD,
    I_INVLD, I_INVLD, I_INVLD, I_STM, I_LDM, I_STM, I_LDM, I_INVLD, I_INVLD, I_INVLD, I_INVLD,
    I_STMDB, I_LDMDB, I_STMDB, I_LDMDB, I_INVLD, I_INVLD, I_INVLD, I_INVLD, I_STMIB, I_LDMIB,
    I_STMIB, I_LDMIB, I_INVLD, I_INVLD, I_INVLD, I_INVLD, I_B, I_B, I_B, I_B, I_B, I_B, I_B,
    I_B, I_B, I_B, I_B, I_B, I_B, I_B, I_B, I_B, I_BL, I_BL, I_BL, I_BL, I_BL, I_BL, I_BL, I_BL,
    I_BL, I_BL, I_BL, I_BL, I_BL, I_BL, I_BL, I_BL, I_INVLD, I_INVLD, I_INVLD, I_INVLD, I_INVLD,
    I_INVLD, I_INVLD, I_INVLD, I_INVLD, I_INVLD, I_INVLD, I_INVLD, I_INVLD, I_INVLD, I_INVLD,
    I_INVLD, I_INVLD, I_INVLD, I_INVLD, I_INVLD, I_INVLD, I_INVLD, I_INVLD, I_INVLD, I_INVLD,
    I_INVLD, I_INVLD, I_INVLD, I_INVLD, I_INVLD, I_INVLD, I_INVLD, I_MCR, I_MRC, I_MCR, I_MRC,
    I_MCR, I_MRC, I_MCR, I_MRC, I_MCR, I_MRC, I_MCR, I_MRC, I_MCR, I_MRC, I_MCR, I_MRC, I_SVC,
    I_SVC, I_SVC, I_SVC, I_SVC, I_SVC, I_SVC, I_SVC, I_SVC, I_SVC, I_SVC, I_SVC, I_SVC, I_SVC,
    I_SVC, I_SVC]"

definition type_shift_instr_lookup :: "darm_instr_t list" where
  "type_shift_instr_lookup = [
    I_LSL, I_LSL, I_LSR, I_LSR, I_ASR, I_ASR, I_ROR, I_ROR, I_LSL, I_INVLD, I_LSR, I_INVLD,
    I_ASR, I_INVLD, I_ROR, I_INVLD]"

definition type_brnchmisc_instr_lookup :: "darm_instr_t list" where
  "type_brnchmisc_instr_lookup = [
    I_MSR, I_BX, I_BXJ, I_BLX, I_INVLD, I_QSUB, I_INVLD, I_BKPT, I_SMLAW, I_INVLD, I_SMULW,
    I_INVLD, I_SMLAW, I_INVLD, I_SMULW, I_INVLD]"

definition type_opless_instr_lookup :: "darm_instr_t list" where
  "type_opless_instr_lookup = [
    I_NOP, I_YIELD, I_WFE, I_WFI, I_SEV, I_INVLD, I_INVLD, I_INVLD]"

definition type_uncond2_instr_lookup :: "darm_instr_t list" where
  "type_uncond2_instr_lookup = [
    I_INVLD, I_CLREX, I_INVLD, I_INVLD, I_DSB, I_DMB, I_ISB, I_INVLD]"

definition type_mul_instr_lookup :: "darm_instr_t list" where
  "type_mul_instr_lookup = [
    I_MUL, I_MLA, I_UMAAL, I_MLS, I_UMULL, I_UMLAL, I_SMULL, I_SMLAL]"

definition type_stack0_instr_lookup :: "darm_instr_t list" where
  "type_stack0_instr_lookup = [
    I_STR, I_LDR, I_STRT, I_LDRT, I_STRB, I_LDRB, I_STRBT, I_LDRBT, I_STR, I_LDR, I_STRT,
    I_LDRT, I_STRB, I_LDRB, I_STRBT, I_LDRBT, I_STR, I_LDR, I_STR, I_LDR, I_STRB, I_LDRB,
    I_STRB, I_LDRB, I_STR, I_LDR, I_STR, I_LDR, I_STRB, I_LDRB, I_STRB, I_LDRB]"

definition type_stack1_instr_lookup :: "darm_instr_t list" where
  "type_stack1_instr_lookup = [
    I_INVLD, I_INVLD, I_STRHT, I_LDRHT, I_INVLD, I_LDRSBT, I_INVLD, I_LDRSHT]"

definition type_stack2_instr_lookup :: "darm_instr_t list" where
  "type_stack2_instr_lookup = [
    I_INVLD, I_INVLD, I_STRH, I_LDRH, I_LDRD, I_LDRSB, I_STRD, I_LDRSH]"

definition type_bits_instr_lookup :: "darm_instr_t list" where
  "type_bits_instr_lookup = [
    I_INVLD, I_SBFX, I_BFI, I_UBFX]"

definition type_pas_instr_lookup :: "darm_instr_t list" where
  "type_pas_instr_lookup = [
    I_INVLD, I_INVLD, I_INVLD, I_INVLD, I_INVLD, I_INVLD, I_INVLD, I_INVLD, I_SADD16, I_SASX,
    I_SSAX, I_SSUB16, I_SADD8, I_INVLD, I_INVLD, I_SSUB8, I_QADD16, I_QASX, I_QSAX, I_QSUB16,
    I_QADD8, I_INVLD, I_INVLD, I_QSUB8, I_SHADD16, I_SHASX, I_SHSAX, I_SHSUB16, I_SHADD8,
    I_INVLD, I_INVLD, I_SHSUB8, I_INVLD, I_INVLD, I_INVLD, I_INVLD, I_INVLD, I_INVLD, I_INVLD,
    I_INVLD, I_UADD16, I_UASX, I_USAX, I_USUB16, I_UADD8, I_INVLD, I_INVLD, I_USUB8, I_UQADD16,
    I_UQASX, I_UQSAX, I_UQSUB16, I_UQADD8, I_INVLD, I_INVLD, I_UQSUB8, I_UHADD16, I_UHASX,
    I_UHSAX, I_UHSUB16, I_UHADD8, I_INVLD, I_INVLD, I_UHSUB8]"

definition type_sat_instr_lookup :: "darm_instr_t list" where
  "type_sat_instr_lookup = [
    I_QADD, I_QSUB, I_QDADD, I_QDSUB]"

definition type_sync_instr_lookup :: "darm_instr_t list" where
  "type_sync_instr_lookup = [
    I_SWP, I_INVLD, I_INVLD, I_INVLD, I_SWPB, I_INVLD, I_INVLD, I_INVLD, I_STREX, I_LDREX,
    I_STREXD, I_LDREXD, I_STREXB, I_LDREXB, I_STREXH, I_LDREXH]"

definition type_pusr_instr_lookup :: "darm_instr_t list" where
  "type_pusr_instr_lookup = [
    I_SXTAB16, I_SXTB16, I_INVLD, I_INVLD, I_SXTAB, I_SXTB, I_SXTAH, I_SXTH, I_UXTAB16,
    I_UXTB16, I_INVLD, I_INVLD, I_UXTAB, I_UXTB, I_UXTAH, I_UXTH]"

lemma darm_table_lengths [simp]:
  "length armv7_instr_types = 256"
  "length armv7_instr_labels = 256"
  "length type_shift_instr_lookup = 16"
  "length type_brnchmisc_instr_lookup = 16"
  "length type_opless_instr_lookup = 8"
  "length type_uncond2_instr_lookup = 8"
  "length type_mul_instr_lookup = 8"
  "length type_stack0_instr_lookup = 32"
  "length type_stack1_instr_lookup = 8"
  "length type_stack2_instr_lookup = 8"
  "length type_bits_instr_lookup = 4"
  "length type_pas_instr_lookup = 64"
  "length type_sat_instr_lookup = 4"
  "length type_sync_instr_lookup = 16"
  "length type_pusr_instr_lookup = 16"
  by (simp_all add: armv7_instr_types_def
    armv7_instr_labels_def
    type_shift_instr_lookup_def
    type_brnchmisc_instr_lookup_def
    type_opless_instr_lookup_def
    type_uncond2_instr_lookup_def
    type_mul_instr_lookup_def
    type_stack0_instr_lookup_def
    type_stack1_instr_lookup_def
    type_stack2_instr_lookup_def
    type_bits_instr_lookup_def
    type_pas_instr_lookup_def
    type_sat_instr_lookup_def
    type_sync_instr_lookup_def
    type_pusr_instr_lookup_def)

section \<open>Names\<close>

definition darm_mnemonics :: "string list" where
  "darm_mnemonics = [
    ''INVLD'', ''ADC'', ''ADD'', ''ADDW'', ''ADR'', ''AND'', ''ASR'', ''B'', ''BFC'', ''BFI'',
    ''BIC'', ''BKPT'', ''BL'', ''BLX'', ''BX'', ''BXJ'', ''CBNZ'', ''CBZ'', ''CDP'', ''CDP2'',
    ''CHKA'', ''CLREX'', ''CLZ'', ''CMN'', ''CMP'', ''CPS'', ''CPY'', ''DBG'', ''DMB'', ''DSB'',
    ''ENTERX'', ''EOR'', ''HB'', ''HBL'', ''HBLP'', ''HBP'', ''ISB'', ''IT'', ''LDC'', ''LDC2'',
    ''LDM'', ''LDMDA'', ''LDMDB'', ''LDMIB'', ''LDR'', ''LDRB'', ''LDRBT'', ''LDRD'', ''LDREX'',
    ''LDREXB'', ''LDREXD'', ''LDREXH'', ''LDRH'', ''LDRHT'', ''LDRSB'', ''LDRSBT'', ''LDRSH'',
    ''LDRSHT'', ''LDRT'', ''LEAVEX'', ''LSL'', ''LSR'', ''MCR'', ''MCR2'', ''MCRR'', ''MCRR2'',
    ''MLA'', ''MLS'', ''MOV'', ''MOVT'', ''MOVW'', ''MRC'', ''MRC2'', ''MRRC'', ''MRRC2'',
    ''MRS'', ''MSR'', ''MUL'', ''MVN'', ''NEG'', ''NOP'', ''ORN'', ''ORR'', ''PKH'', ''PLD'',
    ''PLDW'', ''PLI'', ''POP'', ''PUSH'', ''QADD'', ''QADD16'', ''QADD8'', ''QASX'', ''QDADD'',
    ''QDSUB'', ''QSAX'', ''QSUB'', ''QSUB16'', ''QSUB8'', ''RBIT'', ''REV'', ''REV16'',
    ''REVSH'', ''RFE'', ''ROR'', ''RRX'', ''RSB'', ''RSC'', ''SADD16'', ''SADD8'', ''SASX'',
    ''SBC'', ''SBFX'', ''SDIV'', ''SEL'', ''SETEND'', ''SEV'', ''SHADD16'', ''SHADD8'',
    ''SHASX'', ''SHSAX'', ''SHSUB16'', ''SHSUB8'', ''SMC'', ''SMLA'', ''SMLABB'', ''SMLABT'',
    ''SMLAD'', ''SMLAL'', ''SMLALBB'', ''SMLALBT'', ''SMLALD'', ''SMLALTB'', ''SMLALTT'',
    ''SMLATB'', ''SMLATT'', ''SMLAW'', ''SMLSD'', ''SMLSLD'', ''SMMLA'', ''SMMLS'', ''SMMUL'',
    ''SMUAD'', ''SMUL'', ''SMULBB'', ''SMULBT'', ''SMULL'', ''SMULTB'', ''SMULTT'', ''SMULW'',
    ''SMUSD'', ''SRS'', ''SSAT'', ''SSAT16'', ''SSAX'', ''SSUB16'', ''SSUB8'', ''STC'',
    ''STC2'', ''STM'', ''STMDA'', ''STMDB'', ''STMIB'', ''STR'', ''STRB'', ''STRBT'', ''STRD'',
    ''STREX'', ''STREXB'', ''STREXD'', ''STREXH'', ''STRH'', ''STRHT'', ''STRT'', ''SUB'',
    ''SUBW'', ''SVC'', ''SWP'', ''SWPB'', ''SXTAB'', ''SXTAB16'', ''SXTAH'', ''SXTB'',
    ''SXTB16'', ''SXTH'', ''TBB'', ''TBH'', ''TEQ'', ''TST'', ''UADD16'', ''UADD8'', ''UASX'',
    ''UBFX'', ''UDF'', ''UDIV'', ''UHADD16'', ''UHADD8'', ''UHASX'', ''UHSAX'', ''UHSUB16'',
    ''UHSUB8'', ''UMAAL'', ''UMLAL'', ''UMULL'', ''UQADD16'', ''UQADD8'', ''UQASX'', ''UQSAX'',
    ''UQSUB16'', ''UQSUB8'', ''USAD8'', ''USADA8'', ''USAT'', ''USAT16'', ''USAX'', ''USUB16'',
    ''USUB8'', ''UXTAB'', ''UXTAB16'', ''UXTAH'', ''UXTB'', ''UXTB16'', ''UXTH'', ''VABA'',
    ''VABAL'', ''VABD'', ''VABDL'', ''VABS'', ''VACGE'', ''VACGT'', ''VACLE'', ''VACLT'',
    ''VADD'', ''VADDHN'', ''VADDL'', ''VADDW'', ''VAND'', ''VBIC'', ''VBIF'', ''VBIT'',
    ''VBSL'', ''VCEQ'', ''VCGE'', ''VCGT'', ''VCLE'', ''VCLS'', ''VCLT'', ''VCLZ'', ''VCMP'',
    ''VCMPE'', ''VCNT'', ''VCVT'', ''VCVTB'', ''VCVTR'', ''VCVTT'', ''VDIV'', ''VDUP'',
    ''VEOR'', ''VEXT'', ''VHADD'', ''VHSUB'', ''VLD1'', ''VLD2'', ''VLD3'', ''VLD4'', ''VLDM'',
    ''VLDR'', ''VMAX'', ''VMIN'', ''VMLA'', ''VMLAL'', ''VMLS'', ''VMLSL'', ''VMOV'', ''VMOVL'',
    ''VMOVN'', ''VMRS'', ''VMSR'', ''VMUL'', ''VMULL'', ''VMVN'', ''VNEG'', ''VNMLA'',
    ''VNMLS'', ''VNMUL'', ''VORN'', ''VORR'', ''VPADAL'', ''VPADD'', ''VPADDL'', ''VPMAX'',
    ''VPMIN'', ''VPOP'', ''VPUSH'', ''VQABS'', ''VQADD'', ''VQDMLAL'', ''VQDMLSL'', ''VQDMULH'',
    ''VQDMULL'', ''VQMOVN'', ''VQMOVUN'', ''VQNEG'', ''VQRDMULH'', ''VQRSHL'', ''VQRSHRN'',
    ''VQRSHRUN'', ''VQSHL'', ''VQSHLU'', ''VQSHRN'', ''VQSHRUN'', ''VQSUB'', ''VRADDHN'',
    ''VRECPE'', ''VRECPS'', ''VREV16'', ''VREV32'', ''VREV64'', ''VRHADD'', ''VRSHL'',
    ''VRSHR'', ''VRSHRN'', ''VRSQRTE'', ''VRSQRTS'', ''VRSRA'', ''VRSUBHN'', ''VSHL'',
    ''VSHLL'', ''VSHR'', ''VSHRN'', ''VSLI'', ''VSQRT'', ''VSRA'', ''VSRI'', ''VST1'', ''VST2'',
    ''VST3'', ''VST4'', ''VSTM'', ''VSTR'', ''VSUB'', ''VSUBHN'', ''VSUBL'', ''VSUBW'',
    ''VSWP'', ''VTBL'', ''VTBX'', ''VTRN'', ''VTST'', ''VUZP'', ''VZIP'', ''WFE'', ''WFI'',
    ''YIELD'']"

definition darm_enctypes :: "string list" where
  "darm_enctypes = [
    ''INVLD'', ''ARM_ADR'', ''ARM_UNCOND'', ''ARM_MUL'', ''ARM_STACK0'', ''ARM_STACK1'',
    ''ARM_STACK2'', ''ARM_ARITH_SHIFT'', ''ARM_ARITH_IMM'', ''ARM_BITS'', ''ARM_BRNCHSC'',
    ''ARM_BRNCHMISC'', ''ARM_MOV_IMM'', ''ARM_CMP_OP'', ''ARM_CMP_IMM'', ''ARM_OPLESS'',
    ''ARM_DST_SRC'', ''ARM_LDSTREGS'', ''ARM_BITREV'', ''ARM_MISC'', ''ARM_SM'', ''ARM_PAS'',
    ''ARM_SAT'', ''ARM_SYNC'', ''ARM_PUSR'', ''ARM_MVCR'', ''ARM_UDF'', ''THUMB_ONLY_IMM8'',
    ''THUMB_COND_BRANCH'', ''THUMB_UNCOND_BRANCH'', ''THUMB_SHIFT_IMM'', ''THUMB_STACK'',
    ''THUMB_LDR_PC'', ''THUMB_GPI'', ''THUMB_BRANCH_REG'', ''THUMB_IT_HINTS'',
    ''THUMB_HAS_IMM8'', ''THUMB_EXTEND'', ''THUMB_MOD_SP_IMM'', ''THUMB_3REG'',
    ''THUMB_2REG_IMM'', ''THUMB_ADD_SP_IMM'', ''THUMB_MOV4'', ''THUMB_RW_MEMI'',
    ''THUMB_RW_MEMO'', ''THUMB_RW_REG'', ''THUMB_REV'', ''THUMB_SETEND'', ''THUMB_PUSHPOP'',
    ''THUMB_CMP'', ''THUMB_MOD_SP_REG'', ''THUMB_CBZ'', ''THUMB2_NO_REG'', ''THUMB2_RT_REG'',
    ''THUMB2_RT_RT2_REG'', ''THUMB2_RM_REG'', ''THUMB2_RD_REG'', ''THUMB2_RD_RM_REG'',
    ''THUMB2_RN_REG'', ''THUMB2_RN_RT_REG'', ''THUMB2_RN_RT_RT2_REG'', ''THUMB2_RN_RM_REG'',
    ''THUMB2_RN_RM_RT_REG'', ''THUMB2_RN_RD_REG'', ''THUMB2_RN_RD_RT_REG'',
    ''THUMB2_RN_RD_RT_RT2_REG'', ''THUMB2_RN_RD_RM_REG'', ''THUMB2_RN_RD_RM_RA_REG'',
    ''THUMB2_NO_IMM'', ''THUMB2_IMM12'', ''THUMB2_IMM8'', ''THUMB2_IMM2'', ''THUMB2_IMM2_IMM3'',
    ''THUMB2_IMM1_IMM3_IMM8'', ''THUMB2_NO_FLAG'', ''THUMB2_ROTATE_FLAG'', ''THUMB2_U_FLAG'',
    ''THUMB2_WUP_FLAG'', ''THUMB2_TYPE_FLAG'', ''THUMB2_REGLIST_FLAG'',
    ''THUMB2_WP_REGLIST_FLAG'', ''THUMB2_S_FLAG'', ''THUMB2_S_TYPE_FLAG'']"

definition darm_registers :: "string list" where
  "darm_registers = [
    ''r0'', ''r1'', ''r2'', ''r3'', ''r4'', ''r5'', ''r6'', ''r7'', ''r8'', ''r9'', ''r10'',
    ''r11'', ''r12'', ''SP'', ''LR'', ''PC'']"

end
