(* ===== verification/Darm.thy ===== *)
theory Darm
  imports Darm_Tbl
begin

text \<open>
  The ARMv7 decoder (\<open>trace_analyzer/darm/armv7.c\<close>, \<open>darm.h\<close> and the parts of \<open>darm.c\<close> the trace
  analyzer uses). Registers, conditions, options and shift types are enumerations with the value
  -1 for "not used": they are \<open>int\<close>. The decoder is one long function with early returns; each of
  its cases is a definition here, and a case that can run into the code after it returns
  \<open>Fall\<close>. Every table lookup checks its index.
\<close>

section \<open>The decoded instruction\<close>

abbreviation (input) B_UNSET :: u32 where "B_UNSET \<equiv> 0"
abbreviation (input) B_SET :: u32 where "B_SET \<equiv> 1"
abbreviation (input) B_INVLD :: u32 where "B_INVLD \<equiv> 2"
abbreviation (input) R_INVLD :: int where "R_INVLD \<equiv> - 1"
abbreviation (input) R_SP :: int where "R_SP \<equiv> 13"
abbreviation (input) R_PC :: int where "R_PC \<equiv> 15"
abbreviation (input) C_AL :: int where "C_AL \<equiv> 14"
abbreviation (input) C_UNCOND :: int where "C_UNCOND \<equiv> 15"
abbreviation (input) C_INVLD :: int where "C_INVLD \<equiv> - 1"
abbreviation (input) S_LSL :: int where "S_LSL \<equiv> 0"
abbreviation (input) S_LSR :: int where "S_LSR \<equiv> 1"
abbreviation (input) S_ASR :: int where "S_ASR \<equiv> 2"
abbreviation (input) S_ROR :: int where "S_ROR \<equiv> 3"
abbreviation (input) S_INVLD :: int where "S_INVLD \<equiv> - 1"
abbreviation (input) O_INVLD :: int where "O_INVLD \<equiv> - 1"

record darm_t =
  d_w :: u32
  d_instr :: darm_instr_t
  d_instr_type :: darm_enctype_t
  d_instr_imm_type :: darm_enctype_t
  d_instr_flag_type :: darm_enctype_t
  d_cond :: int
  d_B :: u32
  d_S :: u32
  d_E :: u32
  d_M :: u32
  d_N :: u32
  d_option :: int
  d_U :: u32
  d_H :: u32
  d_P :: u32
  d_R :: u32
  d_T :: u32
  d_W :: u32
  d_I :: u32
  d_rotate :: u32
  d_Rd :: int
  d_Rn :: int
  d_Rm :: int
  d_Ra :: int
  d_Rt :: int
  d_Rt2 :: int
  d_RdHi :: int
  d_RdLo :: int
  d_imm :: u32
  d_sat_imm :: u32
  d_shift_type :: int
  d_Rs :: int
  d_shift :: u32
  d_lsb :: u32
  d_msb :: u32
  d_width :: u32
  d_reglist :: u16
  d_coproc :: u8
  d_opc1 :: u8
  d_opc2 :: u8
  d_CRd :: int
  d_CRn :: int
  d_CRm :: int
  d_D :: u32
  d_firstcond :: int
  d_mask :: u8

definition darm_init :: darm_t where
  "darm_init = \<lparr>d_w = 0, d_instr = I_INVLD, d_instr_type = T_INVLD, d_instr_imm_type = 0, d_instr_flag_type = 0,
     d_cond = 0, d_B = B_INVLD, d_S = B_INVLD, d_E = B_INVLD, d_M = B_INVLD, d_N = B_INVLD, d_option = O_INVLD,
     d_U = B_INVLD, d_H = B_INVLD, d_P = B_INVLD, d_R = B_INVLD, d_T = B_INVLD, d_W = B_INVLD, d_I = B_INVLD,
     d_rotate = 0, d_Rd = R_INVLD, d_Rn = R_INVLD, d_Rm = R_INVLD, d_Ra = R_INVLD, d_Rt = R_INVLD,
     d_Rt2 = R_INVLD, d_RdHi = R_INVLD, d_RdLo = R_INVLD, d_imm = 0, d_sat_imm = 0, d_shift_type = S_INVLD,
     d_Rs = R_INVLD, d_shift = 0, d_lsb = 0, d_msb = 0, d_width = 0, d_reglist = 0, d_coproc = 0, d_opc1 = 0,
     d_opc2 = 0, d_CRd = R_INVLD, d_CRn = R_INVLD, d_CRm = R_INVLD, d_D = 0, d_firstcond = C_INVLD, d_mask = 0\<rparr>"

section \<open>Bit fields\<close>

text \<open>\<open>(w >> k) & m\<close>, as a word, as a register number and as a table index.\<close>

definition bits :: "u32 \<Rightarrow> nat \<Rightarrow> u32 \<Rightarrow> u32" where
  "bits w k m = drop_bit k w AND m"

definition ibits :: "u32 \<Rightarrow> nat \<Rightarrow> u32 \<Rightarrow> int" where
  "ibits w k m = uint (bits w k m)"

definition nbits :: "u32 \<Rightarrow> nat \<Rightarrow> u32 \<Rightarrow> nat" where
  "nbits w k m = unat (bits w k m)"

definition BITMSK_12 :: u32 where
  "BITMSK_12 = 0xFFF"

definition BITMSK_16 :: u32 where
  "BITMSK_16 = 0xFFFF"

definition BITMSK_24 :: u32 where
  "BITMSK_24 = 0xFFFFFF"

definition ROR :: "u32 \<Rightarrow> nat \<Rightarrow> u32" where
  "ROR val r = shr32 val r OR shl32 val (32 - r)"

definition ARMExpandImm :: "u32 \<Rightarrow> u32" where
  "ARMExpandImm imm12 = ROR (imm12 AND 0xFF) (nbits imm12 7 0x1E)"

section \<open>Unconditional instructions\<close>

definition uncond_barrier :: "darm_t \<Rightarrow> u32 \<Rightarrow> (bool \<times> darm_t) option" where
  "uncond_barrier d w =
     (if bits w 21 1 \<noteq> 0 then do {
        i \<leftarrow> nget type_uncond2_instr_lookup (nbits w 4 7);
        let d = d\<lparr>d_instr := i\<rparr>;
        if i \<noteq> I_INVLD then Some (True, if i \<noteq> I_CLREX then d\<lparr>d_option := ibits w 0 15\<rparr> else d)
        else Some (False, d) }
      else Some (False, d))"

definition uncond_preload :: "darm_t \<Rightarrow> u32 \<Rightarrow> darm_t" where
  "uncond_preload d w =
     (let d = d\<lparr>d_instr := if bits w 24 1 \<noteq> 0 then I_PLD else I_PLI, d_Rn := ibits w 16 15, d_U := bits w 23 1\<rparr>;
          d = (if bits w 25 1 \<noteq> 0
               then d\<lparr>d_Rm := ibits w 0 15, d_shift_type := ibits w 5 3, d_shift := bits w 7 31\<rparr>
               else d\<lparr>d_I := B_SET, d_imm := w AND BITMSK_12\<rparr>)
      in if d_instr d = I_PLD \<and> bits w 22 1 = 0 then d\<lparr>d_instr := I_PLDW\<rparr> else d)"

text \<open>The sign extension of a 24-bit branch offset, times four.\<close>

definition branch_imm :: "u32 \<Rightarrow> u32" where
  "branch_imm imm = (if bits imm 23 1 \<noteq> 0 then push_bit 2 (imm OR 0xFF000000) else push_bit 2 imm)"

definition uncond_blx :: "darm_t \<Rightarrow> u32 \<Rightarrow> darm_t" where
  "uncond_blx d w =
     (let h = bits w 24 1
      in d\<lparr>d_instr := I_BLX, d_H := h, d_I := B_SET, d_imm := branch_imm (w AND BITMSK_24) OR push_bit 1 h\<rparr>)"

definition uncond_coproc :: "darm_t \<Rightarrow> u32 \<Rightarrow> darm_t" where
  "uncond_coproc d w =
     (let d = d\<lparr>d_CRn := ibits w 16 15, d_coproc := ucast (bits w 8 15), d_opc2 := ucast (bits w 5 7),
            d_CRm := ibits w 0 15\<rparr>
      in if bits w 4 1 = 0
         then d\<lparr>d_instr := I_CDP2, d_CRd := ibits w 12 15, d_opc1 := ucast (bits w 20 15)\<rparr>
         else d\<lparr>d_instr := if bits w 20 1 \<noteq> 0 then I_MRC2 else I_MCR2, d_opc1 := ucast (bits w 21 7),
            d_Rt := ibits w 12 15\<rparr>)"

definition armv7_disas_uncond :: "darm_t \<Rightarrow> u32 \<Rightarrow> (int \<times> darm_t) option" where
  "armv7_disas_uncond d w =
     (let d = d\<lparr>d_instr_type := T_ARM_UNCOND\<rparr>; k = nbits w 25 7
      in if k = 0 then Some (0, d\<lparr>d_instr := I_SETEND, d_E := bits w 9 1\<rparr>)
         else if k = 2 then do {
           (done, d) \<leftarrow> uncond_barrier d w;
           Some (0, if done then d else uncond_preload d w) }
         else if k = 3 then Some (0, uncond_preload d w)
         else if k = 5 then Some (0, uncond_blx d w)
         else if k = 7 then Some (0, uncond_coproc d w)
         else Some (- 1, d))"

section \<open>Conditional instructions outside the main table\<close>

datatype darm_step = Ret int darm_t | Fall darm_t

fun and_then :: "darm_step \<Rightarrow> (darm_t \<Rightarrow> darm_step option) \<Rightarrow> darm_step option" where
  "and_then (Ret r d) f = Some (Ret r d)"
| "and_then (Fall d) f = f d"

definition disas_mul :: "darm_t \<Rightarrow> u32 \<Rightarrow> darm_step option" where
  "disas_mul d w = do {
     i \<leftarrow> nget type_mul_instr_lookup (nbits w 21 7);
     let d = d\<lparr>d_instr := i, d_instr_type := T_ARM_MUL, d_S := bits w 20 1, d_Rm := ibits w 8 15,
       d_Rn := ibits w 0 15\<rparr>;
     if (i = I_UMAAL \<or> i = I_MLS) \<and> d_S d \<noteq> 0 then Some (Ret (- 1) d)
     else Some (Ret 0 (
       if i = I_MLA \<or> i = I_MLS then d\<lparr>d_Ra := ibits w 12 15, d_Rd := ibits w 16 15\<rparr>
       else if i = I_MUL then d\<lparr>d_Rd := ibits w 16 15\<rparr>
       else if i \<in> {I_UMAAL, I_UMULL, I_UMLAL, I_SMULL, I_SMLAL}
       then d\<lparr>d_RdHi := ibits w 16 15, d_RdLo := ibits w 12 15\<rparr>
       else d)) }"

definition stack_offset :: "darm_t \<Rightarrow> u32 \<Rightarrow> darm_t" where
  "stack_offset d w =
     (if bits w 22 1 = 0 then d\<lparr>d_Rm := ibits w 0 15\<rparr>
      else d\<lparr>d_imm := bits w 4 0xF0 OR (w AND 15), d_I := B_SET\<rparr>)"

definition stack_index :: "u32 \<Rightarrow> nat" where
  "stack_index w = unat (bits w 4 6 OR bits w 20 1)"

definition disas_stack1 :: "darm_t \<Rightarrow> u32 \<Rightarrow> darm_step option" where
  "disas_stack1 d w = do {
     i \<leftarrow> nget type_stack1_instr_lookup (stack_index w);
     let d = d\<lparr>d_instr := i\<rparr>;
     if i = I_INVLD then Some (Ret (- 1) d)
     else Some (Ret 0 (stack_offset (d\<lparr>d_instr_type := T_ARM_STACK1, d_Rn := ibits w 16 15, d_Rt := ibits w 12 15,
       d_P := bits w 24 1, d_U := bits w 23 1\<rparr>) w)) }"

definition disas_stack2 :: "darm_t \<Rightarrow> u32 \<Rightarrow> darm_step option" where
  "disas_stack2 d w = do {
     i \<leftarrow> nget type_stack2_instr_lookup (stack_index w);
     let d = d\<lparr>d_instr := i\<rparr>;
     if i = I_INVLD then Some (Ret (- 1) d)
     else Some (Ret 0 (stack_offset (d\<lparr>d_instr_type := T_ARM_STACK2, d_Rn := ibits w 16 15, d_Rt := ibits w 12 15,
       d_P := bits w 24 1, d_U := bits w 23 1, d_W := bits w 21 1\<rparr>) w)) }"

definition disas_sync :: "darm_t \<Rightarrow> u32 \<Rightarrow> darm_step option" where
  "disas_sync d w = do {
     i \<leftarrow> nget type_sync_instr_lookup (nbits w 20 15);
     let d = d\<lparr>d_instr := i, d_instr_type := T_ARM_SYNC, d_Rn := ibits w 16 15\<rparr>;
     if i = I_SWP \<or> i = I_SWPB
     then Some (Ret 0 (d\<lparr>d_B := bits w 22 1, d_Rt := ibits w 12 15, d_Rt2 := ibits w 0 15\<rparr>))
     else if i \<in> {I_LDREX, I_LDREXD, I_LDREXB, I_LDREXH} then Some (Ret 0 (d\<lparr>d_Rt := ibits w 12 15\<rparr>))
     else if i \<in> {I_STREX, I_STREXD, I_STREXB, I_STREXH}
     then Some (Ret 0 (d\<lparr>d_Rd := ibits w 12 15, d_Rt := ibits w 0 15\<rparr>))
     else Some (Fall d) }"

definition disas_mul_ldst :: "darm_t \<Rightarrow> u32 \<Rightarrow> darm_step option" where
  "disas_mul_ldst d w =
     (if bits w 24 1 = 0 \<and> bits w 4 15 = 9 then disas_mul d w
      else if bits w 24 1 = 0 \<and> bits w 5 3 \<noteq> 0 \<and> bits w 21 1 \<noteq> 0 then disas_stack1 d w
      else if bits w 5 3 \<noteq> 0 \<and> bits w 20 18 \<noteq> 2 then disas_stack2 d w
      else if bits w 24 1 = 1 \<and> bits w 4 15 = 9 then disas_sync d w
      else Some (Fall d))"

definition media_mask :: u32 where
  "media_mask = push_bit 25 1 OR push_bit 4 1"

definition push_pop :: "darm_t \<Rightarrow> darm_t" where
  "push_pop d =
     (if d_instr d = I_STR \<and> d_Rn d = R_SP \<and> d_P d = 1 \<and> d_U d = 0 \<and> d_W d = 1 \<and> d_imm d = 4
      then d\<lparr>d_instr := I_PUSH\<rparr>
      else if d_instr d = I_LDR \<and> d_Rn d = R_SP \<and> d_P d = 0 \<and> d_U d = 1 \<and> d_W d = 0 \<and> d_imm d = 4
      then d\<lparr>d_instr := I_POP\<rparr> else d)"

definition disas_stack0 :: "darm_t \<Rightarrow> u32 \<Rightarrow> darm_step option" where
  "disas_stack0 d w =
     (if w AND media_mask \<noteq> media_mask then do {
        i \<leftarrow> nget type_stack0_instr_lookup (nbits w 20 31);
        let d = d\<lparr>d_instr := i, d_instr_type := T_ARM_STACK0, d_Rn := ibits w 16 15, d_Rt := ibits w 12 15,
          d_P := bits w 24 1, d_U := bits w 23 1, d_W := bits w 21 1\<rparr>;
        let d = (if bits w 25 1 = 0 then d\<lparr>d_imm := w AND BITMSK_12, d_I := B_SET\<rparr>
          else d\<lparr>d_shift_type := ibits w 5 3, d_shift := bits w 7 31, d_Rm := ibits w 0 15\<rparr>);
        Some (Ret 0 (push_pop d)) }
      else Some (Fall d))"

definition disas_sat :: "darm_t \<Rightarrow> u32 \<Rightarrow> darm_step option" where
  "disas_sat d w =
     (if w AND (push_bit 20 0xF9 OR push_bit 4 15) = push_bit 24 1 OR push_bit 4 5 then do {
        i \<leftarrow> nget type_sat_instr_lookup (nbits w 21 3);
        Some (Ret 0 (d\<lparr>d_instr := i, d_instr_type := T_ARM_SAT, d_Rn := ibits w 16 15, d_Rd := ibits w 12 15,
          d_Rm := ibits w 0 15\<rparr>)) }
      else Some (Fall d))"

definition pusr_extend :: "darm_t \<Rightarrow> u32 \<Rightarrow> darm_step option" where
  "pusr_extend d w =
     (if bits w 5 7 = 3 then do {
        i \<leftarrow> nget type_pusr_instr_lookup (unat (push_bit 1 (bits w 20 7) OR of_cbool (bits w 16 15 = 15)));
        let d = d\<lparr>d_instr := i\<rparr>;
        if i \<noteq> I_INVLD then do {
          let d = d\<lparr>d_Rd := ibits w 12 15, d_Rm := ibits w 0 15, d_rotate := bits w 7 0x18\<rparr>;
          Some (Ret 0 (if bits w 16 15 \<noteq> 15 then d\<lparr>d_Rn := ibits w 16 15\<rparr> else d)) }
        else Some (Fall d) }
      else Some (Fall d))"

definition pusr_sat :: "darm_t \<Rightarrow> u32 \<Rightarrow> darm_step option" where
  "pusr_sat d w =
     (if bits w 20 7 AND 2 = 2 \<and> bits w 5 7 AND 1 = 0 then
        (let i = (if drop_bit 2 (bits w 20 7) \<noteq> 0 then I_USAT else I_SSAT)
         in Some (Ret 0 (d\<lparr>d_instr := i, d_imm := bits w 16 31 + (if i = I_SSAT then 1 else 0), d_I := B_SET,
           d_Rd := ibits w 12 15, d_shift := bits w 7 31, d_shift_type := ibits w 5 3, d_Rn := ibits w 0 15\<rparr>)))
      else Some (Fall d))"

definition pusr_sat16 :: "darm_t \<Rightarrow> u32 \<Rightarrow> darm_step option" where
  "pusr_sat16 d w =
     (if (bits w 20 7 = 2 \<or> bits w 20 7 = 6) \<and> bits w 5 7 = 1 then
        (let i = (if bits w 20 7 = 2 then I_SSAT16 else I_USAT16)
         in Some (Ret 0 (d\<lparr>d_instr := i, d_imm := bits w 16 15 + (if i = I_SSAT16 then 1 else 0), d_I := B_SET,
           d_Rd := ibits w 12 15, d_Rn := ibits w 0 15\<rparr>)))
      else Some (Fall d))"

definition disas_pusr :: "darm_t \<Rightarrow> u32 \<Rightarrow> darm_step option" where
  "disas_pusr d w =
     (if w AND (push_bit 23 31 OR push_bit 4 1) = push_bit 23 13 OR push_bit 4 1 then do {
        s \<leftarrow> pusr_extend (d\<lparr>d_instr_type := T_ARM_PUSR\<rparr>) w;
        s \<leftarrow> and_then s (\<lambda>d. pusr_sat d w);
        and_then s (\<lambda>d. pusr_sat16 d w) }
      else Some (Fall d))"

section \<open>Conditional instructions of the main table\<close>

definition reg_or_imm_shift :: "darm_t \<Rightarrow> u32 \<Rightarrow> darm_t" where
  "reg_or_imm_shift d w =
     (if bits w 4 1 = B_SET then d\<lparr>d_Rs := ibits w 8 15\<rparr> else d\<lparr>d_shift := bits w 7 31\<rparr>)"

definition disas_arith_shift :: "darm_t \<Rightarrow> u32 \<Rightarrow> darm_t" where
  "disas_arith_shift d w = reg_or_imm_shift (d\<lparr>d_S := bits w 20 1, d_Rd := ibits w 12 15, d_Rn := ibits w 16 15,
     d_Rm := ibits w 0 15, d_shift_type := ibits w 5 3\<rparr>) w"

definition disas_arith_imm :: "darm_t \<Rightarrow> u32 \<Rightarrow> darm_t" where
  "disas_arith_imm d w =
     (let d = d\<lparr>d_S := bits w 20 1, d_Rd := ibits w 12 15, d_Rn := ibits w 16 15,
            d_imm := ARMExpandImm (w AND BITMSK_12), d_I := B_SET\<rparr>
      in if (d_instr d = I_ADD \<or> d_instr d = I_SUB) \<and> d_S d = 0 \<and> d_Rn d = R_PC
         then d\<lparr>d_instr := I_ADR, d_Rn := R_INVLD, d_U := bits w 23 1\<rparr> else d)"

definition disas_bits :: "darm_t \<Rightarrow> u32 \<Rightarrow> darm_t option" where
  "disas_bits d w = do {
     i \<leftarrow> nget type_bits_instr_lookup (nbits w 21 3);
     let d = d\<lparr>d_instr := i, d_instr_type := T_ARM_BITS, d_Rd := ibits w 12 15, d_Rn := ibits w 0 15,
       d_lsb := bits w 7 31\<rparr>;
     Some (if i = I_BFI then
         (let d = d\<lparr>d_width := bits w 16 31 - d_lsb d + 1\<rparr>
          in if d_Rn d = 15 then d\<lparr>d_Rn := R_INVLD, d_instr := I_BFC\<rparr> else d)
       else d\<lparr>d_width := bits w 16 31 + 1\<rparr>) }"

definition disas_brnchsc :: "darm_t \<Rightarrow> u32 \<Rightarrow> darm_t" where
  "disas_brnchsc d w =
     (let d = d\<lparr>d_imm := w AND BITMSK_24, d_I := B_SET\<rparr>
      in if d_instr d \<noteq> I_SVC then d\<lparr>d_imm := branch_imm (d_imm d)\<rparr> else d)"

definition disas_brnchmisc :: "darm_t \<Rightarrow> u32 \<Rightarrow> (int \<times> darm_t) option" where
  "disas_brnchmisc d w = do {
     i \<leftarrow> nget type_brnchmisc_instr_lookup (nbits w 4 15);
     let d = d\<lparr>d_instr := i\<rparr>;
     if i = I_BKPT then Some (0, d\<lparr>d_imm := push_bit 4 (bits w 8 BITMSK_12) + (w AND 15), d_I := B_SET\<rparr>)
     else if i = I_BX \<or> i = I_BXJ \<or> i = I_BLX then Some (0, d\<lparr>d_Rm := ibits w 0 15\<rparr>)
     else if i = I_MSR then Some (0, d\<lparr>d_Rn := ibits w 0 15, d_imm := bits w 18 3, d_I := B_SET\<rparr>)
     else Some (- 1, d) }"

definition disas_mov_imm :: "darm_t \<Rightarrow> u32 \<Rightarrow> darm_t" where
  "disas_mov_imm d w =
     (let d = d\<lparr>d_Rd := ibits w 12 15, d_imm := w AND BITMSK_12, d_I := B_SET\<rparr>
      in if d_instr d = I_MOV \<or> d_instr d = I_MVN
         then d\<lparr>d_S := bits w 20 1, d_imm := ARMExpandImm (d_imm d)\<rparr>
         else d\<lparr>d_imm := d_imm d OR push_bit 12 (bits w 16 15)\<rparr>)"

definition disas_cmp_op :: "darm_t \<Rightarrow> u32 \<Rightarrow> darm_t" where
  "disas_cmp_op d w = reg_or_imm_shift (d\<lparr>d_Rn := ibits w 16 15, d_Rm := ibits w 0 15, d_shift_type := ibits w 5 3\<rparr>) w"

definition disas_cmp_imm :: "darm_t \<Rightarrow> u32 \<Rightarrow> darm_t" where
  "disas_cmp_imm d w = d\<lparr>d_Rn := ibits w 16 15, d_imm := ARMExpandImm (w AND BITMSK_12), d_I := B_SET\<rparr>"

definition disas_opless :: "darm_t \<Rightarrow> u32 \<Rightarrow> (int \<times> darm_t) option" where
  "disas_opless d w = do {
     i \<leftarrow> nget type_opless_instr_lookup (nbits w 0 7);
     Some (if i = I_INVLD then - 1 else 0, d\<lparr>d_instr := i\<rparr>) }"

definition disas_dst_src :: "darm_t \<Rightarrow> u32 \<Rightarrow> (int \<times> darm_t) option" where
  "disas_dst_src d w = do {
     i \<leftarrow> nget type_shift_instr_lookup (nbits w 4 15);
     let d = d\<lparr>d_instr := i\<rparr>;
     if i = I_INVLD then Some (- 1, d)
     else do {
       let d = d\<lparr>d_S := bits w 20 1, d_Rd := ibits w 12 15, d_shift_type := ibits w 5 3\<rparr>;
       if bits w 4 1 \<noteq> 0 then Some (0, d\<lparr>d_Rm := ibits w 8 15, d_Rn := ibits w 0 15\<rparr>)
       else do {
         let d = d\<lparr>d_Rm := ibits w 0 15, d_shift := bits w 7 31\<rparr>;
         Some (0, if i = I_LSL \<and> d_shift_type d = S_LSL \<and> d_shift d = 0 then d\<lparr>d_instr := I_MOV\<rparr>
           else if i = I_ROR \<and> d_shift_type d = S_ROR \<and> d_shift d = 0 then d\<lparr>d_instr := I_RRX\<rparr> else d) } } }"

definition disas_ldstregs :: "darm_t \<Rightarrow> u32 \<Rightarrow> darm_t" where
  "disas_ldstregs d w =
     (let d = d\<lparr>d_W := bits w 21 1, d_Rn := ibits w 16 15, d_reglist := ucast (w AND BITMSK_16)\<rparr>
      in if d_instr d = I_LDM \<and> d_W d = 1 \<and> d_Rn d = R_SP then d\<lparr>d_instr := I_POP\<rparr>
         else if d_instr d = I_STMDB \<and> d_W d = 1 \<and> d_Rn d = R_SP then d\<lparr>d_instr := I_PUSH\<rparr> else d)"

definition disas_bitrev :: "darm_t \<Rightarrow> u32 \<Rightarrow> darm_t" where
  "disas_bitrev d w =
     (let d = d\<lparr>d_Rd := ibits w 12 15, d_Rm := ibits w 0 15\<rparr>
      in if d_instr d = I_REV16 \<and> bits w 4 15 = 3 then d\<lparr>d_instr := I_REV\<rparr>
         else if d_instr d = I_REVSH \<and> bits w 4 15 = 3 then d\<lparr>d_instr := I_RBIT\<rparr> else d)"

definition misc_mvn :: "darm_t \<Rightarrow> u32 \<Rightarrow> darm_t" where
  "misc_mvn d w =
     (let d = d\<lparr>d_S := bits w 20 1, d_Rd := ibits w 12 15, d_shift_type := ibits w 5 3, d_Rm := ibits w 0 15\<rparr>
      in if bits w 4 1 = B_UNSET then d\<lparr>d_shift := bits w 7 31\<rparr> else d\<lparr>d_Rs := ibits w 8 15\<rparr>)"

definition misc_smc :: "darm_t \<Rightarrow> u32 \<Rightarrow> int \<times> darm_t" where
  "misc_smc d w =
     (let k = bits w 4 15
      in if k = 8 \<or> k = 10 \<or> k = 12 \<or> k = 14
         then (0, d\<lparr>d_instr := I_SMUL, d_instr_type := T_ARM_SM, d_Rd := ibits w 16 15, d_Rm := ibits w 8 15,
           d_M := bits w 6 1, d_N := bits w 5 1, d_Rn := ibits w 0 15\<rparr>)
         else if k = 7 then (0, d\<lparr>d_instr := I_SMC, d_imm := w AND 15, d_I := B_SET\<rparr>)
         else if k = 1 then (0, d\<lparr>d_instr := I_CLZ, d_Rm := ibits w 0 15, d_Rd := ibits w 12 15\<rparr>)
         else (- 1, d))"

definition misc_sel :: "darm_t \<Rightarrow> u32 \<Rightarrow> darm_t" where
  "misc_sel d w =
     (let d = d\<lparr>d_Rd := ibits w 12 15, d_Rn := ibits w 16 15, d_Rm := ibits w 0 15\<rparr>
      in if bits w 5 1 = 0
         then d\<lparr>d_instr := I_PKH, d_shift_type := ibits w 5 2, d_shift := bits w 7 31, d_T := bits w 6 1\<rparr> else d)"

definition disas_misc :: "darm_t \<Rightarrow> u32 \<Rightarrow> darm_step" where
  "disas_misc d w =
     (if d_instr d = I_MVN then Ret 0 (misc_mvn d w)
      else if d_instr d = I_DBG then Ret 0 (d\<lparr>d_option := ibits w 0 15\<rparr>)
      else if d_instr d = I_SMC then (case misc_smc d w of (r, d) \<Rightarrow> Ret r d)
      else if d_instr d = I_SEL then Ret 0 (misc_sel d w)
      else Fall d)"

definition sm_smmul :: "darm_t \<Rightarrow> u32 \<Rightarrow> darm_t" where
  "sm_smmul d w =
     (let d = d\<lparr>d_Rd := ibits w 16 15, d_Ra := ibits w 12 15, d_Rm := ibits w 8 15, d_R := bits w 5 1,
            d_Rn := ibits w 0 15\<rparr>
      in if bits w 6 1 \<noteq> 0 then d\<lparr>d_instr := I_SMMLS\<rparr>
         else if d_Ra d \<noteq> 15 then d\<lparr>d_instr := I_SMMLA\<rparr> else d)"

definition sm_smusd :: "darm_t \<Rightarrow> u32 \<Rightarrow> darm_t" where
  "sm_smusd d w =
     (let d = d\<lparr>d_Rd := ibits w 16 15, d_Ra := ibits w 12 15, d_Rm := ibits w 8 15, d_M := bits w 5 1,
            d_Rn := ibits w 0 15\<rparr>
      in if bits w 6 1 \<noteq> 0 \<and> d_Rn d \<noteq> 15 then d\<lparr>d_instr := I_SMLSD\<rparr>
         else if bits w 6 1 = 0 then d\<lparr>d_instr := if d_Ra d = 15 then I_SMUAD else I_SMLAD\<rparr> else d)"

definition sm_smlsld :: "darm_t \<Rightarrow> u32 \<Rightarrow> darm_t" where
  "sm_smlsld d w =
     (let d = d\<lparr>d_RdHi := ibits w 16 15, d_RdLo := ibits w 12 15, d_Rm := ibits w 8 15, d_M := bits w 5 1,
            d_Rn := ibits w 0 15\<rparr>
      in if bits w 6 1 = 0 then d\<lparr>d_instr := I_SMLALD\<rparr> else d)"

definition disas_sm :: "darm_t \<Rightarrow> u32 \<Rightarrow> darm_step" where
  "disas_sm d w =
     (if d_instr d = I_SMMUL then Ret 0 (sm_smmul d w)
      else if d_instr d = I_SMUSD then Ret 0 (sm_smusd d w)
      else if d_instr d = I_SMLSLD then Ret 0 (sm_smlsld d w)
      else if d_instr d = I_SMLA
      then Ret 0 (d\<lparr>d_Rd := ibits w 16 15, d_Ra := ibits w 12 15, d_Rm := ibits w 8 15, d_M := bits w 6 1,
        d_N := bits w 5 1, d_Rn := ibits w 0 15\<rparr>)
      else if d_instr d = I_SMLAL
      then Ret 0 (d\<lparr>d_RdHi := ibits w 16 15, d_RdLo := ibits w 12 15, d_Rm := ibits w 8 15, d_M := bits w 6 1,
        d_N := bits w 5 1, d_Rn := ibits w 0 15\<rparr>)
      else Fall d)"

definition disas_pas :: "darm_t \<Rightarrow> u32 \<Rightarrow> (int \<times> darm_t) option" where
  "disas_pas d w = do {
     i \<leftarrow> nget type_pas_instr_lookup (unat (bits w 17 0x38 OR bits w 5 7));
     let d = d\<lparr>d_instr := i\<rparr>;
     if i = I_INVLD then Some (- 1, d)
     else Some (0, d\<lparr>d_Rn := ibits w 16 15, d_Rd := ibits w 12 15, d_Rm := ibits w 0 15\<rparr>) }"

definition disas_mvcr :: "darm_t \<Rightarrow> u32 \<Rightarrow> darm_t" where
  "disas_mvcr d w =
     (let d = d\<lparr>d_CRn := ibits w 16 15, d_coproc := ucast (bits w 8 15), d_opc2 := ucast (bits w 5 7),
            d_CRm := ibits w 0 15\<rparr>
      in if bits w 4 1 = 0 then d\<lparr>d_instr := I_CDP, d_opc1 := ucast (bits w 20 15), d_CRd := ibits w 12 15\<rparr>
         else d\<lparr>d_opc1 := ucast (bits w 21 7), d_Rt := ibits w 12 15\<rparr>)"

definition disas_udf :: "darm_t \<Rightarrow> u32 \<Rightarrow> darm_t" where
  "disas_udf d w = d\<lparr>d_I := B_SET, d_imm := (w AND 15) OR bits w 4 (push_bit 4 BITMSK_12)\<rparr>"

text \<open>A label of the main table that a case does not handle runs into the next case.\<close>

definition sm_then_pas :: "darm_t \<Rightarrow> u32 \<Rightarrow> (int \<times> darm_t) option" where
  "sm_then_pas d w = (case disas_sm d w of Ret r d \<Rightarrow> Some (r, d) | Fall d \<Rightarrow> disas_pas d w)"

definition misc_then_sm :: "darm_t \<Rightarrow> u32 \<Rightarrow> (int \<times> darm_t) option" where
  "misc_then_sm d w = (case disas_misc d w of Ret r d \<Rightarrow> Some (r, d) | Fall d \<Rightarrow> sm_then_pas d w)"

definition disas_by_type :: "darm_t \<Rightarrow> u32 \<Rightarrow> (int \<times> darm_t) option" where
  "disas_by_type d w =
     (let t = d_instr_type d
      in if t = T_ARM_ARITH_SHIFT then Some (0, disas_arith_shift d w)
         else if t = T_ARM_ARITH_IMM then Some (0, disas_arith_imm d w)
         else if t = T_ARM_BITS then map_option (Pair 0) (disas_bits d w)
         else if t = T_ARM_BRNCHSC then Some (0, disas_brnchsc d w)
         else if t = T_ARM_BRNCHMISC then disas_brnchmisc d w
         else if t = T_ARM_MOV_IMM then Some (0, disas_mov_imm d w)
         else if t = T_ARM_CMP_OP then Some (0, disas_cmp_op d w)
         else if t = T_ARM_CMP_IMM then Some (0, disas_cmp_imm d w)
         else if t = T_ARM_OPLESS then disas_opless d w
         else if t = T_ARM_DST_SRC then disas_dst_src d w
         else if t = T_ARM_LDSTREGS then Some (0, disas_ldstregs d w)
         else if t = T_ARM_BITREV then Some (0, disas_bitrev d w)
         else if t = T_ARM_MISC then misc_then_sm d w
         else if t = T_ARM_SM then sm_then_pas d w
         else if t = T_ARM_PAS then disas_pas d w
         else if t = T_ARM_MVCR then Some (0, disas_mvcr d w)
         else if t = T_ARM_UDF then Some (0, disas_udf d w)
         else Some (- 1, d))"

section \<open>The decoder\<close>

definition armv7_disas_cond :: "darm_t \<Rightarrow> u32 \<Rightarrow> (int \<times> darm_t) option" where
  "armv7_disas_cond d w = do {
     s \<leftarrow> (if w AND (push_bit 25 7 OR push_bit 4 9) = push_bit 4 9 then disas_mul_ldst d w
           else if bits w 26 3 = 1 then disas_stack0 d w else Some (Fall d));
     s \<leftarrow> and_then s (\<lambda>d. disas_sat d w);
     s \<leftarrow> and_then s (\<lambda>d. disas_pusr d w);
     case s of Ret r d \<Rightarrow> Some (r, d)
     | Fall d \<Rightarrow> do {
         i \<leftarrow> nget armv7_instr_labels (nbits w 20 0xFF);
         t \<leftarrow> nget armv7_instr_types (nbits w 20 0xFF);
         disas_by_type (d\<lparr>d_instr := i, d_instr_type := t\<rparr>) w } }"

definition darm_armv7_disasm :: "u32 \<Rightarrow> (int \<times> darm_t) option" where
  "darm_armv7_disasm w = do {
     let d = darm_init\<lparr>d_w := w, d_cond := ibits w 28 15\<rparr>;
     (ret, d) \<leftarrow> (if d_cond d = C_UNCOND then armv7_disas_uncond d w else armv7_disas_cond d w);
     if ret < 0 then Some (ret, d)
     else Some (0, if d_shift_type d = S_LSL \<and> d_Rs d = R_INVLD \<and> d_shift d = 0
                   then d\<lparr>d_shift_type := S_INVLD\<rparr> else d) }"

end
