(* ===== verification/Darm_Correct.thy ===== *)
theory Darm_Correct
  imports Darm
begin

text \<open>
  What the ARMv7 decoder guarantees: it is total and its result is well formed, its helpers compute
  what the architecture manual says, and the fields it extracts are the ones that were encoded.
\<close>

section \<open>Bit fields\<close>

lemma bits_le: "unat (bits w k m) \<le> unat m"
  unfolding bits_def by (simp add: word_and_le1 word_le_nat_alt [symmetric])

lemma ibits_range: "0 \<le> ibits w k m" "ibits w k m \<le> uint m"
  unfolding ibits_def using bits_le [of w k m] by (simp_all only: uint_nat of_nat_0_le_iff of_nat_le_iff)

lemma ibits_eq_iff: "ibits w k m = uint v \<longleftrightarrow> bits w k m = v"
  by (simp add: ibits_def word_uint_eq_iff)

lemma nbits_le: "nbits w k m \<le> unat m"
  using bits_le by (simp add: nbits_def)

section \<open>The result is well formed\<close>

definition reg_ok :: "int \<Rightarrow> bool" where
  "reg_ok r \<longleftrightarrow> - 1 \<le> r \<and> r \<le> 15"

definition flag_ok :: "u32 \<Rightarrow> bool" where
  "flag_ok b \<longleftrightarrow> b \<le> 2"

text \<open>
  The width of a bit field is computed as \<open>msb - lsb + 1\<close> in unsigned arithmetic; for a \<open>BFI\<close> whose
  bounds are swapped it wraps around, to a number that reads as -30 to 0 when it is signed.
\<close>

definition width_ok :: "u32 \<Rightarrow> bool" where
  "width_ok v \<longleftrightarrow> - 30 \<le> sint v \<and> sint v \<le> 32"

definition rotate_ok :: "u32 \<Rightarrow> bool" where
  "rotate_ok v \<longleftrightarrow> v \<in> {0, 8, 16, 24}"

text \<open>
  The range of every field of \<open>darm_t\<close>. The word itself, the immediate and the register list may
  have every value of their types; the fields that only the Thumb decoder writes keep the value
  that \<open>darm_init\<close> gives them.
\<close>

definition darm_wf :: "darm_t \<Rightarrow> bool" where
  "darm_wf d \<longleftrightarrow> d_instr d < I_INSTRCNT \<and> d_instr_type d \<le> T_ARM_UDF \<and> reg_ok (d_cond d) \<and> reg_ok (d_option d) \<and>
     list_all reg_ok [d_Rd d, d_Rn d, d_Rm d, d_Ra d, d_Rt d, d_Rt2 d, d_RdHi d, d_RdLo d, d_Rs d, d_CRd d, d_CRn d, d_CRm d] \<and>
     list_all flag_ok [d_B d, d_S d, d_E d, d_M d, d_N d, d_U d, d_H d, d_P d, d_R d, d_T d, d_W d, d_I d] \<and>
     - 1 \<le> d_shift_type d \<and> d_shift_type d \<le> 3 \<and> d_shift d < 32 \<and> d_lsb d < 32 \<and> width_ok (d_width d) \<and>
     rotate_ok (d_rotate d) \<and> d_coproc d < 16 \<and> d_opc1 d < 16 \<and> d_opc2 d < 8 \<and>
     d_instr_imm_type d = T_INVLD \<and> d_instr_flag_type d = T_INVLD \<and> d_sat_imm d = 0 \<and> d_msb d = 0 \<and> d_D d = 0 \<and>
     d_firstcond d = C_INVLD \<and> d_mask d = 0"

lemma reg_ok_ibits [simp]: "reg_ok (ibits w k 15)" "reg_ok (- 1)" "reg_ok 0" "reg_ok 13" "reg_ok 15"
  using ibits_range [of w k 15] by (simp_all add: reg_ok_def)

lemma flag_ok_bits [simp]: "flag_ok (bits w k 1)" "flag_ok 0" "flag_ok 1" "flag_ok 2"
  using bits_le [of w k 1] by (simp_all add: flag_ok_def word_le_nat_alt)

lemma shift_type_bits [simp]: "- 1 \<le> ibits w k m" "ibits w k 3 \<le> 3" "ibits w k 2 \<le> 3"
  using ibits_range [of w k m] ibits_range [of w k 3] ibits_range [of w k 2] by simp_all

lemma shift_bits [simp]: "bits w k 31 < 32"
  using bits_le [of w k 31] by (simp add: word_less_nat_alt)

lemma rotate_bits [simp]: "rotate_ok (bits w k 0x18)" "rotate_ok 0"
proof -
  have "bits w k 0x18 = push_bit 3 (bits w (k + 3) 3)"
  proof (rule bit_word_eqI)
    have m: "(0x18 :: u32) = push_bit 3 (mask 2)" "(3 :: u32) = mask 2" by (simp_all add: mask_eq_exp_minus_1 push_bit_eq_mult)
    fix n assume "n < LENGTH(32)"
    then show "bit (bits w k 0x18) n = bit (push_bit 3 (bits w (k + 3) 3)) n"
      unfolding bits_def m by (auto simp: bit_simps)
  qed
  moreover have "unat (bits w (k + 3) 3) \<in> {0, 1, 2, 3}" using bits_le [of w "k + 3" 3] by auto
  then have "bits w (k + 3) 3 \<in> {0, 1, 2, 3}" by (auto simp: word_unat_eq_iff)
  ultimately show "rotate_ok (bits w k 0x18)" by (auto simp: rotate_ok_def push_bit_eq_mult)
qed (simp add: rotate_ok_def)

lemma coproc_bits [simp]: "(ucast (bits w k 15) :: u8) < 16" "(ucast (bits w k 7) :: u8) < 16" "(ucast (bits w k 7) :: u8) < 8"
proof -
  have u: "unat (ucast (bits w k m) :: u8) = unat (bits w k m)" if "unat m < 256" for m
    using that bits_le [of w k m] by (simp add: unsigned_ucast_eq take_bit_nat_eq_self)
  show "(ucast (bits w k 15) :: u8) < 16" "(ucast (bits w k 7) :: u8) < 16" "(ucast (bits w k 7) :: u8) < 8"
    using bits_le [of w k 15] bits_le [of w k 7] by (simp_all add: word_less_nat_alt u)
qed

lemma width_range: "- 30 \<le> v \<Longrightarrow> v \<le> 32 \<Longrightarrow> width_ok (word_of_int v)"
proof -
  assume v: "- 30 \<le> v" "v \<le> 32"
  then have "- (2 ^ 31) \<le> v" "v < 2 ^ 31" by simp_all
  then have "signed_take_bit 31 v = v" by (rule signed_take_bit_int_eq_self)
  then have "sint (word_of_int v :: u32) = v" by (simp add: signed_of_int)
  then show ?thesis using v by (simp only: width_ok_def)
qed

lemma width_bits [simp]: "width_ok (bits w k 31 - bits w j 31 + 1)" "width_ok (bits w k 31 + 1)" "width_ok 0"
proof -
  have r: "0 \<le> uint (bits w i 31)" "uint (bits w i 31) \<le> 31" for i
    using ibits_range [of w i 31] by (simp_all add: ibits_def)
  have "width_ok (word_of_int (uint (bits w k 31) - uint (bits w j 31) + 1))" "width_ok (word_of_int (uint (bits w k 31) + 1))"
    using r [of k] r [of j] by (intro width_range; linarith)+
  then show "width_ok (bits w k 31 - bits w j 31 + 1)" "width_ok (bits w k 31 + 1)" by simp_all
qed (simp add: width_ok_def)

lemma darm_wf_init [simp]: "darm_wf darm_init"
  by (simp add: darm_wf_def darm_init_def)

lemma darm_wf_regs [wf_preserve]:
  assumes "darm_wf d" "reg_ok r"
  shows "darm_wf (d\<lparr>d_Rd := r\<rparr>)" "darm_wf (d\<lparr>d_Rn := r\<rparr>)" "darm_wf (d\<lparr>d_Rm := r\<rparr>)" "darm_wf (d\<lparr>d_Ra := r\<rparr>)"
    "darm_wf (d\<lparr>d_Rt := r\<rparr>)" "darm_wf (d\<lparr>d_Rt2 := r\<rparr>)" "darm_wf (d\<lparr>d_RdHi := r\<rparr>)" "darm_wf (d\<lparr>d_RdLo := r\<rparr>)"
    "darm_wf (d\<lparr>d_Rs := r\<rparr>)" "darm_wf (d\<lparr>d_CRd := r\<rparr>)" "darm_wf (d\<lparr>d_CRn := r\<rparr>)" "darm_wf (d\<lparr>d_CRm := r\<rparr>)"
    "darm_wf (d\<lparr>d_cond := r\<rparr>)" "darm_wf (d\<lparr>d_option := r\<rparr>)"
  using assms by (simp_all add: darm_wf_def)

lemma darm_wf_flags [wf_preserve]:
  assumes "darm_wf d" "flag_ok b"
  shows "darm_wf (d\<lparr>d_B := b\<rparr>)" "darm_wf (d\<lparr>d_S := b\<rparr>)" "darm_wf (d\<lparr>d_E := b\<rparr>)" "darm_wf (d\<lparr>d_M := b\<rparr>)"
    "darm_wf (d\<lparr>d_N := b\<rparr>)" "darm_wf (d\<lparr>d_U := b\<rparr>)" "darm_wf (d\<lparr>d_H := b\<rparr>)" "darm_wf (d\<lparr>d_P := b\<rparr>)"
    "darm_wf (d\<lparr>d_R := b\<rparr>)" "darm_wf (d\<lparr>d_T := b\<rparr>)" "darm_wf (d\<lparr>d_W := b\<rparr>)" "darm_wf (d\<lparr>d_I := b\<rparr>)"
  using assms by (simp_all add: darm_wf_def)

lemma darm_wf_other [wf_preserve]:
  assumes "darm_wf d"
  shows "darm_wf (d\<lparr>d_w := v\<rparr>)" "darm_wf (d\<lparr>d_imm := v\<rparr>)" "darm_wf (d\<lparr>d_reglist := l\<rparr>)"
    "t \<le> T_ARM_UDF \<Longrightarrow> darm_wf (d\<lparr>d_instr_type := t\<rparr>)" "width_ok v \<Longrightarrow> darm_wf (d\<lparr>d_width := v\<rparr>)"
    "rotate_ok v \<Longrightarrow> darm_wf (d\<lparr>d_rotate := v\<rparr>)" "c < 16 \<Longrightarrow> darm_wf (d\<lparr>d_coproc := c\<rparr>)"
    "c < 16 \<Longrightarrow> darm_wf (d\<lparr>d_opc1 := c\<rparr>)" "c < 8 \<Longrightarrow> darm_wf (d\<lparr>d_opc2 := c\<rparr>)"
    "i < I_INSTRCNT \<Longrightarrow> darm_wf (d\<lparr>d_instr := i\<rparr>)"
    "- 1 \<le> s \<Longrightarrow> s \<le> 3 \<Longrightarrow> darm_wf (d\<lparr>d_shift_type := s\<rparr>)"
    "v < 32 \<Longrightarrow> darm_wf (d\<lparr>d_shift := v\<rparr>)" "v < 32 \<Longrightarrow> darm_wf (d\<lparr>d_lsb := v\<rparr>)"
  using assms by (simp_all add: darm_wf_def)

lemma darm_tables_valid:
  "list_all (\<lambda>i. i < I_INSTRCNT) armv7_instr_labels" "list_all (\<lambda>i. i < I_INSTRCNT) type_shift_instr_lookup"
  "list_all (\<lambda>i. i < I_INSTRCNT) type_brnchmisc_instr_lookup" "list_all (\<lambda>i. i < I_INSTRCNT) type_opless_instr_lookup"
  "list_all (\<lambda>i. i < I_INSTRCNT) type_uncond2_instr_lookup" "list_all (\<lambda>i. i < I_INSTRCNT) type_mul_instr_lookup"
  "list_all (\<lambda>i. i < I_INSTRCNT) type_stack0_instr_lookup" "list_all (\<lambda>i. i < I_INSTRCNT) type_stack1_instr_lookup"
  "list_all (\<lambda>i. i < I_INSTRCNT) type_stack2_instr_lookup" "list_all (\<lambda>i. i < I_INSTRCNT) type_bits_instr_lookup"
  "list_all (\<lambda>i. i < I_INSTRCNT) type_pas_instr_lookup" "list_all (\<lambda>i. i < I_INSTRCNT) type_sat_instr_lookup"
  "list_all (\<lambda>i. i < I_INSTRCNT) type_sync_instr_lookup" "list_all (\<lambda>i. i < I_INSTRCNT) type_pusr_instr_lookup"
  by (simp_all add: armv7_instr_labels_def type_shift_instr_lookup_def type_brnchmisc_instr_lookup_def
    type_opless_instr_lookup_def type_uncond2_instr_lookup_def type_mul_instr_lookup_def
    type_stack0_instr_lookup_def type_stack1_instr_lookup_def type_stack2_instr_lookup_def
    type_bits_instr_lookup_def type_pas_instr_lookup_def type_sat_instr_lookup_def
    type_sync_instr_lookup_def type_pusr_instr_lookup_def)

text \<open>A lookup with an index in range gives an instruction label.\<close>

definition valid_table :: "darm_instr_t list \<Rightarrow> nat \<Rightarrow> bool" where
  "valid_table t n \<longleftrightarrow> list_all (\<lambda>i. i < I_INSTRCNT) t \<and> length t = n"

lemma valid_tables [simp]:
  "valid_table armv7_instr_labels 256" "valid_table type_shift_instr_lookup 16"
  "valid_table type_brnchmisc_instr_lookup 16" "valid_table type_opless_instr_lookup 8"
  "valid_table type_uncond2_instr_lookup 8" "valid_table type_mul_instr_lookup 8"
  "valid_table type_stack0_instr_lookup 32" "valid_table type_stack1_instr_lookup 8"
  "valid_table type_stack2_instr_lookup 8" "valid_table type_bits_instr_lookup 4"
  "valid_table type_pas_instr_lookup 64" "valid_table type_sat_instr_lookup 4"
  "valid_table type_sync_instr_lookup 16" "valid_table type_pusr_instr_lookup 16"
  using darm_tables_valid by (simp_all add: valid_table_def)

lemma type_table_valid: "k < 256 \<Longrightarrow> \<exists>t. nget armv7_instr_types k = Some t \<and> t \<le> T_ARM_UDF"
proof -
  have "list_all (\<lambda>t. t \<le> T_ARM_UDF) armv7_instr_types" "length armv7_instr_types = 256" by code_simp+
  then show "k < 256 \<Longrightarrow> ?thesis" by (auto simp: list_all_length)
qed

lemma valid_lookup: "valid_table t n \<Longrightarrow> k < n \<Longrightarrow> \<exists>i. nget t k = Some i \<and> i < I_INSTRCNT"
  by (auto simp: valid_table_def list_all_length)

lemma unat_or_less: "unat x < 2 ^ n \<Longrightarrow> unat y < 2 ^ n \<Longrightarrow> unat (x OR y :: u32) < 2 ^ n"
  using OR_upper [of "uint x" n "uint y"] unfolding unat_eq_nat_uint
  by (simp only: uint_or nat_less_numeral_power_cancel_iff uint_ge_0)

lemma stack_index_less: "stack_index w < 8"
  unfolding stack_index_def using unat_or_less [of "bits w 4 6" 3 "bits w 20 1"] bits_le [of w 4 6] bits_le [of w 20 1]
  by simp

lemma pas_index_less: "unat (bits w 17 0x38 OR bits w 5 7) < 64"
  using unat_or_less [of "bits w 17 0x38" 6 "bits w 5 7"] bits_le [of w 17 "0x38"] bits_le [of w 5 7] by simp

lemma pusr_index_less: "unat (push_bit 1 (bits w 20 7) OR of_cbool b) < 16"
proof -
  have "unat (push_bit 1 (bits w 20 7)) < 2 ^ 4"
    using bits_le [of w 20 7] by (simp add: push_bit_eq_mult unat_word_ariths)
  then show ?thesis using unat_or_less [of "push_bit 1 (bits w 20 7)" 4 "of_cbool b"] by (simp add: of_cbool_def)
qed

lemma pusr_index_less2: "unat (bits w 20 7 * 2 OR of_cbool b) < 16"
  using pusr_index_less [of w b] by (simp add: push_bit_eq_mult)

lemma nbits_less [simp]: "unat m < n \<Longrightarrow> nbits w k m < n"
  using nbits_le [of w k m] by simp

fun step_ok :: "darm_step \<Rightarrow> bool" where
  "step_ok (Ret r d) \<longleftrightarrow> r \<in> {0, - 1} \<and> darm_wf d"
| "step_ok (Fall d) \<longleftrightarrow> darm_wf d"

definition ok_with :: "('a \<Rightarrow> bool) \<Rightarrow> 'a option \<Rightarrow> bool" where
  "ok_with P r \<longleftrightarrow> (\<exists>x. r = Some x \<and> P x)"

definition ret_ok :: "int \<times> darm_t \<Rightarrow> bool" where
  "ret_ok = (\<lambda>(r, d). r \<in> {0, - 1} \<and> darm_wf d)"

lemma ok_with_Some [simp]: "ok_with P (Some x) = P x"
  by (simp add: ok_with_def)

lemma ok_lookup:
  assumes "valid_table t n" "k < n" "\<And>i. i < I_INSTRCNT \<Longrightarrow> ok_with P (f i)"
  shows "ok_with P (Option.bind (nget t k) f)"
  using valid_lookup [OF assms(1,2)] assms(3) by auto

lemma ok_bind: "ok_with Q r \<Longrightarrow> (\<And>x. Q x \<Longrightarrow> ok_with P (f x)) \<Longrightarrow> ok_with P (Option.bind r f)"
  by (auto simp: ok_with_def)

lemma if_ok: "(b \<Longrightarrow> ok_with P x) \<Longrightarrow> (\<not> b \<Longrightarrow> ok_with P y) \<Longrightarrow> ok_with P (if b then x else y)"
  by simp

lemma ok_and_then: "step_ok s \<Longrightarrow> (\<And>d. darm_wf d \<Longrightarrow> ok_with step_ok (f d)) \<Longrightarrow> ok_with step_ok (and_then s f)"
  by (cases s) auto

lemmas darm_lookup_rules = ok_lookup [OF valid_tables(2)] ok_lookup [OF valid_tables(3)] ok_lookup [OF valid_tables(4)]
  ok_lookup [OF valid_tables(5)] ok_lookup [OF valid_tables(6)] ok_lookup [OF valid_tables(7)]
  ok_lookup [OF valid_tables(8)] ok_lookup [OF valid_tables(9)] ok_lookup [OF valid_tables(10)]
  ok_lookup [OF valid_tables(11)] ok_lookup [OF valid_tables(12)] ok_lookup [OF valid_tables(13)]
  ok_lookup [OF valid_tables(14)]

lemma disas_mul_ok: "darm_wf d \<Longrightarrow> ok_with step_ok (disas_mul d w)"
  unfolding disas_mul_def by (rule darm_lookup_rules) (simp_all add: Let_def wf_preserve)

lemma stack_offset_wf: "darm_wf d \<Longrightarrow> darm_wf (stack_offset d w)"
  by (simp add: stack_offset_def wf_preserve)

lemma disas_stack1_ok: "darm_wf d \<Longrightarrow> ok_with step_ok (disas_stack1 d w)"
  unfolding disas_stack1_def
  by (rule darm_lookup_rules) (simp_all add: Let_def wf_preserve stack_offset_wf stack_index_less)

lemma disas_stack2_ok: "darm_wf d \<Longrightarrow> ok_with step_ok (disas_stack2 d w)"
  unfolding disas_stack2_def
  by (rule darm_lookup_rules) (simp_all add: Let_def wf_preserve stack_offset_wf stack_index_less)

lemma disas_sync_ok: "darm_wf d \<Longrightarrow> ok_with step_ok (disas_sync d w)"
  unfolding disas_sync_def by (rule darm_lookup_rules) (simp_all add: Let_def wf_preserve)

lemma disas_mul_ldst_ok: "darm_wf d \<Longrightarrow> ok_with step_ok (disas_mul_ldst d w)"
  by (simp add: disas_mul_ldst_def disas_mul_ok disas_stack1_ok disas_stack2_ok disas_sync_ok)

lemma push_pop_wf: "darm_wf d \<Longrightarrow> darm_wf (push_pop d)"
  by (simp add: push_pop_def wf_preserve)

lemma disas_stack0_ok: "darm_wf d \<Longrightarrow> ok_with step_ok (disas_stack0 d w)"
  unfolding disas_stack0_def
  by (rule if_ok, rule darm_lookup_rules) (simp_all add: Let_def wf_preserve push_pop_wf)

lemma disas_sat_ok: "darm_wf d \<Longrightarrow> ok_with step_ok (disas_sat d w)"
  unfolding disas_sat_def by (rule if_ok, rule darm_lookup_rules) (simp_all add: wf_preserve)

lemma pusr_extend_ok: "darm_wf d \<Longrightarrow> ok_with step_ok (pusr_extend d w)"
  unfolding pusr_extend_def
  by (rule if_ok, rule darm_lookup_rules) (simp_all add: Let_def wf_preserve pusr_index_less2)

lemma pusr_sat_ok: "darm_wf d \<Longrightarrow> ok_with step_ok (pusr_sat d w)"
  by (simp add: pusr_sat_def Let_def wf_preserve)

lemma pusr_sat16_ok: "darm_wf d \<Longrightarrow> ok_with step_ok (pusr_sat16 d w)"
  by (simp add: pusr_sat16_def Let_def wf_preserve)

lemma disas_pusr_ok: "darm_wf d \<Longrightarrow> ok_with step_ok (disas_pusr d w)"
  unfolding disas_pusr_def
  by (auto intro!: if_ok ok_bind [OF pusr_extend_ok] ok_bind [OF ok_and_then] ok_and_then pusr_sat_ok pusr_sat16_ok
    simp: wf_preserve)

lemma reg_or_imm_shift_wf: "darm_wf d \<Longrightarrow> darm_wf (reg_or_imm_shift d w)"
  by (simp add: reg_or_imm_shift_def Let_def wf_preserve)

lemma disas_arith_imm_wf: "darm_wf d \<Longrightarrow> darm_wf (disas_arith_imm d w)"
  by (simp add: disas_arith_imm_def Let_def wf_preserve)

lemma disas_brnchsc_wf: "darm_wf d \<Longrightarrow> darm_wf (disas_brnchsc d w)"
  by (simp add: disas_brnchsc_def Let_def wf_preserve)

lemma disas_mov_imm_wf: "darm_wf d \<Longrightarrow> darm_wf (disas_mov_imm d w)"
  by (simp add: disas_mov_imm_def Let_def wf_preserve)

lemma disas_cmp_imm_wf: "darm_wf d \<Longrightarrow> darm_wf (disas_cmp_imm d w)"
  by (simp add: disas_cmp_imm_def Let_def wf_preserve)

lemma disas_ldstregs_wf: "darm_wf d \<Longrightarrow> darm_wf (disas_ldstregs d w)"
  by (simp add: disas_ldstregs_def Let_def wf_preserve)

lemma disas_bitrev_wf: "darm_wf d \<Longrightarrow> darm_wf (disas_bitrev d w)"
  by (simp add: disas_bitrev_def Let_def wf_preserve)

lemma misc_mvn_wf: "darm_wf d \<Longrightarrow> darm_wf (misc_mvn d w)"
  by (simp add: misc_mvn_def Let_def wf_preserve)

lemma misc_sel_wf: "darm_wf d \<Longrightarrow> darm_wf (misc_sel d w)"
  by (simp add: misc_sel_def Let_def wf_preserve)

lemma sm_smmul_wf: "darm_wf d \<Longrightarrow> darm_wf (sm_smmul d w)"
  by (simp add: sm_smmul_def Let_def wf_preserve)

lemma sm_smusd_wf: "darm_wf d \<Longrightarrow> darm_wf (sm_smusd d w)"
  by (simp add: sm_smusd_def Let_def wf_preserve)

lemma sm_smlsld_wf: "darm_wf d \<Longrightarrow> darm_wf (sm_smlsld d w)"
  by (simp add: sm_smlsld_def Let_def wf_preserve)

lemma disas_mvcr_wf: "darm_wf d \<Longrightarrow> darm_wf (disas_mvcr d w)"
  by (simp add: disas_mvcr_def Let_def wf_preserve)

lemma disas_udf_wf: "darm_wf d \<Longrightarrow> darm_wf (disas_udf d w)"
  by (simp add: disas_udf_def Let_def wf_preserve)

lemma uncond_preload_wf: "darm_wf d \<Longrightarrow> darm_wf (uncond_preload d w)"
  by (simp add: uncond_preload_def Let_def wf_preserve)

lemma uncond_blx_wf: "darm_wf d \<Longrightarrow> darm_wf (uncond_blx d w)"
  by (simp add: uncond_blx_def Let_def wf_preserve)

lemma uncond_coproc_wf: "darm_wf d \<Longrightarrow> darm_wf (uncond_coproc d w)"
  by (simp add: uncond_coproc_def Let_def wf_preserve)

lemma disas_arith_shift_wf: "darm_wf d \<Longrightarrow> darm_wf (disas_arith_shift d w)"
  by (simp add: disas_arith_shift_def reg_or_imm_shift_wf wf_preserve)

lemma disas_cmp_op_wf: "darm_wf d \<Longrightarrow> darm_wf (disas_cmp_op d w)"
  by (simp add: disas_cmp_op_def reg_or_imm_shift_wf wf_preserve)

lemma disas_bits_ok: "darm_wf d \<Longrightarrow> ok_with darm_wf (disas_bits d w)"
  unfolding disas_bits_def by (rule darm_lookup_rules) (simp_all add: Let_def wf_preserve)

lemma disas_brnchmisc_ok: "darm_wf d \<Longrightarrow> ok_with ret_ok (disas_brnchmisc d w)"
  unfolding disas_brnchmisc_def by (rule darm_lookup_rules) (simp_all add: Let_def wf_preserve ret_ok_def)

lemma disas_opless_ok: "darm_wf d \<Longrightarrow> ok_with ret_ok (disas_opless d w)"
  unfolding disas_opless_def by (rule darm_lookup_rules) (simp_all add: Let_def wf_preserve ret_ok_def)

lemma disas_dst_src_ok: "darm_wf d \<Longrightarrow> ok_with ret_ok (disas_dst_src d w)"
  unfolding disas_dst_src_def by (rule darm_lookup_rules) (simp_all add: Let_def wf_preserve ret_ok_def)

lemma disas_pas_ok: "darm_wf d \<Longrightarrow> ok_with ret_ok (disas_pas d w)"
  unfolding disas_pas_def by (rule darm_lookup_rules) (simp_all add: Let_def wf_preserve ret_ok_def pas_index_less)

lemma disas_misc_ok: "darm_wf d \<Longrightarrow> step_ok (disas_misc d w)"
  by (simp add: disas_misc_def misc_mvn_wf misc_sel_wf misc_smc_def Let_def wf_preserve)

lemma disas_sm_ok: "darm_wf d \<Longrightarrow> step_ok (disas_sm d w)"
  by (simp add: disas_sm_def sm_smmul_wf sm_smusd_wf sm_smlsld_wf wf_preserve)

lemma sm_then_pas_ok: "darm_wf d \<Longrightarrow> ok_with ret_ok (sm_then_pas d w)"
  using disas_sm_ok [of d w] disas_pas_ok unfolding sm_then_pas_def
  by (cases "disas_sm d w") (simp_all add: ret_ok_def)

lemma misc_then_sm_ok: "darm_wf d \<Longrightarrow> ok_with ret_ok (misc_then_sm d w)"
  using disas_misc_ok [of d w] sm_then_pas_ok unfolding misc_then_sm_def
  by (cases "disas_misc d w") (simp_all add: ret_ok_def)

lemma ok_pair: "ok_with darm_wf r \<Longrightarrow> ok_with ret_ok (map_option (Pair 0) r)"
  by (auto simp: ok_with_def ret_ok_def)

lemma ret_ok_pair: "ret_ok (0, d) = darm_wf d" "ret_ok (- 1, d) = darm_wf d"
  by (simp_all add: ret_ok_def)

lemma disas_by_type_ok: "darm_wf d \<Longrightarrow> ok_with ret_ok (disas_by_type d w)"
  by (simp add: disas_by_type_def Let_def ret_ok_pair ok_pair disas_bits_ok disas_arith_shift_wf disas_arith_imm_wf
    disas_brnchsc_wf disas_mov_imm_wf disas_cmp_op_wf disas_cmp_imm_wf disas_ldstregs_wf disas_bitrev_wf disas_mvcr_wf
    disas_udf_wf disas_brnchmisc_ok disas_opless_ok disas_dst_src_ok misc_then_sm_ok sm_then_pas_ok disas_pas_ok)

lemma armv7_disas_cond_ok: "darm_wf d \<Longrightarrow> ok_with ret_ok (armv7_disas_cond d w)"
  unfolding armv7_disas_cond_def
proof (rule ok_bind [where Q = step_ok])
  assume wf: "darm_wf d"
  show "ok_with step_ok (if w AND (push_bit 25 7 OR push_bit 4 9) = push_bit 4 9 then disas_mul_ldst d w
      else if bits w 26 3 = 1 then disas_stack0 d w else Some (Fall d))"
    using wf by (simp add: disas_mul_ldst_ok disas_stack0_ok)
  fix s assume "step_ok s"
  then have 1: "ok_with step_ok (and_then s (\<lambda>d. disas_sat d w))" by (rule ok_and_then) (rule disas_sat_ok)
  have 2: "ok_with step_ok (and_then s' (\<lambda>d. disas_pusr d w))" if "step_ok s'" for s'
    using that by (rule ok_and_then) (rule disas_pusr_ok)
  have 3: "ok_with ret_ok (case s' of Ret r d \<Rightarrow> Some (r, d) | Fall d \<Rightarrow>
      Option.bind (nget armv7_instr_labels (nbits w 20 0xFF)) (\<lambda>i. Option.bind (nget armv7_instr_types (nbits w 20 0xFF))
        (\<lambda>t. disas_by_type (d\<lparr>d_instr := i, d_instr_type := t\<rparr>) w)))" if "step_ok s'" for s'
  proof (cases s')
    case (Fall d')
    then have wf': "darm_wf d'" using that by simp
    have "nbits w 20 0xFF < 256" by simp
    then have "ok_with ret_ok (Option.bind (nget armv7_instr_labels (nbits w 20 0xFF))
      (\<lambda>i. Option.bind (nget armv7_instr_types (nbits w 20 0xFF))
        (\<lambda>t. disas_by_type (d'\<lparr>d_instr := i, d_instr_type := t\<rparr>) w)))"
      using type_table_valid [of "nbits w 20 0xFF"]
      by (intro ok_lookup [OF valid_tables(1)]) (auto simp: disas_by_type_ok wf_preserve wf')
    then show ?thesis using Fall by simp
  qed (use that in \<open>simp add: ret_ok_def\<close>)
  show "ok_with ret_ok (Option.bind (and_then s (\<lambda>d. disas_sat d w)) (\<lambda>s. Option.bind (and_then s (\<lambda>d. disas_pusr d w))
      (case_darm_step (\<lambda>r d. Some (r, d)) (\<lambda>d. Option.bind (nget armv7_instr_labels (nbits w 20 0xFF))
        (\<lambda>i. Option.bind (nget armv7_instr_types (nbits w 20 0xFF))
          (\<lambda>t. disas_by_type (d\<lparr>d_instr := i, d_instr_type := t\<rparr>) w))))))"
    by (intro ok_bind [OF 1] ok_bind [OF 2] 3)
qed

lemma uncond_barrier_ok: "darm_wf d \<Longrightarrow> ok_with (\<lambda>(b, d). darm_wf d) (uncond_barrier d w)"
  unfolding uncond_barrier_def by (rule if_ok, rule darm_lookup_rules) (simp_all add: Let_def wf_preserve)

lemma armv7_disas_uncond_ok: "darm_wf d \<Longrightarrow> ok_with ret_ok (armv7_disas_uncond d w)"
  using uncond_barrier_ok [of "d\<lparr>d_instr_type := T_ARM_UNCOND\<rparr>" w]
  by (auto simp: armv7_disas_uncond_def Let_def ret_ok_def ok_with_def uncond_preload_wf uncond_blx_wf uncond_coproc_wf
    wf_preserve)

lemma disasm_total: "\<exists>ret d. darm_armv7_disasm w = Some (ret, d) \<and> ret \<in> {0, - 1} \<and> darm_wf d"
proof -
  define d0 where "d0 = darm_init\<lparr>d_w := w, d_cond := ibits w 28 15\<rparr>"
  have "darm_wf d0" by (simp add: d0_def wf_preserve)
  then have "ok_with ret_ok (if d_cond d0 = 15 then armv7_disas_uncond d0 w else armv7_disas_cond d0 w)"
    by (simp add: armv7_disas_uncond_ok armv7_disas_cond_ok)
  then show ?thesis
    by (auto simp: darm_armv7_disasm_def Let_def d0_def [symmetric] ok_with_def ret_ok_def wf_preserve)
qed

text \<open>
  C12: The decoder is total and its result is well formed. For every 32-bit word it returns without
  reading outside one of its tables, its return value is 0 or -1, and in either case every field
  of the result is in the range that \<open>darm_wf\<close> gives for it: the label and the encoding type are of
  their enumerations; each register number, the condition and the option are between -1 and
  15; each flag is at most \<open>B_INVLD\<close>; the shift type is between -1 and 3, the shift amount and the
  lowest bit of a field are below 32, and the width of the field is, as a signed number,
  between -30 and 32; the rotation is 0, 8, 16 or 24; the coprocessor and the first opcode are
  below 16 and the second opcode below 8; what belongs to the Thumb decoder is unset. The word,
  the immediate and the register list are not restricted.
\<close>

theorem darm_decoder_total:
  "\<exists>ret d. darm_armv7_disasm w = Some (ret, d) \<and> ret \<in> {0, - 1} \<and> darm_wf d"
  by (rule disasm_total)

section \<open>Immediates\<close>

lemma mask_numerals:
  "(3 :: u32) = mask 2" "(7 :: u32) = mask 3" "(15 :: u32) = mask 4" "(31 :: u32) = mask 5" "(0xFF :: u32) = mask 8"
  "(0xFFF :: u32) = mask 12" "(0xFFFF :: u32) = mask 16" "(0xFFFFFF :: u32) = mask 24" "(0x1E :: u32) = push_bit 1 (mask 4)"
  by (simp_all add: mask_eq_exp_minus_1 push_bit_eq_mult)

lemma bit_masks:
  "bit (3 :: u32) n \<longleftrightarrow> n < 2" "bit (7 :: u32) n \<longleftrightarrow> n < 3" "bit (15 :: u32) n \<longleftrightarrow> n < 4" "bit (31 :: u32) n \<longleftrightarrow> n < 5"
  "bit (0xFF :: u32) n \<longleftrightarrow> n < 8" "bit (0xFFF :: u32) n \<longleftrightarrow> n < 12" "bit (0xFFFF :: u32) n \<longleftrightarrow> n < 16"
  "bit (0xFFFFFF :: u32) n \<longleftrightarrow> n < 24" "bit (0x1E :: u32) n \<longleftrightarrow> 1 \<le> n \<and> n < 5"
  unfolding mask_numerals bit_mask_iff bit_push_bit_iff by auto

lemma ROR_is_rotr:
  assumes "r < 32"
  shows "ROR v r = word_rotr r v"
proof (rule bit_word_eqI)
  fix n assume n: "n < LENGTH(32)"
  show "bit (ROR v r) n = bit (word_rotr r v) n"
  proof (cases "r = 0")
    case True
    then show ?thesis using n by (simp add: ROR_def shr32_def shl32_def bit_word_rotr_iff)
  next
    case False
    then have m: "(32 - r) mod 32 = 32 - r" by simp
    show ?thesis
    proof (cases "n + r < 32")
      case True
      then have "\<not> 32 - r \<le> n" "(n + r) mod 32 = n + r" by simp_all
      then show ?thesis using n assms
        by (simp add: ROR_def shr32_def shl32_def m bit_word_rotr_iff bit_or_iff bit_drop_bit_eq bit_push_bit_iff add.commute)
    next
      case False
      then have "(n + r) mod 32 = (n + r - 32) mod 32" by (simp add: le_mod_geq)
      moreover have "(n + r - 32) mod 32 = n - (32 - r)" using False n assms by simp
      moreover have "\<not> bit v (r + n)" using False bit_imp_le_length [of v "r + n"] by auto
      moreover have "32 - r \<le> n" using False by simp
      ultimately show ?thesis using n assms
        by (simp add: ROR_def shr32_def shl32_def m bit_word_rotr_iff bit_or_iff bit_drop_bit_eq bit_push_bit_iff)
    qed
  qed
qed

text \<open>
  C32: The immediate of a data-processing instruction is expanded as the architecture defines it:
  the low eight bits rotated right by twice the value of the four bits above them, for every
  rotation including 0.
\<close>

theorem ARMExpandImm_rotates:
  "ARMExpandImm (w AND BITMSK_12) = word_rotr (2 * nbits w 8 15) (w AND 0xFF)"
proof -
  have r: "bits (w AND BITMSK_12) 7 0x1E = push_bit 1 (bits w 8 15)"
  proof (rule bit_word_eqI)
    fix n assume "n < LENGTH(32)"
    then show "bit (bits (w AND BITMSK_12) 7 0x1E) n = bit (push_bit 1 (bits w 8 15)) n"
      unfolding bits_def BITMSK_12_def bit_and_iff bit_drop_bit_eq bit_push_bit_iff bit_masks by (cases n) auto
  qed
  have "unat (push_bit 1 (bits w 8 15)) = 2 * unat (bits w 8 15)"
    using bits_le [of w 8 15] by (simp add: push_bit_eq_mult unat_word_ariths)
  moreover have "(w AND BITMSK_12) AND 0xFF = w AND 0xFF"
    by (simp add: BITMSK_12_def and.assoc)
  moreover have "2 * nbits w 8 15 < 32" using nbits_le [of w 8 15] by simp
  ultimately show ?thesis by (simp add: ARMExpandImm_def nbits_def r ROR_is_rotr)
qed

section \<open>Branches\<close>

lemma bits_one: "bits w k 1 = (if bit w k then 1 else 0)"
  by (simp add: bits_def and_one_eq bit_iff_odd_drop_bit mod_2_eq_odd)

lemma bit_above: "unat (v :: u32) < 2 ^ k \<Longrightarrow> k \<le> n \<Longrightarrow> \<not> bit v n"
proof -
  assume "unat v < 2 ^ k" "k \<le> n"
  then have "unat v < 2 ^ n" by (meson less_le_trans one_le_numeral power_increasing)
  then have "\<not> bit (unat v) n" by (simp add: bit_iff_odd)
  then show ?thesis by (simp add: bit_unsigned_iff)
qed

lemma branch_imm_extends: "branch_imm (w AND BITMSK_24) = 4 * scast (ucast w :: 24 word)"
proof -
  have b: "bits (w AND BITMSK_24) 23 1 \<noteq> 0 \<longleftrightarrow> bit w 23"
    by (simp add: bits_one BITMSK_24_def bit_and_iff bit_masks)
  have e: "(if bit w 23 then (w AND mask 24) OR push_bit 24 (mask 8) else w AND mask 24) = (scast (ucast w :: 24 word) :: u32)"
  proof (rule bit_word_eqI)
    fix n assume "n < LENGTH(32)"
    then show "bit (if bit w 23 then (w AND mask 24) OR push_bit 24 (mask 8) else w AND mask 24) n =
        bit (scast (ucast w :: 24 word) :: u32) n"
      by (cases "n < 23"; cases "n = 23") (auto simp: bit_simps)
  qed
  have hi: "(0xFF000000 :: u32) = push_bit 24 (mask 8)" by (simp add: mask_eq_exp_minus_1 push_bit_eq_mult)
  show ?thesis
    unfolding branch_imm_def b unfolding BITMSK_24_def mask_numerals(8) hi if_distrib [of "push_bit 2", symmetric] e
    by (simp add: push_bit_eq_mult mult.commute)
qed

lemma branch_labels:
  assumes "i div 16 = (if b then 11 else 10)"
  shows "armv7_instr_labels ! i = (if b then I_BL else I_B)" "armv7_instr_types ! i = T_ARM_BRNCHSC"
proof -
  have l: "take 32 (drop 160 armv7_instr_labels) = replicate 16 I_B @ replicate 16 I_BL"
    "take 32 (drop 160 armv7_instr_types) = replicate 32 T_ARM_BRNCHSC"
    by code_simp+
  obtain k where k: "i = 160 + k" "k < 32" "b \<longleftrightarrow> 16 \<le> k"
    using assms by (intro that [of "i - 160"]) (auto split: if_splits)
  have "armv7_instr_labels ! i = take 32 (drop 160 armv7_instr_labels) ! k"
    "armv7_instr_types ! i = take 32 (drop 160 armv7_instr_types) ! k" using k by simp_all
  then show "armv7_instr_labels ! i = (if b then I_BL else I_B)" "armv7_instr_types ! i = T_ARM_BRNCHSC"
    using k unfolding l by (auto simp: nth_append)
qed

text \<open>Which case of the decoder a word with bit 27 set takes.\<close>

lemma word_AND_neq: "bit m n \<Longrightarrow> bit w n \<Longrightarrow> \<not> bit c n \<Longrightarrow> (w :: u32) AND m \<noteq> c"
  by (auto simp: bit_and_iff)

lemma high_words_use_table:
  assumes "bit w 27" "darm_wf d"
  shows "armv7_disas_cond d w =
    disas_by_type (d\<lparr>d_instr := armv7_instr_labels ! nbits w 20 0xFF, d_instr_type := armv7_instr_types ! nbits w 20 0xFF\<rparr>) w"
proof -
  have "bit (push_bit 25 7 OR push_bit 4 9 :: u32) 27" "\<not> bit (push_bit 4 9 :: u32) 27"
    "bit (push_bit 20 0xF9 OR push_bit 4 15 :: u32) 27" "\<not> bit (push_bit 24 1 OR push_bit 4 5 :: u32) 27"
    "bit (push_bit 23 31 OR push_bit 4 1 :: u32) 27" "\<not> bit (push_bit 23 13 OR push_bit 4 1 :: u32) 27"
    by code_simp+
  then have n: "w AND (push_bit 25 7 OR push_bit 4 9) \<noteq> push_bit 4 9"
    "w AND (push_bit 20 0xF9 OR push_bit 4 15) \<noteq> push_bit 24 1 OR push_bit 4 5"
    "w AND (push_bit 23 31 OR push_bit 4 1) \<noteq> push_bit 23 13 OR push_bit 4 1"
    using word_AND_neq [OF _ assms(1)] by blast+
  have "bit (bits w 26 3) 1" using assms(1) by (simp add: bits_def bit_and_iff bit_drop_bit_eq bit_masks)
  then have m: "bits w 26 3 \<noteq> 1" by auto
  have "nbits w 20 0xFF < 256" by simp
  then show ?thesis using n m
    by (simp add: armv7_disas_cond_def disas_sat_def disas_pusr_def del: push_bit_numeral)
qed

text \<open>
  C13: Every branch instruction (condition other than 15, bits 27 to 25 equal to 101) is decoded as
  \<open>B\<close> or \<open>BL\<close> by bit 24, with its 24-bit offset sign-extended and multiplied by four.
\<close>

theorem branch_decoded:
  assumes "bits w 28 15 \<noteq> 15" "bit w 27" "\<not> bit w 26" "bit w 25"
  shows "\<exists>d. darm_armv7_disasm w = Some (0, d) \<and> d_instr d = (if bit w 24 then I_BL else I_B) \<and>
    d_imm d = 4 * scast (ucast w :: 24 word) \<and> d_cond d = ibits w 28 15"
proof -
  define d0 where "d0 = darm_init\<lparr>d_w := w, d_cond := ibits w 28 15\<rparr>"
  have wf: "darm_wf d0" by (simp add: d0_def wf_preserve)
  have c: "ibits w 28 15 \<noteq> 15" using assms(1) ibits_eq_iff [of w 28 15 15] by simp
  have "drop_bit 4 (bits w 20 (mask 8)) = (if bit w 24 then push_bit 3 1 OR push_bit 1 1 OR 1 else push_bit 3 1 OR push_bit 1 1)"
  proof (rule bit_word_eqI)
    fix n assume "n < LENGTH(32)"
    moreover have "n < 4 \<Longrightarrow> n = 0 \<or> n = 1 \<or> n = 2 \<or> n = 3" by linarith
    ultimately show "bit (drop_bit 4 (bits w 20 (mask 8))) n =
        bit (if bit w 24 then push_bit 3 1 OR push_bit 1 1 OR 1 else push_bit 3 1 OR push_bit 1 (1 :: u32)) n"
      using assms bit_above [of 11 4 n] bit_above [of 10 4 n] by (cases "n < 4") (auto simp: bits_def bit_simps)
  qed
  then have "drop_bit 4 (bits w 20 0xFF) = (if bit w 24 then 11 else 10)" by (simp add: mask_numerals(5) split: if_splits)
  then have "unat (drop_bit 4 (bits w 20 0xFF)) = (if bit w 24 then 11 else 10)" by (simp only: split: if_splits) simp_all
  then have "nbits w 20 0xFF div 16 = (if bit w 24 then 11 else 10)"
    by (simp add: nbits_def drop_bit_eq_div unat_div split: if_splits)
  note l = branch_labels [OF this]
  have "armv7_disas_cond d0 w = Some (0, disas_brnchsc (d0\<lparr>d_instr := if bit w 24 then I_BL else I_B, d_instr_type := T_ARM_BRNCHSC\<rparr>) w)"
    by (simp add: high_words_use_table [OF assms(2) wf] l disas_by_type_def)
  then show ?thesis using c
    by (auto simp: darm_armv7_disasm_def d0_def [symmetric] disas_brnchsc_def Let_def branch_imm_extends)
      (simp_all add: d0_def darm_init_def)
qed

theorem branch_decoded_witness:
  "\<exists>d. darm_armv7_disasm 0x1BFFFFFE = Some (0, d) \<and> d_instr d = I_BL \<and> d_imm d = - 8 \<and> d_cond d = 1"
proof -
  have "bits 0x1BFFFFFE 28 15 \<noteq> 15" "bit (0x1BFFFFFE :: u32) 27" "\<not> bit (0x1BFFFFFE :: u32) 26" "bit (0x1BFFFFFE :: u32) 25"
    "bit (0x1BFFFFFE :: u32) 24" "4 * scast (ucast (0x1BFFFFFE :: u32) :: 24 word) = (- 8 :: u32)" "ibits 0x1BFFFFFE 28 15 = 1"
    by (simp_all add: bits_def ibits_def) code_simp?
  then show ?thesis using branch_decoded [of "0x1BFFFFFE"] by simp
qed

section \<open>Block transfers\<close>

text \<open>The encoding of a block transfer, from the architecture manual.\<close>

definition encode_block :: "4 word \<Rightarrow> bool \<Rightarrow> bool \<Rightarrow> bool \<Rightarrow> bool \<Rightarrow> 4 word \<Rightarrow> u16 \<Rightarrow> u32" where
  "encode_block c p u wb l rn regs =
     push_bit 28 (ucast c) OR push_bit 27 1 OR push_bit 24 (of_bool p) OR push_bit 23 (of_bool u) OR
     push_bit 21 (of_bool wb) OR push_bit 20 (of_bool l) OR push_bit 16 (ucast rn) OR ucast regs"

definition block_label :: "bool \<Rightarrow> bool \<Rightarrow> bool \<Rightarrow> bool \<Rightarrow> bool \<Rightarrow> darm_instr_t" where
  "block_label p u wb l sp =
     (if l then (if p then (if u then I_LDMIB else I_LDMDB) else if u then (if wb \<and> sp then I_POP else I_LDM) else I_LDMDA)
      else (if p then (if u then I_STMIB else if wb \<and> sp then I_PUSH else I_STMDB) else if u then I_STM else I_STMDA))"

lemma bit_fields:
  "bit (push_bit 28 (ucast (c :: 4 word)) :: u32) n \<longleftrightarrow> 28 \<le> n \<and> n < 32 \<and> bit c (n - 28)"
  "bit (push_bit 16 (ucast (c :: 4 word)) :: u32) n \<longleftrightarrow> 16 \<le> n \<and> n < 20 \<and> bit c (n - 16)"
  "bit (ucast (r :: u16) :: u32) n \<longleftrightarrow> n < 16 \<and> bit r n"
  "k < 32 \<Longrightarrow> bit (push_bit k (of_bool b) :: u32) n \<longleftrightarrow> n = k \<and> b"
  "bit (push_bit 27 1 :: u32) n \<longleftrightarrow> n = 27"
  unfolding bit_push_bit_iff bit_unsigned_iff bit_of_bool_iff bit_1_iff possible_bit_word
  using bit_imp_le_length [of c "n - 28"] bit_imp_le_length [of c "n - 16"] bit_imp_le_length [of r n]
  by auto

lemma bit_encode_block:
  "bit (encode_block c p u wb l rn regs) n \<longleftrightarrow>
     28 \<le> n \<and> n < 32 \<and> bit c (n - 28) \<or> n = 27 \<or> n = 24 \<and> p \<or> n = 23 \<and> u \<or> n = 21 \<and> wb \<or> n = 20 \<and> l \<or>
     16 \<le> n \<and> n < 20 \<and> bit rn (n - 16) \<or> n < 16 \<and> bit regs n"
proof -
  have k: "24 < (32 :: nat)" "23 < (32 :: nat)" "21 < (32 :: nat)" "20 < (32 :: nat)" by simp_all
  show ?thesis
    unfolding encode_block_def bit_or_iff bit_fields(1-3,5) bit_fields(4) [OF k(1)] bit_fields(4) [OF k(2)]
      bit_fields(4) [OF k(3)] bit_fields(4) [OF k(4)] by (rule refl)
qed

lemma encode_block_cond: "bits (encode_block c p u wb l rn regs) 28 15 = ucast c"
proof (rule bit_word_eqI)
  fix n assume "n < LENGTH(32)"
  then show "bit (bits (encode_block c p u wb l rn regs) 28 15) n = bit (ucast c :: u32) n"
    unfolding bits_def bit_and_iff bit_drop_bit_eq bit_masks bit_encode_block bit_unsigned_iff
    using bit_imp_le_length [of c n] by auto
qed

lemma encode_block_rn: "bits (encode_block c p u wb l rn regs) 16 15 = ucast rn"
proof (rule bit_word_eqI)
  fix n assume "n < LENGTH(32)"
  then show "bit (bits (encode_block c p u wb l rn regs) 16 15) n = bit (ucast rn :: u32) n"
    unfolding bits_def bit_and_iff bit_drop_bit_eq bit_masks bit_encode_block bit_unsigned_iff
    using bit_imp_le_length [of rn n] by auto
qed

lemma encode_block_regs: "ucast (encode_block c p u wb l rn regs AND BITMSK_16) = regs"
proof (rule bit_word_eqI)
  fix n assume "n < LENGTH(16)"
  then show "bit (ucast (encode_block c p u wb l rn regs AND BITMSK_16) :: u16) n = bit regs n"
    unfolding BITMSK_16_def bit_unsigned_iff bit_and_iff bit_masks bit_encode_block by auto
qed

definition block_index :: "bool \<Rightarrow> bool \<Rightarrow> bool \<Rightarrow> bool \<Rightarrow> u32" where
  "block_index p u wb l = push_bit 7 1 OR push_bit 4 (of_bool p) OR push_bit 3 (of_bool u) OR push_bit 1 (of_bool wb) OR of_bool l"

lemma encode_block_index: "bits (encode_block c p u wb l rn regs) 20 0xFF = block_index p u wb l"
proof (rule bit_word_eqI)
  fix n assume "n < LENGTH(32)"
  then show "bit (bits (encode_block c p u wb l rn regs) 20 0xFF) n = bit (block_index p u wb l) n"
    unfolding bits_def block_index_def bit_and_iff bit_drop_bit_eq bit_masks bit_encode_block bit_or_iff bit_push_bit_iff
      bit_of_bool_iff bit_1_iff by auto
qed

lemma block_index_value: "unat (block_index p u wb l) = 128 + (16 * of_bool p + 8 * of_bool u + 2 * of_bool wb + of_bool l)"
  by (cases p; cases u; cases wb; cases l; simp add: block_index_def)

lemma block_index_label:
  "armv7_instr_labels ! unat (block_index p u wb l) = block_label p u wb l False"
  "armv7_instr_types ! unat (block_index p u wb l) = T_ARM_LDSTREGS"
proof -
  let ?k = "16 * of_bool p + 8 * of_bool u + 2 * of_bool wb + of_bool l :: nat"
  have t: "take 28 (drop 128 armv7_instr_labels) =
      [I_STMDA, I_LDMDA, I_STMDA, I_LDMDA, 0, 0, 0, 0, I_STM, I_LDM, I_STM, I_LDM, 0, 0, 0, 0,
       I_STMDB, I_LDMDB, I_STMDB, I_LDMDB, 0, 0, 0, 0, I_STMIB, I_LDMIB, I_STMIB, I_LDMIB]"
    "take 28 (drop 128 armv7_instr_types) =
      [T_ARM_LDSTREGS, T_ARM_LDSTREGS, T_ARM_LDSTREGS, T_ARM_LDSTREGS, 0, 0, 0, 0,
       T_ARM_LDSTREGS, T_ARM_LDSTREGS, T_ARM_LDSTREGS, T_ARM_LDSTREGS, 0, 0, 0, 0,
       T_ARM_LDSTREGS, T_ARM_LDSTREGS, T_ARM_LDSTREGS, T_ARM_LDSTREGS, 0, 0, 0, 0,
       T_ARM_LDSTREGS, T_ARM_LDSTREGS, T_ARM_LDSTREGS, T_ARM_LDSTREGS]"
    by code_simp+
  have "armv7_instr_labels ! unat (block_index p u wb l) = take 28 (drop 128 armv7_instr_labels) ! ?k"
    "armv7_instr_types ! unat (block_index p u wb l) = take 28 (drop 128 armv7_instr_types) ! ?k"
    by (simp_all add: block_index_value nth_take)
  then show "armv7_instr_labels ! unat (block_index p u wb l) = block_label p u wb l False"
    "armv7_instr_types ! unat (block_index p u wb l) = T_ARM_LDSTREGS"
    unfolding t by (cases p; cases u; cases wb; cases l; simp add: block_label_def)+
qed

lemma block_transfer_decoded:
  assumes "c \<noteq> 15"
  shows "\<exists>d. darm_armv7_disasm (encode_block c p u wb l rn regs) = Some (0, d) \<and>
    d_instr d = block_label p u wb l (rn = 13) \<and> d_cond d = uint c \<and> d_Rn d = uint rn \<and>
    d_W d = of_cbool wb \<and> d_reglist d = regs \<and> d_Rt d = R_INVLD"
proof -
  let ?w = "encode_block c p u wb l rn regs"
  define d0 where "d0 = darm_init\<lparr>d_w := ?w, d_cond := uint c\<rparr>"
  have "reg_ok (uint c)" using uint_bounded [of c, simplified] uint_ge_0 [of c] unfolding reg_ok_def by linarith
  then have wf: "darm_wf d0" by (simp add: d0_def wf_preserve)
  have c: "uint c \<noteq> 15" using assms by (simp add: word_uint_eq_iff)
  have f: "ibits ?w 28 15 = uint c" "ibits ?w 16 15 = uint rn" "bits ?w 21 1 = of_cbool wb" "bit ?w 27"
    by (simp_all add: ibits_def encode_block_cond encode_block_rn bits_one bit_encode_block of_cbool_def
      uint_up_ucast is_up)
  have rn: "uint rn = 13 \<longleftrightarrow> rn = 13" by (simp add: word_uint_eq_iff)
  have "nbits ?w 20 0xFF = unat (block_index p u wb l)" by (simp add: nbits_def encode_block_index)
  then have "armv7_disas_cond d0 ?w =
      Some (0, disas_ldstregs (d0\<lparr>d_instr := block_label p u wb l False, d_instr_type := T_ARM_LDSTREGS\<rparr>) ?w)"
    by (simp add: high_words_use_table [OF f(4) wf] block_index_label disas_by_type_def)
  then show ?thesis using c
    by (simp add: darm_armv7_disasm_def f d0_def [symmetric] Let_def)
      (auto simp: disas_ldstregs_def Let_def f rn encode_block_regs block_label_def d0_def darm_init_def of_cbool_def)
qed

text \<open>
  C14: Decoding undoes encoding for the block transfers. For every condition but 15, addressing
  mode, write-back and load bit, base register and register list, the decoder returns the label of
  the mode (\<open>PUSH\<close> and \<open>POP\<close> for the two stack forms), the base register, the condition, the
  write-back bit and the register list that were encoded.
\<close>

theorem block_transfer_roundtrip:
  assumes "c \<noteq> 15"
  shows "\<exists>d. darm_armv7_disasm (encode_block c p u wb l rn regs) = Some (0, d) \<and>
    d_instr d = block_label p u wb l (rn = 13) \<and> d_cond d = uint c \<and> d_Rn d = uint rn \<and>
    d_W d = of_cbool wb \<and> d_reglist d = regs"
  using block_transfer_decoded [OF assms] by blast

theorem block_transfer_roundtrip_witness:
  "\<exists>d. darm_armv7_disasm (encode_block 14 True False True False 13 0x4010) = Some (0, d) \<and>
    d_instr d = I_PUSH \<and> d_cond d = 14 \<and> d_Rn d = 13 \<and> d_W d = 1 \<and> d_reglist d = 0x4010"
  using block_transfer_roundtrip [of 14 True False True False 13 "0x4010"] by (simp add: block_label_def of_cbool_def)

end
