(* ===== verification/Darm_Reglist.thy ===== *)
theory Darm_Reglist
  imports Darm
begin

text \<open>
  The register list of a block transfer as an array (\<open>darm_reglist2\<close> of \<open>darm.c\<close>).
\<close>

section \<open>Register lists\<close>

text \<open>
  \<open>__builtin_ctz(0)\<close> is undefined: its value is the parameter \<open>z\<close>, about which nothing is
  assumed. The function asks for it when the last bit of the list has been cleared, and compares
  it with a register number; a negative value acts like one that is too large.
\<close>

definition ctz :: "nat \<Rightarrow> u16 \<Rightarrow> nat" where
  "ctz z l = (if l = 0 then z else hd (filter (bit l) [0..<16]))"

text \<open>The array \<open>regs\<close> of the caller has 16 elements.\<close>

definition put_reg :: "nat \<Rightarrow> nat list \<Rightarrow> nat list option" where
  "put_reg r regs = (if length regs < 16 then Some (regs @ [r]) else None)"

partial_function (option) clear_run :: "nat \<Rightarrow> nat \<Rightarrow> u16 \<Rightarrow> (nat \<times> u16) option" where
  "clear_run z reg reglist =
     (if reg = ctz z reglist then clear_run z (reg + 1) (reglist AND NOT (push_bit reg 1)) else Some (reg, reglist))"

partial_function (option) fill_run :: "nat \<Rightarrow> nat \<Rightarrow> nat list \<Rightarrow> nat list option" where
  "fill_run tmp reg regs =
     (if tmp + 1 \<noteq> reg - 1 then Option.bind (put_reg (tmp + 1) regs) (fill_run (tmp + 1) reg)
      else put_reg (tmp + 1) regs)"

partial_function (option) reglist_loop :: "nat \<Rightarrow> u16 \<Rightarrow> nat list \<Rightarrow> nat list option" where
  "reglist_loop z reglist regs =
     (if reglist = 0 then Some regs
      else Option.bind (put_reg (ctz z reglist) regs) (\<lambda>regs.
        Option.bind (clear_run z (ctz z reglist) reglist) (\<lambda>(reg, reglist').
          Option.bind (if reg \<noteq> ctz z reglist + 1
              then if reg \<noteq> ctz z reglist + 2 then fill_run (ctz z reglist) reg regs else put_reg (reg - 1) regs
              else Some regs)
            (reglist_loop z reglist'))))"

definition darm_reglist2 :: "nat \<Rightarrow> u16 \<Rightarrow> (int \<times> nat list) option" where
  "darm_reglist2 z reglist =
     (if reglist = 0 then Some (- 1, [])
      else map_option (\<lambda>regs. (int (length regs), regs)) (reglist_loop z reglist []))"

subsection \<open>What it returns\<close>

definition set_bits_of :: "u16 \<Rightarrow> nat list" where
  "set_bits_of l = filter (bit l) [0..<16]"

lemma set_bits_of_empty: "set_bits_of l = [] \<longleftrightarrow> l = 0"
proof
  assume "set_bits_of l = []"
  then have "\<forall>n<16. \<not> bit l n" by (auto simp: set_bits_of_def filter_empty_conv)
  then show "l = 0" by (intro bit_word_eqI) simp
qed (simp add: set_bits_of_def)

lemma set_bits_of_0 [simp]: "set_bits_of 0 = []"
  by (simp add: set_bits_of_empty)

text \<open>The bits from \<open>r\<close> on, where those below are clear.\<close>

definition clear_below :: "nat \<Rightarrow> u16 \<Rightarrow> bool" where
  "clear_below r l \<longleftrightarrow> (\<forall>i<r. \<not> bit l i)"

lemma set_bits_of_from: "clear_below r l \<Longrightarrow> r \<le> 16 \<Longrightarrow> set_bits_of l = filter (bit l) [r..<16]"
proof -
  assume a: "clear_below r l" "r \<le> 16"
  have "[0..<16] = [0..<r] @ [r..<16]" using a(2) by (metis le_add_diff_inverse upt_add_eq_append zero_le)
  moreover have "filter (bit l) [0..<r] = []" using a(1) by (auto simp: clear_below_def filter_empty_conv)
  ultimately show ?thesis by (simp add: set_bits_of_def)
qed

lemma clear_below_hd: "set_bits_of l \<noteq> [] \<Longrightarrow> clear_below (hd (set_bits_of l)) l"
proof -
  assume ne: "set_bits_of l \<noteq> []"
  have so: "sorted (set_bits_of l)" unfolding set_bits_of_def by (rule sorted_wrt_filter) simp
  have "hd (set_bits_of l) \<le> i" if "bit l i" for i
  proof -
    have "i \<in> set (set_bits_of l)" using that bit_imp_le_length [of l i] by (simp add: set_bits_of_def)
    then show ?thesis using so ne by (cases "set_bits_of l") auto
  qed
  then show ?thesis by (auto simp: clear_below_def not_le [symmetric])
qed

lemma ctz_at:
  assumes "clear_below r l" "r \<le> 16" "l \<noteq> 0"
  shows "r = ctz z l \<longleftrightarrow> r < 16 \<and> bit l r"
proof -
  have ne: "set_bits_of l \<noteq> []" using assms(3) by (simp add: set_bits_of_empty)
  have c: "ctz z l = hd (set_bits_of l)" using assms(3) by (simp add: ctz_def set_bits_of_def)
  then have "ctz z l \<in> set (set_bits_of l)" using ne by simp
  then have "ctz z l < 16" "bit l (ctz z l)" by (auto simp: set_bits_of_def)
  moreover have "ctz z l = r" if "r < 16" "bit l r"
    using that c set_bits_of_from [OF assms(1,2)] by (simp add: upt_conv_Cons)
  ultimately show ?thesis by auto
qed

lemma clear_bit:
  assumes "clear_below r l" "r < 16" "bit l r"
  shows "clear_below (Suc r) (l AND NOT (push_bit r 1))" "set_bits_of l = r # set_bits_of (l AND NOT (push_bit r 1))"
proof -
  have b: "bit (l AND NOT (push_bit r 1)) n \<longleftrightarrow> bit l n \<and> n \<noteq> r" for n
    using bit_imp_le_length [of l n] by (auto simp: bit_and_iff bit_not_iff bit_push_bit_iff bit_exp_iff)
  show c: "clear_below (Suc r) (l AND NOT (push_bit r 1))"
    using assms(1) unfolding clear_below_def b by (auto simp: less_Suc_eq)
  have "filter (bit l) [Suc r..<16] = filter (bit (l AND NOT (push_bit r 1))) [Suc r..<16]"
    by (intro filter_cong refl, unfold b) auto
  then show "set_bits_of l = r # set_bits_of (l AND NOT (push_bit r 1))"
    using set_bits_of_from [OF assms(1)] set_bits_of_from [OF c] assms(2,3) by (simp add: upt_conv_Cons)
qed

text \<open>
  When the last register of the list has been cleared, the next number is compared with the
  undefined value: if they agree, it is taken for one more register of the run.
\<close>

definition spurious :: "nat \<Rightarrow> nat \<Rightarrow> u16 \<Rightarrow> nat list" where
  "spurious z r l = (if z = (if l = 0 then r else Suc (last (set_bits_of l))) then [z] else [])"

lemma clear_run_0: "clear_run z r 0 = Some (if z = r then Suc r else r, 0)"
proof -
  have "clear_run z (Suc z) 0 = Some (Suc z, 0)" by (simp add: clear_run.simps [of z "Suc z"] ctz_def)
  then show ?thesis by (simp add: clear_run.simps [of z r] ctz_def)
qed

lemma spurious_clear: "clear_below r l \<Longrightarrow> r < 16 \<Longrightarrow> bit l r \<Longrightarrow> spurious z (Suc r) (l AND NOT (push_bit r 1)) = spurious z r l"
  using clear_bit(2) [of r l] set_bits_of_empty [of "l AND NOT (push_bit r 1)"] by (auto simp: spurious_def)

lemma clear_run_spec:
  assumes "clear_below r l" "r \<le> 16"
  shows "\<exists>r' l'. clear_run z r l = Some (r', l') \<and> r \<le> r' \<and> (bit l r \<and> r < 16 \<longrightarrow> r < r') \<and>
    (if l' = 0 then [r..<r'] = set_bits_of l @ spurious z r l
     else set_bits_of l = [r..<r'] @ set_bits_of l')"
  using assms
proof (induction "16 - r" arbitrary: r l)
  case 0
  then have "l = 0" by (intro bit_word_eqI) (simp add: clear_below_def)
  then show ?case by (auto simp: clear_run_0 spurious_def)
next
  case (Suc k)
  consider "l = 0" | "l \<noteq> 0" "bit l r" | "l \<noteq> 0" "\<not> bit l r" by blast
  then show ?case
  proof cases
    case 1
    then show ?thesis by (auto simp: clear_run_0 spurious_def)
  next
    case 2
    let ?l = "l AND NOT (push_bit r 1)"
    have r: "r < 16" and k: "k = 16 - Suc r" using Suc.hyps(2) by simp_all
    obtain r' l' where i: "clear_run z (Suc r) ?l = Some (r', l')" "Suc r \<le> r'"
      "if l' = 0 then [Suc r..<r'] = set_bits_of ?l @ spurious z (Suc r) ?l else set_bits_of ?l = [Suc r..<r'] @ set_bits_of l'"
      using Suc.hyps(1) [OF k clear_bit(1) [OF Suc.prems(1) r 2(2)]] r by auto
    have "clear_run z r l = clear_run z (Suc r) ?l"
      using ctz_at [OF Suc.prems 2(1)] r 2(2) by (subst clear_run.simps) simp
    moreover have "[r..<r'] = r # [Suc r..<r']" using i(2) by (simp add: upt_conv_Cons)
    ultimately show ?thesis
      using i clear_bit(2) [OF Suc.prems(1) r 2(2)] spurious_clear [OF Suc.prems(1) r 2(2), of z]
      by (intro exI [of _ r'] exI [of _ l']) (simp split: if_splits)
  next
    case 3
    then have "r \<noteq> ctz z l" using ctz_at [OF Suc.prems] by simp
    then show ?thesis using 3 by (simp add: clear_run.simps [of z r])
  qed
qed

text \<open>Writing to the caller's array fails when its 16 elements are used up.\<close>

lemma fill_run_spec:
  assumes "tmp + 1 < reg" "length regs \<le> 16"
  shows "fill_run tmp reg regs = (if length regs + (reg - 1 - tmp) \<le> 16 then Some (regs @ [Suc tmp..<reg]) else None)"
  using assms
proof (induction "reg - tmp" arbitrary: tmp regs)
  case (Suc k)
  show ?case
  proof (cases "length regs < 16")
    case True
    then have put: "put_reg (Suc tmp) regs = Some (regs @ [Suc tmp])" by (simp add: put_reg_def)
    show ?thesis
    proof (cases "tmp + 1 = reg - 1")
      case last: True
      then have "reg = Suc (Suc tmp)" using Suc.prems(1) by simp
      then show ?thesis using put True by (simp add: fill_run.simps [of tmp])
    next
      case False
      then have "fill_run (Suc tmp) reg (regs @ [Suc tmp]) = (if length (regs @ [Suc tmp]) + (reg - 1 - Suc tmp) \<le> 16
          then Some ((regs @ [Suc tmp]) @ [Suc (Suc tmp)..<reg]) else None)"
        using Suc.hyps(2) Suc.prems True by (intro Suc.hyps(1)) auto
      moreover have "[Suc tmp..<reg] = Suc tmp # [Suc (Suc tmp)..<reg]" using Suc.prems(1) by (simp add: upt_conv_Cons)
      moreover have "length (regs @ [Suc tmp]) + (reg - 1 - Suc tmp) = length regs + (reg - 1 - tmp)" using Suc.prems(1) by simp
      moreover have "fill_run tmp reg regs = fill_run (Suc tmp) reg (regs @ [Suc tmp])"
        using put False by (simp add: fill_run.simps [of tmp])
      ultimately show ?thesis by (simp only: append.assoc append.simps)
    qed
  next
    case False
    then have "fill_run tmp reg regs = None" by (simp add: fill_run.simps [of tmp] put_reg_def)
    moreover have "\<not> length regs + (reg - 1 - tmp) \<le> 16" using False Suc.prems by linarith
    ultimately show ?thesis by simp
  qed
qed simp

lemma set_bits_of_length: "length (set_bits_of l) \<le> 16"
  unfolding set_bits_of_def by (rule order_trans [OF length_filter_le]) simp

text \<open>One round of the outer loop takes one run of consecutive registers.\<close>

lemma run_written:
  assumes "s < r"
  shows "Option.bind (put_reg s regs) (\<lambda>regs.
      if r \<noteq> s + 1 then if r \<noteq> s + 2 then fill_run s r regs else put_reg (r - 1) regs else Some regs) =
    (if length regs + (r - s) \<le> 16 then Some (regs @ [s..<r]) else None)"
proof (cases "length regs < 16")
  case True
  then have put: "put_reg s regs = Some (regs @ [s])" by (simp add: put_reg_def)
  consider "r = s + 1" | "r = s + 2" | "s + 2 < r" using assms by linarith
  then show ?thesis
  proof cases
    case 3
    then have "fill_run s r (regs @ [s]) =
        (if length (regs @ [s]) + (r - 1 - s) \<le> 16 then Some ((regs @ [s]) @ [Suc s..<r]) else None)"
      using True by (intro fill_run_spec) auto
    moreover have "length (regs @ [s]) + (r - 1 - s) = length regs + (r - s)" using 3 by simp
    ultimately show ?thesis using put 3 by (simp add: upt_conv_Cons)
  qed (use True put in \<open>auto simp: put_reg_def upt_conv_Cons\<close>)
qed (use assms in \<open>simp add: put_reg_def\<close>)

text \<open>The registers the loop writes.\<close>

definition regs_out :: "nat \<Rightarrow> u16 \<Rightarrow> nat list" where
  "regs_out z l = set_bits_of l @ spurious z 0 l"

lemma reglist_loop_spec:
  assumes "l \<noteq> 0"
  shows "reglist_loop z l regs = (if length regs + length (regs_out z l) \<le> 16 then Some (regs @ regs_out z l) else None)"
  using assms
proof (induction "length (set_bits_of l)" arbitrary: l regs rule: less_induct)
  case less
  define s where "s = ctz z l"
  have ne: "set_bits_of l \<noteq> []" using less.prems by (simp add: set_bits_of_empty)
  have s: "s = hd (set_bits_of l)" using less.prems by (simp add: s_def ctz_def set_bits_of_def)
  then have "s \<in> set (set_bits_of l)" using ne by simp
  then have sb: "s < 16" "bit l s" by (auto simp: set_bits_of_def)
  have cl: "clear_below s l" unfolding s by (rule clear_below_hd [OF ne])
  obtain r l' where r: "clear_run z s l = Some (r, l')" "s < r"
    "if l' = 0 then [s..<r] = set_bits_of l @ spurious z s l else set_bits_of l = [s..<r] @ set_bits_of l'"
    using clear_run_spec [OF cl, of z] sb by auto
  have "reglist_loop z l regs = Option.bind (Option.bind (put_reg s regs) (\<lambda>regs.
    if r \<noteq> s + 1 then if r \<noteq> s + 2 then fill_run s r regs else put_reg (r - 1) regs else Some regs)) (reglist_loop z l')"
    using less.prems r(1) by (subst reglist_loop.simps) (simp add: s_def [symmetric] bind_assoc cong: if_cong)
  then have step: "reglist_loop z l regs =
      Option.bind (if length regs + (r - s) \<le> 16 then Some (regs @ [s..<r]) else None) (reglist_loop z l')"
    by (simp only: run_written [OF r(2)])
  show ?case
  proof (cases "l' = 0")
    case True
    then have o: "[s..<r] = regs_out z l" using r(3) less.prems by (simp add: regs_out_def spurious_def)
    then have "r - s = length (regs_out z l)" by (metis length_upt)
    then show ?thesis using True step o by (simp add: reglist_loop.simps [of z 0])
  next
    case False
    then have b: "set_bits_of l = [s..<r] @ set_bits_of l'" "set_bits_of l' \<noteq> []" using r(3) by (simp_all add: set_bits_of_empty)
    then have o: "regs_out z l = [s..<r] @ regs_out z l'" using False less.prems by (simp add: regs_out_def spurious_def)
    have "length (set_bits_of l') < length (set_bits_of l)" using b r(2) by simp
    then have "reglist_loop z l' (regs @ [s..<r]) = (if length (regs @ [s..<r]) + length (regs_out z l') \<le> 16
        then Some ((regs @ [s..<r]) @ regs_out z l') else None)" using False by (rule less.hyps)
    then show ?thesis using step by (auto simp: o)
  qed
qed

lemma spurious_large: "16 < z \<Longrightarrow> l \<noteq> 0 \<Longrightarrow> regs_out z l = set_bits_of l"
proof -
  assume a: "16 < z" "l \<noteq> 0"
  then have "last (set_bits_of l) \<in> set (set_bits_of l)" by (intro last_in_set) (simp add: set_bits_of_empty)
  then have "last (set_bits_of l) < 16" by (simp add: set_bits_of_def)
  then show ?thesis using a by (simp add: regs_out_def spurious_def)
qed

text \<open>
  C33: What \<open>darm_reglist2\<close> returns for every register list and every value \<open>z\<close> that the undefined
  \<open>__builtin_ctz(0)\<close> may have. An empty list gives -1. For a non-empty one, if \<open>z\<close> is not the number
  after the highest register of the list, the result is the numbers of the set bits in ascending
  order and their count. If \<open>z\<close> is that number, it is returned as one register too many, and a
  list of all sixteen registers then overflows the caller's array of 16 elements.
\<close>

theorem darm_reglist2_spec:
  "darm_reglist2 z l = (let regs = filter (bit l) [0..<16]; n = int (length regs) in
     if l = 0 then Some (- 1, [])
     else if z \<noteq> last regs + 1 then Some (n, regs)
     else if n < 16 then Some (n + 1, regs @ [z])
     else None)"
  using reglist_loop_spec [of l z "[]"] set_bits_of_length [of l]
  by (auto simp: darm_reglist2_def regs_out_def spurious_def set_bits_of_def Let_def)

end
