(* ===== verification/Darm_Names.thy ===== *)
theory Darm_Names
  imports Darm
begin

text \<open>
  The name functions of \<open>trace_analyzer/darm/armv7.c\<close>. A \<open>const char *\<close> result is a \<open>string option\<close>
  (\<open>None\<close> is \<open>NULL\<close>); where a table is read with a signed index, reading outside it is the outer
  \<open>None\<close>.
\<close>

section \<open>Conditions\<close>

record condition_code =
  mnemonic_extension :: string
  meaning_integer :: string
  meaning_fp :: string

definition g_condition_codes :: "condition_code list" where
  "g_condition_codes = map (\<lambda>(m, i, f). \<lparr>mnemonic_extension = m, meaning_integer = i, meaning_fp = f\<rparr>) [
    (''EQ'', ''Equal'', ''Equal''),
    (''NE'', ''Not equal'', ''Not equal, or unordered''),
    (''CS'', ''Carry Set'', ''Greater than, equal, or unordered''),
    (''CC'', ''Carry Clear'', ''Less than''),
    (''MI'', ''Minus, negative'', ''Less than''),
    (''PL'', ''Plus, positive or zero'', ''Greater than, equal, or unordered''),
    (''VS'', ''Overflow'', ''Unordered''),
    (''VC'', ''No overflow'', ''Not unordered''),
    (''HI'', ''Unsigned higher'', ''Greater than, unordered''),
    (''LS'', ''Unsigned lower or same'', ''Greater than, or unordered''),
    (''GE'', ''Signed greater than or equal'', ''Greater than, or unordered''),
    (''LT'', ''Signed less than'', ''Less than, or unordered''),
    (''GT'', ''Signed greater than'', ''Greater than''),
    (''LE'', ''Signed less than or equal'', ''Less than, equal, or unordered''),
    (''AL'', ''Always (unconditional)'', ''Always (unconditional)''),
    ('''', ''Unconditional'', ''Unconditional Instruction''),
    (''HS'', ''Carry Set'', ''Greater than, equal, or unordered''),
    (''LO'', ''Carry Clear'', ''Less than'')]"

definition cond_field :: "(condition_code \<Rightarrow> string) \<Rightarrow> int \<Rightarrow> string option option" where
  "cond_field f cond =
     (if cond \<noteq> C_INVLD \<and> cond < int (length g_condition_codes)
      then map_option (Some \<circ> f) (aget g_condition_codes cond) else Some None)"

definition darm_condition_name :: "int \<Rightarrow> bool \<Rightarrow> string option option" where
  "darm_condition_name cond omit_always_execute =
     (if omit_always_execute \<and> cond = C_AL then Some (Some '''') else cond_field mnemonic_extension cond)"

definition darm_condition_meaning_int :: "int \<Rightarrow> string option option" where
  "darm_condition_meaning_int cond = cond_field meaning_integer cond"

definition darm_condition_meaning_fp :: "int \<Rightarrow> string option option" where
  "darm_condition_meaning_fp cond = cond_field meaning_fp cond"

fun condition_search :: "string \<Rightarrow> condition_code list \<Rightarrow> int \<Rightarrow> int" where
  "condition_search code [] i = C_INVLD"
| "condition_search code (c # cs) i = (if code = mnemonic_extension c then i else condition_search code cs (i + 1))"

definition darm_condition_index :: "string option \<Rightarrow> int" where
  "darm_condition_index condition_code =
     (case condition_code of None \<Rightarrow> - 1
      | Some code \<Rightarrow> if code = [] then C_AL else condition_search code g_condition_codes 0)"

section \<open>Mnemonics, registers and shifts\<close>

definition darm_mnemonic_name :: "darm_instr_t \<Rightarrow> string option" where
  "darm_mnemonic_name instr = nget darm_mnemonics instr"

definition darm_enctype_name :: "darm_enctype_t \<Rightarrow> string option" where
  "darm_enctype_name enctype = nget darm_enctypes enctype"

definition darm_register_name :: "int \<Rightarrow> string option option" where
  "darm_register_name reg =
     (if reg \<noteq> R_INVLD \<and> reg < int (length darm_registers) then map_option Some (aget darm_registers reg) else Some None)"

definition shift_types :: "string list" where
  "shift_types = [''LSL'', ''LSR'', ''ASR'', ''ROR'']"

definition darm_shift_type_name :: "int \<Rightarrow> string option option" where
  "darm_shift_type_name shifttype =
     (if shifttype \<noteq> S_INVLD \<and> shifttype < int (length shift_types)
      then map_option Some (aget shift_types shifttype) else Some None)"

text \<open>The result is the return value, \<open>*type\<close> and \<open>*immediate\<close>.\<close>

definition darm_immshift_decode :: "darm_t \<Rightarrow> (int \<times> string option \<times> u32) option" where
  "darm_immshift_decode d =
     (if d_shift_type d = S_INVLD then Some (- 1, None, 0)
      else if d_shift_type d = S_ROR \<and> d_Rs d = R_INVLD \<and> d_shift d = 0 then Some (0, Some ''RRX'', 0)
      else do {
        t \<leftarrow> darm_shift_type_name (d_shift_type d);
        Some (0, t, if (d_shift_type d = S_LSR \<or> d_shift_type d = S_ASR) \<and> d_Rs d = R_INVLD \<and> d_shift d = 0
                    then 32 else d_shift d) })"

section \<open>Properties\<close>

lemma condition_roundtrip_each:
  "\<forall>c\<in>set [0, 1, 2, 3, 4, 5, 6, 7, 8, 9, 10, 11, 12, 13, 14].
     \<exists>s. darm_condition_name c False = Some (Some s) \<and> darm_condition_index (Some s) = c"
  by (simp add: darm_condition_name_def cond_field_def g_condition_codes_def aget_def darm_condition_index_def)

text \<open>
  C34: Looking up the name of a condition gives the condition back for the fifteen conditions an
  instruction can have; the name of the unconditional space is looked up as "always", and the two
  aliases \<open>HS\<close> and \<open>LO\<close> are not looked up as the conditions they stand for.
\<close>

theorem condition_name_roundtrip:
  "(\<forall>c\<in>{0..14}. \<exists>s. darm_condition_name c False = Some (Some s) \<and> darm_condition_index (Some s) = c) \<and>
   darm_condition_index (Some '''') = C_AL \<and>
   darm_condition_index (Some ''HS'') = 16 \<and> darm_condition_index (Some ''LO'') = 17"
proof (intro conjI ballI)
  fix c :: int assume "c \<in> {0..14}"
  then have "c \<in> set [0, 1, 2, 3, 4, 5, 6, 7, 8, 9, 10, 11, 12, 13, 14]" by simp presburger
  then show "\<exists>s. darm_condition_name c False = Some (Some s) \<and> darm_condition_index (Some s) = c"
    using condition_roundtrip_each by blast
qed (simp_all add: darm_condition_index_def g_condition_codes_def)

theorem condition_name_roundtrip_witness: "darm_condition_index (the (darm_condition_name 11 False)) = 11"
  using condition_name_roundtrip [THEN conjunct1, THEN bspec, of 11] by auto

end
