(* ===== verification/Darm_Data.thy ===== *)
theory Darm_Data
  imports Darm_Correct
begin

text \<open>
  The data-processing instructions: their encoding, taken from the architecture manual, and what
  the decoder makes of it.
\<close>

section \<open>The encoding\<close>

text \<open>The second operand is a 12-bit immediate or a register with a shift by a constant.\<close>

datatype operand2 = Immediate "12 word" | Shifted "5 word" "2 word" "4 word"

fun encode_operand :: "operand2 \<Rightarrow> u32" where
  "encode_operand (Immediate v) = push_bit 25 1 OR ucast v"
| "encode_operand (Shifted n t rm) = push_bit 7 (ucast n) OR push_bit 5 (ucast t) OR ucast rm"

declare encode_operand.simps [simp del]

definition encode_data :: "4 word \<Rightarrow> 4 word \<Rightarrow> bool \<Rightarrow> 4 word \<Rightarrow> 4 word \<Rightarrow> operand2 \<Rightarrow> u32" where
  "encode_data c opc s rn rd x =
     push_bit 28 (ucast c) OR push_bit 21 (ucast opc) OR push_bit 20 (of_bool s) OR push_bit 16 (ucast rn) OR
     push_bit 12 (ucast rd) OR encode_operand x"

text \<open>The four comparisons have no destination, \<open>MOV\<close> and \<open>MVN\<close> no first operand.\<close>

definition compares :: "4 word \<Rightarrow> bool" where
  "compares opc \<longleftrightarrow> opc \<in> {8, 9, 10, 11}"

definition moves :: "4 word \<Rightarrow> bool" where
  "moves opc \<longleftrightarrow> opc \<in> {13, 15}"

definition data_names :: "darm_instr_t list" where
  "data_names = [I_AND, I_EOR, I_SUB, I_RSB, I_ADD, I_ADC, I_SBC, I_RSC, I_TST, I_TEQ, I_CMP, I_CMN, I_ORR, I_MOV, I_BIC, I_MVN]"

definition shift_names :: "darm_instr_t list" where
  "shift_names = [I_LSL, I_LSR, I_ASR, I_ROR]"

text \<open>A move of a shifted register is named after the shift; no shift is \<open>MOV\<close>, and a rotation by 0 is \<open>RRX\<close>.\<close>

fun data_label :: "4 word \<Rightarrow> operand2 \<Rightarrow> darm_instr_t" where
  "data_label opc (Immediate v) = data_names ! unat opc"
| "data_label opc (Shifted n t rm) =
     (if opc = 13 then if n = 0 \<and> t = 0 then I_MOV else if n = 0 \<and> t = 3 then I_RRX else shift_names ! unat t
      else data_names ! unat opc)"

fun is_immediate :: "operand2 \<Rightarrow> bool" where
  "is_immediate (Immediate v) = True"
| "is_immediate (Shifted n t rm) = False"

text \<open>An addition to or subtraction from the program counter is another instruction, \<open>ADR\<close>.\<close>

definition is_adr :: "4 word \<Rightarrow> bool \<Rightarrow> 4 word \<Rightarrow> operand2 \<Rightarrow> bool" where
  "is_adr opc s rn x \<longleftrightarrow> is_immediate x \<and> opc \<in> {2, 4} \<and> \<not> s \<and> rn = 15"

section \<open>The fields of the word\<close>

lemma bit_field: "k + LENGTH('a) \<le> 32 \<Longrightarrow> bit (push_bit k (ucast (v :: 'a::len word)) :: u32) n \<longleftrightarrow> k \<le> n \<and> n < k + LENGTH('a) \<and> bit v (n - k)"
  using bit_imp_le_length [of v "n - k"] by (auto simp: bit_push_bit_iff bit_unsigned_iff)

lemma bit_low_field: "LENGTH('a) \<le> 32 \<Longrightarrow> bit (ucast (v :: 'a::len word) :: u32) n \<longleftrightarrow> n < LENGTH('a) \<and> bit v n"
  using bit_field [of 0 v n] by simp

lemma bit_encode_operand:
  "bit (encode_operand x) n \<longleftrightarrow> (case x of Immediate v \<Rightarrow> n = 25 \<or> n < 12 \<and> bit v n
     | Shifted m t rm \<Rightarrow> 7 \<le> n \<and> n < 12 \<and> bit m (n - 7) \<or> 5 \<le> n \<and> n < 7 \<and> bit t (n - 5) \<or> n < 4 \<and> bit rm n)"
proof (cases x)
  case (Immediate v)
  have "bit (push_bit 25 1 :: u32) n \<longleftrightarrow> n = 25" unfolding bit_push_bit_iff bit_1_iff possible_bit_word by auto
  then show ?thesis unfolding Immediate encode_operand.simps bit_or_iff by (simp add: bit_low_field)
next
  case (Shifted m t rm)
  show ?thesis unfolding Shifted encode_operand.simps bit_or_iff by (simp add: bit_field bit_low_field)
qed

lemma bit_encode_data:
  "bit (encode_data c opc s rn rd x) n \<longleftrightarrow>
     28 \<le> n \<and> n < 32 \<and> bit c (n - 28) \<or> 21 \<le> n \<and> n < 25 \<and> bit opc (n - 21) \<or> n = 20 \<and> s \<or>
     16 \<le> n \<and> n < 20 \<and> bit rn (n - 16) \<or> 12 \<le> n \<and> n < 16 \<and> bit rd (n - 12) \<or> bit (encode_operand x) n"
proof -
  have k: "20 < (32 :: nat)" by simp
  show ?thesis
    unfolding encode_data_def bit_or_iff bit_fields(4) [OF k] by (auto simp: bit_field)
qed

lemma field_of:
  assumes "m = mask j" "\<And>n. n < j \<Longrightarrow> bit w (k + n) \<longleftrightarrow> bit v n" "\<And>n. bit v n \<Longrightarrow> n < j" "j \<le> 32"
  shows "bits w k m = (v :: u32)"
proof (rule bit_word_eqI)
  fix n assume "n < LENGTH(32)"
  then show "bit (bits w k m) n = bit v n"
    using assms(2-4) by (auto simp: bits_def assms(1) bit_and_iff bit_drop_bit_eq bit_mask_iff)
qed

lemma encode_data_fields:
  fixes c opc rn rd :: "4 word" and s :: bool and x :: operand2
  defines "w \<equiv> encode_data c opc s rn rd x"
  shows "bits w 28 15 = ucast c" "bits w 16 15 = ucast rn" "bits w 12 15 = ucast rd" "bits w 20 1 = of_cbool s"
    "\<not> bit w 27" "\<not> bit w 26" "bit w 25 \<longleftrightarrow> is_immediate x"
    "bits w 20 0xFF = push_bit 5 (of_bool (is_immediate x)) OR push_bit 1 (ucast opc) OR of_bool s"
proof -
  have i: "bit (encode_operand x) n \<longleftrightarrow> n = 25 \<and> is_immediate x" if "12 \<le> n" for n
    using that unfolding bit_encode_operand by (cases x) auto
  show "bits w 28 15 = ucast c"
    by (rule field_of [OF mask_numerals(3)]) (auto simp: w_def bit_encode_data bit_low_field i)
  show "bits w 16 15 = ucast rn"
    by (rule field_of [OF mask_numerals(3)]) (auto simp: w_def bit_encode_data bit_low_field i)
  show "bits w 12 15 = ucast rd"
    by (rule field_of [OF mask_numerals(3)]) (auto simp: w_def bit_encode_data bit_low_field i)
  show "bits w 20 1 = of_cbool s" by (simp add: bits_one w_def bit_encode_data of_cbool_def i)
  show "\<not> bit w 27" "\<not> bit w 26" "bit w 25 \<longleftrightarrow> is_immediate x" by (simp_all add: w_def bit_encode_data i)
  show "bits w 20 0xFF = push_bit 5 (of_bool (is_immediate x)) OR push_bit 1 (ucast opc) OR of_bool s"
  proof (rule field_of [OF mask_numerals(5)])
    have k: "5 < (32 :: nat)" by simp
    have f: "bit (push_bit 1 (ucast opc) :: u32) n \<longleftrightarrow> 1 \<le> n \<and> n < 5 \<and> bit opc (n - 1)" for n by (subst bit_field) auto
    have o: "bit (of_bool s :: u32) n \<longleftrightarrow> n = 0 \<and> s" for n by (auto simp: bit_of_bool_iff)
    show "bit w (20 + n) = bit (push_bit 5 (of_bool (is_immediate x)) OR push_bit 1 (ucast opc) OR of_bool s :: u32) n" if "n < 8" for n
      using that unfolding w_def bit_encode_data bit_or_iff bit_fields(4) [OF k] o f by (auto simp: i)
    show "n < 8" if "bit (push_bit 5 (of_bool (is_immediate x)) OR push_bit 1 (ucast opc) OR of_bool s :: u32) n" for n
      using that unfolding bit_or_iff bit_fields(4) [OF k] o f by auto
  qed simp
qed

lemma encode_shifted_fields:
  fixes c opc rn rd rm :: "4 word" and m :: "5 word" and t :: "2 word" and s :: bool
  defines "w \<equiv> encode_data c opc s rn rd (Shifted m t rm)"
  shows "bits w 0 15 = ucast rm" "bits w 5 3 = ucast t" "bits w 7 31 = ucast m" "\<not> bit w 4"
    "bits w 4 15 = push_bit 3 (of_bool (odd m)) OR push_bit 1 (ucast t)"
proof -
  show "bits w 0 15 = ucast rm"
    by (rule field_of [OF mask_numerals(3)]) (auto simp: w_def bit_encode_data bit_encode_operand bit_low_field)
  show "bits w 5 3 = ucast t"
    by (rule field_of [OF mask_numerals(1)]) (auto simp: w_def bit_encode_data bit_encode_operand bit_low_field)
  show "bits w 7 31 = ucast m"
    by (rule field_of [OF mask_numerals(4)]) (auto simp: w_def bit_encode_data bit_encode_operand bit_low_field)
  show "\<not> bit w 4" by (simp add: w_def bit_encode_data bit_encode_operand)
  have f: "bit (push_bit 1 (ucast t) :: u32) n \<longleftrightarrow> 1 \<le> n \<and> n < 3 \<and> bit t (n - 1)" for n by (subst bit_field) auto
  have o: "bit (push_bit 3 (of_bool (odd m)) :: u32) n \<longleftrightarrow> n = 3 \<and> bit m 0" for n
    using bit_fields(4) [of 3 "odd m" n] by (simp add: bit_0)
  show "bits w 4 15 = push_bit 3 (of_bool (odd m)) OR push_bit 1 (ucast t)"
  proof (rule field_of [OF mask_numerals(3)])
    fix n :: nat assume "n < 4"
    then consider "n = 0" | "n = 1" | "n = 2" | "n = 3" by linarith
    then show "bit w (4 + n) = bit (push_bit 3 (of_bool (odd m)) OR push_bit 1 (ucast t) :: u32) n"
      unfolding bit_or_iff f o by cases (simp_all add: w_def bit_encode_data bit_encode_operand)
  next
    show "n < 4" if "bit (push_bit 3 (of_bool (odd m)) OR push_bit 1 (ucast t) :: u32) n" for n
      using that unfolding bit_or_iff f o by auto
  qed simp
qed

text \<open>Facts on the sixteen operation codes are checked one by one.\<close>

lemma below_16: "list_all P [0..<16] \<Longrightarrow> k < 16 \<Longrightarrow> P k"
  by (simp add: list_all_iff)

lemma below_4: "list_all P [0..<4] \<Longrightarrow> k < 4 \<Longrightarrow> P k"
  by (simp add: list_all_iff)

lemma unat_fields:
  fixes opc :: "4 word" and t :: "2 word"
  shows "unat (push_bit 5 (of_bool i) OR push_bit 1 (ucast opc) OR of_bool s :: u32) = 32 * of_bool i + 2 * unat opc + of_bool s"
    "unat (push_bit 3 (of_bool b) OR push_bit 1 (ucast t) :: u32) = 8 * of_bool b + 2 * unat t"
proof -
  have w: "(ucast opc :: u32) = of_nat (unat opc)" "(ucast t :: u32) = of_nat (unat t)" by simp_all
  have l: "unat opc < 16" "unat t < 4" using unsigned_less [of opc] unsigned_less [of t] by simp_all
  have "list_all (\<lambda>k. unat (push_bit 5 (of_bool i) OR push_bit 1 (of_nat k) OR of_bool s :: u32) = 32 * of_bool i + 2 * k + of_bool s) [0..<16]"
    by (cases i; cases s; simp add: upt_rec)
  from below_16 [OF this l(1)]
  show "unat (push_bit 5 (of_bool i) OR push_bit 1 (ucast opc) OR of_bool s :: u32) = 32 * of_bool i + 2 * unat opc + of_bool s"
    by (simp only: w)
  have "list_all (\<lambda>k. unat (push_bit 3 (of_bool b) OR push_bit 1 (of_nat k) :: u32) = 8 * of_bool b + 2 * k) [0..<4]"
    by (cases b; simp add: upt_rec)
  from below_4 [OF this l(2)]
  show "unat (push_bit 3 (of_bool b) OR push_bit 1 (ucast t) :: u32) = 8 * of_bool b + 2 * unat t" by (simp only: w)
qed

section \<open>Decoding\<close>

text \<open>The entries of the main table for these instructions.\<close>

definition shifted_type :: "nat \<Rightarrow> darm_enctype_t" where
  "shifted_type k = (if 8 \<le> k \<and> k < 12 then T_ARM_CMP_OP else if k = 13 then T_ARM_DST_SRC else if k = 15 then T_ARM_MISC else T_ARM_ARITH_SHIFT)"

definition immediate_type :: "nat \<Rightarrow> darm_enctype_t" where
  "immediate_type k = (if 8 \<le> k \<and> k < 12 then T_ARM_CMP_IMM else if k = 13 \<or> k = 15 then T_ARM_MOV_IMM else T_ARM_ARITH_IMM)"

definition data_entry :: "bool \<Rightarrow> nat \<Rightarrow> bool" where
  "data_entry s k \<longleftrightarrow> 8 \<le> k \<and> k < 12 \<and> \<not> s \<or>
     (k = 13 \<or> armv7_instr_labels ! (2 * k + of_bool s) = data_names ! k) \<and>
     armv7_instr_types ! (2 * k + of_bool s) = shifted_type k \<and>
     armv7_instr_labels ! (32 + 2 * k + of_bool s) = data_names ! k \<and>
     armv7_instr_types ! (32 + 2 * k + of_bool s) = immediate_type k"

lemma data_table:
  assumes "k < 16" "8 \<le> k \<and> k < 12 \<longrightarrow> s"
  shows "k \<noteq> 13 \<longrightarrow> armv7_instr_labels ! (2 * k + of_bool s) = data_names ! k"
    "armv7_instr_types ! (2 * k + of_bool s) = shifted_type k"
    "armv7_instr_labels ! (32 + 2 * k + of_bool s) = data_names ! k"
    "armv7_instr_types ! (32 + 2 * k + of_bool s) = immediate_type k"
proof -
  have "list_all (data_entry True) [0..<16]" "list_all (data_entry False) [0..<16]" by code_simp+
  then have "list_all (data_entry s) [0..<16]" by (cases s) simp_all
  then have "data_entry s k" using assms(1) by (rule below_16)
  then show "k \<noteq> 13 \<longrightarrow> armv7_instr_labels ! (2 * k + of_bool s) = data_names ! k"
    "armv7_instr_types ! (2 * k + of_bool s) = shifted_type k"
    "armv7_instr_labels ! (32 + 2 * k + of_bool s) = data_names ! k"
    "armv7_instr_types ! (32 + 2 * k + of_bool s) = immediate_type k"
    using assms(2) by (auto simp: data_entry_def)
qed

lemma low_words_use_table:
  assumes "\<not> bit w 27" "\<not> bit w 26" "bit w 25 \<or> \<not> bit w 4"
  shows "armv7_disas_cond d w =
    disas_by_type (d\<lparr>d_instr := armv7_instr_labels ! nbits w 20 0xFF, d_instr_type := armv7_instr_types ! nbits w 20 0xFF\<rparr>) w"
proof -
  have m: "bit (push_bit 25 7 OR push_bit 4 9 :: u32) 25" "\<not> bit (push_bit 4 9 :: u32) 25" "bit (push_bit 4 9 :: u32) 4"
    "bit (push_bit 20 0xF9 OR push_bit 4 15 :: u32) 25" "\<not> bit (push_bit 24 1 OR push_bit 4 5 :: u32) 25" "bit (push_bit 24 1 OR push_bit 4 5 :: u32) 4"
    "bit (push_bit 23 13 OR push_bit 4 1 :: u32) 26"
    by code_simp+
  have n: "w AND (push_bit 25 7 OR push_bit 4 9) \<noteq> push_bit 4 9"
    "w AND (push_bit 20 0xF9 OR push_bit 4 15) \<noteq> push_bit 24 1 OR push_bit 4 5"
    "w AND (push_bit 23 31 OR push_bit 4 1) \<noteq> push_bit 23 13 OR push_bit 4 1"
    using assms m by (metis bit_and_iff)+
  have "\<not> bit (bits w 26 3) 0" using assms(2) by (simp add: bits_def bit_and_iff bit_drop_bit_eq)
  then have b: "bits w 26 3 \<noteq> 1" by (metis bit_1_0)
  have "nbits w 20 0xFF < 256" by simp
  then show ?thesis using n b
    by (simp add: armv7_disas_cond_def disas_sat_def disas_pusr_def del: push_bit_numeral)
qed

lemma disasm_cond:
  assumes "ibits w 28 15 \<noteq> 15" "armv7_disas_cond (darm_init\<lparr>d_w := w, d_cond := ibits w 28 15\<rparr>) w = Some (0, d)"
  shows "\<exists>t. darm_armv7_disasm w = Some (0, d\<lparr>d_shift_type := t\<rparr>)"
  using assms
  by (intro exI [of _ "if d_shift_type d = S_LSL \<and> d_Rs d = R_INVLD \<and> d_shift d = 0 then S_INVLD else d_shift_type d"])
    (simp add: darm_armv7_disasm_def)

lemma data_names_eq:
  assumes "k < 16"
  shows "data_names ! k = I_ADD \<longleftrightarrow> k = 4" "data_names ! k = I_SUB \<longleftrightarrow> k = 2" "data_names ! k = I_MOV \<longleftrightarrow> k = 13"
    "data_names ! k = I_MVN \<longleftrightarrow> k = 15"
proof -
  have "list_all (\<lambda>k. (data_names ! k = I_ADD \<longleftrightarrow> k = 4) \<and> (data_names ! k = I_SUB \<longleftrightarrow> k = 2) \<and>
    (data_names ! k = I_MOV \<longleftrightarrow> k = 13) \<and> (data_names ! k = I_MVN \<longleftrightarrow> k = 15)) [0..<16]" by code_simp
  from below_16 [OF this assms]
  show "data_names ! k = I_ADD \<longleftrightarrow> k = 4" "data_names ! k = I_SUB \<longleftrightarrow> k = 2" "data_names ! k = I_MOV \<longleftrightarrow> k = 13"
    "data_names ! k = I_MVN \<longleftrightarrow> k = 15" by blast+
qed

lemma opcode_nat:
  "compares opc \<longleftrightarrow> 8 \<le> unat opc \<and> unat opc < 12" "moves opc \<longleftrightarrow> unat opc = 13 \<or> unat opc = 15"
  "opc = 13 \<longleftrightarrow> unat opc = 13" "opc \<in> {2, 4} \<longleftrightarrow> unat opc = 2 \<or> unat opc = 4" "unat opc < 16"
proof -
  have "8 \<le> k \<and> k < 12 \<longleftrightarrow> k = 8 \<or> k = 9 \<or> k = 10 \<or> k = 11" for k :: nat by auto
  then show "compares opc \<longleftrightarrow> 8 \<le> unat opc \<and> unat opc < 12" by (simp add: compares_def word_unat_eq_iff)
  show "unat opc < 16" using unsigned_less [of opc] by simp
qed (simp_all add: moves_def word_unat_eq_iff)

text \<open>What the decoder finds in the word.\<close>

definition data_fields :: "4 word \<Rightarrow> 4 word \<Rightarrow> bool \<Rightarrow> 4 word \<Rightarrow> 4 word \<Rightarrow> operand2 \<Rightarrow> darm_t \<Rightarrow> bool" where
  "data_fields c opc s rn rd x d \<longleftrightarrow> d_instr d = data_label opc x \<and> d_cond d = uint c \<and>
     d_Rd d = (if compares opc then R_INVLD else uint rd) \<and> d_Rn d = (if moves opc then R_INVLD else uint rn) \<and>
     d_Rm d = (case x of Immediate v \<Rightarrow> R_INVLD | Shifted m t rm \<Rightarrow> uint rm) \<and>
     d_S d = (if compares opc then B_INVLD else of_cbool s) \<and> d_reglist d = 0"

lemma data_fields_shift_type: "data_fields c opc s rn rd x d \<Longrightarrow> data_fields c opc s rn rd x (d\<lparr>d_shift_type := t\<rparr>)"
  by (simp add: data_fields_def)

lemma immediate_by_type:
  fixes c opc rn rd :: "4 word" and s :: bool and v :: "12 word"
  assumes "compares opc \<longrightarrow> s" "\<not> is_adr opc s rn (Immediate v)"
  defines "w \<equiv> encode_data c opc s rn rd (Immediate v)"
  defines "d0 \<equiv> darm_init\<lparr>d_w := w, d_cond := uint c\<rparr>"
  shows "\<exists>d. disas_by_type (d0\<lparr>d_instr := data_names ! unat opc, d_instr_type := immediate_type (unat opc)\<rparr>) w = Some (0, d) \<and>
    data_fields c opc s rn rd (Immediate v) d"
proof -
  have f: "ibits w 16 15 = uint rn" "ibits w 12 15 = uint rd" "bits w 20 1 = of_cbool s"
    by (simp_all add: w_def ibits_def encode_data_fields uint_up_ucast is_up)
  have rn: "uint rn = 15 \<longleftrightarrow> rn = 15" by (simp add: word_uint_eq_iff)
  have s: "(of_cbool s :: u32) = 0 \<longleftrightarrow> \<not> s" by (simp add: of_cbool_def)
  consider "compares opc" | "moves opc" "\<not> compares opc" | "\<not> compares opc" "\<not> moves opc" by blast
  then show ?thesis
  proof cases
    case 1
    then have "\<not> moves opc" by (auto simp: opcode_nat)
    then show ?thesis using 1
      by (simp add: opcode_nat(1) immediate_type_def disas_by_type_def disas_cmp_imm_def data_fields_def f d0_def darm_init_def)
  next
    case 2
    then show ?thesis using opcode_nat(5) [of opc]
      by (auto simp: opcode_nat(1,2) immediate_type_def disas_by_type_def disas_mov_imm_def data_fields_def f d0_def darm_init_def Let_def
        data_names_eq)
  next
    case 3
    then have "immediate_type (unat opc) = T_ARM_ARITH_IMM" by (simp add: opcode_nat(1,2) immediate_type_def)
    moreover have "\<not> ((data_names ! unat opc = I_ADD \<or> data_names ! unat opc = I_SUB) \<and> \<not> s \<and> rn = 15)"
      using assms(2) opcode_nat(4,5) [of opc] by (auto simp: is_adr_def data_names_eq)
    ultimately show ?thesis using 3
      by (auto simp: disas_by_type_def disas_arith_imm_def data_fields_def f d0_def darm_init_def Let_def rn s)
  qed
qed

lemma shift_lookup:
  fixes m :: "5 word" and t :: "2 word"
  shows "type_shift_instr_lookup ! (8 * of_bool b + 2 * unat t) = shift_names ! unat t"
    "shift_names ! unat t \<noteq> I_INVLD" "shift_names ! unat t = I_LSL \<longleftrightarrow> t = 0" "shift_names ! unat t = I_ROR \<longleftrightarrow> t = 3" "unat t < 4"
proof -
  have "list_all (\<lambda>k. list_all (\<lambda>b. type_shift_instr_lookup ! (8 * of_bool b + 2 * k) = shift_names ! k \<and> shift_names ! k \<noteq> I_INVLD \<and>
      (shift_names ! k = I_LSL \<longleftrightarrow> k = 0) \<and> (shift_names ! k = I_ROR \<longleftrightarrow> k = 3)) [True, False]) [0..<4]" by code_simp
  moreover show t: "unat t < 4" using unsigned_less [of t] by simp
  ultimately have "list_all (\<lambda>b. type_shift_instr_lookup ! (8 * of_bool b + 2 * unat t) = shift_names ! unat t \<and> shift_names ! unat t \<noteq> I_INVLD \<and>
      (shift_names ! unat t = I_LSL \<longleftrightarrow> unat t = 0) \<and> (shift_names ! unat t = I_ROR \<longleftrightarrow> unat t = 3)) [True, False]" by (rule below_4)
  then show "type_shift_instr_lookup ! (8 * of_bool b + 2 * unat t) = shift_names ! unat t"
    "shift_names ! unat t \<noteq> I_INVLD" "shift_names ! unat t = I_LSL \<longleftrightarrow> t = 0" "shift_names ! unat t = I_ROR \<longleftrightarrow> t = 3"
    by (cases b; simp add: word_unat_eq_iff)+
qed

lemma shifted_by_type:
  fixes c opc rn rd rm :: "4 word" and s :: bool and m :: "5 word" and t :: "2 word"
  assumes "compares opc \<longrightarrow> s" "unat opc \<noteq> 13 \<longrightarrow> i = data_names ! unat opc"
  defines "w \<equiv> encode_data c opc s rn rd (Shifted m t rm)"
  defines "d0 \<equiv> darm_init\<lparr>d_w := w, d_cond := uint c\<rparr>"
  shows "\<exists>d. disas_by_type (d0\<lparr>d_instr := i, d_instr_type := shifted_type (unat opc)\<rparr>) w = Some (0, d) \<and>
    data_fields c opc s rn rd (Shifted m t rm) d"
proof -
  have f: "ibits w 16 15 = uint rn" "ibits w 12 15 = uint rd" "bits w 20 1 = of_cbool s" "ibits w 0 15 = uint rm" "ibits w 5 3 = uint t"
    "bits w 7 31 = ucast m"
    by (simp_all add: w_def ibits_def encode_data_fields encode_shifted_fields uint_up_ucast is_up)
  have b: "bits w 4 1 = 0" by (simp add: w_def encode_shifted_fields bits_one)
  have t: "uint t = 0 \<longleftrightarrow> t = 0" "uint t = 3 \<longleftrightarrow> t = 3" "(ucast m :: u32) = 0 \<longleftrightarrow> m = 0"
    by (simp_all add: word_uint_eq_iff uint_up_ucast is_up)
  note fields = f b d0_def darm_init_def data_fields_def
  consider "compares opc" | "unat opc = 13" | "unat opc = 15" | "\<not> compares opc" "\<not> moves opc" by (auto simp: opcode_nat(2))
  then show ?thesis
  proof cases
    case 1
    then have "\<not> moves opc" "opc \<noteq> 13" "unat opc \<noteq> 13" by (auto simp: opcode_nat)
    then show ?thesis using 1 assms(2)
      by (simp add: opcode_nat(1) shifted_type_def disas_by_type_def disas_cmp_op_def reg_or_imm_shift_def fields)
  next
    case 2
    then have o: "\<not> compares opc" "moves opc" "opc = 13" by (auto simp: opcode_nat)
    have "nbits w 4 15 = 8 * of_bool (odd m) + 2 * unat t" by (simp only: nbits_def w_def encode_shifted_fields(5) unat_fields(2))
    moreover have "8 * of_bool (odd m) + 2 * unat t < 16" using shift_lookup(5) [of t] by auto
    moreover have "length type_shift_instr_lookup = 16" by code_simp
    ultimately have "nget type_shift_instr_lookup (nbits w 4 15) = Some (shift_names ! unat t)" using shift_lookup(1) [of "odd m" t]
      by (simp add: nget_def)
    then show ?thesis using 2 o shift_lookup(2-4) [of t]
      by (auto simp: shifted_type_def disas_by_type_def disas_dst_src_def Let_def t fields)
  next
    case 3
    then have "\<not> compares opc" "moves opc" "opc \<noteq> 13" by (auto simp: opcode_nat)
    then show ?thesis using 3 assms(2) data_names_eq(4) [of 15]
      by (auto simp: shifted_type_def disas_by_type_def misc_then_sm_def disas_misc_def misc_mvn_def Let_def fields)
  next
    case 4
    then have "shifted_type (unat opc) = T_ARM_ARITH_SHIFT" "opc \<noteq> 13" "unat opc \<noteq> 13" by (auto simp: opcode_nat shifted_type_def)
    then show ?thesis using 4 assms(2)
      by (simp add: disas_by_type_def disas_arith_shift_def reg_or_imm_shift_def fields)
  qed
qed

lemma data_decoded:
  assumes "c \<noteq> 15" "compares opc \<longrightarrow> s" "\<not> is_adr opc s rn x"
  shows "\<exists>d. darm_armv7_disasm (encode_data c opc s rn rd x) = Some (0, d) \<and> data_fields c opc s rn rd x d"
proof -
  let ?w = "encode_data c opc s rn rd x"
  have c: "ibits ?w 28 15 = uint c" by (simp add: ibits_def encode_data_fields uint_up_ucast is_up)
  then have c15: "ibits ?w 28 15 \<noteq> 15" using assms(1) by (simp add: word_uint_eq_iff)
  have n: "nbits ?w 20 0xFF = 32 * of_bool (is_immediate x) + 2 * unat opc + of_bool s"
    by (simp only: nbits_def encode_data_fields(8) unat_fields(1))
  have b: "bit ?w 25 \<or> \<not> bit ?w 4"
    using encode_data_fields(7) [of c opc s rn rd x] encode_shifted_fields(4) [of c opc s rn rd] by (cases x) auto
  note k = low_words_use_table [OF encode_data_fields(5,6) b]
  have s: "8 \<le> unat opc \<and> unat opc < 12 \<longrightarrow> s" using assms(2) by (simp add: opcode_nat)
  have "\<exists>d. armv7_disas_cond (darm_init\<lparr>d_w := ?w, d_cond := uint c\<rparr>) ?w = Some (0, d) \<and> data_fields c opc s rn rd x d"
  proof (cases x)
    case (Immediate v)
    then show ?thesis using immediate_by_type [of opc s rn v c rd] assms n data_table(3,4) [OF opcode_nat(5) s]
      by (simp add: k [unfolded Immediate] add.assoc)
  next
    case (Shifted m t rm)
    then show ?thesis using shifted_by_type [OF assms(2), of "armv7_instr_labels ! (2 * unat opc + of_bool s)" c rn rd m t rm] n
        data_table(1,2) [OF opcode_nat(5) s] by (simp add: k [unfolded Shifted])
  qed
  then obtain d where d: "armv7_disas_cond (darm_init\<lparr>d_w := ?w, d_cond := ibits ?w 28 15\<rparr>) ?w = Some (0, d)" "data_fields c opc s rn rd x d"
    unfolding c by blast
  show ?thesis using disasm_cond [OF c15 d(1)] data_fields_shift_type [OF d(2)] by blast
qed

end
