(* ===== verification/Inst.thy ===== *)
theory Inst
  imports Darm_Data Darm_Reglist Cachesim_Types
begin

text \<open>
  Instructions of the trace (\<open>trace_analyzer/inst.c\<close>, \<open>inst.h\<close>): their record, and \<open>decode_inst\<close>,
  which classifies an instruction and collects the registers it reads and writes. The arrays
  \<open>src_reg\<close>, \<open>dst_reg\<close> and \<open>eff_addr\<close> have 16 elements; a write outside them is the value \<open>None\<close>.
\<close>

section \<open>State\<close>

datatype InstState = Ready | Dispatch | Issue | Complete | Retire

datatype InstTypeName = IntAlu | IntMult | IntDiv | SimdFloatAdd | SimdFloatMult | SimdFloatMultAcc
  | MemRead | MemWrite | Branch | Syscall | Pop | Push | Unsupported

record InstType =
  it_name :: InstTypeName
  it_latency :: int
  it_pipelined :: bool

record Inst =
  i_seq :: u64
  i_pc :: u32
  i_code :: u32
  i_state :: InstState
  i_type :: InstTypeName
  i_remaining_latency :: int
  i_stack_inst :: bool
  i_is_cond_inst :: bool
  i_update_cond_flag :: bool
  i_shift_inst :: bool
  i_mshr :: bool
  i_imm :: int
  i_num_src_reg :: int
  i_num_dst_reg :: int
  i_num_eff_addr :: int
  i_src_reg :: "int list"
  i_dst_reg :: "int list"
  i_eff_addr :: "u32 list"
  i_inst_cache_miss :: CacheMissType
  i_cache_miss :: CacheMissType
  i_bpred_mispred :: bool
  i_dispatched_cycle :: u64
  i_issued_cycle :: u64
  i_completed_cycle :: u64
  i_committed_cycle :: u64
  i_iq_elem :: ptr
  i_ldq_elem :: ptr
  i_stq_elem :: ptr
  i_decoded :: bool
  i_rob_idx :: int
  i_str :: "string option"

section \<open>Operations\<close>

text \<open>The argument \<open>inst\<close> is the memory \<open>malloc\<close> returned; the fields not listed keep its content.\<close>

definition init_inst :: "Inst \<Rightarrow> u32 \<Rightarrow> u32 \<Rightarrow> u32 \<Rightarrow> Inst" where
  "init_inst inst sq pc code = inst\<lparr>
     i_seq := ucast sq, i_pc := pc, i_code := code, i_state := Ready, i_type := IntAlu,
     i_is_cond_inst := False, i_update_cond_flag := False, i_shift_inst := False, i_stack_inst := False,
     i_mshr := False, i_cache_miss := L1Hit, i_bpred_mispred := False,
     i_num_src_reg := 0, i_num_dst_reg := 0, i_num_eff_addr := 0,
     i_iq_elem := None, i_ldq_elem := None, i_stq_elem := None,
     i_decoded := False, i_imm := 0, i_str := None\<rparr>"

definition init_inst_type :: "InstTypeName \<Rightarrow> int \<Rightarrow> bool \<Rightarrow> InstType" where
  "init_inst_type name latency pipelined = \<lparr>it_name = name, it_latency = latency, it_pipelined = pipelined\<rparr>"

definition add_src_reg :: "int \<Rightarrow> Inst \<Rightarrow> Inst option" where
  "add_src_reg r inst = do {
     rs \<leftarrow> aset (i_src_reg inst) (i_num_src_reg inst) r;
     Some (inst\<lparr>i_src_reg := rs, i_num_src_reg := i_num_src_reg inst + 1\<rparr>) }"

definition add_dst_reg :: "int \<Rightarrow> Inst \<Rightarrow> Inst option" where
  "add_dst_reg r inst = do {
     rs \<leftarrow> aset (i_dst_reg inst) (i_num_dst_reg inst) r;
     Some (inst\<lparr>i_dst_reg := rs, i_num_dst_reg := i_num_dst_reg inst + 1\<rparr>) }"

definition opt_reg :: "(int \<Rightarrow> Inst \<Rightarrow> Inst option) \<Rightarrow> int \<Rightarrow> Inst \<Rightarrow> Inst option" where
  "opt_reg add r inst = (if r \<noteq> R_INVLD then add r inst else Some inst)"

definition init_inst_src_dst_reg :: "nat \<Rightarrow> darm_t \<Rightarrow> Inst \<Rightarrow> Inst option" where
  "init_inst_src_dst_reg z d inst = do {
     (num_reglist, regs) \<leftarrow> darm_reglist2 z (d_reglist d);
     let regs = map int (take (nat num_reglist) regs);
     let inst = inst\<lparr>i_src_reg := replicate 16 (- 1), i_dst_reg := replicate 16 (- 1)\<rparr>;
     inst \<leftarrow> (if i_type inst = MemRead \<or> i_type inst = Pop then do {
         inst \<leftarrow> opt_reg add_dst_reg (d_Rt d) inst;
         inst \<leftarrow> opt_reg add_src_reg (d_Rn d) inst;
         ofold add_dst_reg regs inst }
       else if i_type inst = MemWrite \<or> i_type inst = Push then do {
         inst \<leftarrow> opt_reg add_src_reg (d_Rt d) inst;
         inst \<leftarrow> opt_reg add_src_reg (d_Rn d) inst;
         ofold add_src_reg regs inst }
       else do {
         inst \<leftarrow> opt_reg add_dst_reg (d_Rd d) inst;
         inst \<leftarrow> opt_reg add_src_reg (d_Rm d) inst;
         inst \<leftarrow> opt_reg add_src_reg (d_Rn d) inst;
         ofold add_src_reg regs inst });
     inst \<leftarrow> (if i_is_cond_inst inst then add_src_reg 17 inst else Some inst);
     if i_update_cond_flag inst then add_dst_reg 17 inst else Some inst }"

definition set_inst_bpred_mispred :: "bool \<Rightarrow> Inst \<Rightarrow> Inst" where
  "set_inst_bpred_mispred mispred inst = inst\<lparr>i_bpred_mispred := mispred\<rparr>"

definition set_inst_eff_addr :: "u32 \<Rightarrow> CacheMissType \<Rightarrow> Inst \<Rightarrow> Inst option" where
  "set_inst_eff_addr a cache_miss inst = do {
     es \<leftarrow> aset (i_eff_addr inst) (i_num_eff_addr inst) a;
     Some (inst\<lparr>i_eff_addr := es, i_num_eff_addr := i_num_eff_addr inst + 1,
       i_cache_miss := if miss_rank cache_miss > miss_rank (i_cache_miss inst) then cache_miss else i_cache_miss inst\<rparr>) }"

definition inst_type_of :: "darm_instr_t \<Rightarrow> InstTypeName" where
  "inst_type_of i =
     (if i \<in> {I_AND, I_EOR, I_SUB, I_RSB, I_ADD, I_ADC, I_SBC, I_RSC, I_ORR, I_MOVW, I_BIC, I_MVN, I_MOVT, I_MOV,
        I_SSUB8, I_QSUB8, I_SHSUB8, I_USUB8, I_UQSUB8, I_UHSUB8, I_SEL, I_REV16, I_REVSH, I_SBFX, I_BFI, I_UBFX, I_CLZ}
      then IntAlu
      else if i \<in> {I_ASR, I_LSL, I_LSR, I_ROR, I_RRX} then IntAlu
      else if i \<in> {I_TST, I_TEQ, I_CMP, I_CMN} then Branch
      else if i \<in> {I_MUL, I_MLA, I_UMAAL, I_MLS, I_SMLA, I_SMLABB, I_SMLABT, I_SMLATB, I_SMLATT, I_UMULL, I_UMLAL,
        I_SMUAD, I_SMUL, I_SMULBB, I_SMULBT, I_SMULL, I_SMULTB, I_SMULTT, I_SMULW} then IntMult
      else if i \<in> {I_SDIV, I_UDIV} then IntDiv
      else if i \<in> {I_VADD, I_VADDHN, I_VADDL, I_VADDW, I_VSUB, I_VSUBHN, I_VSUBL, I_VSUBW} then SimdFloatAdd
      else if i \<in> {I_VMUL, I_VNMUL} then SimdFloatMult
      else if i \<in> {I_VMLA, I_VMLAL, I_VMLS, I_VMLSL, I_VNMLA, I_VNMLS} then SimdFloatMultAcc
      else if i \<in> {I_LDM, I_LDMDA, I_LDMDB, I_LDMIB, I_LDR, I_LDRB, I_LDRBT, I_LDRD, I_LDRH, I_LDRHT, I_LDRSB,
        I_LDRSBT, I_LDRSH, I_LDRSHT, I_LDRT, I_PLD} then MemRead
      else if i \<in> {I_STM, I_STMDA, I_STMDB, I_STMIB, I_STR, I_STRB, I_STRBT, I_STRD, I_STRH, I_STRHT, I_STRT}
      then MemWrite
      else if i = I_POP then Pop
      else if i = I_PUSH then Push
      else if i \<in> {I_B, I_BL, I_BX, I_BXJ, I_BLX} then Branch
      else if i \<in> {I_SVC, I_MCR, I_MRC} then Syscall
      else Unsupported)"

definition decode_flags :: "darm_t \<Rightarrow> Inst \<Rightarrow> Inst" where
  "decode_flags d inst =
     (let inst = inst\<lparr>i_is_cond_inst := \<not> (d_cond d = C_UNCOND \<or> d_cond d = C_INVLD \<or> d_cond d = C_AL)\<rparr>;
          inst = (if d_shift d \<noteq> 0 then inst\<lparr>i_shift_inst := True\<rparr> else inst)
      in if d_S d \<noteq> B_INVLD then inst\<lparr>i_update_cond_flag := (d_S d = B_SET)\<rparr> else inst)"

definition decode_class :: "darm_t \<Rightarrow> Inst \<Rightarrow> Inst" where
  "decode_class d inst =
     (let i = d_instr d;
          inst = inst\<lparr>i_type := inst_type_of i\<rparr>;
          inst = (if i \<in> {I_ASR, I_LSL, I_LSR, I_ROR, I_RRX} then inst\<lparr>i_shift_inst := True\<rparr> else inst);
          inst = (if i \<in> {I_TST, I_TEQ, I_CMP, I_CMN} then inst\<lparr>i_update_cond_flag := True\<rparr> else inst)
      in if i = I_POP \<or> i = I_PUSH then inst\<lparr>i_stack_inst := True\<rparr> else inst)"

definition decode_inst :: "nat \<Rightarrow> Inst \<Rightarrow> Inst option" where
  "decode_inst z inst =
     (if i_decoded inst then Some inst
      else do {
        (ret, d) \<leftarrow> darm_armv7_disasm (i_code inst);
        let inst = decode_class d (decode_flags d inst);
        inst \<leftarrow> (if i_type inst \<noteq> Unsupported then init_inst_src_dst_reg z d inst else Some inst);
        Some (inst\<lparr>i_decoded := True, i_imm := sint (d_imm d)\<rparr>) })"

section \<open>The register lists\<close>

text \<open>The two arrays that the assignments of \<open>init_inst_src_dst_reg\<close> build up, as lists.\<close>

definition opt_list :: "int \<Rightarrow> int list" where
  "opt_list r = (if r = R_INVLD then [] else [r])"

definition listed_regs :: "darm_t \<Rightarrow> int list" where
  "listed_regs d = map int (filter (bit (d_reglist d)) [0..<16])"

definition src_list :: "InstTypeName \<Rightarrow> darm_t \<Rightarrow> bool \<Rightarrow> int list" where
  "src_list t d c =
     (if t = MemRead \<or> t = Pop then opt_list (d_Rn d)
      else if t = MemWrite \<or> t = Push then opt_list (d_Rt d) @ opt_list (d_Rn d) @ listed_regs d
      else opt_list (d_Rm d) @ opt_list (d_Rn d) @ listed_regs d) @ (if c then [17] else [])"

definition dst_list :: "InstTypeName \<Rightarrow> darm_t \<Rightarrow> bool \<Rightarrow> int list" where
  "dst_list t d u =
     (if t = MemRead \<or> t = Pop then opt_list (d_Rt d) @ listed_regs d
      else if t = MemWrite \<or> t = Push then [] else opt_list (d_Rd d)) @ (if u then [17] else [])"

definition with_src :: "int list \<Rightarrow> Inst \<Rightarrow> Inst" where
  "with_src xs inst = inst\<lparr>i_src_reg := xs @ replicate (16 - length xs) (- 1), i_num_src_reg := int (length xs)\<rparr>"

definition with_dst :: "int list \<Rightarrow> Inst \<Rightarrow> Inst" where
  "with_dst xs inst = inst\<lparr>i_dst_reg := xs @ replicate (16 - length xs) (- 1), i_num_dst_reg := int (length xs)\<rparr>"

lemma with_fields [simp]:
  "i_type (with_src xs i) = i_type i" "i_type (with_dst xs i) = i_type i"
  "i_is_cond_inst (with_src xs i) = i_is_cond_inst i" "i_is_cond_inst (with_dst xs i) = i_is_cond_inst i"
  "i_update_cond_flag (with_src xs i) = i_update_cond_flag i" "i_update_cond_flag (with_dst xs i) = i_update_cond_flag i"
  by (simp_all add: with_src_def with_dst_def)

lemma with_src_dst: "with_dst ys (with_src xs i) = with_src xs (with_dst ys i)"
  by (simp add: with_src_def with_dst_def)

lemma padded_update:
  "length xs < 16 \<Longrightarrow> (xs @ replicate (16 - length xs) (- 1))[length xs := r] = (xs @ [r]) @ replicate (16 - length (xs @ [r])) (- 1 :: int)"
proof -
  assume "length xs < 16"
  then have "16 - length xs = Suc (16 - length (xs @ [r]))" by simp
  then show ?thesis unfolding \<open>16 - length xs = Suc (16 - length (xs @ [r]))\<close> by (simp only: replicate_Suc list_update_length append.assoc append.simps)
qed

lemma add_src_with: "add_src_reg r (with_src xs i) = (if length xs < 16 then Some (with_src (xs @ [r]) i) else None)"
  using padded_update [of xs r] by (simp add: add_src_reg_def with_src_def aset_def)

lemma add_dst_with: "add_dst_reg r (with_dst xs i) = (if length xs < 16 then Some (with_dst (xs @ [r]) i) else None)"
  using padded_update [of xs r] by (simp add: add_dst_reg_def with_dst_def aset_def)

lemma adds_src_with:
  "ofold add_src_reg rs (with_src xs i) =
     (if rs = [] \<or> length xs + length rs \<le> 16 then Some (with_src (xs @ rs) i) else None)"
  by (induction rs arbitrary: xs) (auto simp: add_src_with)

lemma adds_dst_with:
  "ofold add_dst_reg rs (with_src ys (with_dst xs i)) =
     (if rs = [] \<or> length xs + length rs \<le> 16 then Some (with_src ys (with_dst (xs @ rs) i)) else None)"
  unfolding with_src_dst [symmetric] by (induction rs arbitrary: xs) (auto simp: add_dst_with)

text \<open>The instruction once the lists \<open>xs\<close> and \<open>ys\<close> have been collected, if they fit.\<close>

definition regs_state :: "int list \<Rightarrow> int list \<Rightarrow> Inst \<Rightarrow> Inst option" where
  "regs_state xs ys i = (if length xs \<le> 16 \<and> length ys \<le> 16 then Some (with_src xs (with_dst ys i)) else None)"

lemma regs_state_add:
  "Option.bind (regs_state xs ys i) (ofold add_src_reg rs) = regs_state (xs @ rs) ys i"
  "Option.bind (regs_state xs ys i) (ofold add_dst_reg rs) = regs_state xs (ys @ rs) i"
  by (auto simp: regs_state_def adds_src_with adds_dst_with)

lemma opt_reg_ofold: "opt_reg add r = ofold add (opt_list r)"
  by (simp add: opt_reg_def opt_list_def fun_eq_iff)

lemma add_dst_with_src:
  "add_dst_reg r (with_src xs (with_dst ys i)) = (if length ys < 16 then Some (with_src xs (with_dst (ys @ [r]) i)) else None)"
  using add_dst_with [of r ys "with_src xs i"] by (simp add: with_src_dst)

lemma regs_state_flags:
  "Option.bind (regs_state xs ys i) (\<lambda>i. if i_is_cond_inst i then add_src_reg 17 i else Some i) =
     regs_state (xs @ (if i_is_cond_inst i then [17] else [])) ys i"
  "Option.bind (regs_state xs ys i) (\<lambda>i. if i_update_cond_flag i then add_dst_reg 17 i else Some i) =
     regs_state xs (ys @ (if i_update_cond_flag i then [17] else [])) i"
  by (simp_all add: regs_state_def add_src_with add_dst_with_src)

lemma darm_reglist2_listed:
  assumes "16 < z \<or> d_reglist d = 0"
  shows "\<exists>k rs. darm_reglist2 z (d_reglist d) = Some (k, rs) \<and> map int (take (nat k) rs) = listed_regs d"
proof (cases "d_reglist d = 0")
  case True
  then show ?thesis by (simp add: darm_reglist2_def listed_regs_def)
next
  case False
  have "darm_reglist2 z (d_reglist d) = Some (int (length (set_bits_of (d_reglist d))), set_bits_of (d_reglist d))"
    using reglist_loop_spec [OF False, of z "[]"] spurious_large [of z "d_reglist d"] assms set_bits_of_length [of "d_reglist d"] False
    by (simp add: darm_reglist2_def)
  then show ?thesis by (simp add: listed_regs_def set_bits_of_def)
qed

lemma init_inst_src_dst_reg_lists:
  fixes d :: darm_t
  assumes "16 < z \<or> d_reglist d = 0" "i_num_src_reg inst = 0" "i_num_dst_reg inst = 0"
  defines "reads \<equiv> src_list (i_type inst) d (i_is_cond_inst inst)"
    and "writes \<equiv> dst_list (i_type inst) d (i_update_cond_flag inst)"
  shows "init_inst_src_dst_reg z d inst =
    (if length reads \<le> 16 \<and> length writes \<le> 16 then Some (with_src reads (with_dst writes inst)) else None)"
proof -
  obtain k rs where k: "darm_reglist2 z (d_reglist d) = Some (k, rs)" "map int (take (nat k) rs) = listed_regs d"
    using darm_reglist2_listed [OF assms(1)] by blast
  have e: "inst\<lparr>i_src_reg := replicate 16 (- 1), i_dst_reg := replicate 16 (- 1)\<rparr> = with_src [] (with_dst [] inst)"
    using assms(2,3) by (simp add: with_src_def with_dst_def)
  have st: "f (with_src [] (with_dst [] inst)) = Option.bind (regs_state [] [] inst) f" for f :: "Inst \<Rightarrow> Inst option"
    by (simp add: regs_state_def)
  define body where "body t = (if t = MemRead \<or> t = Pop then do {
         inst \<leftarrow> ofold add_dst_reg (opt_list (d_Rt d)) (with_src [] (with_dst [] inst));
         inst \<leftarrow> ofold add_src_reg (opt_list (d_Rn d)) inst;
         ofold add_dst_reg (listed_regs d) inst }
       else if t = MemWrite \<or> t = Push then do {
         inst \<leftarrow> ofold add_src_reg (opt_list (d_Rt d)) (with_src [] (with_dst [] inst));
         inst \<leftarrow> ofold add_src_reg (opt_list (d_Rn d)) inst;
         ofold add_src_reg (listed_regs d) inst }
       else do {
         inst \<leftarrow> ofold add_dst_reg (opt_list (d_Rd d)) (with_src [] (with_dst [] inst));
         inst \<leftarrow> ofold add_src_reg (opt_list (d_Rm d)) inst;
         inst \<leftarrow> ofold add_src_reg (opt_list (d_Rn d)) inst;
         ofold add_src_reg (listed_regs d) inst })" for t
  have 1: "init_inst_src_dst_reg z d inst =
      Option.bind (Option.bind (body (i_type inst)) (\<lambda>i. if i_is_cond_inst i then add_src_reg 17 i else Some i))
        (\<lambda>i. if i_update_cond_flag i then add_dst_reg 17 i else Some i)"
    by (simp add: init_inst_src_dst_reg_def k e Let_def body_def opt_reg_ofold)
  have 2: "body t = regs_state (src_list t d False) (dst_list t d False) inst" for t
    unfolding body_def st by (simp add: regs_state_add src_list_def dst_list_def flip: bind_assoc)
  show ?thesis
    unfolding 1 2 regs_state_flags by (simp add: regs_state_def reads_def writes_def src_list_def dst_list_def)
qed

lemma decode_inst_lists:
  fixes raw :: Inst and d :: darm_t and sq pc :: u32
  assumes "darm_armv7_disasm code = Some (ret, d)" "16 < z \<or> d_reglist d = 0" "inst_type_of (d_instr d) \<noteq> Unsupported"
  defines "inst \<equiv> decode_class d (decode_flags d (init_inst raw sq pc code))"
  defines "srcs \<equiv> src_list (inst_type_of (d_instr d)) d (i_is_cond_inst inst)"
    and "dsts \<equiv> dst_list (inst_type_of (d_instr d)) d (i_update_cond_flag inst)"
  shows "decode_inst z (init_inst raw sq pc code) =
    (if length srcs \<le> 16 \<and> length dsts \<le> 16
     then Some ((with_src srcs (with_dst dsts inst))\<lparr>i_decoded := True, i_imm := sint (d_imm d)\<rparr>) else None)"
proof -
  have f: "i_type inst = inst_type_of (d_instr d)" "i_num_src_reg inst = 0" "i_num_dst_reg inst = 0"
    by (simp_all add: inst_def decode_class_def decode_flags_def init_inst_def Let_def)
  have "decode_inst z (init_inst raw sq pc code) =
    Option.bind (init_inst_src_dst_reg z d inst) (\<lambda>inst. Some (inst\<lparr>i_decoded := True, i_imm := sint (d_imm d)\<rparr>))"
    using assms(1,3) f(1) by (simp add: decode_inst_def inst_def init_inst_def Let_def)
  then show ?thesis using init_inst_src_dst_reg_lists [OF assms(2) f(2,3)] f(1) by (simp add: srcs_def dsts_def)
qed

section \<open>Data-processing instructions\<close>

text \<open>
  The registers that a data-processing instruction reads and writes according to the architecture
  manual, as a function of the fields it is encoded from. The condition flags count as register
  17: a conditional instruction reads them, and so do the additions and subtractions with carry
  and a rotation through the carry flag.
\<close>

fun operand_regs :: "operand2 \<Rightarrow> int set" where
  "operand_regs (Immediate v) = {}"
| "operand_regs (Shifted m t rm) = {uint rm}"

fun rotates_carry :: "operand2 \<Rightarrow> bool" where
  "rotates_carry (Immediate v) = False"
| "rotates_carry (Shifted m t rm) \<longleftrightarrow> m = 0 \<and> t = 3"

definition data_reads :: "4 word \<Rightarrow> 4 word \<Rightarrow> 4 word \<Rightarrow> operand2 \<Rightarrow> int set" where
  "data_reads c opc rn x = (if moves opc then {} else {uint rn}) \<union> operand_regs x \<union>
     (if c \<noteq> 14 \<or> opc \<in> {5, 6, 7} \<or> rotates_carry x then {17} else {})"

definition data_writes :: "4 word \<Rightarrow> bool \<Rightarrow> 4 word \<Rightarrow> int set" where
  "data_writes opc s rd = (if compares opc then {} else {uint rd}) \<union> (if s then {17} else {})"

definition src_regs :: "Inst \<Rightarrow> int set" where
  "src_regs inst = set (take (nat (i_num_src_reg inst)) (i_src_reg inst))"

definition dst_regs :: "Inst \<Rightarrow> int set" where
  "dst_regs inst = set (take (nat (i_num_dst_reg inst)) (i_dst_reg inst))"

lemma regs_with:
  "src_regs (with_src xs (with_dst ys inst)\<lparr>i_decoded := b, i_imm := v\<rparr>) = set xs"
  "dst_regs (with_src xs (with_dst ys inst)\<lparr>i_decoded := b, i_imm := v\<rparr>) = set ys"
  by (simp_all add: src_regs_def dst_regs_def with_src_def with_dst_def)

lemma data_label_class:
  "inst_type_of (data_label opc x) = (if compares opc then Branch else IntAlu)"
  "data_label opc x \<in> {I_TST, I_TEQ, I_CMP, I_CMN} \<longleftrightarrow> compares opc"
proof -
  have "list_all (\<lambda>k. inst_type_of (data_names ! k) = (if 8 \<le> k \<and> k < 12 then Branch else IntAlu) \<and>
      (data_names ! k \<in> {I_TST, I_TEQ, I_CMP, I_CMN} \<longleftrightarrow> 8 \<le> k \<and> k < 12)) [0..<16]" by code_simp
  from below_16 [OF this opcode_nat(5), of opc]
  have n: "inst_type_of (data_names ! unat opc) = (if compares opc then Branch else IntAlu)"
    "data_names ! unat opc \<in> {I_TST, I_TEQ, I_CMP, I_CMN} \<longleftrightarrow> compares opc" by (simp_all add: opcode_nat(1))
  have "list_all (\<lambda>k. inst_type_of (shift_names ! k) = IntAlu \<and> shift_names ! k \<notin> {I_TST, I_TEQ, I_CMP, I_CMN}) [0..<4]"
    by code_simp
  then have h: "inst_type_of (shift_names ! unat t) = IntAlu \<and> shift_names ! unat t \<notin> {I_TST, I_TEQ, I_CMP, I_CMN}" for t :: "2 word"
    using shift_lookup(5) by (rule below_4)
  have m: "inst_type_of I_MOV = IntAlu" "inst_type_of I_RRX = IntAlu" "\<not> compares 13" by (simp_all add: inst_type_of_def compares_def)
  show "inst_type_of (data_label opc x) = (if compares opc then Branch else IntAlu)"
    using n(1) h m by (cases x) auto
  show "data_label opc x \<in> {I_TST, I_TEQ, I_CMP, I_CMN} \<longleftrightarrow> compares opc"
    using n(2) h m by (cases x) auto
qed

text \<open>
  C15: Decoding a data-processing instruction records the registers that the architecture defines.
  Take any of the sixteen operations with a condition other than 15, a destination, a first
  operand, and an immediate or a register shifted by a constant as second operand; a comparison
  has its \<open>S\<close> bit set, and the form that is \<open>ADR\<close> is excluded. Whatever \<open>__builtin_ctz(0)\<close> returns,
  decoding succeeds and classifies the instruction as \<open>Branch\<close> (a comparison) or \<open>IntAlu\<close>. The
  destinations recorded are exactly those of the architecture, and so are the sources, except
  that an instruction without a condition is never recorded to read the flags, even when it
  reads the carry flag.
\<close>

theorem decode_inst_data_registers:
  assumes "c \<noteq> 15" "compares opc \<longrightarrow> s" "\<not> is_adr opc s rn x"
  shows "\<exists>inst. decode_inst z (init_inst raw sq pc (encode_data c opc s rn rd x)) = Some inst \<and> i_decoded inst \<and>
    i_type inst = (if compares opc then Branch else IntAlu) \<and>
    dst_regs inst = data_writes opc s rd \<and>
    src_regs inst = data_reads c opc rn x - (if c = 14 then {17} else {})"
proof -
  let ?code = "encode_data c opc s rn rd x"
  obtain d where d: "darm_armv7_disasm ?code = Some (0, d)" "data_fields c opc s rn rd x d" using data_decoded [OF assms] by blast
  define inst where "inst = decode_class d (decode_flags d (init_inst raw sq pc ?code))"
  have f: "d_instr d = data_label opc x" "d_cond d = uint c" "d_Rd d = (if compares opc then - 1 else uint rd)"
    "d_Rn d = (if moves opc then - 1 else uint rn)" "d_Rm d = (case x of Immediate v \<Rightarrow> - 1 | Shifted m t rm \<Rightarrow> uint rm)"
    "d_S d = (if compares opc then 2 else of_cbool s)" "d_reglist d = 0"
    using d(2) by (auto simp: data_fields_def)
  have t: "inst_type_of (d_instr d) = (if compares opc then Branch else IntAlu)" by (simp add: f data_label_class)
  have u: "uint v \<noteq> - 1" "uint v \<noteq> 17" for v :: "4 word" using uint_ge_0 [of v] uint_bounded [of v, simplified] by linarith+
  have c: "uint c = 15 \<longleftrightarrow> c = 15" "uint c = 14 \<longleftrightarrow> c = 14" by (simp_all add: word_uint_eq_iff)
  have i: "i_is_cond_inst inst \<longleftrightarrow> c \<noteq> 14" "i_type inst = inst_type_of (d_instr d)" using assms(1)
    by (simp_all add: inst_def decode_class_def decode_flags_def init_inst_def Let_def f(2) c u)
  have s: "i_update_cond_flag inst = s" using assms(2) data_label_class(2) [of opc x]
    by (auto simp: inst_def decode_class_def decode_flags_def init_inst_def Let_def f(1,6) of_cbool_def)
  define srcs dsts where "srcs = opt_list (d_Rm d) @ opt_list (d_Rn d) @ (if c \<noteq> 14 then [17] else [])"
    and "dsts = opt_list (d_Rd d) @ (if s then [17] else [])"
  have "src_list (inst_type_of (d_instr d)) d (i_is_cond_inst inst) = srcs" "dst_list (inst_type_of (d_instr d)) d (i_update_cond_flag inst) = dsts"
    by (simp_all add: t i(1) s src_list_def dst_list_def listed_regs_def f(7) srcs_def dsts_def)
  moreover have "length srcs \<le> 16" "length dsts \<le> 16" by (simp_all add: srcs_def dsts_def opt_list_def)
  ultimately have e: "decode_inst z (init_inst raw sq pc ?code) =
      Some ((with_src srcs (with_dst dsts inst))\<lparr>i_decoded := True, i_imm := sint (d_imm d)\<rparr>)"
    using decode_inst_lists [OF d(1), of z raw sq pc] f(7) t by (simp add: inst_def)
  have "set (opt_list (d_Rm d)) = operand_regs x" using u(1) by (cases x) (simp_all add: f(5) opt_list_def)
  moreover have "17 \<notin> operand_regs x" using u(2) by (cases x) auto
  ultimately have "set srcs = data_reads c opc rn x - (if c = 14 then {17} else {})" "set dsts = data_writes opc s rd"
    using u by (auto simp: srcs_def dsts_def data_reads_def data_writes_def f(3,4) opt_list_def)
  then show ?thesis using e t i(2) by (simp add: regs_with)
qed

definition demo_inst :: Inst where
  "demo_inst = \<lparr>i_seq = 7, i_pc = 7, i_code = 7, i_state = Retire, i_type = Syscall, i_remaining_latency = 7,
     i_stack_inst = True, i_is_cond_inst = True, i_update_cond_flag = True, i_shift_inst = True, i_mshr = True, i_imm = 7,
     i_num_src_reg = 7, i_num_dst_reg = 7, i_num_eff_addr = 7, i_src_reg = replicate 16 7, i_dst_reg = replicate 16 7,
     i_eff_addr = replicate 16 7, i_inst_cache_miss = L1Hit, i_cache_miss = L2Miss, i_bpred_mispred = True,
     i_dispatched_cycle = 7, i_issued_cycle = 7, i_completed_cycle = 7, i_committed_cycle = 7,
     i_iq_elem = Some 7, i_ldq_elem = Some 7, i_stq_elem = Some 7, i_decoded = True, i_rob_idx = 7, i_str = None\<rparr>"

definition add_code :: u32 where
  "add_code = 0x10821003"

theorem decode_inst_data_registers_witness:
  "\<exists>inst. decode_inst 5 (init_inst demo_inst 1 0x8000 (encode_data 1 5 True 2 4 (Shifted 3 0 7))) = Some inst \<and>
    dst_regs inst = {4, 17} \<and> src_regs inst = {2, 7, 17}"
proof -
  have "data_writes 5 True 4 = {4, 17}" "data_reads 1 5 2 (Shifted 3 0 7) = {2, 7, 17}"
    by (auto simp: data_writes_def data_reads_def compares_def moves_def)
  then show ?thesis
    using decode_inst_data_registers [of 1 5 True 2 "Shifted 3 0 7" 5 demo_inst 1 "0x8000" 4]
    by (auto simp: compares_def is_adr_def)
qed



end
