(* ===== verification/Fu.thy ===== *)
theory Fu
  imports TQ_Prelude
begin

text \<open>
  Functional units (\<open>trace_analyzer/fu.c\<close>, \<open>fu.h\<close>): counters that limit how many instructions a
  unit accepts in one cycle (\<open>capacity\<close>) and how many are in it (\<open>num_stage\<close>). The quotient
  \<open>get_available_rate_FU\<close> is only printed and is not modelled.
\<close>

datatype FUType = SimpleALU | ComplexALU | FPUnit | LoadUnit | StoreUnit | BranchUnit | EtcUnit

record FU =
  fu_type :: FUType
  fu_capacity :: int
  fu_num_issue :: int
  fu_num_active :: int
  fu_num_stage :: int
  fu_num_access :: int
  fu_num_available :: int
  fu_num_use :: int

definition infinite_mode :: bool where
  "infinite_mode = False"

definition init_FU :: "FUType \<Rightarrow> int \<Rightarrow> int \<Rightarrow> FU" where
  "init_FU type capacity num_stage = \<lparr>fu_type = type, fu_capacity = capacity, fu_num_issue = 0, fu_num_active = 0,
     fu_num_stage = num_stage, fu_num_access = 0, fu_num_available = 0, fu_num_use = 0\<rparr>"

definition release_FU :: "FU \<Rightarrow> FU" where
  "release_FU fu = fu\<lparr>fu_num_active := fu_num_active fu - 1\<rparr>"

definition reset_FU :: "FU \<Rightarrow> FU" where
  "reset_FU fu = fu\<lparr>fu_num_active := 0, fu_num_issue := 0, fu_num_access := 0, fu_num_available := 0, fu_num_use := 0\<rparr>"

definition reflesh_FU :: "FU \<Rightarrow> FU" where
  "reflesh_FU fu = fu\<lparr>fu_num_issue := 0\<rparr>"

definition try_FU :: "FU \<Rightarrow> bool \<times> FU" where
  "try_FU fu =
     (let fu = fu\<lparr>fu_num_access := fu_num_access fu + 1\<rparr>
      in if infinite_mode \<or> (fu_num_issue fu < fu_capacity fu \<and> fu_num_active fu < fu_num_stage fu)
         then (True, fu\<lparr>fu_num_issue := fu_num_issue fu + 1, fu_num_active := fu_num_active fu + 1,
           fu_num_available := fu_num_available fu + 1, fu_num_use := fu_num_use fu + 1\<rparr>)
         else (False, fu))"

section \<open>A unit is never oversubscribed\<close>

text \<open>What the pipeline does with a unit: try to issue, release at completion, start the next cycle.\<close>

datatype fu_event = Try_Issue | Release | Next_Cycle

text \<open>The number of instructions accepted in the current cycle and in total, counted from the results.\<close>

fun accepted_now :: "fu_event list \<Rightarrow> FU \<Rightarrow> int \<Rightarrow> int" where
  "accepted_now [] fu n = n"
| "accepted_now (Try_Issue # es) fu n = accepted_now es (snd (try_FU fu)) (if fst (try_FU fu) then n + 1 else n)"
| "accepted_now (Release # es) fu n = accepted_now es (release_FU fu) n"
| "accepted_now (Next_Cycle # es) fu n = accepted_now es (reflesh_FU fu) 0"

fun in_flight :: "fu_event list \<Rightarrow> FU \<Rightarrow> int \<Rightarrow> int" where
  "in_flight [] fu n = n"
| "in_flight (Try_Issue # es) fu n = in_flight es (snd (try_FU fu)) (if fst (try_FU fu) then n + 1 else n)"
| "in_flight (Release # es) fu n = in_flight es (release_FU fu) (n - 1)"
| "in_flight (Next_Cycle # es) fu n = in_flight es (reflesh_FU fu) n"

lemma try_FU_cases:
  "try_FU fu = (True, fu') \<Longrightarrow> fu_num_issue fu' = fu_num_issue fu + 1 \<and> fu_num_issue fu' \<le> fu_capacity fu \<and>
     fu_num_active fu' = fu_num_active fu + 1 \<and> fu_num_active fu' \<le> fu_num_stage fu \<and>
     fu_capacity fu' = fu_capacity fu \<and> fu_num_stage fu' = fu_num_stage fu"
  "try_FU fu = (False, fu') \<Longrightarrow> fu_num_issue fu' = fu_num_issue fu \<and> fu_num_active fu' = fu_num_active fu \<and>
     fu_capacity fu' = fu_capacity fu \<and> fu_num_stage fu' = fu_num_stage fu \<and>
     (fu_capacity fu \<le> fu_num_issue fu \<or> fu_num_stage fu \<le> fu_num_active fu)"
  by (auto simp: try_FU_def Let_def infinite_mode_def split: if_splits)

lemma accepted_now_bound:
  "n = fu_num_issue fu \<Longrightarrow> n \<le> fu_capacity fu \<Longrightarrow> 0 \<le> fu_capacity fu \<Longrightarrow> accepted_now es fu n \<le> fu_capacity fu"
proof (induction es fu n rule: accepted_now.induct)
  case (2 es fu n)
  obtain b fu' where t: "try_FU fu = (b, fu')" by fastforce
  then show ?case using 2 try_FU_cases [of fu fu'] by (cases b) auto
qed (auto simp: release_FU_def reflesh_FU_def)

lemma in_flight_bound:
  "n = fu_num_active fu \<Longrightarrow> n \<le> fu_num_stage fu \<Longrightarrow> in_flight es fu n \<le> fu_num_stage fu"
proof (induction es fu n rule: in_flight.induct)
  case (2 es fu n)
  obtain b fu' where t: "try_FU fu = (b, fu')" by fastforce
  then show ?case using 2 try_FU_cases [of fu fu'] by (cases b) auto
qed (auto simp: release_FU_def reflesh_FU_def)

text \<open>
  C18: From its initialisation on, in any sequence of issue attempts, completions and cycle
  boundaries, a functional unit accepts at most \<open>capacity\<close> instructions in one cycle, and at most
  \<open>num_stage\<close> instructions are in it, counting acceptances minus completions.
\<close>

theorem fu_never_oversubscribed:
  assumes "0 \<le> capacity" "0 \<le> num_stage"
  shows "accepted_now es (init_FU type capacity num_stage) 0 \<le> capacity \<and>
    in_flight es (init_FU type capacity num_stage) 0 \<le> num_stage"
  using accepted_now_bound [of 0 "init_FU type capacity num_stage" es] in_flight_bound [of 0 "init_FU type capacity num_stage" es] assms
  by (simp add: init_FU_def)

theorem fu_never_oversubscribed_witness:
  "accepted_now [Try_Issue, Try_Issue, Try_Issue] (init_FU FPUnit 2 10) 0 \<le> 2 \<and>
   in_flight [Try_Issue, Try_Issue, Try_Issue] (init_FU FPUnit 2 10) 0 \<le> 10"
  by (rule fu_never_oversubscribed) simp_all

end
