(* ===== verification/Rob.thy ===== *)
theory Rob
  imports Ring Linked_List Inst
begin

text \<open>
  The reorder buffer (\<open>trace_analyzer/rob.c\<close>, \<open>rob.h\<close>): a ring of instruction pointers in an array
  of 60 entries, with a capacity from the configuration. Each instruction records its slot in
  \<open>rob_idx\<close>. Instructions live in a heap.
\<close>

section \<open>State and operations\<close>

record ROB =
  rob_entries :: "ptr list"
  start_idx :: int
  end_idx :: int
  rob_size :: int
  rob_capacity :: int

definition rob_init :: "int \<Rightarrow> ROB \<Rightarrow> ROB" where
  "rob_init sz rob = rob\<lparr>start_idx := 0, end_idx := 0, rob_size := 0, rob_capacity := sz\<rparr>"

text \<open>C's \<open>%\<close>: the result has the sign of the dividend; a division by zero is undefined.\<close>

definition crem :: "int \<Rightarrow> int \<Rightarrow> int option" where
  "crem a b = (if b = 0 then None else Some (sgn a * (\<bar>a\<bar> mod \<bar>b\<bar>)))"

lemma crem_pos: "0 \<le> a \<Longrightarrow> 0 < b \<Longrightarrow> crem a b = Some (a mod b)"
  by (cases "a = 0") (simp_all add: crem_def)

definition ring_next :: "int \<Rightarrow> int \<Rightarrow> int option" where
  "ring_next i capacity = crem (i + 1) capacity"

definition rob_insert_inst :: "ptr \<Rightarrow> ROB \<Rightarrow> (addr \<rightharpoonup> Inst) \<Rightarrow> (ROB \<times> (addr \<rightharpoonup> Inst)) option" where
  "rob_insert_inst inst rob h = do {
     es \<leftarrow> aset (rob_entries rob) (end_idx rob) inst;
     h \<leftarrow> store h inst (\<lambda>i. i\<lparr>i_rob_idx := end_idx rob\<rparr>);
     e \<leftarrow> ring_next (end_idx rob) (rob_capacity rob);
     Some (rob\<lparr>rob_entries := es, end_idx := e, rob_size := rob_size rob + 1\<rparr>, h) }"

definition rob_remove_inst :: "ROB \<Rightarrow> ROB option" where
  "rob_remove_inst rob = do {
     s \<leftarrow> ring_next (start_idx rob) (rob_capacity rob);
     Some (rob\<lparr>start_idx := s, rob_size := rob_size rob - 1\<rparr>) }"

definition rob_get_inst :: "int \<Rightarrow> ROB \<Rightarrow> ptr option" where
  "rob_get_inst idx rob = aget (rob_entries rob) idx"

definition rob_get_oldest_inst :: "ROB \<Rightarrow> ptr option" where
  "rob_get_oldest_inst rob = aget (rob_entries rob) (start_idx rob)"

definition is_rob_full :: "ROB \<Rightarrow> bool" where
  "is_rob_full rob \<longleftrightarrow> rob_size rob = rob_capacity rob"

definition is_rob_empty :: "ROB \<Rightarrow> bool" where
  "is_rob_empty rob \<longleftrightarrow> rob_size rob = 0"

section \<open>The buffer as a queue\<close>

text \<open>
  \<open>rob_holds N s xs rob\<close>: the buffer of capacity \<open>N\<close> holds the instructions \<open>xs\<close>, oldest first,
  from slot \<open>s\<close> on.
\<close>

definition rob_holds :: "nat \<Rightarrow> nat \<Rightarrow> addr list \<Rightarrow> ROB \<Rightarrow> bool" where
  "rob_holds N s xs rob \<longleftrightarrow>
     0 < N \<and> N \<le> length (rob_entries rob) \<and> s < N \<and> length xs \<le> N \<and>
     rob_capacity rob = int N \<and> start_idx rob = int s \<and> rob_size rob = int (length xs) \<and>
     end_idx rob = int ((s + length xs) mod N) \<and>
     ring_list N s (length xs) (rob_entries rob) = map Some xs"

text \<open>The slot of the \<open>i\<close>-th oldest instruction.\<close>

definition slot :: "nat \<Rightarrow> nat \<Rightarrow> nat \<Rightarrow> nat" where
  "slot N s i = (s + i) mod N"

lemma slot_less: "0 < N \<Longrightarrow> slot N s i < N"
  by (simp add: slot_def)

lemma slot_0: "s < N \<Longrightarrow> slot N s 0 = s"
  by (simp add: slot_def)

lemma slot_inj: "i < N \<Longrightarrow> j < N \<Longrightarrow> slot N s i = slot N s j \<Longrightarrow> i = j"
  using ring_slot_inj [of i N j s] by (simp add: slot_def)

lemma rob_holds_nth:
  "rob_holds N s xs rob \<Longrightarrow> i < length xs \<Longrightarrow> rob_get_inst (int (slot N s i)) rob = Some (Some (xs ! i))"
proof -
  assume r: "rob_holds N s xs rob" and i: "i < length xs"
  then have "rob_entries rob ! slot N s i = map Some xs ! i"
    by (metis ring_list_nth rob_holds_def slot_def)
  moreover have "slot N s i < length (rob_entries rob)"
    using slot_less [of N s i] r by (auto simp: rob_holds_def)
  ultimately show ?thesis using i by (simp add: rob_get_inst_def)
qed

lemma rob_init_holds:
  "0 < N \<Longrightarrow> N \<le> length (rob_entries rob) \<Longrightarrow> rob_holds N 0 [] (rob_init (int N) rob)"
  by (simp add: rob_holds_def rob_init_def)

lemma rob_insert_holds:
  assumes r: "rob_holds N s xs rob" and "length xs < N" and a: "h a = Some i"
  shows "\<exists>rob'. rob_insert_inst (Some a) rob h = Some (rob', h(a \<mapsto> i\<lparr>i_rob_idx := int (slot N s (length xs))\<rparr>)) \<and>
    rob_holds N s (xs @ [a]) rob'"
proof -
  have e: "end_idx rob = int (slot N s (length xs))" and n: "0 < N" "N \<le> length (rob_entries rob)"
    using r by (auto simp: rob_holds_def slot_def)
  have l: "slot N s (length xs) < length (rob_entries rob)" using slot_less [OF n(1)] n(2) by (rule order_less_le_trans)
  let ?es = "(rob_entries rob)[slot N s (length xs) := Some a]"
  let ?rob = "rob\<lparr>rob_entries := ?es, end_idx := (end_idx rob + 1) mod int N, rob_size := rob_size rob + 1\<rparr>"
  have "rob_insert_inst (Some a) rob h = Some (?rob, h(a \<mapsto> i\<lparr>i_rob_idx := int (slot N s (length xs))\<rparr>))"
    using r a l e n by (simp add: rob_insert_inst_def store_Some ring_next_def crem_pos rob_holds_def)
  moreover have "ring_list N s (Suc (length xs)) ?es = ring_list N s (length xs) (rob_entries rob) @ [Some a]"
    using ring_list_write [of "length xs" N "rob_entries rob" s "Some a"] assms(2) r by (simp add: slot_def rob_holds_def)
  then have "rob_holds N s (xs @ [a]) ?rob"
    using r assms(2) e by (simp add: rob_holds_def slot_def zmod_int mod_simps add.commute)
  ultimately show ?thesis by blast
qed

lemma rob_remove_holds:
  assumes r: "rob_holds N s (x # xs) rob"
  shows "\<exists>rob'. rob_remove_inst rob = Some rob' \<and> rob_holds N (slot N s 1) xs rob' \<and> rob_entries rob' = rob_entries rob"
proof -
  have n: "0 < N" using r by (simp add: rob_holds_def)
  let ?rob = "rob\<lparr>start_idx := (start_idx rob + 1) mod int N, rob_size := rob_size rob - 1\<rparr>"
  have "rob_remove_inst rob = Some ?rob" using r n by (simp add: rob_remove_inst_def ring_next_def crem_pos rob_holds_def)
  moreover have "ring_list N (slot N s 1) (length xs) (rob_entries rob) = map Some xs"
    using ring_list_read [of N s "length xs" "rob_entries rob"] r by (simp add: rob_holds_def slot_def)
  then have "rob_holds N (slot N s 1) xs ?rob"
    using r n by (simp add: rob_holds_def slot_def zmod_int mod_simps add.commute)
  ultimately show ?thesis by simp
qed

lemma rob_oldest:
  "rob_holds N s (x # xs) rob \<Longrightarrow> rob_get_oldest_inst rob = Some (Some x)"
  using rob_holds_nth [of N s "x # xs" rob 0]
  by (simp add: rob_get_oldest_inst_def rob_get_inst_def rob_holds_def slot_0)

lemma rob_full_iff: "rob_holds N s xs rob \<Longrightarrow> is_rob_full rob \<longleftrightarrow> length xs = N"
  by (auto simp: is_rob_full_def rob_holds_def)

lemma rob_empty_iff: "rob_holds N s xs rob \<Longrightarrow> is_rob_empty rob \<longleftrightarrow> xs = []"
  by (auto simp: is_rob_empty_def rob_holds_def)

section \<open>First in, first out\<close>

text \<open>The buffer together with the heap its instructions live in.\<close>

type_synonym rob_state = "ROB \<times> (addr \<rightharpoonup> Inst)"

definition rob_inv :: "nat \<Rightarrow> rob_state \<Rightarrow> bool" where
  "rob_inv N q \<longleftrightarrow> (\<exists>s xs. rob_holds N s xs (fst q))"

definition rob_list :: "rob_state \<Rightarrow> addr list" where
  "rob_list q = map the (ring_list (nat (rob_capacity (fst q))) (nat (start_idx (fst q))) (nat (rob_size (fst q))) (rob_entries (fst q)))"

definition rob_put :: "addr \<Rightarrow> rob_state \<Rightarrow> rob_state option" where
  "rob_put a q = rob_insert_inst (Some a) (fst q) (snd q)"

definition rob_take :: "rob_state \<Rightarrow> (addr \<times> rob_state) option" where
  "rob_take q = do {
     p \<leftarrow> rob_get_oldest_inst (fst q);
     a \<leftarrow> p;
     rob \<leftarrow> rob_remove_inst (fst q);
     Some (a, rob, snd q) }"

lemma rob_list_holds: "rob_holds N s xs (fst q) \<Longrightarrow> rob_list q = xs"
  by (simp add: rob_list_def rob_holds_def comp_def)

interpretation robq: bounded_queue "rob_inv N" rob_list N "\<lambda>q. is_rob_full (fst q)" "\<lambda>q. is_rob_empty (fst q)"
  rob_put rob_take "\<lambda>a q. a \<in> dom (snd q)" for N
proof unfold_locales
  fix q :: rob_state and v :: addr
  assume "rob_inv N q"
  then obtain s xs where r: "rob_holds N s xs (fst q)" by (auto simp: rob_inv_def)
  have l: "rob_list q = xs" by (rule rob_list_holds [OF r])
  show "length (rob_list q) \<le> N" using r l by (simp add: rob_holds_def)
  show "is_rob_full (fst q) \<longleftrightarrow> length (rob_list q) = N" using rob_full_iff [OF r] l by simp
  show "is_rob_empty (fst q) \<longleftrightarrow> rob_list q = []" using rob_empty_iff [OF r] l by simp
  show "\<exists>q'. rob_put v q = Some q' \<and> rob_inv N q' \<and> rob_list q' = rob_list q @ [v] \<and>
      (\<forall>u. u \<in> dom (snd q) \<longrightarrow> u \<in> dom (snd q'))" if v: "v \<in> dom (snd q)" and len: "length (rob_list q) < N"
  proof -
    obtain i where i: "snd q v = Some i" using v by blast
    obtain rob' where r': "rob_insert_inst (Some v) (fst q) (snd q) =
        Some (rob', (snd q)(v \<mapsto> i\<lparr>i_rob_idx := int (slot N s (length xs))\<rparr>))" "rob_holds N s (xs @ [v]) rob'"
      using rob_insert_holds [OF r, of "snd q" v i] len l i by auto
    then show ?thesis
      using rob_list_holds [of N s "xs @ [v]" "(rob', (snd q)(v \<mapsto> i\<lparr>i_rob_idx := int (slot N s (length xs))\<rparr>))"] l
      by (auto simp: rob_put_def rob_inv_def)
  qed
  show "\<exists>q'. rob_take q = Some (hd (rob_list q), q') \<and> rob_inv N q' \<and> rob_list q' = tl (rob_list q) \<and>
      (\<forall>u. u \<in> dom (snd q) \<longrightarrow> u \<in> dom (snd q'))" if ne: "rob_list q \<noteq> []"
  proof -
    obtain y ys where xs: "xs = y # ys" using ne l by (cases xs) auto
    obtain rob' where r': "rob_remove_inst (fst q) = Some rob'" "rob_holds N (slot N s 1) ys rob'"
      using rob_remove_holds r xs by blast
    then show ?thesis
      using rob_oldest [of N s y ys "fst q"] r xs l rob_list_holds [of N "slot N s 1" ys "(rob', snd q)"]
      by (auto simp: rob_take_def rob_inv_def)
  qed
qed

text \<open>
  C19: With a capacity of 1 to 60 the reorder buffer is first in, first out: after \<open>rob_init\<close>, in
  every sequence of insertions and removals guarded as in the pipeline, no access leaves the array,
  instructions leave in the order they entered, and those that have not left are in the buffer.
\<close>

theorem rob_fifo:
  assumes "0 < N" "N \<le> 60" "length (rob_entries rob) = 60" "set (put_values ops) \<subseteq> dom h"
  shows "\<exists>ws rs q. qrun (\<lambda>q. is_rob_full (fst q)) (\<lambda>q. is_rob_empty (fst q)) rob_put rob_take ops (rob_init (int N) rob, h) = Some (ws, rs, q) \<and>
    ws = rs @ rob_list q \<and> length (rob_list q) \<le> N"
proof -
  have r: "rob_holds N 0 [] (rob_init (int N) rob)" using assms by (intro rob_init_holds) simp_all
  then have i: "rob_inv N (rob_init (int N) rob, h)" by (auto simp: rob_inv_def)
  have l: "rob_list (rob_init (int N) rob, h) = []" using rob_list_holds [of N 0 "[]" "(rob_init (int N) rob, h)"] r by simp
  have v: "\<forall>a\<in>set (put_values ops). a \<in> dom (snd (rob_init (int N) rob, h))" using assms(4) by (simp add: subset_eq)
  obtain ws rs q where q: "qrun (\<lambda>q. is_rob_full (fst q)) (\<lambda>q. is_rob_empty (fst q)) rob_put rob_take ops (rob_init (int N) rob, h) = Some (ws, rs, q)"
    "rob_inv N q" "rob_list (rob_init (int N) rob, h) @ ws = rs @ rob_list q"
    using robq.fifo_history [OF i v] by blast
  then show ?thesis using robq.bound [OF q(2)] l by auto
qed

definition demo_rob :: ROB where
  "demo_rob = \<lparr>rob_entries = replicate 60 None, start_idx = 9, end_idx = 9, rob_size = 9, rob_capacity = 9\<rparr>"

theorem rob_fifo_witness:
  "\<exists>ws rs q. qrun (\<lambda>q. is_rob_full (fst q)) (\<lambda>q. is_rob_empty (fst q)) rob_put rob_take [QPut 4, QPut 5, QGet, QPut 6]
      (rob_init (int 2) demo_rob, [4 \<mapsto> demo_inst, 5 \<mapsto> demo_inst, 6 \<mapsto> demo_inst]) = Some (ws, rs, q) \<and>
    ws = rs @ rob_list q \<and> length (rob_list q) \<le> 2"
  by (rule rob_fifo) (simp_all add: demo_rob_def)

lemma rob_fill:
  assumes "60 < N" "length (rob_entries rob) = 60" "length as \<le> 60" "set as \<subseteq> dom h"
  shows "\<exists>rob' h'. ofold rob_put as (rob_init N rob, h) = Some (rob', h') \<and> end_idx rob' = int (length as) \<and>
    rob_capacity rob' = N \<and> length (rob_entries rob') = 60 \<and> dom h' = dom h"
  using assms(3,4)
proof (induction as rule: rev_induct)
  case Nil
  then show ?case using assms(2) by (simp add: rob_init_def)
next
  case (snoc a as)
  then obtain rob' h' where r: "ofold rob_put as (rob_init N rob, h) = Some (rob', h')" "end_idx rob' = int (length as)"
    "rob_capacity rob' = N" "length (rob_entries rob') = 60" "dom h' = dom h" by auto
  obtain i where i: "h' a = Some i" using snoc.prems(2) r(5) by auto
  have "rob_put a (rob', h') = Some (rob'\<lparr>rob_entries := (rob_entries rob')[length as := Some a],
      end_idx := int (Suc (length as)), rob_size := rob_size rob' + 1\<rparr>, h'(a \<mapsto> i\<lparr>i_rob_idx := int (length as)\<rparr>))"
    using r snoc.prems(1) assms(1) i by (simp add: rob_put_def rob_insert_inst_def store_Some ring_next_def crem_pos)
  then show ?case using r i by (auto simp: ofold_append)
qed

text \<open>
  C36: A configured capacity above 60 is not refused, and then the array overflows: from
  \<open>rob_init\<close>, inserting sixty-one instructions before the first is removed writes behind the array.
\<close>

theorem rob_overflows_above_60:
  assumes "60 < N" "length (rob_entries rob) = 60" "length as = 61" "set as \<subseteq> dom h"
  shows "ofold rob_put as (rob_init N rob, h) = None"
proof -
  obtain bs a where as: "as = bs @ [a]" "length bs = 60" using assms(3) by (cases as rule: rev_cases) auto
  obtain rob' h' where "ofold rob_put bs (rob_init N rob, h) = Some (rob', h')" "end_idx rob' = 60" "length (rob_entries rob') = 60"
    using rob_fill [OF assms(1,2), of bs h] assms(4) as by auto
  then show ?thesis using as(1) by (simp add: ofold_append rob_put_def rob_insert_inst_def aset_def)
qed

theorem rob_overflows_above_60_witness:
  "ofold rob_put [0..<61] (rob_init 128 demo_rob, \<lambda>a. Some demo_inst) = None"
  by (rule rob_overflows_above_60) (auto simp: demo_rob_def)

end
