(* ===== verification/Dep_Mat.thy ===== *)
theory Dep_Mat
  imports Rob
begin

text \<open>
  The dependency matrix (\<open>trace_analyzer/dep_mat.c\<close>): a 60 by 60 table of flags indexed by reorder
  buffer slots; \<open>dep_mat[b][a]\<close> says that the instruction in slot \<open>b\<close> waits for the one in slot \<open>a\<close>.
\<close>

section \<open>Operations\<close>

type_synonym dep_mat = "bool list list"

definition in_order :: "int \<Rightarrow> int \<Rightarrow> int \<Rightarrow> bool" where
  "in_order start x y =
     (if start \<le> x \<and> start \<le> y \<and> x < y then True
      else if x < start \<and> y < start \<and> x < y then True
      else if start \<le> y \<and> x < start then True
      else False)"

definition mat_get :: "int \<Rightarrow> int \<Rightarrow> dep_mat \<Rightarrow> bool option" where
  "mat_get b a mat = do { row \<leftarrow> aget mat b; aget row a }"

definition mat_set :: "int \<Rightarrow> int \<Rightarrow> dep_mat \<Rightarrow> dep_mat option" where
  "mat_set b a mat = do { row \<leftarrow> aget mat b; row \<leftarrow> aset row a True; aset mat b row }"

definition is_dependent :: "ROB \<Rightarrow> Inst \<Rightarrow> Inst \<Rightarrow> dep_mat \<Rightarrow> bool option" where
  "is_dependent rob inst_a inst_b mat =
     (let idx_a = i_rob_idx inst_a; idx_b = i_rob_idx inst_b in
      if in_order (start_idx rob) idx_a idx_b then mat_get idx_b idx_a mat else Some False)"

definition set_dependency :: "Inst \<Rightarrow> Inst \<Rightarrow> dep_mat \<Rightarrow> dep_mat option" where
  "set_dependency inst_a inst_b mat = mat_set (i_rob_idx inst_b) (i_rob_idx inst_a) mat"

text \<open>The \<open>memset\<close> clears \<open>capacity\<close> flags; it stays inside the row for a capacity of 0 to 60.\<close>

definition clean_dependency :: "ROB \<Rightarrow> Inst \<Rightarrow> dep_mat \<Rightarrow> dep_mat option" where
  "clean_dependency rob inst_b mat = do {
     row \<leftarrow> aget mat (i_rob_idx inst_b);
     if 0 \<le> rob_capacity rob \<and> rob_capacity rob \<le> int (length row)
     then aset mat (i_rob_idx inst_b) (replicate (nat (rob_capacity rob)) False @ drop (nat (rob_capacity rob)) row)
     else None }"

section \<open>Reading and writing the matrix\<close>

definition mat_dim :: "nat \<Rightarrow> dep_mat \<Rightarrow> bool" where
  "mat_dim n mat \<longleftrightarrow> length mat = n \<and> (\<forall>row\<in>set mat. length row = n)"

lemma mat_dim_row: "mat_dim n mat \<Longrightarrow> b < n \<Longrightarrow> length (mat ! b) = n"
  by (simp add: mat_dim_def)

lemma mat_dim_upd: "mat_dim n mat \<Longrightarrow> length row = n \<Longrightarrow> mat_dim n (mat[b := row])"
  using set_update_subset_insert [of mat b row] by (auto simp: mat_dim_def)

lemma mat_get_in: "mat_dim n mat \<Longrightarrow> a < n \<Longrightarrow> b < n \<Longrightarrow> mat_get (int b) (int a) mat = Some (mat ! b ! a)"
  using mat_dim_row [of n mat b] by (simp add: mat_get_def mat_dim_def)

lemma mat_set_in:
  assumes "mat_dim n mat" "a < n" "b < n"
  shows "mat_set (int b) (int a) mat = Some (mat[b := (mat ! b)[a := True]])" "mat_dim n (mat[b := (mat ! b)[a := True]])"
proof -
  show "mat_set (int b) (int a) mat = Some (mat[b := (mat ! b)[a := True]])"
    using assms mat_dim_row [of n mat b] by (simp add: mat_set_def mat_dim_def)
  show "mat_dim n (mat[b := (mat ! b)[a := True]])"
    using assms mat_dim_row [of n mat b] by (intro mat_dim_upd) simp_all
qed

lemma clean_dependency_in:
  assumes "mat_dim n mat" "b < n" "rob_capacity rob = int N" "N \<le> n" "i_rob_idx i = int b"
  shows "\<exists>mat'. clean_dependency rob i mat = Some mat' \<and> mat_dim n mat' \<and>
    (\<forall>a<N. \<not> mat' ! b ! a) \<and> (\<forall>c. c \<noteq> b \<longrightarrow> mat' ! c = mat ! c)"
proof -
  let ?row = "replicate N False @ drop N (mat ! b)"
  have "clean_dependency rob i mat = Some (mat[b := ?row])"
    using assms mat_dim_row [of n mat b] by (simp add: clean_dependency_def mat_dim_def)
  moreover have "mat_dim n (mat[b := ?row])"
    using assms mat_dim_row [of n mat b] by (intro mat_dim_upd) simp_all
  ultimately show ?thesis using assms by (simp add: mat_dim_def nth_append)
qed

section \<open>Order of slots\<close>

text \<open>
  On two instructions of the buffer, \<open>in_order\<close> is program order when the buffer does not wrap
  between them, and the reverse of it when it does.
\<close>

lemma in_order_slots:
  assumes "s < N" "i < N" "j < N" "i \<noteq> j"
  shows "in_order (int s) (int (slot N s i)) (int (slot N s j)) \<longleftrightarrow>
    (if (s + i < N) = (s + j < N) then i < j else j < i)"
proof -
  have sl: "slot N s k = (if s + k < N then s + k else s + k - N)" if "k < N" for k
    using that assms(1) by (simp add: slot_def mod_if)
  show ?thesis using assms by (auto simp: in_order_def sl)
qed

lemma is_dependent_slots:
  assumes r: "rob_holds N s xs rob" and m: "mat_dim n mat" and N: "N \<le> n" and ij: "i < j" "j < N"
    and ia: "i_rob_idx a = int (slot N s i)" and ib: "i_rob_idx b = int (slot N s j)"
  shows "is_dependent rob a b mat = Some ((s + i < N) = (s + j < N) \<and> mat ! slot N s j ! slot N s i)"
proof -
  have s: "s < N" "start_idx rob = int s" using r by (auto simp: rob_holds_def)
  have l: "slot N s k < n" for k using slot_less [of N s k] s N by simp
  show ?thesis
    using in_order_slots [of s N i j] mat_get_in [OF m l l] s ij ia ib by (auto simp: is_dependent_def Let_def)
qed

text \<open>
  C37: A dependency of a younger instruction on an older one that \<open>set_dependency\<close> records is seen by
  \<open>is_dependent\<close> exactly when the reorder buffer does not wrap around between the two: of the ages
  \<open>i < j\<close>, both have to lie before the end of the ring or both behind it. Across the wrap the
  dependency is lost.
\<close>

theorem dependency_lost_across_wrap:
  assumes "rob_holds N s xs rob" "N \<le> 60" "mat_dim 60 mat" "i < j" "j < length xs"
    "i_rob_idx a = int (slot N s i)" "i_rob_idx b = int (slot N s j)"
  shows "do { mat \<leftarrow> set_dependency a b mat; is_dependent rob a b mat } = Some ((s + i < N) = (s + j < N))"
proof -
  have N: "0 < N" "j < N" using assms by (auto simp: rob_holds_def)
  have l: "slot N s k < 60" for k using slot_less [of N s k] N assms(2) by simp
  have "set_dependency a b mat = Some (mat[slot N s j := (mat ! slot N s j)[slot N s i := True]])"
    using mat_set_in(1) [OF assms(3) l l] assms(6,7) by (simp add: set_dependency_def)
  moreover have "mat[slot N s j := (mat ! slot N s j)[slot N s i := True]] ! slot N s j ! slot N s i"
    using l assms(3) mat_dim_row [OF assms(3)] by (simp add: mat_dim_def)
  ultimately show ?thesis
    using is_dependent_slots [OF assms(1) mat_set_in(2) [OF assms(3) l l] assms(2,4) N(2) assms(6,7)] by simp
qed

theorem dependency_lost_across_wrap_witness:
  "do { mat \<leftarrow> set_dependency (demo_inst\<lparr>i_rob_idx := 3\<rparr>) (demo_inst\<lparr>i_rob_idx := 0\<rparr>) (replicate 60 (replicate 60 False));
     is_dependent \<lparr>rob_entries = Some 8 # replicate 2 None @ Some 7 # replicate 56 None, start_idx = 3, end_idx = 1, rob_size = 2, rob_capacity = 4\<rparr>
       (demo_inst\<lparr>i_rob_idx := 3\<rparr>) (demo_inst\<lparr>i_rob_idx := 0\<rparr>) mat } = Some False"
proof -
  have "rob_holds 4 3 [7, 8] \<lparr>rob_entries = Some 8 # replicate 2 None @ Some 7 # replicate 56 None, start_idx = 3, end_idx = 1, rob_size = 2, rob_capacity = 4\<rparr>"
    by (simp add: rob_holds_def ring_list_def upt_rec nth_Cons' nth_append)
  then show ?thesis
    using dependency_lost_across_wrap [of 4 3 "[7, 8]" _ "replicate 60 (replicate 60 False)" 0 1
        "demo_inst\<lparr>i_rob_idx := 3\<rparr>" "demo_inst\<lparr>i_rob_idx := 0\<rparr>"]
    by (simp add: mat_dim_def slot_def)
qed

end
