(* ===== verification/Dependencies.thy ===== *)
theory Dependencies
  imports Dep_Mat
begin

text \<open>
  The dependency tests of \<open>trace_analyzer/trace_analyzer.c\<close>. At dispatch, \<open>find_regs_dependency\<close> and
  \<open>find_mems_dependency\<close> walk the reorder buffer from the new instruction towards the oldest one and
  record in the matrix which older instructions it waits for; at issue, \<open>has_dependency\<close> asks whether
  one of them is still in the way. The walks read the reorder buffer and the heap of instructions.
\<close>

section \<open>Operations\<close>

text \<open>\<open>(cur_idx-1+rob.capacity)%rob.capacity\<close>\<close>

definition ring_prev :: "int \<Rightarrow> int \<Rightarrow> int option" where
  "ring_prev i capacity = crem (i - 1 + capacity) capacity"

fun state_rank :: "InstState \<Rightarrow> nat" where
  "state_rank Ready = 0"
| "state_rank Dispatch = 1"
| "state_rank Issue = 2"
| "state_rank Complete = 3"
| "state_rank Retire = 4"

definition can_forward :: "Inst \<Rightarrow> bool" where
  "can_forward inst =
     (if i_type inst = MemRead
      then if state_rank (i_state inst) \<ge> state_rank Complete \<and> i_remaining_latency inst \<le> 1 then True else False
      else if state_rank (i_state inst) \<ge> state_rank Complete then True else False)"

text \<open>What the walks change: the instructions, the matrix and the counter \<open>count\<close>.\<close>

type_synonym dep_state = "(addr \<rightharpoonup> Inst) \<times> dep_mat \<times> int"

text \<open>One round of the inner loop of \<open>find_regs_dependency\<close>, for source \<open>i\<close> and destination \<open>j\<close>.\<close>

definition reg_dep_test :: "ptr \<Rightarrow> ptr \<Rightarrow> nat \<Rightarrow> nat \<Rightarrow> dep_state \<Rightarrow> dep_state option" where
  "reg_dep_test b a i j s = (case s of (h, mat, count) \<Rightarrow> do {
     inst_b \<leftarrow> load h b;
     inst_a \<leftarrow> load h a;
     r \<leftarrow> aget (i_src_reg inst_b) (int i);
     w \<leftarrow> aget (i_dst_reg inst_a) (int j);
     if r = w then do {
       mat \<leftarrow> set_dependency inst_a inst_b mat;
       rs \<leftarrow> aset (i_src_reg inst_b) (int i) (- 1);
       h \<leftarrow> store h b (i_src_reg_update (\<lambda>_. rs));
       Some (h, mat, count - 1) }
     else Some (h, mat, count) })"

definition reg_dep_source :: "ptr \<Rightarrow> ptr \<Rightarrow> nat \<Rightarrow> dep_state \<Rightarrow> dep_state option" where
  "reg_dep_source b a i s = do {
     inst_b \<leftarrow> load (fst s) b;
     r \<leftarrow> aget (i_src_reg inst_b) (int i);
     if r = - 1 then Some s
     else do {
       inst_a \<leftarrow> load (fst s) a;
       ofold (reg_dep_test b a i) [0..<nat (i_num_dst_reg inst_a)] s } }"

definition reg_dep_on :: "ptr \<Rightarrow> ptr \<Rightarrow> dep_state \<Rightarrow> dep_state option" where
  "reg_dep_on b a s = do {
     inst_b \<leftarrow> load (fst s) b;
     ofold (reg_dep_source b a) [0..<nat (i_num_src_reg inst_b)] s }"

text \<open>
  The walk itself, with what is done for each older instruction as an argument; both searches have
  the same loop.
\<close>

partial_function (option) dep_walk ::
    "(ptr \<Rightarrow> dep_state \<Rightarrow> dep_state option) \<Rightarrow> ROB \<Rightarrow> int \<Rightarrow> dep_state \<Rightarrow> dep_state option" where
  [code]: "dep_walk on rob cur_idx s =
     (if snd (snd s) = 0 then Some s
      else do {
        cur_idx \<leftarrow> ring_prev cur_idx (rob_capacity rob);
        a \<leftarrow> rob_get_inst cur_idx rob;
        s \<leftarrow> on a s;
        if cur_idx = start_idx rob then Some s else dep_walk on rob cur_idx s })"

definition find_regs_dependency :: "ROB \<Rightarrow> ptr \<Rightarrow> (addr \<rightharpoonup> Inst) \<Rightarrow> dep_mat \<Rightarrow> ((addr \<rightharpoonup> Inst) \<times> dep_mat) option" where
  "find_regs_dependency rob b h mat = do {
     inst_b \<leftarrow> load h b;
     if i_rob_idx inst_b = start_idx rob then Some (h, mat)
     else do {
       (h, mat, _) \<leftarrow> dep_walk (reg_dep_on b) rob (i_rob_idx inst_b) (h, mat, i_num_src_reg inst_b);
       Some (h, mat) } }"

definition mem_dep_test :: "ptr \<Rightarrow> ptr \<Rightarrow> nat \<Rightarrow> nat \<Rightarrow> dep_state \<Rightarrow> dep_state option" where
  "mem_dep_test b a i j s = (case s of (h, mat, count) \<Rightarrow> do {
     inst_b \<leftarrow> load h b;
     inst_a \<leftarrow> load h a;
     x \<leftarrow> aget (i_eff_addr inst_b) (int i);
     y \<leftarrow> aget (i_eff_addr inst_a) (int j);
     if (x AND NOT 0) = (y AND NOT 0) then do {
       es \<leftarrow> aset (i_eff_addr inst_b) (int i) 0;
       h \<leftarrow> store h b (i_eff_addr_update (\<lambda>_. es));
       mat \<leftarrow> set_dependency inst_a inst_b mat;
       Some (h, mat, count - 1) }
     else Some (h, mat, count) })"

definition mem_dep_source :: "ptr \<Rightarrow> ptr \<Rightarrow> nat \<Rightarrow> dep_state \<Rightarrow> dep_state option" where
  "mem_dep_source b a i s = do {
     inst_b \<leftarrow> load (fst s) b;
     x \<leftarrow> aget (i_eff_addr inst_b) (int i);
     if x = 0 then Some s
     else do {
       inst_a \<leftarrow> load (fst s) a;
       ofold (mem_dep_test b a i) [0..<nat (i_num_eff_addr inst_a)] s } }"

definition mem_dep_on :: "ptr \<Rightarrow> ptr \<Rightarrow> dep_state \<Rightarrow> dep_state option" where
  "mem_dep_on b a s = do {
     inst_b \<leftarrow> load (fst s) b;
     ofold (mem_dep_source b a) [0..<nat (i_num_eff_addr inst_b)] s }"

definition find_mems_dependency :: "ROB \<Rightarrow> ptr \<Rightarrow> (addr \<rightharpoonup> Inst) \<Rightarrow> dep_mat \<Rightarrow> ((addr \<rightharpoonup> Inst) \<times> dep_mat) option" where
  "find_mems_dependency rob b h mat = do {
     inst_b \<leftarrow> load h b;
     if i_rob_idx inst_b = start_idx rob then Some (h, mat)
     else do {
       (h, mat, _) \<leftarrow> dep_walk (mem_dep_on b) rob (i_rob_idx inst_b) (h, mat, i_num_eff_addr inst_b);
       Some (h, mat) } }"

partial_function (option) has_dep_walk :: "ROB \<Rightarrow> (addr \<rightharpoonup> Inst) \<Rightarrow> dep_mat \<Rightarrow> Inst \<Rightarrow> int \<Rightarrow> bool option" where
  [code]: "has_dep_walk rob h mat inst_b cur_idx = do {
     cur_idx \<leftarrow> ring_prev cur_idx (rob_capacity rob);
     a \<leftarrow> rob_get_inst cur_idx rob;
     inst_a \<leftarrow> load h a;
     d \<leftarrow> is_dependent rob inst_a inst_b mat;
     if d \<and> \<not> can_forward inst_a then Some True
     else if cur_idx = start_idx rob then Some False
     else has_dep_walk rob h mat inst_b cur_idx }"

definition has_dependency :: "ROB \<Rightarrow> (addr \<rightharpoonup> Inst) \<Rightarrow> dep_mat \<Rightarrow> ptr \<Rightarrow> bool option" where
  "has_dependency rob h mat b = do {
     inst_b \<leftarrow> load h b;
     if i_rob_idx inst_b = start_idx rob then Some False
     else has_dep_walk rob h mat inst_b (i_rob_idx inst_b) }"

section \<open>Walking towards the oldest instruction\<close>

text \<open>
  \<open>rob_insts N s xs rob h\<close>: the reorder buffer holds the distinct instructions \<open>xs\<close>, they are
  allocated, and each knows its slot.
\<close>

definition rob_insts :: "nat \<Rightarrow> nat \<Rightarrow> addr list \<Rightarrow> ROB \<Rightarrow> (addr \<rightharpoonup> Inst) \<Rightarrow> bool" where
  "rob_insts N s xs rob h \<longleftrightarrow> rob_holds N s xs rob \<and> distinct xs \<and>
     (\<forall>i<length xs. \<exists>n. h (xs ! i) = Some n \<and> i_rob_idx n = int (slot N s i))"

lemma rob_insts_nth:
  "rob_insts N s xs rob h \<Longrightarrow> i < length xs \<Longrightarrow> \<exists>n. h (xs ! i) = Some n \<and> i_rob_idx n = int (slot N s i)"
  by (simp add: rob_insts_def)

lemma rob_insts_bounds:
  "rob_insts N s xs rob h \<Longrightarrow> 0 < N \<and> s < N \<and> length xs \<le> N \<and> rob_capacity rob = int N \<and> start_idx rob = int s"
  by (simp add: rob_insts_def rob_holds_def)

lemma ring_prev_slot: "0 < N \<Longrightarrow> ring_prev (int (slot N s (Suc k))) (int N) = Some (int (slot N s k))"
proof -
  assume N: "0 < N"
  have "(int ((s + Suc k) mod N) - 1 + int N) mod int N = (int (s + Suc k) - 1) mod int N"
    by (simp add: zmod_int mod_simps)
  also have "\<dots> = int ((s + k) mod N)" by (simp add: zmod_int)
  finally show ?thesis using N slot_less [OF N, of s "Suc k"]
    by (simp add: ring_prev_def slot_def crem_pos)
qed

lemma slot_start: "s < N \<Longrightarrow> k < N \<Longrightarrow> int (slot N s k) = int s \<longleftrightarrow> k = 0"
  using slot_inj [of k N 0 s] slot_0 [of s N] by auto

text \<open>
  The rule for the searches: an invariant that survives one older instruction, and that already
  covers the rest once the counter is 0, holds at the end, and the search ends.
\<close>

lemma dep_walk_rule:
  assumes r: "rob_insts N s xs rob h0" and j: "0 < j" "j < length xs" and init: "I j st"
    and step: "\<And>k st. k < j \<Longrightarrow> I (Suc k) st \<Longrightarrow> \<exists>st'. on (Some (xs ! k)) st = Some st' \<and> I k st'"
    and stop: "\<And>k st. k \<le> j \<Longrightarrow> I k st \<Longrightarrow> snd (snd st) = 0 \<Longrightarrow> I 0 st"
  shows "\<exists>st'. dep_walk on rob (int (slot N s j)) st = Some st' \<and> I 0 st'"
proof -
  have b: "0 < N" "s < N" "length xs \<le> N" "rob_capacity rob = int N" "start_idx rob = int s" and h: "rob_holds N s xs rob"
    using rob_insts_bounds [OF r] r by (auto simp: rob_insts_def)
  have "\<exists>st'. dep_walk on rob (int (slot N s (Suc k))) st = Some st' \<and> I 0 st'" if "k < j" "I (Suc k) st" for k st
    using that
  proof (induction k arbitrary: st)
    case 0
    have "0 < length xs" using j by linarith
    then have g: "rob_get_inst (int s) rob = Some (Some (xs ! 0))"
      using rob_holds_nth [OF h, of 0] slot_0 [OF b(2)] by simp
    have "ring_prev (int (slot N s (Suc 0))) (int N) = Some (int s)"
      using ring_prev_slot [OF b(1), of s 0] slot_0 [OF b(2)] by simp
    then show ?case
      using step [of 0 st] stop [of 1 st] g b(4,5) j 0 by (subst dep_walk.simps) (auto simp del: split_paired_Ex)
  next
    case (Suc k)
    then obtain st' where st': "on (Some (xs ! Suc k)) st = Some st'" "I (Suc k) st'" using step [of "Suc k" st] by auto
    obtain st'' where "dep_walk on rob (int (slot N s (Suc k))) st' = Some st''" "I 0 st''"
      using Suc.IH [of st'] Suc.prems st'(2) by auto
    then show ?case
      using st' stop [of "Suc (Suc k)" st] rob_holds_nth [OF h, of "Suc k"] b j Suc.prems
        ring_prev_slot [OF b(1), of s "Suc k"] slot_start [OF b(2), of "Suc k"]
      by (subst dep_walk.simps) (auto simp del: split_paired_Ex)
  qed
  from this [of "j - 1" st] show ?thesis using j init by simp
qed

section \<open>Register dependencies\<close>

definition reg_hits :: "nat \<Rightarrow> int list \<Rightarrow> int set \<Rightarrow> nat set" where
  "reg_hits m rs W = {n. n < m \<and> rs ! n \<in> W}"

definition clear_regs :: "nat \<Rightarrow> int list \<Rightarrow> int set \<Rightarrow> int list" where
  "clear_regs m rs W = map (\<lambda>n. if n < m \<and> rs ! n \<in> W then - 1 else rs ! n) [0..<length rs]"

definition dst_set :: "Inst \<Rightarrow> int set" where
  "dst_set inst = set (take (nat (i_num_dst_reg inst)) (i_dst_reg inst))"

definition mark :: "bool \<Rightarrow> nat \<Rightarrow> nat \<Rightarrow> dep_mat \<Rightarrow> dep_mat" where
  "mark c b a mat = (if c then mat[b := (mat ! b)[a := True]] else mat)"

lemma mark_dim: "mat_dim n mat \<Longrightarrow> mat_dim n (mark c b a mat)"
  using mat_dim_upd [of n mat "(mat ! b)[a := True]" b] mat_dim_row [of n mat b]
  by (cases "b < n") (auto simp: mark_def mat_dim_def list_update_beyond)

lemma mark_nth:
  "mat_dim n mat \<Longrightarrow> b < n \<Longrightarrow> a < n \<Longrightarrow> mark c b a mat ! r ! k \<longleftrightarrow> mat ! r ! k \<or> c \<and> r = b \<and> k = a"
  using mat_dim_row [of n mat b] by (cases "r = b"; cases "k = a") (auto simp: mark_def mat_dim_def)

lemma mark_mark: "mark c b a (mark d b a mat) = mark (c \<or> d) b a mat"
  by (cases "b < length mat") (auto simp: mark_def list_update_beyond)

lemma length_clear_regs [simp]: "length (clear_regs m rs W) = length rs"
  by (simp add: clear_regs_def)

lemma clear_regs_nth: "n < length rs \<Longrightarrow> clear_regs m rs W ! n = (if n < m \<and> rs ! n \<in> W then - 1 else rs ! n)"
  by (simp add: clear_regs_def)

lemma clear_regs_0 [simp]: "clear_regs 0 rs W = rs"
  by (simp add: clear_regs_def map_nth)

lemma clear_regs_Suc:
  "m < length rs \<Longrightarrow> clear_regs (Suc m) rs W = (if rs ! m \<in> W then (clear_regs m rs W)[m := - 1] else clear_regs m rs W)"
  by (rule nth_equalityI) (auto simp: clear_regs_nth nth_list_update less_Suc_eq)

lemma reg_hits_Suc: "reg_hits (Suc m) rs W = (if rs ! m \<in> W then insert m (reg_hits m rs W) else reg_hits m rs W)"
  by (auto simp: reg_hits_def less_Suc_eq)

lemma reg_hits_finite [simp]: "finite (reg_hits m rs W)" "m \<notin> reg_hits m rs W" "reg_hits 0 rs W = {}"
  by (auto simp: reg_hits_def)

text \<open>An instruction whose register counts and lists fit its arrays, in slot \<open>k\<close> of a matrix of size \<open>n\<close>.\<close>

definition regs_fit :: "nat \<Rightarrow> Inst \<Rightarrow> bool" where
  "regs_fit n inst \<longleftrightarrow> 0 \<le> i_num_src_reg inst \<and> nat (i_num_src_reg inst) \<le> length (i_src_reg inst) \<and>
     nat (i_num_dst_reg inst) \<le> length (i_dst_reg inst) \<and> - 1 \<notin> dst_set inst \<and>
     0 \<le> i_rob_idx inst \<and> i_rob_idx inst < int n"

definition reg_hit :: "addr \<Rightarrow> Inst \<Rightarrow> Inst \<Rightarrow> nat \<Rightarrow> dep_state \<Rightarrow> dep_state" where
  "reg_hit b ib ia i s = (case s of (h, mat, c) \<Rightarrow>
     (h(b \<mapsto> ib\<lparr>i_src_reg := (i_src_reg ib)[i := - 1]\<rparr>), mark True (nat (i_rob_idx ib)) (nat (i_rob_idx ia)) mat, c - 1))"

lemma set_dependency_mark:
  "mat_dim n mat \<Longrightarrow> regs_fit n ia \<Longrightarrow> regs_fit n ib \<Longrightarrow>
   set_dependency ia ib mat = Some (mark True (nat (i_rob_idx ib)) (nat (i_rob_idx ia)) mat)"
  using mat_set_in(1) [of n mat "nat (i_rob_idx ia)" "nat (i_rob_idx ib)"]
  by (auto simp: set_dependency_def mark_def regs_fit_def)

lemma reg_dep_source_eq:
  assumes hb: "h b = Some ib" and ha: "h a = Some ia" and ab: "a \<noteq> b" and i: "i < length (i_src_reg ib)"
    and fit: "regs_fit n ia" "regs_fit n ib" and m: "mat_dim n mat"
  shows "reg_dep_source (Some b) (Some a) i (h, mat, c) =
    Some (if i_src_reg ib ! i \<in> dst_set ia then reg_hit b ib ia i (h, mat, c) else (h, mat, c))"
proof -
  let ?r = "i_src_reg ib ! i" and ?ds = "i_dst_reg ia" and ?k = "nat (i_num_dst_reg ia)"
  have k: "?k \<le> length ?ds" and no: "- 1 \<notin> set (take ?k ?ds)" using fit(1) by (auto simp: regs_fit_def dst_set_def)
  have nth: "?ds ! j \<noteq> - 1" if "j < ?k" for j
    using no that k by (metis in_set_conv_nth length_take min.absorb2 nth_take)
  define I where "I = (\<lambda>j st. st = (if ?r \<in> set (take j ?ds) then reg_hit b ib ia i (h, mat, c) else (h, mat, c)))"
  have "\<exists>st'. ofold (reg_dep_test (Some b) (Some a) i) [0..<?k] (h, mat, c) = Some st' \<and> I ?k st'" if r: "?r \<noteq> - 1"
  proof (rule ofold_upt)
    show "I 0 (h, mat, c)" by (simp add: I_def)
    fix j st assume j: "j < ?k" and st: "I j st"
    have tk: "set (take (Suc j) ?ds) = insert (?ds ! j) (set (take j ?ds))" using j k by (simp add: take_Suc_conv_app_nth)
    show "\<exists>st'. reg_dep_test (Some b) (Some a) i j st = Some st' \<and> I (Suc j) st'"
    proof (cases "?r \<in> set (take j ?ds)")
      case True
      then have "st = reg_hit b ib ia i (h, mat, c)" using st by (simp add: I_def)
      then have "reg_dep_test (Some b) (Some a) i j st = Some st"
        using hb ha ab i j k nth [OF j] by (auto simp: reg_dep_test_def reg_hit_def)
      then show ?thesis using True st tk by (simp add: I_def)
    next
      case False
      then have s: "st = (h, mat, c)" using st by (simp add: I_def)
      show ?thesis
        using False s hb ha i j k tk set_dependency_mark [OF m fit]
        by (auto simp: reg_dep_test_def I_def reg_hit_def store_Some)
    qed
  qed
  then show ?thesis using hb ha i no by (cases "?r = - 1") (auto simp: reg_dep_source_def I_def dst_set_def)
qed

lemma reg_dep_on_eq:
  assumes hb: "h b = Some ib" and ha: "h a = Some ia" and ab: "a \<noteq> b"
    and fit: "regs_fit n ia" "regs_fit n ib" and m: "mat_dim n mat"
  shows "reg_dep_on (Some b) (Some a) (h, mat, c) =
    Some (h(b \<mapsto> ib\<lparr>i_src_reg := clear_regs (nat (i_num_src_reg ib)) (i_src_reg ib) (dst_set ia)\<rparr>),
      mark (reg_hits (nat (i_num_src_reg ib)) (i_src_reg ib) (dst_set ia) \<noteq> {}) (nat (i_rob_idx ib)) (nat (i_rob_idx ia)) mat,
      c - int (card (reg_hits (nat (i_num_src_reg ib)) (i_src_reg ib) (dst_set ia))))"
proof -
  let ?rs = "i_src_reg ib" and ?W = "dst_set ia" and ?m = "nat (i_num_src_reg ib)"
  let ?ib = "\<lambda>k. ib\<lparr>i_src_reg := clear_regs k ?rs ?W\<rparr>"
  define I where "I = (\<lambda>k st. st = (h(b \<mapsto> ?ib k),
    mark (reg_hits k ?rs ?W \<noteq> {}) (nat (i_rob_idx ib)) (nat (i_rob_idx ia)) mat, c - int (card (reg_hits k ?rs ?W))))"
  have len: "?m \<le> length ?rs" using fit(2) by (simp add: regs_fit_def)
  have "\<exists>st'. ofold (reg_dep_source (Some b) (Some a)) [0..<?m] (h, mat, c) = Some st' \<and> I ?m st'"
  proof (rule ofold_upt)
    show "I 0 (h, mat, c)" using hb by (auto simp: I_def mark_def)
    fix k st assume k: "k < ?m" and st: "I k st"
    have fitk: "regs_fit n (?ib k)" using fit(2) by (simp add: regs_fit_def dst_set_def)
    have nth: "clear_regs k ?rs ?W ! k = ?rs ! k" using k len by (simp add: clear_regs_nth)
    have "reg_dep_source (Some b) (Some a) k st =
        Some (if ?rs ! k \<in> ?W then reg_hit b (?ib k) ia k st else st)"
      using reg_dep_source_eq [of "h(b \<mapsto> ?ib k)" b "?ib k" a ia k n, OF _ _ ab _ fit(1) fitk mark_dim [OF m]] ha ab k len nth
      by (simp add: st [unfolded I_def])
    moreover have "I (Suc k) (if ?rs ! k \<in> ?W then reg_hit b (?ib k) ia k st else st)"
      using k len st by (auto simp: I_def reg_hit_def clear_regs_Suc reg_hits_Suc mark_mark card_insert_if)
    ultimately show "\<exists>st'. reg_dep_source (Some b) (Some a) k st = Some st' \<and> I (Suc k) st'" by blast
  qed
  then show ?thesis using hb by (simp add: reg_dep_on_def I_def)
qed

text \<open>
  The abstract notion: register \<open>r\<close>, read by the instruction of age \<open>j\<close>, is produced by the
  youngest older instruction that writes it.
\<close>

definition producer :: "(addr \<rightharpoonup> Inst) \<Rightarrow> addr list \<Rightarrow> nat \<Rightarrow> int \<Rightarrow> nat \<Rightarrow> bool" where
  "producer h xs j r i \<longleftrightarrow> i < j \<and> r \<in> dst_set (the (h (xs ! i))) \<and>
     (\<forall>i'. i < i' \<and> i' < j \<longrightarrow> r \<notin> dst_set (the (h (xs ! i'))))"

definition src_set :: "Inst \<Rightarrow> int set" where
  "src_set inst = set (take (nat (i_num_src_reg inst)) (i_src_reg inst))"

definition written :: "(addr \<rightharpoonup> Inst) \<Rightarrow> addr list \<Rightarrow> nat \<Rightarrow> nat \<Rightarrow> int set" where
  "written h xs k j = (\<Union>i\<in>{k..<j}. dst_set (the (h (xs ! i))))"

lemma written_Suc: "k < j \<Longrightarrow> written h xs k j = written h xs (Suc k) j \<union> dst_set (the (h (xs ! k)))"
proof -
  assume "k < j"
  then have "{k..<j} = insert k {Suc k..<j}" by auto
  then show ?thesis by (auto simp: written_def)
qed

lemma producer_iff: "k < j \<Longrightarrow> producer h xs j r k \<longleftrightarrow> r \<in> dst_set (the (h (xs ! k))) \<and> r \<notin> written h xs (Suc k) j"
  by (auto simp: producer_def written_def)

lemma producer_written: "producer h xs j r i \<Longrightarrow> i < k \<Longrightarrow> r \<notin> written h xs k j"
  by (auto simp: producer_def written_def)

lemma clear_clear: "- 1 \<notin> W' \<Longrightarrow> clear_regs m (clear_regs m rs W) W' = clear_regs m rs (W \<union> W')"
  by (rule nth_equalityI) (auto simp: clear_regs_nth)

lemma hits_clear: "m \<le> length rs \<Longrightarrow> - 1 \<notin> W' \<Longrightarrow> reg_hits m (clear_regs m rs W) W' = reg_hits m rs W' - reg_hits m rs W"
  by (auto simp: reg_hits_def clear_regs_nth split: if_splits)

lemma card_hits_Un:
  "int (card (reg_hits m rs (W \<union> W'))) = int (card (reg_hits m rs W)) + int (card (reg_hits m rs W' - reg_hits m rs W))"
proof -
  have "reg_hits m rs (W \<union> W') = reg_hits m rs W \<union> (reg_hits m rs W' - reg_hits m rs W)" by (auto simp: reg_hits_def)
  then show ?thesis
    using card_Un_disjoint [of "reg_hits m rs W" "reg_hits m rs W' - reg_hits m rs W"] by (simp del: Un_Diff_cancel)
qed

lemma all_hits: "card (reg_hits m rs W) = m \<Longrightarrow> n < m \<Longrightarrow> rs ! n \<in> W"
proof -
  assume c: "card (reg_hits m rs W) = m" and n: "n < m"
  have "reg_hits m rs W \<subseteq> {..<m}" by (auto simp: reg_hits_def)
  then have "reg_hits m rs W = {..<m}" using c by (simp add: card_subset_eq)
  then show ?thesis using n by (auto simp: reg_hits_def)
qed

lemma src_set_nth: "regs_fit n inst \<Longrightarrow> src_set inst = (\<lambda>k. i_src_reg inst ! k) ` {..<nat (i_num_src_reg inst)}"
  using nth_image [of "nat (i_num_src_reg inst)" "i_src_reg inst"] by (simp add: src_set_def regs_fit_def lessThan_atLeast0)

lemma ex_from_split: "k < j \<Longrightarrow> (\<exists>i. k \<le> i \<and> i < j \<and> P i) \<longleftrightarrow> P k \<or> (\<exists>i. Suc k \<le> i \<and> i < j \<and> P i)" for k j :: nat
  by (metis Suc_le_eq le_less Suc_leD order_refl)

text \<open>The invariant of the register search when the ages from \<open>k\<close> up to \<open>j\<close> have been visited.\<close>

definition reg_search :: "nat \<Rightarrow> nat \<Rightarrow> addr list \<Rightarrow> (addr \<rightharpoonup> Inst) \<Rightarrow> dep_mat \<Rightarrow> nat \<Rightarrow> nat \<Rightarrow> dep_state \<Rightarrow> bool" where
  "reg_search N s xs h0 mat0 j k st \<longleftrightarrow> (case st of (h, mat, c) \<Rightarrow>
     let b = the (h0 (xs ! j)); m = nat (i_num_src_reg b); W = written h0 xs k j in
     h = h0(xs ! j \<mapsto> b\<lparr>i_src_reg := clear_regs m (i_src_reg b) W\<rparr>) \<and> mat_dim 60 mat \<and>
     (\<forall>r q. mat ! r ! q \<longleftrightarrow> mat0 ! r ! q \<or>
       (r = slot N s j \<and> (\<exists>i. k \<le> i \<and> i < j \<and> q = slot N s i \<and> (\<exists>x\<in>src_set b. producer h0 xs j x i)))) \<and>
     c = int m - int (card (reg_hits m (i_src_reg b) W)))"

lemma reg_search_step:
  assumes r: "rob_insts N s xs rob h0" "N \<le> 60" and fit: "\<forall>x\<in>set xs. regs_fit 60 (the (h0 x))"
    and k: "k < j" "j < length xs" and st: "reg_search N s xs h0 mat0 j (Suc k) st"
  shows "\<exists>st'. reg_dep_on (Some (xs ! j)) (Some (xs ! k)) st = Some st' \<and> reg_search N s xs h0 mat0 j k st'"
proof -
  obtain h mat c where s: "st = (h, mat, c)" by (cases st) auto
  obtain b where b: "h0 (xs ! j) = Some b" "i_rob_idx b = int (slot N s j)" using rob_insts_nth [OF r(1) k(2)] by blast
  obtain a where a: "h0 (xs ! k) = Some a" "i_rob_idx a = int (slot N s k)" using rob_insts_nth [OF r(1), of k] k by auto
  let ?m = "nat (i_num_src_reg b)" and ?W = "written h0 xs (Suc k) j" and ?rs = "i_src_reg b"
  define ib where "ib = b\<lparr>i_src_reg := clear_regs ?m ?rs ?W\<rparr>"
  have fb: "regs_fit 60 b" and fa: "regs_fit 60 a" using fit k a b by (metis nth_mem option.sel order_less_trans)+
  have ne: "xs ! k \<noteq> xs ! j" using r(1) k by (simp add: rob_insts_def nth_eq_iff_index_eq)
  have I: "h = h0(xs ! j \<mapsto> ib)" "mat_dim 60 mat" "c = int ?m - int (card (reg_hits ?m ?rs ?W))"
    "mat ! r ! q \<longleftrightarrow> mat0 ! r ! q \<or> (r = slot N s j \<and>
       (\<exists>i. Suc k \<le> i \<and> i < j \<and> q = slot N s i \<and> (\<exists>x\<in>src_set b. producer h0 xs j x i)))" for r q
    using st b by (auto simp: reg_search_def s Let_def ib_def)
  have fib: "regs_fit 60 ib" using fb by (simp add: regs_fit_def ib_def dst_set_def)
  have no: "- 1 \<notin> dst_set a" and len: "?m \<le> length ?rs" using fa fb by (simp_all add: regs_fit_def)
  have hits: "reg_hits ?m (clear_regs ?m ?rs ?W) (dst_set a) = reg_hits ?m ?rs (dst_set a) - reg_hits ?m ?rs ?W"
    by (rule hits_clear [OF len no])
  have W: "written h0 xs k j = ?W \<union> dst_set a" using written_Suc [OF k(1)] a by simp
  let ?hit = "reg_hits ?m (clear_regs ?m ?rs ?W) (dst_set a) \<noteq> {}"
  have "?hit \<longleftrightarrow> (\<exists>n<?m. ?rs ! n \<in> dst_set a \<and> ?rs ! n \<notin> ?W)" unfolding hits by (auto simp: reg_hits_def)
  then have hit: "?hit \<longleftrightarrow> (\<exists>x\<in>src_set b. producer h0 xs j x k)"
    unfolding src_set_nth [OF fb] using producer_iff [OF k(1), of h0 xs] a(1) by auto
  let ?st = "(h0(xs ! j \<mapsto> b\<lparr>i_src_reg := clear_regs ?m ?rs (written h0 xs k j)\<rparr>), mark ?hit (slot N s j) (slot N s k) mat,
    int ?m - int (card (reg_hits ?m ?rs (written h0 xs k j))))"
  have "reg_dep_on (Some (xs ! j)) (Some (xs ! k)) st = Some ?st"
    using reg_dep_on_eq [of h "xs ! j" ib "xs ! k" a 60 mat c] I(1-3) ne a b fa fib clear_clear [OF no, of ?m ?rs ?W] hits
    by (simp add: s ib_def W card_hits_Un)
  moreover have "reg_search N s xs h0 mat0 j k ?st"
  proof -
    have sl: "slot N s i < 60" for i using slot_less [of N s i] rob_insts_bounds [OF r(1)] r(2) by auto
    have "mark ?hit (slot N s j) (slot N s k) mat ! r ! q \<longleftrightarrow> mat0 ! r ! q \<or> (r = slot N s j \<and>
       (\<exists>i. k \<le> i \<and> i < j \<and> q = slot N s i \<and> (\<exists>x\<in>src_set b. producer h0 xs j x i)))" for r q
      unfolding mark_nth [OF I(2) sl sl] I(4) hit ex_from_split [OF k(1)] by auto
    then show ?thesis using mark_dim [OF I(2)] b by (simp add: reg_search_def Let_def)
  qed
  ultimately show ?thesis by blast
qed

lemma reg_search_stop:
  assumes st: "reg_search N s xs h0 mat0 j k st" "snd (snd st) = 0" and fit: "regs_fit 60 (the (h0 (xs ! j)))"
  shows "reg_search N s xs h0 mat0 j 0 st"
proof -
  obtain h mat c where s: "st = (h, mat, c)" by (cases st) auto
  let ?b = "the (h0 (xs ! j))"
  let ?m = "nat (i_num_src_reg ?b)" and ?rs = "i_src_reg ?b"
  have "card (reg_hits ?m ?rs (written h0 xs k j)) = ?m" using st s fit by (auto simp: reg_search_def Let_def regs_fit_def)
  then have all: "?rs ! n \<in> written h0 xs k j" if "n < ?m" for n using all_hits that by blast
  have mono: "written h0 xs k j \<subseteq> written h0 xs 0 j" by (auto simp: written_def)
  have "clear_regs ?m ?rs (written h0 xs k j) = clear_regs ?m ?rs (written h0 xs 0 j)"
    using all mono by (auto simp: clear_regs_def)
  moreover have "reg_hits ?m ?rs (written h0 xs k j) = reg_hits ?m ?rs (written h0 xs 0 j)"
    using all mono by (auto simp: reg_hits_def)
  moreover have "x \<in> written h0 xs k j" if "x \<in> src_set ?b" for x
    using that all by (auto simp: src_set_nth [OF fit])
  then have "k \<le> i" if "x \<in> src_set ?b" "producer h0 xs j x i" for x i
    using that producer_written [of h0 xs j x i k] by (metis not_less)
  ultimately show ?thesis using st s by (auto simp: reg_search_def Let_def)
qed

lemma reg_search_start:
  "rob_insts N s xs rob h \<Longrightarrow> j < length xs \<Longrightarrow> mat_dim 60 mat \<Longrightarrow> regs_fit 60 (the (h (xs ! j))) \<Longrightarrow>
   reg_search N s xs h mat j j (h, mat, i_num_src_reg (the (h (xs ! j))))"
proof -
  assume r: "rob_insts N s xs rob h" "j < length xs" "mat_dim 60 mat" "regs_fit 60 (the (h (xs ! j)))"
  obtain b where b: "h (xs ! j) = Some b" using rob_insts_nth [OF r(1,2)] by blast
  have e: "clear_regs m rs {} = rs" "reg_hits m rs {} = {}" for m rs by (simp_all add: clear_regs_def reg_hits_def map_nth)
  show ?thesis using r b by (auto simp: reg_search_def Let_def written_def e regs_fit_def)
qed

lemma find_regs_search:
  assumes r: "rob_insts N s xs rob h" "N \<le> 60" and m: "mat_dim 60 mat" and j: "j < length xs"
    and fit: "\<forall>x\<in>set xs. regs_fit 60 (the (h x))"
  shows "\<exists>h' mat' c. find_regs_dependency rob (Some (xs ! j)) h mat = Some (h', mat') \<and> reg_search N s xs h mat j 0 (h', mat', c)"
proof -
  obtain b where b: "h (xs ! j) = Some b" "i_rob_idx b = int (slot N s j)" using rob_insts_nth [OF r(1) j] by blast
  have bd: "s < N" "j < N" "start_idx rob = int s" using rob_insts_bounds [OF r(1)] j by auto
  have fb: "regs_fit 60 (the (h (xs ! j)))" using fit j by simp
  have start: "reg_search N s xs h mat j j (h, mat, i_num_src_reg b)" using reg_search_start [OF r(1) j m fb] b by simp
  show ?thesis
  proof (cases "j = 0")
    case True
    then show ?thesis using b start bd slot_start [OF bd(1,2)] by (auto simp: find_regs_dependency_def)
  next
    case False
    have "\<exists>st'. dep_walk (reg_dep_on (Some (xs ! j))) rob (int (slot N s j)) (h, mat, i_num_src_reg b) = Some st' \<and>
        reg_search N s xs h mat j 0 st'"
    proof (rule dep_walk_rule [where I = "reg_search N s xs h mat j", OF r(1) _ j start])
      show "0 < j" using False by simp
    qed (use reg_search_step [OF r fit _ j] reg_search_stop fb in blast)+
    then show ?thesis using b bd False slot_start [OF bd(1,2)] by (auto simp: find_regs_dependency_def)
  qed
qed

text \<open>
  C8: \<open>find_regs_dependency\<close> ends without a fault and records in the row of the new instruction
  exactly its true register dependencies: for every source register, the youngest older instruction
  in the reorder buffer that writes it. Nothing else in the matrix changes.
\<close>

theorem register_dependencies_recorded:
  assumes "rob_insts N s xs rob h" "N \<le> 60" "mat_dim 60 mat" "j < length xs" "\<forall>x\<in>set xs. regs_fit 60 (the (h x))"
  shows "\<exists>h' mat'. find_regs_dependency rob (Some (xs ! j)) h mat = Some (h', mat') \<and>
    (\<forall>r q. mat' ! r ! q \<longleftrightarrow> mat ! r ! q \<or>
      (r = slot N s j \<and> (\<exists>i<j. q = slot N s i \<and> (\<exists>x\<in>src_set (the (h (xs ! j))). producer h xs j x i))))"
proof -
  obtain h' mat' c where "find_regs_dependency rob (Some (xs ! j)) h mat = Some (h', mat')" "reg_search N s xs h mat j 0 (h', mat', c)"
    using find_regs_search [OF assms] by blast
  then show ?thesis by (simp add: reg_search_def Let_def)
qed

definition demo_writer :: Inst where
  "demo_writer = demo_inst\<lparr>i_state := Dispatch, i_num_dst_reg := 1, i_dst_reg := 3 # replicate 15 (- 1), i_rob_idx := 0\<rparr>"

definition demo_reader :: Inst where
  "demo_reader = demo_inst\<lparr>i_num_src_reg := 1, i_src_reg := 3 # replicate 15 (- 1), i_rob_idx := 1\<rparr>"

definition demo_pair :: ROB where
  "demo_pair = \<lparr>rob_entries = Some 7 # Some 8 # replicate 58 None, start_idx = 0, end_idx = 2, rob_size = 2, rob_capacity = 40\<rparr>"

definition demo_heap :: "addr \<rightharpoonup> Inst" where
  "demo_heap = [7 \<mapsto> demo_writer, 8 \<mapsto> demo_reader]"

lemma demo_pair_insts: "rob_insts 40 0 [7, 8] demo_pair demo_heap"
  by (auto simp: rob_insts_def rob_holds_def demo_pair_def demo_heap_def ring_list_def upt_rec demo_writer_def demo_reader_def
      slot_def nth_Cons' less_Suc_eq)

lemma demo_pair_fit: "\<forall>x\<in>set [7, 8]. regs_fit 60 (the (demo_heap x))"
  by (simp add: regs_fit_def demo_heap_def demo_writer_def demo_reader_def demo_inst_def dst_set_def)

theorem register_dependencies_recorded_witness:
  "\<exists>h' mat'. find_regs_dependency demo_pair (Some 8) demo_heap (replicate 60 (replicate 60 False)) = Some (h', mat') \<and> mat' ! 1 ! 0"
proof -
  have p: "producer demo_heap [7, 8] 1 3 0" "3 \<in> src_set (the (demo_heap 8))"
    by (auto simp: producer_def src_set_def demo_heap_def demo_writer_def demo_reader_def dst_set_def)
  show ?thesis
    using register_dependencies_recorded [OF demo_pair_insts _ _ _ demo_pair_fit, of "replicate 60 (replicate 60 False)" 1] p
    by (fastforce simp: mat_dim_def slot_def)
qed

section \<open>Waiting for older instructions\<close>

lemma has_dep_walk_spec:
  assumes r: "rob_insts N s xs rob h" "N \<le> 60" and m: "mat_dim 60 mat" and j: "j < length xs" and b: "i_rob_idx b = int (slot N s j)"
    and k: "k < j"
  shows "has_dep_walk rob h mat b (int (slot N s (Suc k))) =
    Some (\<exists>i\<le>k. (s + i < N) = (s + j < N) \<and> mat ! slot N s j ! slot N s i \<and> \<not> can_forward (the (h (xs ! i))))"
  using k
proof (induction k)
  case (Suc k)
  obtain a where a: "h (xs ! Suc k) = Some a" "i_rob_idx a = int (slot N s (Suc k))"
    using rob_insts_nth [OF r(1), of "Suc k"] Suc.prems j by auto
  have bd: "0 < N" "s < N" "j < N" "rob_capacity rob = int N" "start_idx rob = int s" and h: "rob_holds N s xs rob"
    using rob_insts_bounds [OF r(1)] r(1) j by (auto simp: rob_insts_def)
  show ?case
    using Suc a bd j is_dependent_slots [OF h m r(2) Suc.prems bd(3) a(2) b] rob_holds_nth [OF h, of "Suc k"]
      ring_prev_slot [OF bd(1), of s "Suc k"] slot_start [OF bd(2), of "Suc k"]
    by (subst has_dep_walk.simps) (auto simp: le_Suc_eq)
next
  case 0
  then have l: "0 < length xs" using j by linarith
  obtain a where a: "h (xs ! 0) = Some a" "i_rob_idx a = int (slot N s 0)"
    using rob_insts_nth [OF r(1) l] by blast
  have bd: "0 < N" "s < N" "j < N" "rob_capacity rob = int N" "start_idx rob = int s" and h: "rob_holds N s xs rob"
    using rob_insts_bounds [OF r(1)] r(1) j by (auto simp: rob_insts_def)
  have "is_dependent rob a b mat = Some ((s + 0 < N) = (s + j < N) \<and> mat ! slot N s j ! slot N s 0)"
    by (rule is_dependent_slots [OF h m r(2) 0 bd(3) a(2) b])
  then show ?case
    using a(1) bd(4,5) rob_holds_nth [OF h l] ring_prev_slot [OF bd(1), of s 0] slot_start [OF bd(2), of 0] bd(1)
    by (subst has_dep_walk.simps) auto
qed

lemma has_dependency_eq:
  assumes "rob_insts N s xs rob h" "N \<le> 60" "mat_dim 60 mat" "j < length xs"
  shows "has_dependency rob h mat (Some (xs ! j)) =
    Some (\<exists>i<j. (s + i < N) = (s + j < N) \<and> mat ! slot N s j ! slot N s i \<and> \<not> can_forward (the (h (xs ! i))))"
proof -
  obtain b where b: "h (xs ! j) = Some b" "i_rob_idx b = int (slot N s j)" using rob_insts_nth [OF assms(1,4)] by blast
  have bd: "s < N" "j < N" "start_idx rob = int s" using rob_insts_bounds [OF assms(1)] assms(4) by auto
  show ?thesis
  proof (cases j)
    case 0
    then show ?thesis using b bd slot_start [OF bd(1,2)] by (simp add: has_dependency_def)
  next
    case (Suc k)
    then show ?thesis
      using has_dep_walk_spec [OF assms(1,2,3,4) b(2), of k] b bd slot_start [OF bd(1,2)]
      by (simp add: has_dependency_def less_Suc_eq_le)
  qed
qed

text \<open>
  C9: \<open>has_dependency\<close> ends without a fault and answers whether the instruction waits for an older
  one: some older instruction on the same side of the end of the ring that the matrix records for
  it and whose result cannot be forwarded yet.
\<close>

theorem has_dependency_spec:
  assumes "rob_insts N s xs rob h" "N \<le> 60" "mat_dim 60 mat" "j < length xs"
  shows "has_dependency rob h mat (Some (xs ! j)) =
    Some (\<exists>i<j. (s + i < N) = (s + j < N) \<and> mat ! slot N s j ! slot N s i \<and> \<not> can_forward (the (h (xs ! i))))"
  by (rule has_dependency_eq [OF assms])

theorem has_dependency_spec_witness:
  "has_dependency demo_pair demo_heap ((replicate 60 (replicate 60 False))[1 := True # replicate 59 False]) (Some 8) = Some True"
proof -
  have "mat_dim 60 ((replicate 60 (replicate 60 False))[1 := True # replicate 59 False])"
    by (rule mat_dim_upd) (simp_all add: mat_dim_def)
  then show ?thesis
    using has_dependency_spec [OF demo_pair_insts, of "(replicate 60 (replicate 60 False))[1 := True # replicate 59 False]" 1]
    by (simp add: slot_def demo_heap_def demo_writer_def demo_inst_def can_forward_def)
qed

section \<open>Memory dependencies\<close>

definition addrs_fit :: "nat \<Rightarrow> Inst \<Rightarrow> bool" where
  "addrs_fit n inst \<longleftrightarrow> nat (i_num_eff_addr inst) \<le> length (i_eff_addr inst) \<and> 0 \<le> i_rob_idx inst \<and> i_rob_idx inst < int n"

text \<open>The memory search only changes the addresses of the new instruction and the matrix.\<close>

definition mem_search :: "nat \<Rightarrow> (addr \<rightharpoonup> Inst) \<Rightarrow> addr \<Rightarrow> Inst \<Rightarrow> dep_state \<Rightarrow> bool" where
  "mem_search n h0 b ib st \<longleftrightarrow> (case st of (h, mat, c) \<Rightarrow>
     (\<exists>es. h = h0(b \<mapsto> ib\<lparr>i_eff_addr := es\<rparr>) \<and> length es = length (i_eff_addr ib)) \<and> mat_dim n mat)"

lemma mem_dep_test_ok:
  assumes "h0 a = Some ia" "a \<noteq> b" "addrs_fit n ia" "addrs_fit n ib" "mem_search n h0 b ib st"
    and i: "i < nat (i_num_eff_addr ib)" and j: "j < nat (i_num_eff_addr ia)"
  shows "\<exists>st'. mem_dep_test (Some b) (Some a) i j st = Some st' \<and> mem_search n h0 b ib st'"
proof -
  obtain mat c es where s: "st = (h0(b \<mapsto> ib\<lparr>i_eff_addr := es\<rparr>), mat, c)" "length es = length (i_eff_addr ib)" "mat_dim n mat"
    using assms(5) by (auto simp: mem_search_def)
  have l: "i < length es" "j < length (i_eff_addr ia)" using assms(3,4) i j s(2) by (auto simp: addrs_fit_def)
  let ?es = "es[i := 0]"
  have "set_dependency ia (ib\<lparr>i_eff_addr := es\<rparr>) mat = Some (mat[nat (i_rob_idx ib) := (mat ! nat (i_rob_idx ib))[nat (i_rob_idx ia) := True]])"
    "mat_dim n (mat[nat (i_rob_idx ib) := (mat ! nat (i_rob_idx ib))[nat (i_rob_idx ia) := True]])"
    using mat_set_in [OF s(3), of "nat (i_rob_idx ia)" "nat (i_rob_idx ib)"] assms(3,4) by (auto simp: set_dependency_def addrs_fit_def)
  then show ?thesis
    using s(1,2,3) l assms(1,2) by (auto simp: mem_dep_test_def mem_search_def store_Some)
qed

lemma mem_dep_on_ok:
  assumes "h0 a = Some ia" "a \<noteq> b" "addrs_fit n ia" "addrs_fit n ib" "mem_search n h0 b ib st"
  shows "\<exists>st'. mem_dep_on (Some b) (Some a) st = Some st' \<and> mem_search n h0 b ib st'"
proof -
  have "\<exists>st'. mem_dep_source (Some b) (Some a) i st = Some st' \<and> mem_search n h0 b ib st'"
    if i: "i < nat (i_num_eff_addr ib)" and st: "mem_search n h0 b ib st" for i st
  proof -
    have "\<exists>st'. ofold (mem_dep_test (Some b) (Some a) i) [0..<nat (i_num_eff_addr ia)] st = Some st' \<and> mem_search n h0 b ib st'"
      using st by (rule ofold_ok) (use mem_dep_test_ok [of h0 a, OF assms(1-4)] i in auto)
    moreover obtain mat c es where s: "st = (h0(b \<mapsto> ib\<lparr>i_eff_addr := es\<rparr>), mat, c)" "length es = length (i_eff_addr ib)"
      using st by (auto simp: mem_search_def)
    moreover have "i < length es" using i s(2) assms(4) by (simp add: addrs_fit_def)
    ultimately show ?thesis using st assms(1,2) by (auto simp: mem_dep_source_def simp del: split_paired_Ex)
  qed
  then have "\<exists>st'. ofold (mem_dep_source (Some b) (Some a)) [0..<nat (i_num_eff_addr ib)] st = Some st' \<and> mem_search n h0 b ib st'"
    by (intro ofold_ok [where I = "mem_search n h0 b ib"] assms(5)) simp
  moreover obtain mat c es where "st = (h0(b \<mapsto> ib\<lparr>i_eff_addr := es\<rparr>), mat, c)" using assms(5) by (auto simp: mem_search_def)
  ultimately show ?thesis by (simp add: mem_dep_on_def del: split_paired_Ex)
qed

lemma find_mems_ok:
  assumes r: "rob_insts N s xs rob h" "N \<le> 60" and m: "mat_dim 60 mat" and j: "j < length xs"
    and fit: "\<forall>x\<in>set xs. addrs_fit 60 (the (h x))"
  shows "\<exists>h' mat' c. find_mems_dependency rob (Some (xs ! j)) h mat = Some (h', mat') \<and>
    mem_search 60 h (xs ! j) (the (h (xs ! j))) (h', mat', c)"
proof -
  obtain b where b: "h (xs ! j) = Some b" "i_rob_idx b = int (slot N s j)" using rob_insts_nth [OF r(1) j] by blast
  have bd: "s < N" "j < N" "start_idx rob = int s" using rob_insts_bounds [OF r(1)] j by auto
  have fb: "addrs_fit 60 b" using fit j b by (metis nth_mem option.sel)
  have start: "mem_search 60 h (xs ! j) b (h, mat, c)" for c
    using m b by (auto simp: mem_search_def fun_upd_idem intro!: exI [of _ "i_eff_addr b"])
  show ?thesis
  proof (cases "j = 0")
    case True
    then show ?thesis using b start bd slot_start [OF bd(1,2)] by (auto simp: find_mems_dependency_def)
  next
    case False
    have "\<exists>st'. mem_dep_on (Some (xs ! j)) (Some (xs ! k)) st = Some st' \<and> mem_search 60 h (xs ! j) b st'"
      if kj: "k < j" and st: "mem_search 60 h (xs ! j) b st" for k st
    proof -
      obtain a where "h (xs ! k) = Some a" using rob_insts_nth [OF r(1) order_less_trans [OF kj j]] by blast
      moreover have "xs ! k \<noteq> xs ! j" using r(1) kj j by (simp add: rob_insts_def nth_eq_iff_index_eq)
      moreover have "addrs_fit 60 (the (h (xs ! k)))" using fit kj j by simp
      ultimately show ?thesis using mem_dep_on_ok [of h "xs ! k" a "xs ! j" 60 b st] fb st by simp
    qed
    then have "\<exists>st'. dep_walk (mem_dep_on (Some (xs ! j))) rob (int (slot N s j)) (h, mat, i_num_eff_addr b) = Some st' \<and>
        mem_search 60 h (xs ! j) b st'"
      by (intro dep_walk_rule [where I = "\<lambda>_. mem_search 60 h (xs ! j) b", OF r(1) _ j start]) (use False in auto)
    then show ?thesis using b bd False slot_start [OF bd(1,2)] by (auto simp: find_mems_dependency_def)
  qed
qed

text \<open>
  The counter of the memory search can run out too early. Here the youngest older instruction
  accesses \<open>0x1000\<close> and has a second address that was set to 0 when its own dependency was found;
  the new instruction accesses \<open>0x1000\<close> and \<open>0x2000\<close>. The match on \<open>0x1000\<close> is counted twice, so
  the search stops before it reaches the oldest instruction, which accesses \<open>0x2000\<close>.
\<close>

definition demo_mem_rob :: ROB where
  "demo_mem_rob = \<lparr>rob_entries = Some 5 # Some 6 # Some 7 # replicate 57 None, start_idx = 0, end_idx = 3, rob_size = 3, rob_capacity = 40\<rparr>"

definition demo_mem_heap :: "addr \<rightharpoonup> Inst" where
  "demo_mem_heap = [5 \<mapsto> demo_inst\<lparr>i_num_eff_addr := 1, i_eff_addr := [0x2000, 0], i_rob_idx := 0\<rparr>,
     6 \<mapsto> demo_inst\<lparr>i_num_eff_addr := 2, i_eff_addr := [0x1000, 0], i_rob_idx := 1\<rparr>,
     7 \<mapsto> demo_inst\<lparr>i_num_eff_addr := 2, i_eff_addr := [0x1000, 0x2000], i_rob_idx := 2\<rparr>]"

lemma memory_dependency_missed:
  "map_option (\<lambda>(h, mat). (mat ! 2 ! 0, mat ! 2 ! 1)) (find_mems_dependency demo_mem_rob (Some 7) demo_mem_heap (replicate 3 [False, False, False])) =
     Some (False, True)"
  by code_simp

end
