(* ===== verification/Inst_Queue.thy ===== *)
theory Inst_Queue
  imports Linked_List Ring
begin

text \<open>
  The instruction queues (\<open>trace_analyzer/inst_queue.c\<close>, \<open>inst_queue.h\<close>): doubly linked lists of
  elements that point to instructions, with a size and a capacity (0 for none). Elements come from
  a pool of 5000 made at start, or from \<open>malloc\<close> when the pool is empty. The elements of all queues
  live in one heap; \<open>ElemMem\<close> is that heap with the static \<open>inst_elem_pool\<close>.
\<close>

section \<open>State\<close>

record InstElem =
  e_inst :: ptr
  e_prev :: ptr
  e_next :: ptr

record InstQueue =
  oldest :: ptr
  newest :: ptr
  q_size :: int
  q_capacity :: int

record ElemMem =
  elems :: "addr \<rightharpoonup> InstElem"
  elem_brk :: addr
  inst_elem_pool :: InstQueue

definition inst_elem_pool_size :: int where
  "inst_elem_pool_size = 5000"

text \<open>
  \<open>malloc\<close> returns the next address that was never used. Both callers initialise every field of the
  new element at once, so its first contents do not matter.
\<close>

definition malloc_elem :: "ElemMem \<Rightarrow> addr \<times> ElemMem" where
  "malloc_elem m = (elem_brk m,
     m\<lparr>elems := (elems m)(elem_brk m \<mapsto> \<lparr>e_inst = None, e_prev = None, e_next = None\<rparr>), elem_brk := elem_brk m + 1\<rparr>)"

definition free_elem :: "ptr \<Rightarrow> ElemMem \<Rightarrow> ElemMem option" where
  "free_elem p m = do { _ \<leftarrow> load (elems m) p; a \<leftarrow> p; Some (m\<lparr>elems := (elems m)(a := None)\<rparr>) }"

definition upd_elem :: "ptr \<Rightarrow> (InstElem \<Rightarrow> InstElem) \<Rightarrow> ElemMem \<Rightarrow> ElemMem option" where
  "upd_elem p f m = do { h \<leftarrow> store (elems m) p f; Some (m\<lparr>elems := h\<rparr>) }"

section \<open>Operations\<close>

definition init_inst_elem :: "ptr \<Rightarrow> ptr \<Rightarrow> ElemMem \<Rightarrow> ElemMem option" where
  "init_inst_elem elem inst m = upd_elem elem (\<lambda>e. e\<lparr>e_inst := inst, e_next := None, e_prev := None\<rparr>) m"

definition init_inst_queue :: "int \<Rightarrow> InstQueue" where
  "init_inst_queue initial_capacity = \<lparr>oldest = None, newest = None, q_size = 0, q_capacity = initial_capacity\<rparr>"

definition has_room :: "InstQueue \<Rightarrow> bool" where
  "has_room q \<longleftrightarrow> q_capacity q = 0 \<or> q_size q < q_capacity q"

definition is_full_queue :: "InstQueue \<Rightarrow> bool" where
  "is_full_queue q = (if q_capacity q = 0 then False else q_capacity q \<le> q_size q)"

definition is_empty_queue :: "InstQueue \<Rightarrow> bool" where
  "is_empty_queue q \<longleftrightarrow> q_size q = 0"

definition get_current_queue_size :: "InstQueue \<Rightarrow> int" where
  "get_current_queue_size q = q_size q"

definition front_inst_elem :: "InstQueue \<Rightarrow> ptr" where
  "front_inst_elem q = oldest q"

definition push_back_inst_elem :: "InstQueue \<Rightarrow> ptr \<Rightarrow> ElemMem \<Rightarrow> (ptr \<times> InstQueue \<times> ElemMem) option" where
  "push_back_inst_elem q elem m =
     (if has_room q then do {
        m \<leftarrow> upd_elem elem (e_next_update (\<lambda>_. None)) m;
        m \<leftarrow> upd_elem elem (e_prev_update (\<lambda>_. newest q)) m;
        (q, m) \<leftarrow> (if 0 < q_size q
           then do { m \<leftarrow> upd_elem (newest q) (e_next_update (\<lambda>_. elem)) m; Some (q, m) }
           else Some (q\<lparr>oldest := elem\<rparr>, m));
        Some (elem, q\<lparr>newest := elem, q_size := q_size q + 1\<rparr>, m) }
      else Some (None, q, m))"

text \<open>
  Taking an element out of \<open>queue\<close>. With \<open>push_back_inst_elem_pool\<close> the element goes back to the pool
  when the pool is full, and is freed otherwise, as the code has it.
\<close>

definition remove_from_list :: "InstQueue \<Rightarrow> ptr \<Rightarrow> bool \<Rightarrow> ElemMem \<Rightarrow> (InstQueue \<times> ElemMem) option" where
  "remove_from_list q cur push_back_inst_elem_pool m = do {
     e \<leftarrow> load (elems m) cur;
     m \<leftarrow> (if e_next e = None then Some m else upd_elem (e_next e) (e_prev_update (\<lambda>_. e_prev e)) m);
     e \<leftarrow> load (elems m) cur;
     m \<leftarrow> (if e_prev e = None then Some m else upd_elem (e_prev e) (e_next_update (\<lambda>_. e_next e)) m);
     e \<leftarrow> load (elems m) cur;
     let q = (if oldest q \<noteq> None \<and> oldest q = cur then q\<lparr>oldest := e_next e\<rparr> else q);
     let q = (if newest q \<noteq> None \<and> newest q = cur then q\<lparr>newest := e_prev e\<rparr> else q);
     m \<leftarrow> upd_elem cur (e_next_update (\<lambda>_. None)) m;
     m \<leftarrow> upd_elem cur (e_prev_update (\<lambda>_. None)) m;
     m \<leftarrow> (if push_back_inst_elem_pool
        then if is_full_queue (inst_elem_pool m)
          then do { (_, pool, m) \<leftarrow> push_back_inst_elem (inst_elem_pool m) cur m; Some (m\<lparr>inst_elem_pool := pool\<rparr>) }
          else free_elem cur m
        else Some m);
     Some (q\<lparr>q_size := q_size q - 1\<rparr>, m) }"

definition get_inst_elem_from_pool :: "ElemMem \<Rightarrow> (ptr \<times> ElemMem) option" where
  "get_inst_elem_from_pool m = do {
     (elem, m) \<leftarrow> (case oldest (inst_elem_pool m) of
         Some a \<Rightarrow> do { (pool, m) \<leftarrow> remove_from_list (inst_elem_pool m) (Some a) False m; Some (Some a, m\<lparr>inst_elem_pool := pool\<rparr>) }
       | None \<Rightarrow> (let (a, m) = malloc_elem m in Some (Some a, m)));
     m \<leftarrow> init_inst_elem elem None m;
     Some (elem, m) }"

definition push_back_inst :: "InstQueue \<Rightarrow> ptr \<Rightarrow> ElemMem \<Rightarrow> (ptr \<times> InstQueue \<times> ElemMem) option" where
  "push_back_inst q inst m =
     (if has_room q then do {
        (elem, m) \<leftarrow> get_inst_elem_from_pool m;
        m \<leftarrow> upd_elem elem (\<lambda>e. e\<lparr>e_inst := inst, e_next := None, e_prev := newest q\<rparr>) m;
        (_, q, m) \<leftarrow> push_back_inst_elem q elem m;
        Some (elem, q, m) }
      else Some (None, q, m))"

definition push_front_inst :: "InstQueue \<Rightarrow> ptr \<Rightarrow> ElemMem \<Rightarrow> (InstQueue \<times> ElemMem) option" where
  "push_front_inst q inst m = do {
     (elem, m) \<leftarrow> get_inst_elem_from_pool m;
     m \<leftarrow> upd_elem elem (e_inst_update (\<lambda>_. inst)) m;
     if has_room q then do {
       m \<leftarrow> upd_elem elem (\<lambda>e. e\<lparr>e_next := oldest q, e_prev := None\<rparr>) m;
       (q, m) \<leftarrow> (if 0 < q_size q
          then do { m \<leftarrow> upd_elem (oldest q) (e_prev_update (\<lambda>_. elem)) m; Some (q, m) }
          else Some (q\<lparr>oldest := elem\<rparr>, m));
       Some (q\<lparr>oldest := elem, q_size := q_size q + 1\<rparr>, m) }
     else Some (q, m) }"

definition pop_front_inst_elem :: "InstQueue \<Rightarrow> ElemMem \<Rightarrow> (ptr \<times> InstQueue \<times> ElemMem) option" where
  "pop_front_inst_elem q m =
     (case oldest q of
        Some a \<Rightarrow> do { (q, m) \<leftarrow> remove_from_list q (Some a) True m; Some (Some a, q, m) }
      | None \<Rightarrow> Some (None, q, m))"

definition pop_front_inst :: "InstQueue \<Rightarrow> ElemMem \<Rightarrow> (ptr \<times> InstQueue \<times> ElemMem) option" where
  "pop_front_inst q m =
     (case oldest q of
        Some a \<Rightarrow> do {
          e \<leftarrow> load (elems m) (Some a);
          (q, m) \<leftarrow> remove_from_list q (Some a) True m;
          Some (e_inst e, q, m) }
      | None \<Rightarrow> Some (None, q, m))"

text \<open>\<open>init_inst_elem_pool\<close>: the loop allocates, initialises and appends one element per round.\<close>

definition init_inst_elem_pool_step :: "ElemMem \<Rightarrow> ElemMem option" where
  "init_inst_elem_pool_step m = do {
     let (a, m) = malloc_elem m;
     m \<leftarrow> init_inst_elem (Some a) None m;
     (_, pool, m) \<leftarrow> push_back_inst_elem (inst_elem_pool m) (Some a) m;
     Some (m\<lparr>inst_elem_pool := pool\<rparr>) }"

definition init_inst_elem_pool :: "ElemMem \<Rightarrow> ElemMem option" where
  "init_inst_elem_pool m =
     ofold (\<lambda>_. init_inst_elem_pool_step) [0..<nat inst_elem_pool_size]
       (m\<lparr>inst_elem_pool := init_inst_queue inst_elem_pool_size\<rparr>)"

partial_function (option) destroy_elems :: "ptr \<Rightarrow> InstQueue \<Rightarrow> ElemMem \<Rightarrow> (InstQueue \<times> ElemMem) option" where
  "destroy_elems p q m =
     (if p = None then Some (q, m)
      else do {
        e \<leftarrow> load (elems m) p;
        m \<leftarrow> free_elem p m;
        destroy_elems (e_next e) (q\<lparr>q_size := q_size q - 1\<rparr>) m })"

definition destroy_all_inst_elem_from_queue :: "InstQueue \<Rightarrow> ElemMem \<Rightarrow> (InstQueue \<times> ElemMem) option" where
  "destroy_all_inst_elem_from_queue q m = destroy_elems (oldest q) q m"

definition destroy_inst_elem_pool :: "ElemMem \<Rightarrow> ElemMem option" where
  "destroy_inst_elem_pool m = do {
     (pool, m) \<leftarrow> destroy_all_inst_elem_from_queue (inst_elem_pool m) m;
     Some (m\<lparr>inst_elem_pool := pool\<rparr>) }"

interpretation el: linked e_next e_prev "\<lambda>v. e_next_update (\<lambda>_. v)" "\<lambda>v. e_prev_update (\<lambda>_. v)"
  by unfold_locales simp_all

section \<open>Queues as lists\<close>

text \<open>
  \<open>q_rep m q xs\<close>: the elements of \<open>q\<close>, oldest first, are \<open>xs\<close>. The field \<open>newest\<close> may be \<open>NULL\<close> on a
  queue that is not empty, because \<open>push_front_inst\<close> does not set it; \<open>q_tail\<close> says it is right.
\<close>

definition q_rep :: "ElemMem \<Rightarrow> InstQueue \<Rightarrow> addr list \<Rightarrow> bool" where
  "q_rep m q xs \<longleftrightarrow> dlist e_next e_prev (elems m) (oldest q) (lasto xs None) xs \<and>
     (newest q = lasto xs None \<or> newest q = None) \<and> q_size q = int (length xs)"

definition q_tail :: "InstQueue \<Rightarrow> addr list \<Rightarrow> bool" where
  "q_tail q xs \<longleftrightarrow> newest q = lasto xs None"

definition insts_of :: "ElemMem \<Rightarrow> addr list \<Rightarrow> ptr list" where
  "insts_of m xs = map (\<lambda>a. fld e_inst (elems m) a) xs"

definition pool_rep :: "ElemMem \<Rightarrow> addr list \<Rightarrow> bool" where
  "pool_rep m ps \<longleftrightarrow> q_rep m (inst_elem_pool m) ps \<and> dom (elems m) \<subseteq> {..<elem_brk m}"

lemma q_rep_frame: "q_rep m q xs \<Longrightarrow> (\<And>a. a \<in> set xs \<Longrightarrow> elems m' a = elems m a) \<Longrightarrow> q_rep m' q xs"
  by (auto simp: q_rep_def intro: dlist_frame)

lemma insts_of_frame: "(\<And>a. a \<in> set xs \<Longrightarrow> elems m' a = elems m a) \<Longrightarrow> insts_of m' xs = insts_of m xs"
  by (simp add: insts_of_def fld_def)

lemma q_rep_oldest: "q_rep m q xs \<Longrightarrow> oldest q = hdo xs None"
  by (simp add: q_rep_def dlist_def)

lemma q_rep_dom: "q_rep m q xs \<Longrightarrow> set xs \<subseteq> dom (elems m)"
  by (simp add: q_rep_def dlist_def)

lemma q_rep_distinct: "q_rep m q xs \<Longrightarrow> distinct xs"
  by (simp add: q_rep_def dlist_def)

lemma q_rep_room: "q_rep m q xs \<Longrightarrow> has_room q \<longleftrightarrow> q_capacity q = 0 \<or> int (length xs) < q_capacity q"
  by (simp add: q_rep_def has_room_def)

lemma full_no_room: "is_full_queue q \<longleftrightarrow> \<not> has_room q"
  by (auto simp: is_full_queue_def has_room_def)

lemma q_rep_init: "q_rep m (init_inst_queue c) []" "q_tail (init_inst_queue c) []"
  by (simp_all add: q_rep_def q_tail_def init_inst_queue_def)

subsection \<open>Taking an element out\<close>

definition unlinked :: "(addr \<rightharpoonup> InstElem) \<Rightarrow> addr list \<Rightarrow> addr \<Rightarrow> addr list \<Rightarrow> (addr \<rightharpoonup> InstElem)" where
  "unlinked h as a cs = (el.relink_prev (el.relink_next h (lasto as None) (hdo cs None)) (hdo cs None) (lasto as None))
     (a \<mapsto> (the (h a))\<lparr>e_next := None, e_prev := None\<rparr>)"

definition dequeued :: "addr list \<Rightarrow> addr \<Rightarrow> addr list \<Rightarrow> InstQueue \<Rightarrow> InstQueue" where
  "dequeued as a cs q =
     (let q = (if oldest q = Some a then q\<lparr>oldest := hdo cs None\<rparr> else q);
          q = (if newest q = Some a then q\<lparr>newest := lasto as None\<rparr> else q)
      in q\<lparr>q_size := q_size q - 1\<rparr>)"

lemma hdo_subset: "set_option (hdo xs None) \<subseteq> set xs"
  by (cases xs) auto

lemma lasto_subset: "set_option (lasto xs None) \<subseteq> set xs"
  using lasto_in [of xs] by (cases "lasto xs None") auto

lemma upd_relink:
  "set_option p \<subseteq> dom (elems m) \<Longrightarrow> (if p = None then Some m else upd_elem p (e_prev_update (\<lambda>_. v)) m) =
     Some (m\<lparr>elems := el.relink_prev (elems m) p v\<rparr>)"
  "set_option p \<subseteq> dom (elems m) \<Longrightarrow> (if p = None then Some m else upd_elem p (e_next_update (\<lambda>_. v)) m) =
     Some (m\<lparr>elems := el.relink_next (elems m) p v\<rparr>)"
  by (cases p; simp add: upd_elem_def el.store_relink)+

lemma remove_unlinks:
  assumes dl: "dlist e_next e_prev (elems m) f l (as @ a # cs)"
  shows "remove_from_list q (Some a) pb m = do {
     m \<leftarrow> (if pb
        then if is_full_queue (inst_elem_pool m)
          then do { (_, pool, m) \<leftarrow> push_back_inst_elem (inst_elem_pool m) (Some a) (m\<lparr>elems := unlinked (elems m) as a cs\<rparr>);
            Some (m\<lparr>inst_elem_pool := pool\<rparr>) }
          else free_elem (Some a) (m\<lparr>elems := unlinked (elems m) as a cs\<rparr>)
        else Some (m\<lparr>elems := unlinked (elems m) as a cs\<rparr>));
     Some (dequeued as a cs q, m) }"
proof -
  let ?h = "elems m"
  have d: "distinct (as @ a # cs)" "set as \<subseteq> dom ?h" "set cs \<subseteq> dom ?h" "a \<in> dom ?h"
    using dl by (auto simp: dlist_def)
  then obtain n where n: "?h a = Some n" by blast
  have nf: "e_prev n = lasto as None" "e_next n = hdo cs None" using dlist_split_fields [OF dl n] by auto
  have pn: "lasto as None \<noteq> Some a" "hdo cs None \<noteq> Some a" "lasto as None = None \<or> lasto as None \<noteq> hdo cs None"
    using d(1) lasto_in [of as] hdo_in [of cs] by fastforce+
  let ?h1 = "el.relink_prev ?h (hdo cs None) (lasto as None)"
  let ?h2 = "el.relink_next ?h1 (lasto as None) (hdo cs None)"
  have u1: "(if hdo cs None = None then Some m else upd_elem (hdo cs None) (e_prev_update (\<lambda>_. lasto as None)) m) = Some (m\<lparr>elems := ?h1\<rparr>)"
    by (intro upd_relink order_trans [OF hdo_subset d(3)])
  have dom1: "dom ?h1 = dom ?h" by (intro el.dom_relink order_trans [OF hdo_subset d(3)])
  have u2: "(if lasto as None = None then Some (m\<lparr>elems := ?h1\<rparr>) else upd_elem (lasto as None) (e_next_update (\<lambda>_. hdo cs None)) (m\<lparr>elems := ?h1\<rparr>)) = Some (m\<lparr>elems := ?h2\<rparr>)"
    using upd_relink(2) [of "lasto as None" "m\<lparr>elems := ?h1\<rparr>"] order_trans [OF lasto_subset d(2)] dom1 by simp
  have a: "?h1 a = Some n" "?h2 a = Some n" using n pn by (simp_all add: el.relink_frame)
  have "?h2 = el.relink_prev (el.relink_next ?h (lasto as None) (hdo cs None)) (hdo cs None) (lasto as None)"
    using pn(3) by (cases "lasto as None = hdo cs None") (auto simp: el.relink_commute)
  then have h: "?h2(a \<mapsto> n\<lparr>e_next := None, e_prev := None\<rparr>) = unlinked ?h as a cs"
    using n by (simp add: unlinked_def)
  have some: "(p \<noteq> None \<and> p = Some a) \<longleftrightarrow> p = Some a" for p :: ptr by auto
  show ?thesis
    unfolding remove_from_list_def some using n nf u1 u2 a h
    by (simp add: upd_elem_def [of "Some a"] store_Some dequeued_def Let_def
        del: hdo_None_iff lasto_None_iff split del: if_split cong: if_cong)
qed

lemma unlinked_dlist:
  assumes "dlist e_next e_prev h f l (as @ a # cs)"
  shows "dlist e_next e_prev (unlinked h as a cs) (hdo (as @ cs) None) (lasto (as @ cs) None) (as @ cs)"
  unfolding unlinked_def using assms by (intro dlist_frame_upd el.dlist_unlink) (auto simp: dlist_def)

lemma unlinked_frame:
  assumes "dlist e_next e_prev h f l (as @ a # cs)" "b \<notin> set (as @ a # cs)"
  shows "unlinked h as a cs b = h b"
proof -
  have "lasto as None \<noteq> Some b" "hdo cs None \<noteq> Some b" using assms(2) lasto_in [of as b] hdo_in [of cs b] by auto
  then show ?thesis using assms(2) by (simp add: unlinked_def el.relink_frame)
qed

lemma fld_inst_relink:
  "set_option p \<subseteq> dom h \<Longrightarrow> fld e_inst (el.relink_next h p v) = fld e_inst h"
  "set_option p \<subseteq> dom h \<Longrightarrow> fld e_inst (el.relink_prev h p v) = fld e_inst h"
  by (auto simp: el.relink_next_def el.relink_prev_def fld_def fun_eq_iff split: option.splits)

lemma unlinked_more:
  assumes dl: "dlist e_next e_prev h f l (as @ a # cs)"
  shows "fld e_inst (unlinked h as a cs) = fld e_inst h" "dom (unlinked h as a cs) = dom h"
    "unlinked h as a cs a = Some ((the (h a))\<lparr>e_next := None, e_prev := None\<rparr>)"
proof -
  have d: "set_option (lasto as None) \<subseteq> dom h" "set_option (hdo cs None) \<subseteq> dom h" "a \<in> dom h"
    using dl order_trans [OF lasto_subset [of as], of "dom h"] order_trans [OF hdo_subset [of cs], of "dom h"]
    by (simp_all add: dlist_def)
  have d1: "dom (el.relink_next h (lasto as None) (hdo cs None)) = dom h" using d by (intro el.dom_relink)
  show "fld e_inst (unlinked h as a cs) = fld e_inst h"
    using d d1 by (auto simp: unlinked_def fld_inst_relink) (auto simp: fld_def fun_eq_iff)
  show "dom (unlinked h as a cs) = dom h" using d d1 by (auto simp: unlinked_def el.dom_relink)
  show "unlinked h as a cs a = Some ((the (h a))\<lparr>e_next := None, e_prev := None\<rparr>)" by (simp add: unlinked_def)
qed

lemma dequeued_fields:
  assumes "q_rep m q (as @ a # cs)"
  shows "oldest (dequeued as a cs q) = hdo (as @ cs) None" "q_size (dequeued as a cs q) = int (length (as @ cs))"
    "newest (dequeued as a cs q) = lasto (as @ cs) None \<or> newest (dequeued as a cs q) = None"
    "q_capacity (dequeued as a cs q) = q_capacity q"
    "q_tail q (as @ a # cs) \<Longrightarrow> q_tail (dequeued as a cs q) (as @ cs)"
proof -
  have q: "distinct (as @ a # cs)" "oldest q = hdo (as @ a # cs) None" "q_size q = int (length (as @ a # cs))"
    "newest q = lasto (as @ a # cs) None \<or> newest q = None" using assms by (auto simp: q_rep_def dlist_def)
  show "oldest (dequeued as a cs q) = hdo (as @ cs) None" using q(1,2) by (cases as) (auto simp: dequeued_def Let_def)
  show "q_size (dequeued as a cs q) = int (length (as @ cs))" using q(3) by (simp add: dequeued_def Let_def)
  show "newest (dequeued as a cs q) = lasto (as @ cs) None \<or> newest (dequeued as a cs q) = None"
    using q(1,4) last_in_set [of cs] by (cases "cs = []") (auto simp: dequeued_def Let_def lasto_nonempty)
  show "q_capacity (dequeued as a cs q) = q_capacity q" by (simp add: dequeued_def Let_def)
  show "q_tail (dequeued as a cs q) (as @ cs)" if "q_tail q (as @ a # cs)"
    using that q(1) last_in_set [of cs] by (cases "cs = []") (auto simp: dequeued_def Let_def q_tail_def lasto_nonempty)
qed

text \<open>\<open>keeps S m m'\<close>: between the two states only elements in \<open>S\<close> changed.\<close>

definition keeps :: "addr set \<Rightarrow> ElemMem \<Rightarrow> ElemMem \<Rightarrow> bool" where
  "keeps S m m' \<longleftrightarrow> (\<forall>b. b \<notin> S \<longrightarrow> elems m' b = elems m b)"

lemma keeps_q_rep: "keeps S m m' \<Longrightarrow> q_rep m q xs \<Longrightarrow> set xs \<inter> S = {} \<Longrightarrow> q_rep m' q xs"
  by (erule q_rep_frame) (auto simp: keeps_def)

lemma keeps_insts: "keeps S m m' \<Longrightarrow> set xs \<inter> S = {} \<Longrightarrow> insts_of m' xs = insts_of m xs"
  by (rule insts_of_frame) (auto simp: keeps_def)

lemma keeps_trans: "keeps S m m' \<Longrightarrow> keeps S' m' m'' \<Longrightarrow> keeps (S \<union> S') m m''"
  by (simp add: keeps_def)

lemma keeps_mono: "keeps S m m' \<Longrightarrow> S \<subseteq> S' \<Longrightarrow> keeps S' m m'"
  by (auto simp: keeps_def)

lemma q_rep_dequeued:
  assumes "q_rep m q (as @ a # cs)" "\<And>b. b \<in> set (as @ cs) \<Longrightarrow> elems m' b = unlinked (elems m) as a cs b"
  shows "q_rep m' (dequeued as a cs q) (as @ cs)"
proof -
  have "dlist e_next e_prev (elems m) (oldest q) (lasto (as @ a # cs) None) (as @ a # cs)" using assms(1) by (simp add: q_rep_def)
  then have "dlist e_next e_prev (elems m') (hdo (as @ cs) None) (lasto (as @ cs) None) (as @ cs)"
    using unlinked_dlist assms(2) dlist_frame by blast
  then show ?thesis using dequeued_fields [OF assms(1)] by (simp add: q_rep_def)
qed

text \<open>
  Taking an element out of a queue and giving it up: the pool stays as it is. The element is
  freed, except when the pool is full, where it stays allocated.
\<close>

lemma remove_rep:
  assumes q: "q_rep m q (as @ a # cs)"
  shows "\<exists>m'. remove_from_list q (Some a) True m = Some (dequeued as a cs q, m') \<and>
    q_rep m' (dequeued as a cs q) (as @ cs) \<and> insts_of m' (as @ cs) = insts_of m (as @ cs) \<and>
    keeps (set (as @ a # cs)) m m' \<and> inst_elem_pool m' = inst_elem_pool m \<and> elem_brk m' = elem_brk m \<and>
    dom (elems m') \<subseteq> dom (elems m) \<and>
    elems m' a = (if is_full_queue (inst_elem_pool m) then Some ((the (elems m a))\<lparr>e_next := None, e_prev := None\<rparr>) else None)"
proof -
  have dl: "dlist e_next e_prev (elems m) (oldest q) (lasto (as @ a # cs) None) (as @ a # cs)" using q by (simp add: q_rep_def)
  have ne: "a \<notin> set (as @ cs)" using q_rep_distinct [OF q] by simp
  let ?h = "unlinked (elems m) as a cs"
  let ?h' = "if is_full_queue (inst_elem_pool m) then ?h else ?h(a := None)"
  let ?m = "m\<lparr>elems := ?h'\<rparr>"
  have "remove_from_list q (Some a) True m = Some (dequeued as a cs q, ?m)"
    using unlinked_more(3) [OF dl] by (simp add: remove_unlinks [OF dl] push_back_inst_elem_def full_no_room free_elem_def)
  moreover have "q_rep ?m (dequeued as a cs q) (as @ cs)"
    by (rule q_rep_dequeued [OF q]) (use ne in auto)
  moreover have "insts_of ?m (as @ cs) = insts_of m (as @ cs)"
    using unlinked_more(1) [OF dl] ne by (auto simp: insts_of_def)
  moreover have "keeps (set (as @ a # cs)) m ?m"
    using unlinked_frame [OF dl] by (auto simp: keeps_def)
  moreover have "dom (elems ?m) \<subseteq> dom (elems m)" using unlinked_more(2) [OF dl] by auto
  moreover have "elems ?m a = (if is_full_queue (inst_elem_pool m) then Some ((the (elems m a))\<lparr>e_next := None, e_prev := None\<rparr>) else None)"
    using unlinked_more(3) [OF dl] by simp
  moreover have "inst_elem_pool ?m = inst_elem_pool m" "elem_brk ?m = elem_brk m" by simp_all
  ultimately show ?thesis by blast
qed

lemma pop_front_rep:
  assumes q: "q_rep m q (a # xs)"
  shows "\<exists>q' m'. pop_front_inst q m = Some (fld e_inst (elems m) a, q', m') \<and>
    q_rep m' q' xs \<and> (q_tail q (a # xs) \<longrightarrow> q_tail q' xs) \<and> q_capacity q' = q_capacity q \<and> insts_of m' xs = insts_of m xs \<and>
    keeps (set (a # xs)) m m' \<and> inst_elem_pool m' = inst_elem_pool m \<and> elem_brk m' = elem_brk m \<and> dom (elems m') \<subseteq> dom (elems m)"
proof -
  obtain m' where m': "remove_from_list q (Some a) True m = Some (dequeued [] a xs q, m')" "q_rep m' (dequeued [] a xs q) xs"
    "insts_of m' xs = insts_of m xs" "keeps (set (a # xs)) m m'" "inst_elem_pool m' = inst_elem_pool m"
    "elem_brk m' = elem_brk m" "dom (elems m') \<subseteq> dom (elems m)"
    using remove_rep [of m q "[]" a xs] q by auto
  obtain e where e: "elems m a = Some e" using q_rep_dom [OF q] by auto
  have "pop_front_inst q m = Some (fld e_inst (elems m) a, dequeued [] a xs q, m')"
    using q_rep_oldest [OF q] e m'(1) by (simp add: pop_front_inst_def fld_in)
  then show ?thesis
    using m' dequeued_fields(4,5) [of m q "[]" a xs] q by (intro exI [of _ "dequeued [] a xs q"] exI [of _ m']) simp
qed

subsection \<open>Elements from the pool\<close>

definition pool_front :: "ElemMem \<Rightarrow> addr list \<Rightarrow> addr" where
  "pool_front m ps = (case ps of [] \<Rightarrow> elem_brk m | p # _ \<Rightarrow> p)"

lemma init_inst_elem_in:
  "elems m a = Some e \<Longrightarrow> init_inst_elem (Some a) i m =
     Some (m\<lparr>elems := (elems m)(a \<mapsto> \<lparr>e_inst = i, e_prev = None, e_next = None\<rparr>)\<rparr>)"
  by (cases e) (simp add: init_inst_elem_def upd_elem_def store_Some)

lemma pool_front_fresh: "pool_rep m ps \<Longrightarrow> pool_front m ps \<in> set ps \<or> pool_front m ps \<notin> dom (elems m)"
  by (cases ps) (auto simp: pool_front_def pool_rep_def)

lemma get_elem_rep:
  assumes p: "pool_rep m ps"
  shows "\<exists>m'. get_inst_elem_from_pool m = Some (Some (pool_front m ps), m') \<and>
    elems m' (pool_front m ps) = Some \<lparr>e_inst = None, e_prev = None, e_next = None\<rparr> \<and>
    pool_rep m' (tl ps) \<and> keeps (insert (pool_front m ps) (set ps)) m m'"
proof (cases ps)
  case Nil
  let ?m = "(snd (malloc_elem m))\<lparr>elems := (elems m)(elem_brk m \<mapsto> \<lparr>e_inst = None, e_prev = None, e_next = None\<rparr>)\<rparr>"
  have o: "oldest (inst_elem_pool m) = None" "q_rep m (inst_elem_pool m) []" "dom (elems m) \<subseteq> {..<elem_brk m}"
    using p Nil by (auto simp: pool_rep_def q_rep_def)
  have "get_inst_elem_from_pool m = Some (Some (elem_brk m), ?m)"
    using o(1) by (simp add: get_inst_elem_from_pool_def malloc_elem_def init_inst_elem_in)
  moreover have "pool_rep ?m []"
    using o by (auto simp: pool_rep_def malloc_elem_def q_rep_def)
  ultimately show ?thesis using Nil by (simp add: pool_front_def keeps_def malloc_elem_def)
next
  case (Cons a qs)
  have q: "q_rep m (inst_elem_pool m) ([] @ a # qs)" and b: "dom (elems m) \<subseteq> {..<elem_brk m}" using p Cons by (auto simp: pool_rep_def)
  have dl: "dlist e_next e_prev (elems m) (oldest (inst_elem_pool m)) (lasto ([] @ a # qs) None) ([] @ a # qs)"
    using q by (simp add: q_rep_def)
  let ?h = "(unlinked (elems m) [] a qs)(a \<mapsto> \<lparr>e_inst = None, e_prev = None, e_next = None\<rparr>)"
  let ?m = "m\<lparr>elems := ?h, inst_elem_pool := dequeued [] a qs (inst_elem_pool m)\<rparr>"
  have "get_inst_elem_from_pool m = Some (Some a, ?m)"
    using q_rep_oldest [OF q] unlinked_more(3) [OF dl]
    by (simp add: get_inst_elem_from_pool_def remove_unlinks [OF dl] init_inst_elem_in)
  moreover have "q_rep ?m (dequeued [] a qs (inst_elem_pool m)) ([] @ qs)"
    by (rule q_rep_dequeued [OF q]) (use q_rep_distinct [OF q] in auto)
  then have "pool_rep ?m qs"
    using b unlinked_more(2) [OF dl] q_rep_dom [OF q] by (auto simp: pool_rep_def)
  moreover have "keeps (set ps) m ?m" using unlinked_frame [OF dl] Cons by (simp add: keeps_def)
  ultimately show ?thesis using Cons by (simp add: pool_front_def insert_absorb)
qed

lemma pool_rep_frame:
  assumes "pool_rep m ps" "keeps S m m'" "S \<inter> set ps = {}" "inst_elem_pool m' = inst_elem_pool m"
    "elem_brk m' = elem_brk m" "dom (elems m') \<subseteq> dom (elems m)"
  shows "pool_rep m' ps"
  using assms keeps_q_rep [of S m m' "inst_elem_pool m" ps] by (auto simp: pool_rep_def)

subsection \<open>Adding an element\<close>

lemma fld_inst_upd: "elems m a = Some e \<Longrightarrow> e_inst e' = e_inst e \<Longrightarrow> fld e_inst ((elems m)(a \<mapsto> e')) = fld e_inst (elems m)"
  by (auto simp: fld_def fun_eq_iff)

lemma push_back_elem_rep:
  assumes q: "q_rep m q xs" "q_tail q xs" and a: "a \<notin> set xs" "elems m a = Some e" and room: "has_room q"
  shows "\<exists>q' h'. push_back_inst_elem q (Some a) m = Some (Some a, q', m\<lparr>elems := h'\<rparr>) \<and>
    q_rep (m\<lparr>elems := h'\<rparr>) q' (xs @ [a]) \<and> q_tail q' (xs @ [a]) \<and> q_capacity q' = q_capacity q \<and>
    fld e_inst h' = fld e_inst (elems m) \<and> dom h' = dom (elems m) \<and> keeps (insert a (set xs)) m (m\<lparr>elems := h'\<rparr>)"
proof -
  have l: "newest q = lasto xs None" using q(2) by (simp add: q_tail_def)
  have dl: "dlist e_next e_prev (elems m) (oldest q) (newest q) xs" and sz: "q_size q = int (length xs)"
    using q(1) l by (simp_all add: q_rep_def)
  define e' where "e' = e\<lparr>e_next := None, e_prev := newest q\<rparr>"
  define h1 where "h1 = (elems m)(a \<mapsto> e')"
  define h' where "h' = el.relink_next h1 (newest q) (Some a)"
  have d1: "set_option (newest q) \<subseteq> dom h1"
    using order_trans [OF lasto_subset [of xs], of "dom h1"] dl l by (auto simp: dlist_def h1_def)
  let ?q = "if xs = [] then q\<lparr>oldest := Some a, newest := Some a, q_size := 1\<rparr> else q\<lparr>newest := Some a, q_size := q_size q + 1\<rparr>"
  have "upd_elem (newest q) (e_next_update (\<lambda>_. Some a)) (m\<lparr>elems := h1\<rparr>) = Some (m\<lparr>elems := h'\<rparr>)" if "xs \<noteq> []"
    using upd_relink(2) [of "newest q" "m\<lparr>elems := h1\<rparr>" "Some a"] d1 that l by (simp add: h'_def)
  moreover have "h1 = h'" if "xs = []" using that l by (simp add: h'_def)
  ultimately have "push_back_inst_elem q (Some a) m = Some (Some a, ?q, m\<lparr>elems := h'\<rparr>)"
    using room a(2) sz by (auto simp: push_back_inst_elem_def upd_elem_def [of "Some a"] store_Some h1_def e'_def)
  moreover have "dlist e_next e_prev h' (hdo (xs @ [a]) None) (Some a) (xs @ [a])"
    using el.dlist_link_back [OF dl a(1), of e'] by (simp add: h'_def h1_def e'_def)
  then have "q_rep (m\<lparr>elems := h'\<rparr>) ?q (xs @ [a])" "q_tail ?q (xs @ [a])"
    using sz q_rep_oldest [OF q(1)] by (auto simp: q_rep_def q_tail_def hdo_nonempty)
  moreover have "fld e_inst h' = fld e_inst (elems m)"
    using fld_inst_relink(1) [OF d1] fld_inst_upd [OF a(2), of e'] by (simp add: h'_def h1_def e'_def)
  moreover have "dom h' = dom (elems m)" using el.dom_relink(1) [OF d1] a(2) by (auto simp: h'_def h1_def)
  moreover have "keeps (insert a (set xs)) m (m\<lparr>elems := h'\<rparr>)"
    using lasto_subset [of xs] l by (auto simp: keeps_def h'_def h1_def el.relink_next_def split: option.splits)
  ultimately show ?thesis by (intro exI [of _ ?q] exI [of _ h']) simp
qed

lemma push_back_rep:
  assumes p: "pool_rep m ps" and q: "q_rep m q xs" "q_tail q xs" and d: "set xs \<inter> set ps = {}" and room: "has_room q"
  shows "\<exists>q' m'. push_back_inst q i m = Some (Some (pool_front m ps), q', m') \<and>
    q_rep m' q' (xs @ [pool_front m ps]) \<and> q_tail q' (xs @ [pool_front m ps]) \<and> q_capacity q' = q_capacity q \<and>
    insts_of m' (xs @ [pool_front m ps]) = insts_of m xs @ [i] \<and>
    pool_rep m' (tl ps) \<and> keeps (insert (pool_front m ps) (set xs \<union> set ps)) m m'"
proof -
  let ?a = "pool_front m ps"
  obtain m1 where m1: "get_inst_elem_from_pool m = Some (Some ?a, m1)"
    "elems m1 ?a = Some \<lparr>e_inst = None, e_prev = None, e_next = None\<rparr>" "pool_rep m1 (tl ps)" "keeps (insert ?a (set ps)) m m1"
    using get_elem_rep [OF p] by blast
  have a: "?a \<notin> set xs" using pool_front_fresh [OF p] d q_rep_dom [OF q(1)] by auto
  have atl: "?a \<notin> set (tl ps)" using p m1(3) q_rep_dom by (cases ps) (auto simp: pool_front_def pool_rep_def dest: q_rep_distinct)
  define m2 where "m2 = m1\<lparr>elems := (elems m1)(?a \<mapsto> \<lparr>e_inst = i, e_prev = newest q, e_next = None\<rparr>)\<rparr>"
  have u: "upd_elem (Some ?a) (\<lambda>e. e\<lparr>e_inst := i, e_next := None, e_prev := newest q\<rparr>) m1 = Some m2"
    using m1(2) by (simp add: upd_elem_def store_Some m2_def)
  have k2: "keeps (insert ?a (set ps)) m m2" using m1(4) by (simp add: keeps_def m2_def)
  have q2: "q_rep m2 q xs" using keeps_q_rep [OF k2 q(1)] a d by auto
  obtain q' h' where h: "push_back_inst_elem q (Some ?a) m2 = Some (Some ?a, q', m2\<lparr>elems := h'\<rparr>)"
    "q_rep (m2\<lparr>elems := h'\<rparr>) q' (xs @ [?a])" "q_tail q' (xs @ [?a])" "q_capacity q' = q_capacity q"
    "fld e_inst h' = fld e_inst (elems m2)" "dom h' = dom (elems m2)" "keeps (insert ?a (set xs)) m2 (m2\<lparr>elems := h'\<rparr>)"
    using push_back_elem_rep [OF q2 q(2) a _ room] by (auto simp: m2_def)
  let ?m = "m2\<lparr>elems := h'\<rparr>"
  have "push_back_inst q i m = Some (Some ?a, q', ?m)" using room m1(1) u h(1) by (simp add: push_back_inst_def)
  moreover have "insts_of ?m (xs @ [?a]) = insts_of m xs @ [i]"
    using keeps_insts [OF k2, of xs] a d h(5) by (auto simp: insts_of_def m2_def)
  moreover have "pool_rep m2 (tl ps)"
    using m1(2,3) keeps_q_rep [of "{?a}" m1 m2 _ "tl ps"] atl by (auto simp: pool_rep_def m2_def keeps_def)
  then have "pool_rep ?m (tl ps)"
    using pool_rep_frame [OF _ h(7)] atl d h(6) by (cases ps) auto
  moreover have "keeps (insert ?a (set xs \<union> set ps)) m ?m"
    using keeps_trans [OF k2 h(7)] by (rule keeps_mono) auto
  ultimately show ?thesis using h(2,3,4) by blast
qed

lemma push_front_rep:
  assumes p: "pool_rep m ps" and q: "q_rep m q xs" and d: "set xs \<inter> set ps = {}" and room: "has_room q"
  shows "\<exists>q' m'. push_front_inst q i m = Some (q', m') \<and>
    q_rep m' q' (pool_front m ps # xs) \<and> newest q' = newest q \<and> q_capacity q' = q_capacity q \<and>
    insts_of m' (pool_front m ps # xs) = i # insts_of m xs \<and>
    pool_rep m' (tl ps) \<and> keeps (insert (pool_front m ps) (set xs \<union> set ps)) m m'"
proof -
  let ?a = "pool_front m ps"
  obtain m1 where m1: "get_inst_elem_from_pool m = Some (Some ?a, m1)"
    "elems m1 ?a = Some \<lparr>e_inst = None, e_prev = None, e_next = None\<rparr>" "pool_rep m1 (tl ps)" "keeps (insert ?a (set ps)) m m1"
    using get_elem_rep [OF p] by blast
  have a: "?a \<notin> set xs" using pool_front_fresh [OF p] d q_rep_dom [OF q] by auto
  have atl: "?a \<notin> set (tl ps)" using p m1(3) q_rep_dom by (cases ps) (auto simp: pool_front_def pool_rep_def dest: q_rep_distinct)
  have q1: "q_rep m1 q xs" using keeps_q_rep [OF m1(4) q] a d by auto
  have dl: "dlist e_next e_prev (elems m1) (oldest q) (lasto xs None) xs" and sz: "q_size q = int (length xs)"
    using q1 by (simp_all add: q_rep_def)
  define e' where "e' = \<lparr>e_inst = i, e_prev = None, e_next = oldest q\<rparr>"
  define h1 where "h1 = (elems m1)(?a \<mapsto> e')"
  define h' where "h' = el.relink_prev h1 (oldest q) (Some ?a)"
  let ?m = "m1\<lparr>elems := h'\<rparr>"
  let ?q = "q\<lparr>oldest := Some ?a, q_size := q_size q + 1\<rparr>"
  have o: "oldest q = hdo xs None" by (rule q_rep_oldest [OF q])
  have d1: "set_option (oldest q) \<subseteq> dom h1"
    using order_trans [OF hdo_subset [of xs], of "dom h1"] dl o by (auto simp: dlist_def h1_def)
  have "upd_elem (oldest q) (e_prev_update (\<lambda>_. Some ?a)) (m1\<lparr>elems := h1\<rparr>) = Some ?m" if "xs \<noteq> []"
    using upd_relink(1) [of "oldest q" "m1\<lparr>elems := h1\<rparr>" "Some ?a"] d1 that o by (simp add: h'_def)
  moreover have "h1 = h'" if "xs = []" using that o by (simp add: h'_def)
  ultimately have "push_front_inst q i m = Some (?q, ?m)"
    using room m1(1,2) sz by (auto simp: push_front_inst_def upd_elem_def [of "Some ?a"] store_Some h1_def e'_def)
  moreover have "q_rep ?m ?q (?a # xs)"
    using el.dlist_link_front [OF dl a, of e'] q1
    by (cases "xs = []") (auto simp: q_rep_def h'_def h1_def e'_def lasto_nonempty)
  moreover have k: "keeps (insert ?a (set xs)) m1 ?m"
    using hdo_subset [of xs] o by (auto simp: keeps_def h'_def h1_def el.relink_prev_def split: option.splits)
  have "insts_of ?m (?a # xs) = i # insts_of m xs"
    using keeps_insts [OF m1(4), of xs] a d fld_inst_relink(2) [OF d1, of "Some ?a"]
    by (auto simp: insts_of_def h'_def h1_def e'_def)
  moreover have "dom h' = dom (elems m1)" using el.dom_relink(2) [OF d1] m1(2) by (auto simp: h'_def h1_def)
  then have "pool_rep ?m (tl ps)"
    using pool_rep_frame [OF m1(3) k] atl d by (cases ps) auto
  moreover have "keeps (insert ?a (set xs \<union> set ps)) m ?m"
    using keeps_trans [OF m1(4) k] by (rule keeps_mono) auto
  ultimately show ?thesis by (intro exI [of _ ?q] exI [of _ ?m]) simp
qed

subsection \<open>The pool at start and the end of a queue\<close>

lemma init_pool_rep:
  assumes "elems m = Map.empty" "elem_brk m = 0"
  shows "\<exists>m'. init_inst_elem_pool m = Some m' \<and> pool_rep m' [0..<5000]"
proof -
  define I where "I = (\<lambda>n m'. pool_rep m' [0..<n] \<and> q_tail (inst_elem_pool m') [0..<n] \<and>
    q_capacity (inst_elem_pool m') = 5000 \<and> elem_brk m' = n)"
  have "\<exists>m'. ofold (\<lambda>_. init_inst_elem_pool_step) [0..<5000] (m\<lparr>inst_elem_pool := init_inst_queue 5000\<rparr>) = Some m' \<and> I 5000 m'"
  proof (rule ofold_upt)
    show "I 0 (m\<lparr>inst_elem_pool := init_inst_queue 5000\<rparr>)"
      using assms q_rep_init by (simp add: I_def pool_rep_def) (simp add: init_inst_queue_def)
    fix n and s :: ElemMem
    assume n: "n < 5000" and i: "I n s"
    let ?b = "\<lparr>e_inst = None, e_prev = None, e_next = None\<rparr>"
    define s1 where "s1 = s\<lparr>elem_brk := n + 1, elems := (elems s)(n \<mapsto> ?b)\<rparr>"
    have s1: "q_rep s1 (inst_elem_pool s) [0..<n]" "q_tail (inst_elem_pool s) [0..<n]" "q_capacity (inst_elem_pool s) = 5000"
      "dom (elems s1) \<subseteq> {..<n + 1}" "elems s1 n = Some ?b"
      using i q_rep_frame [of s "inst_elem_pool s" "[0..<n]" s1] by (auto simp: I_def pool_rep_def s1_def)
    have "has_room (inst_elem_pool s)" using n q_rep_room [OF s1(1)] s1(3) by simp
    then obtain q' h' where h: "push_back_inst_elem (inst_elem_pool s) (Some n) s1 = Some (Some n, q', s1\<lparr>elems := h'\<rparr>)"
      "q_rep (s1\<lparr>elems := h'\<rparr>) q' ([0..<n] @ [n])" "q_tail q' ([0..<n] @ [n])" "q_capacity q' = 5000" "dom h' = dom (elems s1)"
      using push_back_elem_rep [OF s1(1,2) _ s1(5)] s1(3) by auto
    have "init_inst_elem_pool_step s = Some (s1\<lparr>elems := h', inst_elem_pool := q'\<rparr>)"
      using i h(1) by (simp add: init_inst_elem_pool_step_def malloc_elem_def init_inst_elem_in I_def s1_def)
    moreover have "I (Suc n) (s1\<lparr>elems := h', inst_elem_pool := q'\<rparr>)"
      using h s1(4) by (auto simp: I_def pool_rep_def q_rep_def s1_def)
    ultimately show "\<exists>s'. init_inst_elem_pool_step s = Some s' \<and> I (Suc n) s'" by blast
  qed
  then show ?thesis by (auto simp: init_inst_elem_pool_def inst_elem_pool_size_def I_def)
qed

lemma destroy_elems_rep:
  "dseg (fld e_next (elems m)) pv p xs None \<Longrightarrow> set xs \<subseteq> dom (elems m) \<Longrightarrow> distinct xs \<Longrightarrow>
   destroy_elems (hdo xs None) q m =
     Some (q\<lparr>q_size := q_size q - int (length xs)\<rparr>, m\<lparr>elems := elems m |` (- set xs)\<rparr>)"
proof (induction xs arbitrary: p m q)
  case Nil
  show ?case by (simp add: destroy_elems.simps)
next
  case (Cons a xs)
  then obtain e where e: "elems m a = Some e" by auto
  have nx: "e_next e = hdo xs None" using Cons.prems fld_in [of "elems m" a e e_next] e by simp
  let ?m = "m\<lparr>elems := (elems m)(a := None)\<rparr>"
  have "dseg (fld e_next (elems ?m)) pv (Some a) xs None = dseg (fld e_next (elems m)) pv (Some a) xs None"
    using Cons.prems(3) by (intro dseg_cong) auto
  then have sg: "dseg (fld e_next (elems ?m)) pv (Some a) xs None" using Cons.prems(1) by simp
  have dm: "set xs \<subseteq> dom (elems ?m)" using Cons.prems(2,3) by auto
  have "elems ?m |` (- set xs) = elems m |` (- set (a # xs))"
    by (auto simp: restrict_map_def fun_eq_iff)
  then have eq: "?m\<lparr>elems := elems ?m |` (- set xs)\<rparr> = m\<lparr>elems := elems m |` (- set (a # xs))\<rparr>"
    by (metis (no_types, lifting) ElemMem.update_convs(1) ElemMem.surjective)
  have "destroy_elems (hdo xs None) (q\<lparr>q_size := q_size q - 1\<rparr>) ?m =
      Some (q\<lparr>q_size := q_size q - 1 - int (length xs)\<rparr>, m\<lparr>elems := elems m |` (- set (a # xs))\<rparr>)"
    using Cons.IH [OF sg dm, of "q\<lparr>q_size := q_size q - 1\<rparr>"] Cons.prems(3) unfolding eq by simp
  then show ?case using e nx
    by (subst destroy_elems.simps) (simp add: free_elem_def algebra_simps)
qed

section \<open>First in, first out\<close>

lemma pool_front_tl: "pool_rep m ps \<Longrightarrow> pool_front m ps \<notin> set (tl ps)"
  by (cases ps) (auto simp: pool_front_def pool_rep_def dest: q_rep_distinct)

primrec chain :: "(addr \<rightharpoonup> InstElem) \<Rightarrow> nat \<Rightarrow> ptr \<Rightarrow> addr list" where
  "chain h 0 p = []"
| "chain h (Suc n) p = (case p of None \<Rightarrow> [] | Some a \<Rightarrow> a # chain h n (fld e_next h a))"

lemma chain_dseg: "dseg (fld e_next h) pv p xs None \<Longrightarrow> chain h (length xs) (hdo xs None) = xs"
  by (induction xs arbitrary: p) auto

type_synonym queue_state = "InstQueue \<times> ElemMem"

definition q_insts :: "queue_state \<Rightarrow> ptr list" where
  "q_insts s = insts_of (snd s) (chain (elems (snd s)) (nat (q_size (fst s))) (oldest (fst s)))"

lemma q_insts_rep: "q_rep m q xs \<Longrightarrow> q_insts (q, m) = insts_of m xs"
  using chain_dseg [of "elems m" "fld e_prev (elems m)" None xs] by (simp add: q_insts_def q_rep_def dlist_def)

definition queue_inv :: "nat \<Rightarrow> queue_state \<Rightarrow> bool" where
  "queue_inv C s \<longleftrightarrow> (\<exists>xs ps. q_rep (snd s) (fst s) xs \<and> q_tail (fst s) xs \<and> pool_rep (snd s) ps \<and>
     set xs \<inter> set ps = {} \<and> q_capacity (fst s) = int C \<and> 0 < C \<and> length xs \<le> C)"

lemma queue_invI:
  "q_rep m q xs \<Longrightarrow> q_tail q xs \<Longrightarrow> pool_rep m ps \<Longrightarrow> set xs \<inter> set ps = {} \<Longrightarrow>
   q_capacity q = int C \<Longrightarrow> 0 < C \<Longrightarrow> length xs \<le> C \<Longrightarrow> queue_inv C (q, m)"
  by (auto simp: queue_inv_def)

definition queue_put :: "ptr \<Rightarrow> queue_state \<Rightarrow> queue_state option" where
  "queue_put i s = do { (_, q, m) \<leftarrow> push_back_inst (fst s) i (snd s); Some (q, m) }"

definition queue_take :: "queue_state \<Rightarrow> (ptr \<times> queue_state) option" where
  "queue_take s = pop_front_inst (fst s) (snd s)"

lemma queue_put_ok:
  assumes "queue_inv C s" "length (q_insts s) < C"
  shows "\<exists>s'. queue_put i s = Some s' \<and> queue_inv C s' \<and> q_insts s' = q_insts s @ [i]"
proof -
  obtain q m where s: "s = (q, m)" by fastforce
  obtain xs ps where i: "q_rep m q xs" "q_tail q xs" "pool_rep m ps" "set xs \<inter> set ps = {}" "q_capacity q = int C" "0 < C"
    using assms(1) s by (auto simp: queue_inv_def)
  have len: "length xs < C" using assms(2) s q_insts_rep [OF i(1)] by (simp add: insts_of_def)
  then have room: "has_room q" using q_rep_room [OF i(1)] i(5) by simp
  obtain q' m' where r: "push_back_inst q i m = Some (Some (pool_front m ps), q', m')"
    "q_rep m' q' (xs @ [pool_front m ps])" "q_tail q' (xs @ [pool_front m ps])" "q_capacity q' = q_capacity q"
    "insts_of m' (xs @ [pool_front m ps]) = insts_of m xs @ [i]" "pool_rep m' (tl ps)"
    using push_back_rep [OF i(3,1,2,4) room] by blast
  have "set (xs @ [pool_front m ps]) \<inter> set (tl ps) = {}" using pool_front_tl [OF i(3)] i(4) by (cases ps) auto
  then have "queue_inv C (q', m')"
    using r i len by (intro queue_invI [OF r(2,3,6)]) auto
  then show ?thesis using r(1,5) q_insts_rep [OF r(2)] q_insts_rep [OF i(1)] s by (simp add: queue_put_def)
qed

lemma queue_take_ok:
  assumes "queue_inv C s" "q_insts s \<noteq> []"
  shows "\<exists>s'. queue_take s = Some (hd (q_insts s), s') \<and> queue_inv C s' \<and> q_insts s' = tl (q_insts s)"
proof -
  obtain q m where s: "s = (q, m)" by fastforce
  obtain xs ps where i: "q_rep m q xs" "q_tail q xs" "pool_rep m ps" "set xs \<inter> set ps = {}" "q_capacity q = int C" "0 < C" "length xs \<le> C"
    using assms(1) s by (auto simp: queue_inv_def)
  then obtain a ys where xs: "xs = a # ys" using assms(2) s q_insts_rep [OF i(1)] by (cases xs) (auto simp: insts_of_def)
  obtain q' m' where r: "pop_front_inst q m = Some (fld e_inst (elems m) a, q', m')" "q_rep m' q' ys" "q_tail q' ys"
    "q_capacity q' = q_capacity q" "insts_of m' ys = insts_of m ys" "keeps (set (a # ys)) m m'"
    "inst_elem_pool m' = inst_elem_pool m" "elem_brk m' = elem_brk m" "dom (elems m') \<subseteq> dom (elems m)"
    using pop_front_rep [of m q a ys] i xs by blast
  have "pool_rep m' ps" using pool_rep_frame [OF i(3) r(6)] r(7,8,9) i(4) xs by auto
  then have "queue_inv C (q', m')"
    using r i xs by (intro queue_invI [OF r(2,3)]) auto
  then show ?thesis
    using r(1,5) q_insts_rep [OF r(2)] q_insts_rep [OF i(1)] s xs by (simp add: queue_take_def insts_of_def)
qed

interpretation instq: bounded_queue "queue_inv C" q_insts C "\<lambda>s. is_full_queue (fst s)" "\<lambda>s. is_empty_queue (fst s)"
  queue_put queue_take "\<lambda>_ _. True" for C
proof unfold_locales
  fix s :: queue_state and v :: ptr
  assume i: "queue_inv C s"
  then obtain xs where x: "q_rep (snd s) (fst s) xs" "q_capacity (fst s) = int C" "0 < C" "length xs \<le> C"
    by (auto simp: queue_inv_def)
  have l: "q_insts s = insts_of (snd s) xs" "length (q_insts s) = length xs"
    using q_insts_rep [OF x(1)] by (simp_all add: insts_of_def)
  have sz: "q_size (fst s) = int (length xs)" using x(1) by (simp add: q_rep_def)
  show "length (q_insts s) \<le> C" using x l by simp
  show "is_full_queue (fst s) \<longleftrightarrow> length (q_insts s) = C" using x l sz by (auto simp: is_full_queue_def)
  show "is_empty_queue (fst s) \<longleftrightarrow> q_insts s = []" using l sz by (auto simp: is_empty_queue_def)
  show "\<exists>q'. queue_put v s = Some q' \<and> queue_inv C q' \<and> q_insts q' = q_insts s @ [v] \<and> (\<forall>u::ptr. True \<longrightarrow> True)"
    if "length (q_insts s) < C" using queue_put_ok [OF i that] by simp
  show "\<exists>q'. queue_take s = Some (hd (q_insts s), q') \<and> queue_inv C q' \<and> q_insts q' = tl (q_insts s) \<and> (\<forall>u::ptr. True \<longrightarrow> True)"
    if "q_insts s \<noteq> []" using queue_take_ok [OF i that] by simp
qed

text \<open>
  C11: The instruction queues are first in, first out: on a new queue with a capacity, with the pool
  just initialised, every sequence of \<open>push_back_inst\<close> and \<open>pop_front_inst\<close> calls, skipped when the
  queue is full or empty, runs without a fault; instructions leave in the order they were pushed,
  and the queue holds those that have not left. The element pool may run empty on the way.
\<close>

theorem inst_queue_fifo:
  assumes "elems m = Map.empty" "elem_brk m = 0" "0 < C"
  shows "\<exists>m' ws rs s. init_inst_elem_pool m = Some m' \<and>
    qrun (\<lambda>s. is_full_queue (fst s)) (\<lambda>s. is_empty_queue (fst s)) queue_put queue_take ops (init_inst_queue (int C), m') = Some (ws, rs, s) \<and>
    ws = rs @ q_insts s \<and> length (q_insts s) \<le> C"
proof -
  obtain m' where m': "init_inst_elem_pool m = Some m'" "pool_rep m' [0..<5000]" using init_pool_rep [OF assms(1,2)] by blast
  have i: "queue_inv C (init_inst_queue (int C), m')"
    using assms(3) by (intro queue_invI [OF q_rep_init m'(2)]) (simp_all add: init_inst_queue_def)
  have e: "q_insts (init_inst_queue (int C), m') = []" using q_insts_rep [OF q_rep_init(1)] by (simp add: insts_of_def)
  obtain ws rs s where r: "qrun (\<lambda>s. is_full_queue (fst s)) (\<lambda>s. is_empty_queue (fst s)) queue_put queue_take ops (init_inst_queue (int C), m') = Some (ws, rs, s)"
    "queue_inv C s" "q_insts (init_inst_queue (int C), m') @ ws = rs @ q_insts s"
    using instq.fifo_history [OF i, of ops] by auto
  have "ws = rs @ q_insts s" using r(3) e by simp
  then show ?thesis using m'(1) r(1) instq.bound [OF r(2)] by blast
qed

definition empty_mem :: ElemMem where
  "empty_mem = \<lparr>elems = Map.empty, elem_brk = 0, inst_elem_pool = init_inst_queue 0\<rparr>"

theorem inst_queue_fifo_witness:
  "\<exists>m' ws rs s. init_inst_elem_pool empty_mem = Some m' \<and>
    qrun (\<lambda>s. is_full_queue (fst s)) (\<lambda>s. is_empty_queue (fst s)) queue_put queue_take [QPut (Some 1), QPut (Some 2), QGet, QPut (Some 3)]
      (init_inst_queue (int 2), m') = Some (ws, rs, s) \<and>
    ws = rs @ q_insts s \<and> length (q_insts s) \<le> 2"
  by (rule inst_queue_fifo) (simp_all add: empty_mem_def)

text \<open>
  C38: An element taken out of a queue never returns to the pool, although the code asks for it:
  \<open>remove_from_list\<close> leaves the pool as it was. It frees the element when the pool has room for it,
  and keeps it allocated but unreachable when the pool is full. So once its 5000 elements are used
  up the pool stays empty.
\<close>

theorem pool_never_refilled:
  assumes "q_rep m q (as @ a # cs)"
  shows "\<exists>q' m'. remove_from_list q (Some a) True m = Some (q', m') \<and> q_rep m' q' (as @ cs) \<and>
    inst_elem_pool m' = inst_elem_pool m \<and> (a \<in> dom (elems m') \<longleftrightarrow> is_full_queue (inst_elem_pool m))"
  using remove_rep [OF assms] by (auto split: if_splits)

definition demo_elems :: ElemMem where
  "demo_elems = \<lparr>elems = [7 \<mapsto> \<lparr>e_inst = Some 1, e_prev = None, e_next = Some 8\<rparr>, 8 \<mapsto> \<lparr>e_inst = Some 2, e_prev = Some 7, e_next = None\<rparr>],
     elem_brk = 9, inst_elem_pool = init_inst_queue 5000\<rparr>"

definition demo_queue :: InstQueue where
  "demo_queue = \<lparr>oldest = Some 7, newest = Some 8, q_size = 2, q_capacity = 40\<rparr>"

theorem pool_never_refilled_witness:
  "\<exists>q' m'. remove_from_list demo_queue (Some 8) True demo_elems = Some (q', m') \<and> q_rep m' q' [7] \<and>
    inst_elem_pool m' = inst_elem_pool demo_elems \<and> (8 \<in> dom (elems m') \<longleftrightarrow> is_full_queue (inst_elem_pool demo_elems))"
  using pool_never_refilled [of demo_elems demo_queue "[7]" 8 "[]"]
  by (simp add: demo_elems_def demo_queue_def q_rep_def dlist_def fld_def)

text \<open>
  C39: \<open>push_front_inst\<close> on an empty queue leaves \<open>newest_inst_elem\<close> \<open>NULL\<close>, so the next
  \<open>push_back_inst\<close> on that queue dereferences \<open>NULL\<close>.
\<close>

theorem push_back_after_push_front_faults:
  assumes "pool_rep m ps" "q_rep m q []" "q_capacity q = 0 \<or> 1 < q_capacity q"
  shows "do { (q, m) \<leftarrow> push_front_inst q i m; push_back_inst q j m } = None"
proof -
  have sz: "q_size q = 0" "newest q = None" using assms(2) by (simp_all add: q_rep_def)
  have room: "has_room q" using assms(3) sz by (auto simp: has_room_def)
  obtain q' m' where f: "push_front_inst q i m = Some (q', m')" "q_rep m' q' [pool_front m ps]" "newest q' = newest q"
    "q_capacity q' = q_capacity q" "pool_rep m' (tl ps)"
    using push_front_rep [OF assms(1,2) _ room, of i] by fastforce
  have sz': "q_size q' = 1" "newest q' = None" "has_room q'" using f sz assms(3) by (auto simp: q_rep_def has_room_def)
  obtain m1 where g: "get_inst_elem_from_pool m' = Some (Some (pool_front m' (tl ps)), m1)"
    "elems m1 (pool_front m' (tl ps)) = Some \<lparr>e_inst = None, e_prev = None, e_next = None\<rparr>"
    using get_elem_rep [OF f(5)] by blast
  then have "push_back_inst q' j m' = None"
    using sz' by (simp add: push_back_inst_def push_back_inst_elem_def upd_elem_def store_Some)
  then show ?thesis using f(1) by simp
qed

theorem push_back_after_push_front_faults_witness:
  "do { (q, m) \<leftarrow> push_front_inst (init_inst_queue 1000001) (Some 1) demo_elems; push_back_inst q (Some 2) m } = None"
proof (rule push_back_after_push_front_faults)
  show "pool_rep demo_elems []" by (auto simp: pool_rep_def demo_elems_def q_rep_def init_inst_queue_def)
qed (simp_all add: q_rep_init, simp add: init_inst_queue_def)

text \<open>
  C40: \<open>destroy_all_inst_elem_from_queue\<close> ends on every well-formed queue, frees exactly the queue's
  elements, and leaves the size 0 (and the pointers into freed memory).
\<close>

theorem destroy_frees_exactly_the_queue:
  assumes "q_rep m q xs"
  shows "destroy_all_inst_elem_from_queue q m = Some (q\<lparr>q_size := 0\<rparr>, m\<lparr>elems := elems m |` (- set xs)\<rparr>)"
proof -
  have "dseg (fld e_next (elems m)) (fld e_prev (elems m)) None xs None" "distinct xs" "q_size q = int (length xs)"
    using assms by (auto simp: q_rep_def dlist_def)
  then show ?thesis
    using destroy_elems_rep [of m "fld e_prev (elems m)" None xs q] q_rep_dom [OF assms] q_rep_oldest [OF assms]
    by (simp add: destroy_all_inst_elem_from_queue_def)
qed

theorem destroy_frees_exactly_the_queue_witness:
  "destroy_all_inst_elem_from_queue demo_queue demo_elems =
     Some (demo_queue\<lparr>q_size := 0\<rparr>, demo_elems\<lparr>elems := elems demo_elems |` (- set [7, 8])\<rparr>)"
  by (rule destroy_frees_exactly_the_queue) (simp add: demo_elems_def demo_queue_def q_rep_def dlist_def fld_def)

end
