(* ===== verification/Trace_Analyzer.thy ===== *)
theory Trace_Analyzer
  imports Perf_Config Fu Dependencies Inst_Queue
begin

text \<open>
  The trace analyzer (\<open>trace_analyzer/trace_analyzer.c\<close>): a cycle-level model of an out-of-order core
  that replays the instructions of the trace buffer. Every cycle commits, writes back, executes,
  issues and dispatches, in this order. The static variables of the file, the heap of
  instructions, the heap of queue elements and the queue that \<open>trace_buffer\<close> points to are one record.
  Arrays indexed by an enumeration are functions on it. The \<open>verbose\<close> output is off and left out.
\<close>

section \<open>State\<close>

record TA =
  insts :: "addr \<rightharpoonup> Inst"
  inst_brk :: addr
  inst_junk :: "addr \<Rightarrow> Inst"
  emem :: ElemMem
  trace_buffer :: InstQueue
  IQ :: InstQueue
  LDQ :: InstQueue
  STQ :: InstQueue
  FUBuffer :: InstQueue
  rob :: ROB
  deps :: dep_mat
  fu :: "FUType \<Rightarrow> FU"
  inst_type :: "InstTypeName \<Rightarrow> InstType"
  inst_type_fu_type_map :: "InstTypeName \<Rightarrow> FUType"
  num_inst_type :: "InstTypeName \<Rightarrow> int"
  dispatch_width :: int
  issue_width :: int
  wb_width :: int
  commit_width :: int
  cfg_rob_capacity :: int
  latency_l1_hit :: int
  latency_l1_miss :: int
  latency_l2_miss :: int
  first_issue_cycle :: u64
  cur_cycle :: u64
  rob_full_event :: int
  rob_access_event :: int
  iq_full_event :: int
  ldq_access_event :: int
  ldq_full_event :: int
  stq_full_event :: int
  dl1_outstanding_request :: int
  ul2_outstanding_request :: int
  num_dispatched_insts_cycle :: int
  num_issued_insts_cycle :: int
  num_executed_insts_cycle :: int
  num_committed_insts_cycle :: int
  num_fetched_insts :: int
  num_dispatched_insts :: int
  num_issued_insts :: int
  num_committed_insts :: int
  num_mispred_insts :: int
  avg_mispred_penalty :: rat
  num_il1_miss :: int
  num_dl1_miss :: int
  num_l2_miss :: int
  reserved_inst :: ptr
  inst_cache_miss_penalty :: int
  mispred_penalty :: int

text \<open>The static storage when the program starts; \<open>junk\<close> is what \<open>malloc\<close> finds in fresh memory.\<close>

definition static_TA :: "(addr \<Rightarrow> Inst) \<Rightarrow> TA" where
  "static_TA junk = \<lparr>insts = Map.empty, inst_brk = 0, inst_junk = junk,
     emem = \<lparr>elems = Map.empty, elem_brk = 0, inst_elem_pool = init_inst_queue 0\<rparr>,
     trace_buffer = init_inst_queue 0, IQ = init_inst_queue 0, LDQ = init_inst_queue 0, STQ = init_inst_queue 0, FUBuffer = init_inst_queue 0,
     rob = \<lparr>rob_entries = replicate 60 None, start_idx = 0, end_idx = 0, rob_size = 0, rob_capacity = 0\<rparr>,
     deps = replicate 60 (replicate 60 False), fu = (\<lambda>_. init_FU SimpleALU 0 0), inst_type = (\<lambda>_. init_inst_type IntAlu 0 False),
     inst_type_fu_type_map = (\<lambda>_. SimpleALU), num_inst_type = (\<lambda>_. 0),
     dispatch_width = 3, issue_width = 8, wb_width = 8, commit_width = 8, cfg_rob_capacity = 60,
     latency_l1_hit = 0, latency_l1_miss = 0, latency_l2_miss = 0, first_issue_cycle = 0, cur_cycle = 0,
     rob_full_event = 0, rob_access_event = 0, iq_full_event = 0, ldq_access_event = 0, ldq_full_event = 0, stq_full_event = 0,
     dl1_outstanding_request = 0, ul2_outstanding_request = 0,
     num_dispatched_insts_cycle = 0, num_issued_insts_cycle = 0, num_executed_insts_cycle = 0, num_committed_insts_cycle = 0,
     num_fetched_insts = 0, num_dispatched_insts = 0, num_issued_insts = 0, num_committed_insts = 0, num_mispred_insts = 0,
     avg_mispred_penalty = 0, num_il1_miss = 0, num_dl1_miss = 0, num_l2_miss = 0, reserved_inst = None,
     inst_cache_miss_penalty = 0, mispred_penalty = 0\<rparr>"

definition default_wb_latency :: int where
  "default_wb_latency = 2"

definition front_pipeline_depth :: u64 where
  "front_pipeline_depth = 12"

text \<open>\<open>malloc (sizeof (Inst))\<close>: a new address whose memory holds what \<open>inst_junk\<close> says.\<close>

definition malloc_inst :: "TA \<Rightarrow> addr \<times> TA" where
  "malloc_inst st = (inst_brk st,
     st\<lparr>insts := (insts st)(inst_brk st \<mapsto> inst_junk st (inst_brk st)), inst_brk := inst_brk st + 1\<rparr>)"

definition free_inst :: "ptr \<Rightarrow> TA \<Rightarrow> TA option" where
  "free_inst p st = do { _ \<leftarrow> load (insts st) p; a \<leftarrow> p; Some (st\<lparr>insts := (insts st)(a := None)\<rparr>) }"

definition upd_inst :: "ptr \<Rightarrow> (Inst \<Rightarrow> Inst) \<Rightarrow> TA \<Rightarrow> TA option" where
  "upd_inst p f st = do { h \<leftarrow> store (insts st) p f; Some (st\<lparr>insts := h\<rparr>) }"

section \<open>Initialisation\<close>

definition init_all_inst_type_fu_type_map :: "TA \<Rightarrow> TA" where
  "init_all_inst_type_fu_type_map st = st\<lparr>inst_type_fu_type_map := (inst_type_fu_type_map st)
     (IntAlu := SimpleALU, IntMult := ComplexALU, IntDiv := ComplexALU,
      SimdFloatAdd := FPUnit, SimdFloatMult := FPUnit, SimdFloatMultAcc := FPUnit,
      MemRead := LoadUnit, MemWrite := StoreUnit, Branch := BranchUnit, Syscall := EtcUnit)\<rparr>"

definition init_all_inst_type :: "TA \<Rightarrow> TA" where
  "init_all_inst_type st = st\<lparr>inst_type := (inst_type st)
     (IntAlu := init_inst_type IntAlu 1 True,
      IntMult := init_inst_type IntMult 3 True,
      IntDiv := init_inst_type IntDiv 12 True,
      SimdFloatAdd := init_inst_type SimdFloatAdd 10 True,
      SimdFloatMult := init_inst_type SimdFloatMult 12 True,
      SimdFloatMultAcc := init_inst_type SimdFloatMultAcc 20 True,
      MemRead := init_inst_type MemRead 2 True,
      MemWrite := init_inst_type MemWrite 3 True,
      Branch := init_inst_type Branch 1 True,
      Syscall := init_inst_type Syscall 1 True)\<rparr>"

definition init_all_queues :: "perfmodel_config \<Rightarrow> TA \<Rightarrow> TA" where
  "init_all_queues pm st = st\<lparr>rob := rob_init (cfg_rob_capacity st) (rob st),
     IQ := init_inst_queue (iq_size (core pm)), LDQ := init_inst_queue 16,
     STQ := init_inst_queue 16, FUBuffer := init_inst_queue 0\<rparr>"

definition init_all_FUs :: "perfmodel_config \<Rightarrow> TA \<Rightarrow> TA" where
  "init_all_FUs pm st = st\<lparr>fu := (fu st)
     (SimpleALU := init_FU SimpleALU (num_intalu (numfu pm)) (num_intalu (numfu pm)),
      ComplexALU := init_FU ComplexALU (num_intmultdiv (numfu pm)) (num_intmultdiv (numfu pm) * 3),
      FPUnit := init_FU FPUnit 2 10,
      LoadUnit := init_FU LoadUnit 1 1,
      StoreUnit := init_FU StoreUnit 1 3,
      BranchUnit := init_FU BranchUnit 1 1,
      EtcUnit := init_FU EtcUnit 1 1)\<rparr>"

definition reset_all_FUs :: "TA \<Rightarrow> TA" where
  "reset_all_FUs st = st\<lparr>fu := (\<lambda>t. reset_FU (fu st t))\<rparr>"

definition reflesh_all_FUs :: "TA \<Rightarrow> TA" where
  "reflesh_all_FUs st = st\<lparr>fu := (\<lambda>t. reflesh_FU (fu st t))\<rparr>"

definition init_trace_statistics :: "TA \<Rightarrow> TA" where
  "init_trace_statistics st = st\<lparr>num_inst_type := (\<lambda>_. 0),
     num_fetched_insts := 0, num_issued_insts := 0, num_committed_insts := 0, num_dispatched_insts := 0,
     num_mispred_insts := 0, avg_mispred_penalty := 0, cur_cycle := 0,
     num_il1_miss := 0, num_dl1_miss := 0, num_l2_miss := 0, reserved_inst := None,
     inst_cache_miss_penalty := 0, mispred_penalty := 0, dl1_outstanding_request := 0, ul2_outstanding_request := 0,
     rob_full_event := 0, rob_access_event := 0, iq_full_event := 0, ldq_full_event := 0, stq_full_event := 0,
     ldq_access_event := 0\<rparr>"

definition init_trace_analyzer :: "perfmodel_config \<Rightarrow> TA \<Rightarrow> TA option" where
  "init_trace_analyzer pm st = do {
     let st = st\<lparr>cfg_rob_capacity := core_config.rob_size (core pm), dispatch_width := frontend_width (core pm),
       issue_width := backend_width (core pm), wb_width := backend_width (core pm), commit_width := backend_width (core pm),
       latency_l1_hit := c_latency (il1 pm), latency_l1_miss := c_latency (ul2 pm), latency_l2_miss := mem_latency (mem pm)\<rparr>;
     let st = init_trace_statistics st;
     m \<leftarrow> init_inst_elem_pool (emem st);
     let st = init_all_queues pm (st\<lparr>emem := m\<rparr>);
     let st = init_all_inst_type (init_all_FUs pm st);
     Some (init_all_inst_type_fu_type_map st) }"

definition destroy_trace_analyzer :: "TA \<Rightarrow> TA option" where
  "destroy_trace_analyzer st = do {
     (q, m) \<leftarrow> destroy_all_inst_elem_from_queue (IQ st) (emem st);
     let st = st\<lparr>IQ := q, emem := m\<rparr>;
     (q, m) \<leftarrow> destroy_all_inst_elem_from_queue (LDQ st) (emem st);
     let st = st\<lparr>LDQ := q, emem := m\<rparr>;
     (q, m) \<leftarrow> destroy_all_inst_elem_from_queue (STQ st) (emem st);
     let st = st\<lparr>STQ := q, emem := m\<rparr>;
     (q, m) \<leftarrow> destroy_all_inst_elem_from_queue (FUBuffer st) (emem st);
     let st = st\<lparr>FUBuffer := q, emem := m\<rparr>;
     m \<leftarrow> destroy_inst_elem_pool (emem st);
     Some (st\<lparr>emem := m\<rparr>) }"

section \<open>Dispatch\<close>

text \<open>
  A \<open>push\<close> or \<open>pop\<close> of several registers becomes an update of the stack pointer and one memory
  access per address. The new instructions are pushed to the front of the trace buffer.
\<close>

definition push_microop :: "(Inst \<Rightarrow> Inst option) \<Rightarrow> Inst \<Rightarrow> TA \<Rightarrow> TA option" where
  "push_microop fill inst st = do {
     let (a, st) = malloc_inst st;
     m_inst \<leftarrow> insts st a;
     m_inst \<leftarrow> fill ((init_inst m_inst (ucast (i_seq inst)) (i_pc inst) (i_code inst))\<lparr>i_decoded := True\<rparr>);
     (q, m) \<leftarrow> push_front_inst (trace_buffer st) (Some a) (emem st);
     Some (st\<lparr>insts := (insts st)(a \<mapsto> m_inst), trace_buffer := q, emem := m\<rparr>) }"

definition sp_update :: "Inst \<Rightarrow> Inst option" where
  "sp_update m_inst = do {
     m_inst \<leftarrow> add_dst_reg 13 (m_inst\<lparr>i_type := IntAlu\<rparr>);
     m_inst \<leftarrow> add_src_reg 13 m_inst;
     Some (m_inst\<lparr>i_str := Some ''sub ''\<rparr>) }"

definition add_eff_addr :: "u32 \<Rightarrow> Inst \<Rightarrow> Inst option" where
  "add_eff_addr x m_inst = do {
     es \<leftarrow> aset (i_eff_addr m_inst) (i_num_eff_addr m_inst) x;
     Some (m_inst\<lparr>i_eff_addr := es, i_num_eff_addr := i_num_eff_addr m_inst + 1\<rparr>) }"

definition push_store :: "Inst \<Rightarrow> int \<Rightarrow> Inst \<Rightarrow> Inst option" where
  "push_store inst i m_inst = do {
     x \<leftarrow> aget (i_eff_addr inst) i;
     m_inst \<leftarrow> add_eff_addr x (m_inst\<lparr>i_type := MemWrite, i_str := Some ''str_op ''\<rparr>);
     r \<leftarrow> aget (i_src_reg inst) i;
     m_inst \<leftarrow> add_src_reg r m_inst;
     Some (if i = 0 \<and> i_cache_miss m_inst \<noteq> L1Hit then m_inst\<lparr>i_cache_miss := i_cache_miss inst\<rparr> else m_inst) }"

definition pop_load :: "Inst \<Rightarrow> int \<Rightarrow> Inst \<Rightarrow> Inst option" where
  "pop_load inst i m_inst = do {
     x \<leftarrow> aget (i_eff_addr inst) i;
     m_inst \<leftarrow> add_eff_addr x (m_inst\<lparr>i_type := MemRead, i_str := Some ''ldr_op ''\<rparr>);
     r \<leftarrow> aget (i_dst_reg inst) i;
     m_inst \<leftarrow> add_dst_reg r m_inst;
     m_inst \<leftarrow> add_src_reg 13 m_inst;
     Some (if i = 0 \<and> i_cache_miss m_inst \<noteq> L1Hit then m_inst\<lparr>i_cache_miss := i_cache_miss inst\<rparr> else m_inst) }"

definition pop_trace_buffer :: "TA \<Rightarrow> (ptr \<times> TA) option" where
  "pop_trace_buffer st = do {
     (i, q, m) \<leftarrow> pop_front_inst (trace_buffer st) (emem st);
     Some (i, st\<lparr>trace_buffer := q, emem := m\<rparr>) }"

text \<open>\<open>for (i=inst->num_eff_addr-1 ; i>=0 ; i--)\<close>\<close>

definition microops :: "(Inst \<Rightarrow> int \<Rightarrow> Inst \<Rightarrow> Inst option) \<Rightarrow> Inst \<Rightarrow> TA \<Rightarrow> TA option" where
  "microops fill inst st = ofold (\<lambda>i st. do {
     st \<leftarrow> push_microop (fill inst (int i)) inst st;
     Some (st\<lparr>num_fetched_insts := num_fetched_insts st + 1\<rparr>) }) (rev [0..<nat (i_num_eff_addr inst)]) st"

definition convert_push_microop :: "ptr \<Rightarrow> TA \<Rightarrow> TA option" where
  "convert_push_microop p st = do {
     (_, st) \<leftarrow> pop_trace_buffer st;
     inst \<leftarrow> load (insts st) p;
     st \<leftarrow> push_microop sp_update inst st;
     microops push_store inst st }"

definition convert_pop_microop :: "ptr \<Rightarrow> TA \<Rightarrow> TA option" where
  "convert_pop_microop p st = do {
     (_, st) \<leftarrow> pop_trace_buffer st;
     inst \<leftarrow> load (insts st) p;
     st \<leftarrow> push_microop sp_update inst st;
     microops pop_load inst st }"

definition convert_microop :: "ptr \<Rightarrow> TA \<Rightarrow> TA option" where
  "convert_microop p st = do {
     inst \<leftarrow> load (insts st) p;
     case i_type inst of
       Pop \<Rightarrow> do { st \<leftarrow> convert_pop_microop p st; free_inst p st }
     | Push \<Rightarrow> do { st \<leftarrow> convert_push_microop p st; free_inst p st }
     | _ \<Rightarrow> Some st }"

definition dispatch_inst :: "ptr \<Rightarrow> TA \<Rightarrow> TA option" where
  "dispatch_inst p st = upd_inst p (i_state_update (\<lambda>_. Dispatch))
     (st\<lparr>num_dispatched_insts_cycle := num_dispatched_insts_cycle st + 1\<rparr>)"

text \<open>The part of a round in which an instruction enters the reorder buffer and the queues.\<close>

definition push_LDQ :: "ptr \<Rightarrow> TA \<Rightarrow> TA option" where
  "push_LDQ p st = do {
     (e, q, m) \<leftarrow> push_back_inst (LDQ st) p (emem st);
     upd_inst p (i_ldq_elem_update (\<lambda>_. e)) (st\<lparr>LDQ := q, emem := m\<rparr>) }"

definition push_STQ :: "ptr \<Rightarrow> TA \<Rightarrow> TA option" where
  "push_STQ p st = do {
     (e, q, m) \<leftarrow> push_back_inst (STQ st) p (emem st);
     upd_inst p (i_stq_elem_update (\<lambda>_. e)) (st\<lparr>STQ := q, emem := m\<rparr>) }"

definition push_IQ :: "ptr \<Rightarrow> TA \<Rightarrow> TA option" where
  "push_IQ p st = do {
     (e, q, m) \<leftarrow> push_back_inst (IQ st) p (emem st);
     upd_inst p (i_iq_elem_update (\<lambda>_. e)) (st\<lparr>IQ := q, emem := m\<rparr>) }"

definition enter_inst :: "ptr \<Rightarrow> TA \<Rightarrow> TA option" where
  "enter_inst p st = do {
     (r, h) \<leftarrow> rob_insert_inst p (rob st) (insts st);
     let st = st\<lparr>rob := r, insts := h\<rparr>;
     inst \<leftarrow> load (insts st) p;
     mat \<leftarrow> clean_dependency (rob st) inst (deps st);
     st \<leftarrow> push_IQ p (st\<lparr>deps := mat\<rparr>);
     inst \<leftarrow> load (insts st) p;
     st \<leftarrow> (if i_type inst = MemRead then push_LDQ p st else Some st);
     st \<leftarrow> (if i_type inst = MemWrite then push_STQ p st else Some st);
     let st = st\<lparr>num_dispatched_insts := num_dispatched_insts st + 1\<rparr>;
     (h, mat) \<leftarrow> find_regs_dependency (rob st) p (insts st) (deps st);
     (h, mat) \<leftarrow> find_mems_dependency (rob st) p h mat;
     st \<leftarrow> dispatch_inst p (st\<lparr>insts := h, deps := mat\<rparr>);
     upd_inst p (i_dispatched_cycle_update (\<lambda>_. cur_cycle st)) st }"

text \<open>The tests after which dispatch stops; the flag says that it does.\<close>

definition dispatch_stall :: "TA \<Rightarrow> (bool \<times> TA) option" where
  "dispatch_stall st = (
     let st = st\<lparr>rob_access_event := rob_access_event st + 1\<rparr> in
     if is_rob_full (rob st) then Some (True, st\<lparr>rob_full_event := rob_full_event st + 1\<rparr>)
     else if is_full_queue (IQ st) then Some (True, st\<lparr>iq_full_event := iq_full_event st + 1\<rparr>)
     else do {
       e \<leftarrow> load (elems (emem st)) (front_inst_elem (trace_buffer st));
       inst \<leftarrow> load (insts st) (e_inst e);
       if i_type inst = MemRead \<and> is_full_queue (LDQ st) then Some (True, st\<lparr>ldq_full_event := ldq_full_event st + 1\<rparr>)
       else if i_type inst = MemWrite \<and> is_full_queue (STQ st) then Some (True, st\<lparr>stq_full_event := stq_full_event st + 1\<rparr>)
       else Some (False, st) })"

partial_function (option) dispatch_loop :: "nat \<Rightarrow> int \<Rightarrow> TA \<Rightarrow> TA option" where
  [code]: "dispatch_loop z w st =
     (if w \<le> 0 then Some st
      else if front_inst_elem (trace_buffer st) = None then Some st
      else do {
        e \<leftarrow> load (elems (emem st)) (front_inst_elem (trace_buffer st));
        inst \<leftarrow> load (insts st) (e_inst e);
        inst \<leftarrow> decode_inst z inst;
        st \<leftarrow> upd_inst (e_inst e) (\<lambda>_. inst) st;
        st \<leftarrow> convert_microop (e_inst e) st;
        (stalled, st) \<leftarrow> dispatch_stall st;
        if stalled then Some st
        else do {
          (p, st) \<leftarrow> pop_trace_buffer st;
          inst \<leftarrow> load (insts st) p;
          if i_type inst = Unsupported then do {
            st \<leftarrow> free_inst p (st\<lparr>num_dispatched_insts := num_dispatched_insts st + 1, num_committed_insts := num_committed_insts st + 1\<rparr>);
            dispatch_loop z w st }
          else do {
            st \<leftarrow> enter_inst p st;
            dispatch_loop z (w - 1) st } } })"

definition dispatch_insts :: "nat \<Rightarrow> TA \<Rightarrow> TA option" where
  "dispatch_insts z st = dispatch_loop z (dispatch_width st) st"

section \<open>Issue\<close>

text \<open>What happens to an instruction that got a functional unit.\<close>

definition issue_inst :: "addr \<Rightarrow> ptr \<Rightarrow> TA \<Rightarrow> TA option" where
  "issue_inst e p st = do {
     let st = (if first_issue_cycle st = 0 then st\<lparr>first_issue_cycle := cur_cycle st\<rparr> else st);
     (q, m) \<leftarrow> remove_from_list (IQ st) (Some e) True (emem st);
     let st = st\<lparr>IQ := q, emem := m\<rparr>;
     inst \<leftarrow> load (insts st) p;
     st \<leftarrow> upd_inst p (\<lambda>i. i\<lparr>i_issued_cycle := cur_cycle st, i_state := Issue,
       i_remaining_latency := it_latency (inst_type st (i_type inst))\<rparr>) st;
     let st = st\<lparr>num_issued_insts := num_issued_insts st + 1, num_issued_insts_cycle := num_issued_insts_cycle st + 1\<rparr>;
     (_, q, m) \<leftarrow> push_back_inst (FUBuffer st) p (emem st);
     Some (st\<lparr>FUBuffer := q, emem := m\<rparr>) }"

partial_function (option) issue_loop :: "int \<Rightarrow> ptr \<Rightarrow> TA \<Rightarrow> TA option" where
  [code]: "issue_loop w inst_elem st =
     (if w \<le> 0 then Some st
      else case inst_elem of
        None \<Rightarrow> Some st
      | Some e \<Rightarrow> do {
          el \<leftarrow> elems (emem st) e;
          inst \<leftarrow> load (insts st) (e_inst el);
          if i_state inst \<noteq> Dispatch then issue_loop w (e_next el) st
          else do {
            d \<leftarrow> has_dependency (rob st) (insts st) (deps st) (e_inst el);
            if d then issue_loop w (e_next el) st
            else do {
              let target_fu = inst_type_fu_type_map st (i_type inst);
              let (success, f) = try_FU (fu st target_fu);
              let st = st\<lparr>fu := (fu st)(target_fu := f)\<rparr>;
              if success then do { st \<leftarrow> issue_inst e (e_inst el) st; issue_loop (w - 1) (e_next el) st }
              else issue_loop w (e_next el) st } } })"

definition issue_insts :: "TA \<Rightarrow> TA option" where
  "issue_insts st =
     (if is_empty_queue (IQ st) then Some st
      else issue_loop (issue_width st) (front_inst_elem (IQ st)) st)"

section \<open>Execute and write back\<close>

definition set_writeback_latency :: "TA \<Rightarrow> Inst \<Rightarrow> Inst" where
  "set_writeback_latency st inst = inst\<lparr>i_remaining_latency :=
     (if i_type inst = MemRead
      then (if i_cache_miss inst \<noteq> L1Hit then default_wb_latency + latency_l1_miss st else default_wb_latency) + 1
      else default_wb_latency)\<rparr>"

text \<open>The penalty is computed in 64 bits and converted to \<open>int\<close>, which keeps the low 32 bits.\<close>

definition branch_penalty :: "u64 \<Rightarrow> u64 \<Rightarrow> int" where
  "branch_penalty now dispatched =
     (let penalty = sint (ucast (front_pipeline_depth + now - dispatched) :: u32) in if penalty > 40 then 40 else penalty)"

definition execute_inst :: "(rat \<Rightarrow> rat) \<Rightarrow> ptr \<Rightarrow> TA \<Rightarrow> TA option" where
  "execute_inst round64 p st = do {
     let st = st\<lparr>num_executed_insts_cycle := num_executed_insts_cycle st + 1\<rparr>;
     st \<leftarrow> upd_inst p (\<lambda>i. i\<lparr>i_remaining_latency := i_remaining_latency i - 1\<rparr>) st;
     inst \<leftarrow> load (insts st) p;
     st \<leftarrow> (if i_remaining_latency inst \<le> 0 then do {
         st \<leftarrow> upd_inst p (\<lambda>i. set_writeback_latency st (i\<lparr>i_state := Complete, i_completed_cycle := cur_cycle st\<rparr>)) st;
         let target_fu = inst_type_fu_type_map st (i_type inst);
         Some (st\<lparr>fu := (fu st)(target_fu := release_FU (fu st target_fu))\<rparr>) }
       else Some st);
     inst \<leftarrow> load (insts st) p;
     if i_type inst = Branch \<and> i_state inst = Complete \<and> i_bpred_mispred inst
     then (let penalty = branch_penalty (cur_cycle st) (i_dispatched_cycle inst);
               sum_mispred_penalty = round64 (round64 (avg_mispred_penalty st * of_int (num_mispred_insts st)) + of_int penalty)
           in Some (st\<lparr>num_mispred_insts := num_mispred_insts st + 1,
                avg_mispred_penalty := round64 (sum_mispred_penalty / of_int (num_mispred_insts st + 1))\<rparr>))
     else Some st }"

partial_function (option) execute_loop :: "(rat \<Rightarrow> rat) \<Rightarrow> ptr \<Rightarrow> TA \<Rightarrow> TA option" where
  [code]: "execute_loop round64 inst_elem st =
     (case inst_elem of
        None \<Rightarrow> Some st
      | Some e \<Rightarrow> do {
          el \<leftarrow> elems (emem st) e;
          inst \<leftarrow> load (insts st) (e_inst el);
          st \<leftarrow> (if i_state inst = Issue then execute_inst round64 (e_inst el) st else Some st);
          execute_loop round64 (e_next el) st })"

definition execute_insts :: "(rat \<Rightarrow> rat) \<Rightarrow> TA \<Rightarrow> TA option" where
  "execute_insts round64 st = execute_loop round64 (oldest (FUBuffer st)) st"

definition writeback_inst :: "ptr \<Rightarrow> TA \<Rightarrow> TA option" where
  "writeback_inst p st = do {
     inst \<leftarrow> load (insts st) p;
     if i_state inst = Complete then upd_inst p (\<lambda>i. i\<lparr>i_remaining_latency := i_remaining_latency i - 1\<rparr>) st
     else Some st }"

partial_function (option) writeback_loop :: "int \<Rightarrow> ptr \<Rightarrow> TA \<Rightarrow> TA option" where
  [code]: "writeback_loop w inst_elem st =
     (if w = 0 then Some st
      else case inst_elem of
        None \<Rightarrow> Some st
      | Some e \<Rightarrow> do {
          el \<leftarrow> elems (emem st) e;
          st \<leftarrow> writeback_inst (e_inst el) st;
          inst \<leftarrow> load (insts st) (e_inst el);
          if i_state inst = Complete \<and> i_remaining_latency inst = 0 then do {
            (q, m) \<leftarrow> remove_from_list (FUBuffer st) (Some e) True (emem st);
            writeback_loop (w - 1) (e_next el) (st\<lparr>FUBuffer := q, emem := m\<rparr>) }
          else writeback_loop w (e_next el) st })"

definition writeback_insts :: "TA \<Rightarrow> TA option" where
  "writeback_insts st = writeback_loop (wb_width st) (oldest (FUBuffer st)) st"

section \<open>Commit\<close>

definition commit_inst :: "ptr \<Rightarrow> TA \<Rightarrow> TA option" where
  "commit_inst p st = do {
     st \<leftarrow> upd_inst p (i_committed_cycle_update (\<lambda>_. cur_cycle st)) st;
     inst \<leftarrow> load (insts st) p;
     st \<leftarrow> (if i_ldq_elem inst \<noteq> None then do {
         (q, m) \<leftarrow> remove_from_list (LDQ st) (i_ldq_elem inst) True (emem st); Some (st\<lparr>LDQ := q, emem := m\<rparr>) }
       else Some st);
     st \<leftarrow> (if i_stq_elem inst \<noteq> None then do {
         (q, m) \<leftarrow> remove_from_list (STQ st) (i_stq_elem inst) True (emem st); Some (st\<lparr>STQ := q, emem := m\<rparr>) }
       else Some st);
     r \<leftarrow> rob_remove_inst (rob st);
     let st = st\<lparr>rob := r, num_inst_type := (num_inst_type st)(i_type inst := num_inst_type st (i_type inst) + 1)\<rparr>;
     st \<leftarrow> free_inst p st;
     Some (st\<lparr>num_committed_insts := num_committed_insts st + 1, num_committed_insts_cycle := num_committed_insts_cycle st + 1\<rparr>) }"

text \<open>\<open>while (w>0)\<close>; the counter goes down in every round that does not leave the loop.\<close>

primrec commit_loop :: "nat \<Rightarrow> TA \<Rightarrow> TA option" where
  "commit_loop 0 st = Some st"
| "commit_loop (Suc w) st =
     (if is_rob_empty (rob st) then Some st
      else do {
        p \<leftarrow> rob_get_oldest_inst (rob st);
        inst \<leftarrow> load (insts st) p;
        if i_state inst = Complete \<and> i_remaining_latency inst = 0
        then do { st \<leftarrow> commit_inst p st; commit_loop w st }
        else Some st })"

definition commit_insts :: "TA \<Rightarrow> TA option" where
  "commit_insts st = commit_loop (nat (commit_width st)) st"

section \<open>The main loop\<close>

definition trace_cycle :: "(rat \<Rightarrow> rat) \<Rightarrow> nat \<Rightarrow> TA \<Rightarrow> TA option" where
  "trace_cycle round64 z st = do {
     st \<leftarrow> commit_insts st;
     st \<leftarrow> writeback_insts st;
     st \<leftarrow> execute_insts round64 st;
     st \<leftarrow> issue_insts st;
     st \<leftarrow> dispatch_insts z st;
     Some ((reflesh_all_FUs st)\<lparr>cur_cycle := cur_cycle st + 1\<rparr>) }"

partial_function (option) trace_loop :: "(rat \<Rightarrow> rat) \<Rightarrow> nat \<Rightarrow> int \<Rightarrow> int \<Rightarrow> u64 \<Rightarrow> TA \<Rightarrow> (u64 \<times> TA) option" where
  [code]: "trace_loop round64 z max_cycle cycle actual_last_cycle st = (
     let st = st\<lparr>num_issued_insts_cycle := 0, num_dispatched_insts_cycle := 0, num_executed_insts_cycle := 0, num_committed_insts_cycle := 0\<rparr> in
     if max_cycle \<noteq> 0 \<and> max_cycle \<le> cycle then Some (actual_last_cycle, st)
     else do {
       st \<leftarrow> trace_cycle round64 z st;
       let actual_last_cycle = (if actual_last_cycle = 0 \<and> num_dispatched_insts st = num_fetched_insts st then cur_cycle st else actual_last_cycle);
       if num_committed_insts st = num_fetched_insts st then Some (actual_last_cycle, st)
       else trace_loop round64 z max_cycle (cycle + 1) actual_last_cycle st })"

text \<open>Conversion of a \<open>double\<close> to \<open>int\<close> drops the fraction.\<close>

definition c_trunc :: "rat \<Rightarrow> int" where
  "c_trunc x = (if 0 \<le> x then \<lfloor>x\<rfloor> else \<lceil>x\<rceil>)"

text \<open>The result is \<open>*last_cycle\<close>, \<open>*bpred_penalty\<close> (the average truncated to \<open>int\<close>) and the state.\<close>

definition trace_analysis :: "(rat \<Rightarrow> rat) \<Rightarrow> nat \<Rightarrow> int \<Rightarrow> TA \<Rightarrow> (u64 \<times> int \<times> TA) option" where
  "trace_analysis round64 z max_cycle st = do {
     let st = reset_all_FUs (init_trace_statistics st);
     let st = st\<lparr>num_fetched_insts := get_current_queue_size (trace_buffer st)\<rparr>;
     (last_cycle, st) \<leftarrow> trace_loop round64 z max_cycle 0 0 st;
     Some (last_cycle, c_trunc (avg_mispred_penalty st), st) }"

end
