(* ===== verification/C_Text.thy ===== *)
theory C_Text
  imports TQ_Prelude
begin

text \<open>
  The functions of the C library by which the program reads and writes text: \<open>fgets\<close>, \<open>strtok\<close>,
  \<open>strtoul\<close> and \<open>atoi\<close>, and the conversions \<open>%X\<close> and \<open>%d\<close> of \<open>fprintf\<close>. A text is the list of its
  characters.
\<close>

section \<open>Characters\<close>

definition newline :: char where
  "newline = CHR 0x0A"

definition space :: char where
  "space = CHR 0x20"

definition is_space :: "char \<Rightarrow> bool" where
  "is_space c \<longleftrightarrow> c = space \<or> 9 \<le> (of_char c :: nat) \<and> (of_char c :: nat) \<le> 13"

definition digit_value :: "char \<Rightarrow> nat option" where
  "digit_value c = (let n = of_char c :: nat in
     if 48 \<le> n \<and> n \<le> 57 then Some (n - 48)
     else if 65 \<le> n \<and> n \<le> 90 then Some (n - 55)
     else if 97 \<le> n \<and> n \<le> 122 then Some (n - 87)
     else None)"

definition digit_char :: "nat \<Rightarrow> char" where
  "digit_char n = (if n < 10 then char_of (48 + n) else char_of (55 + n))"

lemma digit_value_char [simp]: "n < 16 \<Longrightarrow> digit_value (digit_char n) = Some n"
  by (simp add: digit_value_def digit_char_def)

text \<open>A string ends at its first \<open>NUL\<close>.\<close>

definition cstr :: "string \<Rightarrow> string" where
  "cstr s = takeWhile (\<lambda>c. c \<noteq> CHR 0x00) s"

section \<open>Reading\<close>

fun read_line :: "nat \<Rightarrow> string \<Rightarrow> string \<times> string" where
  "read_line 0 s = ([], s)"
| "read_line (Suc n) [] = ([], [])"
| "read_line (Suc n) (c # s) =
     (if c = newline then ([c], s) else let (l, r) = read_line n s in (c # l, r))"

text \<open>The line that \<open>fgets(buf, n, f)\<close> stores, and the text left in the file.\<close>

definition fgets :: "nat \<Rightarrow> string \<Rightarrow> (string \<times> string) option" where
  "fgets n s = (if s = [] then None else Some (read_line (n - 1) s))"

text \<open>\<open>strtok(s, " ")\<close>: the next token and what \<open>strtok(NULL, " ")\<close> continues with.\<close>

definition strtok :: "string \<Rightarrow> (string \<times> string) option" where
  "strtok s = (let s = dropWhile (\<lambda>c. c = space) s in
     if s = [] then None else Some (takeWhile (\<lambda>c. c \<noteq> space) s, drop 1 (dropWhile (\<lambda>c. c \<noteq> space) s)))"

fun scan_digits :: "nat \<Rightarrow> nat \<Rightarrow> string \<Rightarrow> nat" where
  "scan_digits b acc [] = acc"
| "scan_digits b acc (c # s) = (case digit_value c of
     None \<Rightarrow> acc
   | Some d \<Rightarrow> if d < b then scan_digits b (acc * b + d) s else acc)"

definition starts_number :: "nat \<Rightarrow> string \<Rightarrow> bool" where
  "starts_number b s = (case s of [] \<Rightarrow> False | c # _ \<Rightarrow> (case digit_value c of None \<Rightarrow> False | Some d \<Rightarrow> d < b))"

text \<open>Leading white space, a sign, and before a hexadecimal number \<open>0x\<close>; the rest starts with the digits.\<close>

definition scan_sign :: "string \<Rightarrow> bool \<times> string" where
  "scan_sign s = (case dropWhile is_space s of
     [] \<Rightarrow> (False, [])
   | c # r \<Rightarrow> if c = CHR ''-'' then (True, r) else if c = CHR ''+'' then (False, r) else (False, c # r))"

definition skip_0x :: "string \<Rightarrow> string" where
  "skip_0x s = (if take 1 s = ''0'' \<and> (take 1 (drop 1 s) = ''x'' \<or> take 1 (drop 1 s) = ''X'') \<and> starts_number 16 (drop 2 s)
     then drop 2 s else s)"

text \<open>\<open>unsigned long\<close> has 64 bits; a number that does not fit becomes \<open>ULONG_MAX\<close>.\<close>

definition strtoul :: "nat \<Rightarrow> string \<Rightarrow> u64" where
  "strtoul b s = (let (neg, r) = scan_sign s; v = scan_digits b 0 (if b = 16 then skip_0x r else r) in
     if v \<ge> 2 ^ 64 then - 1 else if neg then - of_nat v else of_nat v)"

text \<open>\<open>atoi\<close> is \<open>(int)strtol(s, NULL, 10)\<close>: \<open>long\<close> saturates, and \<open>int\<close> keeps the low 32 bits.\<close>

definition atoi :: "string \<Rightarrow> int" where
  "atoi s = (let (neg, r) = scan_sign s; v = int (scan_digits 10 0 r);
       l = (if neg then max (- v) (- (2 ^ 63)) else min v (2 ^ 63 - 1))
     in sint (word_of_int l :: u32))"

section \<open>Writing\<close>

fun print_base :: "nat \<Rightarrow> nat \<Rightarrow> string" where
  "print_base b n = (if b < 2 \<or> n < b then [digit_char n] else print_base b (n div b) @ [digit_char (n mod b)])"

declare print_base.simps [simp del]

definition print_X :: "u32 \<Rightarrow> string" where
  "print_X w = print_base 16 (unat w)"

definition print_d :: "int \<Rightarrow> string" where
  "print_d i = (if i < 0 then CHR ''-'' # print_base 10 (nat (- i)) else print_base 10 (nat i))"

section \<open>What is printed is read back\<close>

lemma print_base_ne [simp]: "print_base b n \<noteq> []"
  by (subst print_base.simps) simp

lemma scan_print_base:
  "2 \<le> b \<Longrightarrow> b \<le> 16 \<Longrightarrow> \<exists>k. scan_digits b acc (print_base b n @ rest) = scan_digits b (acc * b ^ k + n) rest"
proof (induction b n arbitrary: rest rule: print_base.induct)
  case (1 b n)
  show ?case
  proof (cases "n < b")
    case True
    then have "scan_digits b acc (print_base b n @ rest) = scan_digits b (acc * b ^ 1 + n) rest"
      using "1.prems" by (subst print_base.simps) simp
    then show ?thesis by blast
  next
    case False
    obtain k where k: "scan_digits b acc (print_base b (n div b) @ [digit_char (n mod b)] @ rest) =
        scan_digits b (acc * b ^ k + n div b) ([digit_char (n mod b)] @ rest)"
      using "1.IH" [of "[digit_char (n mod b)] @ rest"] "1.prems" False by auto
    have m: "n mod b < b" using "1.prems" by simp
    then have "n mod b < 16" using "1.prems" by linarith
    with m have "scan_digits b acc (print_base b n @ rest) = scan_digits b ((acc * b ^ k + n div b) * b + n mod b) rest"
      using False "1.prems" k by (subst print_base.simps) simp
    also have "(acc * b ^ k + n div b) * b + n mod b = acc * b ^ Suc k + n" by (simp add: algebra_simps)
    finally show ?thesis by blast
  qed
qed

text \<open>The characters of a printed number: digits of its base, so neither spaces nor signs.\<close>

lemma print_base_chars: "2 \<le> b \<Longrightarrow> b \<le> 16 \<Longrightarrow> set (print_base b n) \<subseteq> digit_char ` {..<b}"
proof (induction b n rule: print_base.induct)
  case (1 b n)
  then show ?case by (cases "n < b") (subst print_base.simps; force)+
qed

lemma of_digit_char: "n < 16 \<Longrightarrow> (of_char (digit_char n) :: nat) = (if n < 10 then 48 + n else 55 + n)"
  by (simp add: digit_char_def)

definition plain_char :: "char \<Rightarrow> bool" where
  "plain_char c \<longleftrightarrow> \<not> is_space c \<and> c \<noteq> space \<and> c \<noteq> newline \<and> c \<noteq> CHR 0x00 \<and> c \<notin> {CHR ''-'', CHR ''+'', CHR ''x'', CHR ''X''}"

lemma plain_charI:
  assumes "48 \<le> (of_char c :: nat)" "(of_char c :: nat) \<le> 70"
  shows "plain_char c"
  using assms by (auto simp: plain_char_def is_space_def space_def newline_def)

lemma print_base_plain: "2 \<le> b \<Longrightarrow> b \<le> 16 \<Longrightarrow> c \<in> set (print_base b n) \<Longrightarrow> plain_char c"
proof -
  assume b: "2 \<le> b" "b \<le> 16" "c \<in> set (print_base b n)"
  then obtain d where "c = digit_char d" "d < 16" using print_base_chars [OF b(1,2), of n] by force
  then show ?thesis using of_digit_char [of d] by (intro plain_charI) auto
qed

lemma scan_sign_print: "2 \<le> b \<Longrightarrow> b \<le> 16 \<Longrightarrow> scan_sign (print_base b n @ rest) = (False, print_base b n @ rest)"
proof -
  assume b: "2 \<le> b" "b \<le> 16"
  obtain c cs where c: "print_base b n = c # cs" by (cases "print_base b n") auto
  then show ?thesis using print_base_plain [OF b, of c n] by (simp add: scan_sign_def plain_char_def)
qed

lemma skip_0x_print:
  assumes "rest = [] \<or> is_space (hd rest)"
  shows "skip_0x (print_base 16 n @ rest) = print_base 16 n @ rest"
proof -
  obtain c cs where c: "print_base 16 n = c # cs" by (cases "print_base 16 n") auto
  have "take 1 (cs @ rest) \<noteq> ''x'' \<and> take 1 (cs @ rest) \<noteq> ''X''"
  proof (cases cs)
    case Nil
    then show ?thesis using assms by (cases rest) (auto simp: is_space_def space_def)
  next
    case (Cons d ds)
    then have "plain_char d" using print_base_plain [of 16 d n] c by simp
    then show ?thesis using Cons by (simp add: plain_char_def)
  qed
  then show ?thesis unfolding skip_0x_def c by auto
qed

lemma scan_stops: "rest = [] \<or> is_space (hd rest) \<Longrightarrow> scan_digits b v rest = v"
proof -
  assume r: "rest = [] \<or> is_space (hd rest)"
  have "digit_value c = None" if "is_space c" for c
    using that by (auto simp: is_space_def space_def digit_value_def)
  then show ?thesis using r by (cases rest) auto
qed

lemma strtoul_print:
  assumes b: "b = 10 \<or> b = 16" and n: "n < 2 ^ 64" and rest: "rest = [] \<or> is_space (hd rest)"
  shows "strtoul b (print_base b n @ rest) = of_nat n"
proof -
  have b': "2 \<le> b" "b \<le> 16" using b by auto
  obtain k where "scan_digits b 0 (print_base b n @ rest) = scan_digits b (0 * b ^ k + n) rest" using scan_print_base [OF b', of 0 n rest] by blast
  then have "scan_digits b 0 (print_base b n @ rest) = n" using scan_stops [OF rest] by simp
  moreover have "(if b = 16 then skip_0x (print_base b n @ rest) else print_base b n @ rest) = print_base b n @ rest"
    using skip_0x_print [OF rest, of n] by simp
  ultimately show ?thesis using n unfolding strtoul_def scan_sign_print [OF b'] by (simp del: if_split)
qed

lemma print_base_length: "2 \<le> b \<Longrightarrow> n < b ^ Suc k \<Longrightarrow> length (print_base b n) \<le> Suc k"
proof (induction k arbitrary: n)
  case 0
  then show ?case by (subst print_base.simps) simp
next
  case (Suc k)
  have "n div b < b ^ Suc k" using Suc.prems by (simp add: less_mult_imp_div_less mult.commute)
  then have "length (print_base b (n div b)) \<le> Suc k" using Suc.IH Suc.prems(1) by blast
  then show ?case using Suc.prems(1) by (subst print_base.simps) simp
qed

text \<open>Lines and tokens.\<close>

lemma read_line_append: "newline \<notin> set l \<Longrightarrow> length l < n \<Longrightarrow> read_line n (l @ newline # rest) = (l @ [newline], rest)"
proof (induction l arbitrary: n)
  case Nil
  then show ?case by (cases n) auto
next
  case (Cons c l)
  then obtain n' where "n = Suc n'" "length l < n'" by (cases n) auto
  then show ?case using Cons by auto
qed

lemma fgets_line: "newline \<notin> set l \<Longrightarrow> length l < n - 1 \<Longrightarrow> fgets n (l @ newline # rest) = Some (l @ [newline], rest)"
  by (simp add: fgets_def read_line_append)

lemma strtok_token: "t \<noteq> [] \<Longrightarrow> space \<notin> set t \<Longrightarrow> strtok (t @ space # r) = Some (t, r)"
  by (cases t) (auto simp: strtok_def takeWhile_append dropWhile_append)

lemma strtok_last: "t \<noteq> [] \<Longrightarrow> space \<notin> set t \<Longrightarrow> strtok t = Some (t, [])"
proof -
  assume t: "t \<noteq> []" "space \<notin> set t"
  then have "dropWhile (\<lambda>c. c = space) t = t" by (cases t) auto
  moreover have "takeWhile (\<lambda>c. c \<noteq> space) t = t" "dropWhile (\<lambda>c. c \<noteq> space) t = []"
    using t(2) by (auto simp: takeWhile_eq_all_conv dropWhile_eq_Nil_conv)
  ultimately show ?thesis using t(1) unfolding strtok_def Let_def by (simp del: drop_eq_Nil dropWhile_eq_Nil_conv)
qed

end
