(* ===== verification/Buffer_Manager.thy ===== *)
theory Buffer_Manager
  imports Trace_Analyzer C_Text
begin

text \<open>
  The trace buffer and the trace file (\<open>trace_analyzer/buffer_manager.c\<close>): the emulator pushes the
  executed instructions, their branch outcomes and their memory addresses; a trace file records the
  same calls as text, and \<open>fill_trace_buffer_from_file\<close> replays them.
\<close>

section \<open>State\<close>

text \<open>An open file: opened for writing or for reading, with the text written or left to read.\<close>

record trace_file =
  tf_write :: bool
  tf_text :: string

record BM =
  ta :: TA
  on_the_fly_inst :: ptr
  fp :: "trace_file option"

section \<open>Operations\<close>

definition init_trace_buffer :: "TA \<Rightarrow> TA" where
  "init_trace_buffer st = st\<lparr>trace_buffer := init_inst_queue 1000001\<rparr>"

definition destroy_trace_buffer :: "TA \<Rightarrow> TA option" where
  "destroy_trace_buffer st = do {
     (q, m) \<leftarrow> destroy_all_inst_elem_from_queue (trace_buffer st) (emem st);
     Some (st\<lparr>trace_buffer := q, emem := m\<rparr>) }"

text \<open>\<open>fopen\<close> gets the text that the file has on disk, \<open>None\<close> if it cannot be opened.\<close>

definition init_trace_file :: "string option \<Rightarrow> string \<Rightarrow> BM \<Rightarrow> BM" where
  "init_trace_file disk mode st = st\<lparr>fp := map_option (\<lambda>t.
     if mode = ''w'' then \<lparr>tf_write = True, tf_text = []\<rparr> else \<lparr>tf_write = False, tf_text = t\<rparr>) disk\<rparr>"

text \<open>\<open>fclose\<close>; the pointer itself is not cleared.\<close>

definition destroy_trace_file :: "BM \<Rightarrow> BM option" where
  "destroy_trace_file st = do { _ \<leftarrow> fp st; Some st }"

text \<open>\<open>if (fp) fprintf(fp, ...)\<close>; a write to a file opened for reading fails and has no effect.\<close>

definition log_line :: "string \<Rightarrow> BM \<Rightarrow> BM" where
  "log_line s st = (case fp st of
     None \<Rightarrow> st
   | Some f \<Rightarrow> if tf_write f then st\<lparr>fp := Some (f\<lparr>tf_text := tf_text f @ s\<rparr>)\<rparr> else st)"

definition push_code :: "u32 \<Rightarrow> u32 \<Rightarrow> u32 \<Rightarrow> CacheMissType \<Rightarrow> BM \<Rightarrow> (bool \<times> BM) option" where
  "push_code sq pc code miss_type st = do {
     let (a, t) = malloc_inst (ta st);
     t \<leftarrow> upd_inst (Some a) (\<lambda>i. (init_inst i sq pc code)\<lparr>i_inst_cache_miss := miss_type\<rparr>) t;
     let st = log_line (''c '' @ print_X sq @ '' '' @ print_X pc @ '' '' @ print_X code @ '' '' @ print_d (int (miss_rank miss_type)) @ [newline]) (st\<lparr>ta := t\<rparr>);
     if is_full_queue (trace_buffer t) then Some (False, st\<lparr>on_the_fly_inst := Some a\<rparr>)
     else do {
       (_, q, m) \<leftarrow> push_back_inst (trace_buffer t) (Some a) (emem t);
       Some (True, st\<lparr>ta := t\<lparr>trace_buffer := q, emem := m\<rparr>\<rparr>) } }"

definition push_bpred :: "bool \<Rightarrow> BM \<Rightarrow> (bool \<times> BM) option" where
  "push_bpred correct st = do {
     let st = log_line (''b '' @ print_d (if correct then 1 else 0) @ [newline]) st;
     e \<leftarrow> load (elems (emem (ta st))) (newest (trace_buffer (ta st)));
     if e_inst e = None then Some (False, st)
     else do {
       t \<leftarrow> upd_inst (e_inst e) (set_inst_bpred_mispred (\<not> correct)) (ta st);
       Some (True, st\<lparr>ta := t\<rparr>) } }"

definition push_memaddr :: "u32 \<Rightarrow> CacheMissType \<Rightarrow> BM \<Rightarrow> (bool \<times> BM) option" where
  "push_memaddr a miss_type st = do {
     let st = log_line (''a '' @ print_X a @ '' '' @ print_d (int (miss_rank miss_type)) @ [newline]) st;
     e \<leftarrow> load (elems (emem (ta st))) (newest (trace_buffer (ta st)));
     if e_inst e = None then Some (False, st)
     else do {
       inst \<leftarrow> load (insts (ta st)) (e_inst e);
       inst \<leftarrow> set_inst_eff_addr a miss_type inst;
       t \<leftarrow> upd_inst (e_inst e) (\<lambda>_. inst) (ta st);
       Some (True, st\<lparr>ta := t\<rparr>) } }"

section \<open>Replaying a trace file\<close>

text \<open>The enumeration has three values; a line with another number is outside the model.\<close>

definition miss_of :: "u64 \<Rightarrow> CacheMissType option" where
  "miss_of w = (if w = 0 then Some L1Hit else if w = 1 then Some L1Miss else if w = 2 then Some L2Miss else None)"

text \<open>One line of the file; the flag says whether to go on.\<close>

definition fill_line :: "string \<Rightarrow> BM \<Rightarrow> (bool \<times> BM) option" where
  "fill_line line st = (case strtok (cstr line) of
     None \<Rightarrow> Some (True, st)
   | Some (p, r) \<Rightarrow>
       if take 1 p = ''c'' then do {
         (sq, r) \<leftarrow> strtok r;
         (pc, r) \<leftarrow> strtok r;
         (code, r) \<leftarrow> strtok r;
         (m, r) \<leftarrow> strtok r;
         miss_type \<leftarrow> miss_of (strtoul 10 m);
         push_code (ucast (strtoul 16 sq)) (ucast (strtoul 16 pc)) (ucast (strtoul 16 code)) miss_type st }
       else if take 1 p = ''b'' then do {
         (c, r) \<leftarrow> strtok r;
         (_, st) \<leftarrow> push_bpred (ucast (strtoul 10 c) \<noteq> (0 :: u32)) st;
         Some (True, st) }
       else if take 1 p = ''a'' then do {
         (a, r) \<leftarrow> strtok r;
         (m, r) \<leftarrow> strtok r;
         miss_type \<leftarrow> miss_of (strtoul 10 m);
         (_, st) \<leftarrow> push_memaddr (ucast (strtoul 16 a)) miss_type st;
         Some (True, st) }
       else Some (True, st))"

partial_function (option) fill_loop :: "BM \<Rightarrow> BM option" where
  [code]: "fill_loop st = do {
     f \<leftarrow> fp st;
     (case if tf_write f then None else fgets 256 (tf_text f) of
        None \<Rightarrow> Some st
      | Some (line, rest) \<Rightarrow> do {
          (more, st) \<leftarrow> fill_line line (st\<lparr>fp := Some (f\<lparr>tf_text := rest\<rparr>)\<rparr>);
          if more then fill_loop st else Some st }) }"

definition fill_trace_buffer_from_file :: "BM \<Rightarrow> (int \<times> BM) option" where
  "fill_trace_buffer_from_file st = do {
     st \<leftarrow> (if on_the_fly_inst st = None then Some st
       else do {
         (_, q, m) \<leftarrow> push_back_inst (trace_buffer (ta st)) (on_the_fly_inst st) (emem (ta st));
         Some (st\<lparr>ta := (ta st)\<lparr>trace_buffer := q, emem := m\<rparr>, on_the_fly_inst := None\<rparr>) });
     st \<leftarrow> fill_loop st;
     Some (get_current_queue_size (trace_buffer (ta st)), st) }"

section \<open>Recording\<close>

text \<open>A call by which the emulator records something; the result of the call is not used.\<close>

datatype trace_event = Code u32 u32 u32 CacheMissType | Bpred bool | Memaddr u32 CacheMissType

fun record_event :: "trace_event \<Rightarrow> BM \<Rightarrow> (bool \<times> BM) option" where
  "record_event (Code sq pc code m) st = push_code sq pc code m st"
| "record_event (Bpred correct) st = push_bpred correct st"
| "record_event (Memaddr a m) st = push_memaddr a m st"

definition record_events :: "trace_event list \<Rightarrow> BM \<Rightarrow> BM option" where
  "record_events es st = ofold (\<lambda>e st. map_option snd (record_event e st)) es st"

section \<open>The trace file\<close>

text \<open>The line by which a call is recorded, without its end.\<close>

fun event_text :: "trace_event \<Rightarrow> string" where
  "event_text (Code sq pc code m) = ''c '' @ print_X sq @ '' '' @ print_X pc @ '' '' @ print_X code @ '' '' @ print_d (int (miss_rank m))"
| "event_text (Bpred correct) = ''b '' @ print_d (if correct then 1 else 0)"
| "event_text (Memaddr a m) = ''a '' @ print_X a @ '' '' @ print_d (int (miss_rank m))"

text \<open>Whether and where a call is recorded does not influence what it does.\<close>

definition with_file :: "trace_file option \<Rightarrow> bool \<times> BM \<Rightarrow> bool \<times> BM" where
  "with_file f r = (fst r, (snd r)\<lparr>fp := f\<rparr>)"

lemma log_line_fields [simp]: "ta (log_line s st) = ta st" "on_the_fly_inst (log_line s st) = on_the_fly_inst st"
  by (auto simp: log_line_def split: option.splits)

lemma log_line_fp: "log_line s st = st\<lparr>fp := fp (log_line s st)\<rparr>"
  by (auto simp: log_line_def split: option.splits)

lemma record_event_frame:
  "record_event e st = map_option (with_file (fp (log_line (event_text e @ [newline]) st))) (record_event e (st\<lparr>fp := None\<rparr>))"
proof (cases e)
  case (Code sq pc code m)
  let ?l = "log_line (event_text e @ [newline])"
  obtain a t where t: "malloc_inst (ta st) = (a, t)" by force
  have "?l (st\<lparr>ta := t'\<rparr>) = st\<lparr>ta := t', fp := fp (?l st)\<rparr>" for t' by (auto simp: log_line_def split: option.splits)
  moreover have "?l (st\<lparr>fp := None, ta := t'\<rparr>) = st\<lparr>fp := None, ta := t'\<rparr>" for t' by (simp add: log_line_def)
  ultimately have l: "?l (st\<lparr>ta := t'\<rparr>) = st\<lparr>ta := t', fp := fp (?l st)\<rparr>" "?l (st\<lparr>fp := None, ta := t'\<rparr>) = st\<lparr>fp := None, ta := t'\<rparr>" for t' by blast+
  show ?thesis
  proof (cases "upd_inst (Some a) (\<lambda>i. (init_inst i sq pc code)\<lparr>i_inst_cache_miss := m\<rparr>) t")
    case None
    then show ?thesis using t Code by (simp add: push_code_def)
  next
    case (Some u)
    then show ?thesis using t Code l [of u]
      by (cases "push_back_inst (trace_buffer u) (Some a) (emem u)") (auto simp: push_code_def with_file_def Let_def)
  qed
next
  case (Bpred correct)
  let ?l = "log_line (event_text e @ [newline])"
  have "?l st = st\<lparr>fp := fp (?l st)\<rparr>" "?l (st\<lparr>fp := None\<rparr>) = st\<lparr>fp := None\<rparr>" by (auto simp: log_line_def split: option.splits)
  then show ?thesis using Bpred by (auto simp: push_bpred_def with_file_def Let_def split: bind_split)
next
  case (Memaddr x m)
  let ?l = "log_line (event_text e @ [newline])"
  have "?l st = st\<lparr>fp := fp (?l st)\<rparr>" "?l (st\<lparr>fp := None\<rparr>) = st\<lparr>fp := None\<rparr>" by (auto simp: log_line_def split: option.splits)
  then show ?thesis using Memaddr by (auto simp: push_memaddr_def with_file_def Let_def split: bind_split)
qed

text \<open>Replaying a line is the call that wrote it.\<close>

lemma read_X: "rest = [] \<or> is_space (hd rest) \<Longrightarrow> ucast (strtoul 16 (print_X w @ rest)) = w"
proof -
  assume r: "rest = [] \<or> is_space (hd rest)"
  have "unat w < 2 ^ LENGTH(32)" by (rule unsigned_less)
  then have "unat w < 2 ^ 64" by simp
  then have "strtoul 16 (print_X w @ rest) = of_nat (unat w)" unfolding print_X_def using r by (intro strtoul_print) auto
  moreover have "ucast (ucast w :: u64) = w" by (rule bit_word_eqI) (auto simp: bit_simps)
  ultimately show ?thesis by simp
qed

lemma read_d: "rest = [] \<or> is_space (hd rest) \<Longrightarrow> n < 2 ^ 64 \<Longrightarrow> strtoul 10 (print_d (int n) @ rest) = of_nat n"
  unfolding print_d_def using strtoul_print [of 10 n rest] by simp

lemma newline_space: "is_space newline" "newline \<noteq> space" "newline \<noteq> CHR 0x00"
  by (simp_all add: is_space_def newline_def space_def)

lemma print_clean:
  "c \<in> set (print_X w) \<Longrightarrow> plain_char c" "c \<in> set (print_d (int n)) \<Longrightarrow> plain_char c" "print_X w \<noteq> []" "print_d (int n) \<noteq> []"
  using print_base_plain [of 16 c "unat w"] print_base_plain [of 10 c n] by (simp_all add: print_X_def print_d_def)

lemma print_words: "space \<notin> set (print_X w)" "space \<notin> set (print_d (int n))" "newline \<notin> set (print_X w)" "newline \<notin> set (print_d (int n))"
    "CHR 0x00 \<notin> set (print_X w)" "CHR 0x00 \<notin> set (print_d (int n))"
  using print_clean(1,2) by (auto simp: plain_char_def)

lemma event_clean: "newline \<notin> set (event_text e)" "CHR 0x00 \<notin> set (event_text e)"
proof -
  have "event_text e = ''c '' @ r \<or> event_text e = ''b '' @ r \<or> event_text e = ''a '' @ r \<Longrightarrow> newline \<notin> set r \<Longrightarrow> CHR 0x00 \<notin> set r \<Longrightarrow>
    newline \<notin> set (event_text e) \<and> CHR 0x00 \<notin> set (event_text e)" for r by (auto simp: newline_def)
  note this [of "drop 2 (event_text e)"]
  moreover have "newline \<noteq> CHR '' ''" "CHR 0x00 \<noteq> CHR '' ''" by (simp_all add: newline_def)
  moreover have "print_d (if b then 1 else 0) = print_d (int (if b then 1 else 0))" for b by simp
  ultimately show "newline \<notin> set (event_text e)" "CHR 0x00 \<notin> set (event_text e)"
    using print_words by (cases e; simp)+
qed

lemma strtok_field: "space \<notin> set t \<Longrightarrow> t \<noteq> [] \<Longrightarrow> strtok (t @ '' '' @ r) = Some (t, r)"
  using strtok_token [of t r] by (simp add: space_def)

lemma miss_of_rank: "miss_of (of_nat (miss_rank m)) = Some m"
  by (cases m) (simp_all add: miss_of_def)

definition event_more :: "trace_event \<Rightarrow> bool \<Rightarrow> bool" where
  "event_more e b = (case e of Code _ _ _ _ \<Rightarrow> b | _ \<Rightarrow> True)"

lemma fill_event: "fill_line (event_text e @ [newline]) st = map_option (\<lambda>(b, s). (event_more e b, s)) (record_event e st)"
proof -
  have c: "cstr (event_text e @ [newline]) = event_text e @ [newline]"
    using event_clean(2) [of e] newline_space by (auto simp: cstr_def takeWhile_eq_all_conv)
  have lm: "strtok (print_d (int n) @ [newline]) = Some (print_d (int n) @ [newline], [])" for n
    using print_words(2) print_clean(4) newline_space by (intro strtok_last) auto
  note f = strtok_field [OF print_words(1) print_clean(3)]
  have m: "miss_of (strtoul 10 (print_d (int (miss_rank x)) @ [newline])) = Some x" for x
    using read_d [of "[newline]" "miss_rank x"] newline_space(1) miss_of_rank [of x] by (cases x) simp_all
  have x: "ucast (strtoul 16 (print_X w)) = w" for w using read_X [of "[]" w] by simp
  have t: "strtok (''c '' @ r) = Some (''c'', r)" "strtok (''b '' @ r) = Some (''b'', r)" "strtok (''a '' @ r) = Some (''a'', r)" for r
    using strtok_field [of "''c''" r] strtok_field [of "''b''" r] strtok_field [of "''a''" r] by (simp_all add: space_def)
  show ?thesis
  proof (cases e)
    case (Code sq pc code k)
    then show ?thesis unfolding fill_line_def c using t(1) f lm m x by (simp add: event_more_def option.map_id0 case_prod_beta del: append_Cons append.simps)
  next
    case (Bpred correct)
    have "strtoul 10 (print_d (int (if correct then 1 else 0)) @ [newline]) = of_nat (if correct then 1 else 0)"
      using read_d [of "[newline]"] newline_space(1) by simp
    then show ?thesis unfolding fill_line_def c using Bpred t(2) lm [of "if correct then 1 else 0"] 
      by (cases correct) (auto simp: event_more_def map_option_case split: option.splits)
  next
    case (Memaddr a k)
    then show ?thesis unfolding fill_line_def c using t(3) f lm m x
      by (auto simp: event_more_def map_option_case split: option.splits)
  qed
qed

lemma event_text_short: "length (event_text e) < 255"
proof -
  have "length (print_X w) \<le> 8" for w
  proof -
    have "unat w < 2 ^ LENGTH(32)" by (rule unsigned_less)
    then show ?thesis using print_base_length [of 16 "unat w" 7] by (simp add: print_X_def)
  qed
  note x = this
  have d: "length (print_d (int n)) \<le> 1" if "n < 3" for n
    using print_base_length [of 10 n 0] that by (simp add: print_d_def)
  have r: "miss_rank m < 3" for m by (cases m) auto
  show ?thesis
  proof (cases e)
    case (Code sq pc code m)
    then show ?thesis using x [of sq] x [of pc] x [of code] d [OF r [of m]] by simp
  next
    case (Bpred b)
    then show ?thesis using d [of 0] d [of 1] by simp
  next
    case (Memaddr a m)
    then show ?thesis using x [of a] d [OF r [of m]] by simp
  qed
qed

text \<open>A refused instruction is remembered, and no call forgets it.\<close>

lemma push_code_refused:
  assumes "push_code sq pc code m st = Some (b, st')"
  shows "on_the_fly_inst st' = (if b then on_the_fly_inst st else Some (inst_brk (ta st)))"
proof -
  obtain t where t: "upd_inst (Some (inst_brk (ta st))) (\<lambda>i. (init_inst i sq pc code)\<lparr>i_inst_cache_miss := m\<rparr>) (snd (malloc_inst (ta st))) = Some t"
    using assms by (auto simp: push_code_def malloc_inst_def bind_eq_Some_conv)
  show ?thesis using assms t
    by (cases "push_back_inst (trace_buffer t) (Some (inst_brk (ta st))) (emem t)")
      (auto simp: push_code_def malloc_inst_def Let_def split: if_splits)
qed

lemma push_bpred_refused: "push_bpred c st = Some (b, st') \<Longrightarrow> on_the_fly_inst st' = on_the_fly_inst st"
  unfolding push_bpred_def Let_def bind_eq_Some_conv by (auto simp: bind_eq_Some_conv split: if_splits)

lemma push_memaddr_refused: "push_memaddr a m st = Some (b, st') \<Longrightarrow> on_the_fly_inst st' = on_the_fly_inst st"
  unfolding push_memaddr_def Let_def bind_eq_Some_conv by (auto simp: bind_eq_Some_conv split: if_splits)

lemma record_event_refused:
  assumes "record_event e st = Some (b, st')"
  shows "\<not> event_more e b \<or> on_the_fly_inst st \<noteq> None \<Longrightarrow> on_the_fly_inst st' \<noteq> None"
    "event_more e b \<Longrightarrow> on_the_fly_inst st' = on_the_fly_inst st"
  using assms push_code_refused push_bpred_refused push_memaddr_refused by (cases e; fastforce simp: event_more_def split: if_splits)+

lemma record_events_refused:
  "record_events es st = Some st' \<Longrightarrow> on_the_fly_inst st \<noteq> None \<Longrightarrow> on_the_fly_inst st' \<noteq> None"
proof (induction es arbitrary: st)
  case (Cons e es)
  then obtain b st1 where "record_event e st = Some (b, st1)" "record_events es st1 = Some st'"
    by (auto simp: record_events_def bind_eq_Some_conv)
  then show ?case using Cons record_event_refused(1) by blast
qed (simp add: record_events_def)

definition trace_text :: "trace_event list \<Rightarrow> string" where
  "trace_text es = concat (map (\<lambda>e. event_text e @ [newline]) es)"

abbreviation no_file :: "BM \<Rightarrow> BM" where
  "no_file st \<equiv> st\<lparr>fp := None\<rparr>"

abbreviation write_file :: "string \<Rightarrow> BM \<Rightarrow> BM" where
  "write_file t st \<equiv> st\<lparr>fp := Some \<lparr>tf_write = True, tf_text = t\<rparr>\<rparr>"

abbreviation read_file :: "string \<Rightarrow> BM \<Rightarrow> BM" where
  "read_file t st \<equiv> st\<lparr>fp := Some \<lparr>tf_write = False, tf_text = t\<rparr>\<rparr>"

lemma record_event_files:
  assumes "record_event e (no_file st) = Some (b, st1)"
  shows "no_file st1 = st1" "record_event e (write_file t st) = Some (b, write_file (t @ event_text e @ [newline]) st1)"
    "record_event e (read_file t st) = Some (b, read_file t st1)"
proof -
  have "log_line s (no_file st) = no_file st" "log_line s (write_file t st) = write_file (t @ s) st" "log_line s (read_file t st) = read_file t st" for s
    by (simp_all add: log_line_def)
  note l = this [of "event_text e @ [newline]"]
  show "no_file st1 = st1"
    using record_event_frame [of e "no_file st"] unfolding l(1) BM.update_convs using assms by (simp add: with_file_def)
  show "record_event e (write_file t st) = Some (b, write_file (t @ event_text e @ [newline]) st1)"
    using record_event_frame [of e "write_file t st"] unfolding l(2) using assms by (simp add: with_file_def)
  show "record_event e (read_file t st) = Some (b, read_file t st1)"
    using record_event_frame [of e "read_file t st"] unfolding l(3) using assms by (simp add: with_file_def)
qed

lemma record_events_write:
  "record_events es (write_file t st) = map_option (write_file (t @ trace_text es)) (record_events es (no_file st))"
proof (induction es arbitrary: t st)
  case (Cons e es)
  show ?case
  proof (cases "record_event e (no_file st)")
    case None
    then show ?thesis using record_event_frame [of e "write_file t st"] by (simp add: record_events_def)
  next
    case (Some r)
    then obtain b st1 where r: "record_event e (no_file st) = Some (b, st1)" by (cases r) auto
    note f = record_event_files [OF r]
    show ?thesis using Cons.IH [of "t @ event_text e @ [newline]" st1] f(1) f(2) [of t] r by (simp add: record_events_def trace_text_def)
  qed
qed (simp add: record_events_def trace_text_def)

lemma fill_loop_events:
  "record_events es (no_file st) = Some st1 \<Longrightarrow> on_the_fly_inst st1 = None \<Longrightarrow>
   fill_loop (read_file (trace_text es) st) = Some (read_file [] st1)"
proof (induction es arbitrary: st)
  case Nil
  then show ?case by (subst fill_loop.simps) (auto simp: record_events_def trace_text_def fgets_def)
next
  case (Cons e es)
  obtain b st2 where r: "record_event e (no_file st) = Some (b, st2)" "record_events es st2 = Some st1"
    using Cons.prems(1) by (auto simp: record_events_def bind_eq_Some_conv)
  have more: "event_more e b" using record_event_refused(1) [OF r(1)] record_events_refused [OF r(2)] Cons.prems(2) by blast
  have "fgets 256 (trace_text (e # es)) = Some (event_text e @ [newline], trace_text es)"
    using fgets_line [OF event_clean(1), of e 256] event_text_short [of e] by (simp add: trace_text_def)
  moreover have "fill_line (event_text e @ [newline]) (read_file (trace_text es) st) = Some (True, read_file (trace_text es) st2)"
    unfolding fill_event record_event_files(3) [OF r(1)] using more by simp
  moreover have "fill_loop (read_file (trace_text es) st2) = Some (read_file [] st1)"
    using Cons.IH [of st2] record_event_files(1) [OF r(1)] r(2) Cons.prems(2) by simp
  ultimately show ?case by (subst fill_loop.simps) simp
qed

text \<open>
  C3: Recording to a trace file and replaying it are inverse: when a sequence of calls has been recorded
  and the buffer did not refuse an instruction, \<open>fill_trace_buffer_from_file\<close> on the written text
  brings any state with the same buffer to the state the calls themselves led to, reads the
  whole file, and returns the number of instructions in the buffer.
\<close>

theorem trace_file_roundtrip:
  assumes "record_events es (write_file [] st) = Some st1" "on_the_fly_inst st1 = None"
  shows "\<exists>t. st1 = write_file t st1 \<and> fill_trace_buffer_from_file (read_file t st) =
    Some (get_current_queue_size (trace_buffer (ta st1)), read_file [] st1)"
proof -
  obtain st2 where r: "record_events es (no_file st) = Some st2" "st1 = write_file (trace_text es) st2"
    using assms(1) unfolding record_events_write by auto
  have "on_the_fly_inst st2 = None" using assms(2) r(2) by simp
  moreover have "on_the_fly_inst st = None" using record_events_refused [OF r(1)] calculation by (cases "on_the_fly_inst st") auto
  ultimately have "fill_trace_buffer_from_file (read_file (trace_text es) st) =
      Some (get_current_queue_size (trace_buffer (ta st1)), read_file [] st1)"
    using fill_loop_events [OF r(1)] r(2) by (simp add: fill_trace_buffer_from_file_def)
  then show ?thesis using r(2) by (intro exI [of _ "trace_text es"]) simp
qed

definition demo_BM :: BM where
  "demo_BM = \<lparr>ta = init_trace_buffer (static_TA (\<lambda>_. demo_inst)), on_the_fly_inst = None, fp = None\<rparr>"

theorem trace_file_roundtrip_witness:
  "\<exists>st1 t. record_events [Code 0 8 9 L1Hit, Memaddr 16 L1Miss] (write_file [] demo_BM) = Some st1 \<and>
    insts (ta st1) 0 \<noteq> None \<and> st1 = write_file t st1 \<and>
    fill_trace_buffer_from_file (read_file t demo_BM) = Some (1, read_file [] st1)"
proof -
  have "\<exists>st1. record_events [Code 0 8 9 L1Hit, Memaddr 16 L1Miss] (no_file demo_BM) = Some st1 \<and> on_the_fly_inst st1 = None \<and>
      insts (ta st1) 0 \<noteq> None \<and> get_current_queue_size (trace_buffer (ta st1)) = 1"
    by (simp add: record_events_def push_code_def push_memaddr_def demo_BM_def init_trace_buffer_def static_TA_def malloc_inst_def upd_inst_def store_def
        log_line_def is_full_queue_def init_inst_queue_def push_back_inst_def has_room_def get_inst_elem_from_pool_def malloc_elem_def
        init_inst_elem_def upd_elem_def push_back_inst_elem_def load_def set_inst_eff_addr_def aset_def init_inst_def demo_inst_def
        get_current_queue_size_def Let_def)
  then obtain st1 where r: "record_events [Code 0 8 9 L1Hit, Memaddr 16 L1Miss] (no_file demo_BM) = Some st1" "on_the_fly_inst st1 = None"
      "insts (ta st1) 0 \<noteq> None" "get_current_queue_size (trace_buffer (ta st1)) = 1" by blast
  let ?st = "write_file (trace_text [Code 0 8 9 L1Hit, Memaddr 16 L1Miss]) st1"
  have w: "record_events [Code 0 8 9 L1Hit, Memaddr 16 L1Miss] (write_file [] demo_BM) = Some ?st" using r(1) unfolding record_events_write by simp
  show ?thesis using trace_file_roundtrip [OF w] r w by (intro exI [of _ ?st]) auto
qed

end
