(* ===== verification/Perfmodel.thy ===== *)
theory Perfmodel
  imports Bpred_Bimod Cachesim Buffer_Manager
begin

text \<open>
  The performance model of \<open>hsim-stub/perfmodel.c\<close>: it estimates the number of cycles from the
  number of instructions, the misses of the caches and of the branch predictor, and an
  effective dispatch width and a misprediction penalty that the analyses of samples correct.

  A \<open>double\<close> is a rational number and \<open>round64\<close> the rounding of its operations. The operations whose
  result would be infinite or no number are \<open>None\<close>.
\<close>

section \<open>Conversions\<close>

text \<open>\<open>uint64_t\<close> to \<open>int\<close> keeps the low 32 bits; \<open>uint64_t\<close> to \<open>double\<close> rounds.\<close>

definition as_int :: "u64 \<Rightarrow> int" where
  "as_int w = sint (ucast w :: u32)"

lemma ucast_of_int: "ucast (word_of_int x :: u64) = (word_of_int x :: u32)"
  by (rule bit_word_eqI) (auto simp: bit_unsigned_iff bit_word_of_int_iff)

lemma as_int_diff:
  assumes "k \<le> n" "n - k < 2 ^ 31"
  shows "as_int (of_nat n - word_of_int (as_int (of_nat k))) = int (n - k)"
proof -
  have "(of_nat n - word_of_int (as_int (of_nat k)) :: u64) = word_of_int (int n - as_int (of_nat k))" by simp
  then have "ucast (of_nat n - word_of_int (as_int (of_nat k)) :: u64) = (word_of_int (int n - as_int (of_nat k)) :: u32)"
    by (simp only: ucast_of_int)
  also have "\<dots> = of_nat n - word_of_int (as_int (of_nat k))" by simp
  also have "word_of_int (as_int (of_nat k)) = (ucast (of_nat k :: u64) :: u32)" by (simp add: as_int_def)
  also have "\<dots> = of_nat k" using ucast_of_int [of "int k"] by simp
  finally have "ucast (of_nat n - word_of_int (as_int (of_nat k)) :: u64) = (of_nat (n - k) :: u32)" using assms(1) by (simp add: of_nat_diff)
  then have "as_int (of_nat n - word_of_int (as_int (of_nat k))) = sint (of_nat (n - k) :: u32)" by (simp add: as_int_def)
  also have "\<dots> = signed_take_bit 31 (int (n - k))" by (simp add: signed_of_nat)
  also have "\<dots> = int (n - k)" using assms(2) by (intro signed_take_bit_int_eq_self) simp_all
  finally show ?thesis .
qed

definition as_double :: "(rat \<Rightarrow> rat) \<Rightarrow> u64 \<Rightarrow> rat" where
  "as_double round64 w = round64 (of_nat (unat w))"

text \<open>\<open>double\<close> to \<open>uint64_t\<close>, as on x86-64: the conversion to a signed number gives \<open>2^63\<close> outside its range.\<close>

definition cvttsd2si :: "rat \<Rightarrow> u64" where
  "cvttsd2si x = (if - (2 ^ 63) \<le> c_trunc x \<and> c_trunc x < 2 ^ 63 then word_of_int (c_trunc x) else 2 ^ 63)"

definition u64_of_double :: "rat \<Rightarrow> u64" where
  "u64_of_double x = (if x < 2 ^ 63 then cvttsd2si x else xor (cvttsd2si (x - 2 ^ 63)) (2 ^ 63))"

lemma u64_of_double_range:
  assumes "0 \<le> x" "x < 2 ^ 64"
  shows "unat (u64_of_double x) = nat \<lfloor>x\<rfloor>"
proof (cases "x < 2 ^ 63")
  case True
  then have "\<lfloor>x\<rfloor> < 2 ^ 63" "0 \<le> \<lfloor>x\<rfloor>" using assms(1) by (simp_all add: floor_less_iff)
  then show ?thesis using True assms(1) by (simp add: u64_of_double_def cvttsd2si_def c_trunc_def unat_eq_nat_uint uint_word_of_int_eq take_bit_int_eq_self)
next
  case False
  define y where "y = \<lfloor>x\<rfloor> - 2 ^ 63"
  have y: "0 \<le> y" "y < 2 ^ 63" using False assms(2) by (simp_all add: y_def le_floor_iff floor_less_iff)
  have "c_trunc (x - 2 ^ 63) = y" using False floor_diff_of_int [of x "2 ^ 63"] by (simp add: c_trunc_def y_def)
  then have "u64_of_double x = xor (word_of_int y) (2 ^ 63)" using False y by (simp add: u64_of_double_def cvttsd2si_def)
  also have "and (word_of_int y) (2 ^ 63) = (0 :: u64)"
  proof (rule bit_word_eqI)
    fix n assume "n < LENGTH(64)"
    have "\<not> bit y 63" using y by (simp add: bit_iff_odd)
    then show "bit (and (word_of_int y) (2 ^ 63) :: u64) n = bit (0 :: u64) n" by (auto simp only: bit_and_iff bit_exp_iff bit_word_of_int_iff bit_0_eq bot_fun_def bot_bool_def)
  qed
  then have "xor (word_of_int y) (2 ^ 63) = (word_of_int y + 2 ^ 63 :: u64)" by (simp add: disjunctive_add_eq_xor)
  also have "\<dots> = word_of_int \<lfloor>x\<rfloor>" by (simp add: y_def wi_hom_add [symmetric])
  finally show ?thesis using False assms(2) by (simp add: unat_eq_nat_uint uint_word_of_int_eq take_bit_int_eq_self floor_less_iff)
qed

section \<open>State\<close>

record SampledStat =
  ss_num_insts :: int
  ss_num_il1_miss :: int
  ss_num_dl1_miss :: int
  ss_num_ul2_miss :: int
  ss_num_mispred :: int

record PM =
  sum_effective_dispatch_width :: rat
  sum_bpred_penalty :: int
  num_sampling :: int
  num_total_branch :: int
  num_insts :: u64
  effective_dispatch_width :: rat
  bpred_penalty :: u32
  sample_stat :: SampledStat
  sum_ipc :: rat
  num_ipc :: int
  num_file :: int
  enable_save_files :: bool

text \<open>Variables with static storage start as zero.\<close>

definition static_PM :: PM where
  "static_PM = \<lparr>sum_effective_dispatch_width = 0, sum_bpred_penalty = 0, num_sampling = 0, num_total_branch = 0, num_insts = 0,
     effective_dispatch_width = 0, bpred_penalty = 0,
     sample_stat = \<lparr>ss_num_insts = 0, ss_num_il1_miss = 0, ss_num_dl1_miss = 0, ss_num_ul2_miss = 0, ss_num_mispred = 0\<rparr>,
     sum_ipc = 0, num_ipc = 0, num_file = 0, enable_save_files = False\<rparr>"

section \<open>Operations\<close>

text \<open>
  \<open>pm\<close> is what \<open>load_configfile\<close> has read; the other arguments are the contents of fresh memory. The
  command line and the times are only kept for the log.
\<close>

definition perfmodel_initialize ::
    "Cache_blk_t \<Rightarrow> Cache_set_t \<Rightarrow> Cache_t \<Rightarrow> SatCounter \<Rightarrow> bpred_t \<Rightarrow> perfmodel_config \<Rightarrow> PM \<Rightarrow> (PM \<times> cachesim_state \<times> bpred_t) option" where
  "perfmodel_initialize raw rawset cm ctr fresh pm st = do {
     let st = st\<lparr>num_insts := 0, bpred_penalty := word_of_int (mispredict_penalty (bpred pm)),
       effective_dispatch_width := initial_effective_dispatch_width (sample pm)\<rparr>;
     caches \<leftarrow> cachesim_initialize raw rawset cm pm;
     Some (st, caches, bpredsim_initialize ctr fresh) }"

definition inst_cycles :: "(rat \<Rightarrow> rat) \<Rightarrow> PM \<Rightarrow> rat option" where
  "inst_cycles round64 st = (if effective_dispatch_width st = 0 then None
     else Some (round64 (as_double round64 (num_insts st) / effective_dispatch_width st)))"

definition il1_cycles :: "cachesim_state \<Rightarrow> u64" where
  "il1_cycles caches = cachesim_il1_num_miss caches * word_of_int (cachesim_il1_miss_latency caches)"

definition ul2_cycles :: "cachesim_state \<Rightarrow> u64" where
  "ul2_cycles caches = cachesim_ul2_num_miss caches * word_of_int (cachesim_ul2_miss_latency caches)"

definition mispred_cycles :: "bpred_t \<Rightarrow> PM \<Rightarrow> u32" where
  "mispred_cycles pred st = bpredsim_num_mispred pred * bpred_penalty st"

definition perfmodel_getCycle :: "(rat \<Rightarrow> rat) \<Rightarrow> cachesim_state \<Rightarrow> bpred_t \<Rightarrow> PM \<Rightarrow> u64 option" where
  "perfmodel_getCycle round64 caches pred st = do {
     c \<leftarrow> inst_cycles round64 st;
     let c = round64 (c + as_double round64 (il1_cycles caches));
     let c = round64 (c + as_double round64 (ul2_cycles caches));
     Some (u64_of_double (round64 (c + of_nat (unat (mispred_cycles pred st))))) }"

definition perfmodel_getSimpleCycle :: "(rat \<Rightarrow> rat) \<Rightarrow> cachesim_state \<Rightarrow> bpred_t \<Rightarrow> PM \<Rightarrow> u64 option" where
  "perfmodel_getSimpleCycle round64 caches pred st = do {
     c \<leftarrow> inst_cycles round64 st;
     let c = round64 (c + as_double round64 (il1_cycles caches));
     Some (u64_of_double (round64 (c + of_nat (unat (mispred_cycles pred st))))) }"

definition perfmodel_sample_start :: "cachesim_state \<Rightarrow> bpred_t \<Rightarrow> PM \<Rightarrow> BM \<Rightarrow> PM \<times> BM" where
  "perfmodel_sample_start caches pred st b =
     (let st = st\<lparr>sample_stat := \<lparr>ss_num_insts = as_int (num_insts st), ss_num_il1_miss = as_int (cachesim_il1_num_miss caches),
        ss_num_dl1_miss = as_int (cachesim_dl1_num_miss caches), ss_num_ul2_miss = as_int (cachesim_ul2_num_miss caches),
        ss_num_mispred = sint (bpredsim_num_mispred pred)\<rparr>\<rparr>
      in if enable_save_files st then (st\<lparr>num_file := num_file st + 1\<rparr>, init_trace_file (Some []) ''w'' b) else (st, b))"

definition perfmodel_sample_end :: "cachesim_state \<Rightarrow> bpred_t \<Rightarrow> PM \<Rightarrow> BM \<Rightarrow> (PM \<times> BM) option" where
  "perfmodel_sample_end caches pred st b = do {
     let ss = sample_stat st;
     let st = st\<lparr>sample_stat := ss\<lparr>ss_num_insts := as_int (num_insts st - word_of_int (ss_num_insts ss)),
       ss_num_il1_miss := as_int (cachesim_il1_num_miss caches - word_of_int (ss_num_il1_miss ss)),
       ss_num_ul2_miss := as_int (cachesim_ul2_num_miss caches - word_of_int (ss_num_ul2_miss ss)),
       ss_num_mispred := sint (bpredsim_num_mispred pred) - ss_num_mispred ss\<rparr>\<rparr>;
     if enable_save_files st then do { b \<leftarrow> destroy_trace_file b; Some (st, b) } else Some (st, b) }"

definition perfmodel_update :: "(rat \<Rightarrow> rat) \<Rightarrow> u64 \<Rightarrow> int \<Rightarrow> PM \<Rightarrow> PM option" where
  "perfmodel_update round64 cycle penalty st =
     (let l_num_insts = ss_num_insts (sample_stat st);
          l_num_mispred = ss_num_mispred (sample_stat st);
          D = round64 (of_int l_num_insts / as_double round64 cycle);
          s = round64 (sum_effective_dispatch_width st + round64 (1 / D))
      in if as_double round64 cycle = 0 \<or> D = 0 \<or> s = 0 then None
         else
           (let st = st\<lparr>sum_ipc := round64 (sum_ipc st + D), num_ipc := num_ipc st + 1\<rparr>;
                st = (if penalty \<noteq> 0
                  then st\<lparr>sum_bpred_penalty := sum_bpred_penalty st + l_num_mispred * penalty,
                          num_total_branch := num_total_branch st + l_num_mispred\<rparr> else st);
                st = st\<lparr>sum_effective_dispatch_width := s, num_sampling := num_sampling st + 1\<rparr>;
                st = st\<lparr>effective_dispatch_width := round64 (of_int (num_sampling st) / s)\<rparr>
            in Some (if num_total_branch st \<noteq> 0
                 then st\<lparr>bpred_penalty := word_of_int (c_trunc (of_int (sum_bpred_penalty st) / of_int (num_total_branch st)))\<rparr>
                 else st)))"

text \<open>
  The end of the model closes the caches. It also frees the copy of the command line and, in
  \<open>bpredsim_end\<close>, the predictor: two blocks that nothing reads afterwards and that are not part of
  this state.
\<close>

definition perfmodel_end :: "cachesim_state \<Rightarrow> ((addr \<rightharpoonup> Cache_blk_t) \<times> (addr \<rightharpoonup> Cache_blk_t) \<times> (addr \<rightharpoonup> Cache_blk_t)) option" where
  "perfmodel_end caches = cachesim_end caches"

section \<open>Rounding\<close>

text \<open>
  What the IEEE 754 rounding to \<open>double\<close> satisfies: it is monotone, and a number with a significand of
  at most 53 bits is a \<open>double\<close> itself (the exponents that occur here are small).
\<close>

definition rounds :: "(rat \<Rightarrow> rat) \<Rightarrow> bool" where
  "rounds r \<longleftrightarrow> mono r \<and> (\<forall>m k. m \<le> 2 ^ 53 \<longrightarrow> k \<le> 200 \<longrightarrow>
     r (of_nat m * 2 ^ k) = of_nat m * 2 ^ k \<and> r (of_nat m / 2 ^ k) = of_nat m / 2 ^ k)"

lemma rounds_id: "rounds id"
  by (simp add: rounds_def mono_def)

lemma rounds_le: "rounds r \<Longrightarrow> m \<le> 2 ^ 53 \<Longrightarrow> k \<le> 200 \<Longrightarrow> x \<le> of_nat m * 2 ^ k \<Longrightarrow> r x \<le> of_nat m * 2 ^ k"
proof -
  assume a: "rounds r" "m \<le> 2 ^ 53" "k \<le> 200" "x \<le> of_nat m * 2 ^ k"
  then have "r (of_nat m * 2 ^ k) = of_nat m * 2 ^ k" unfolding rounds_def by blast
  then show ?thesis using a(1,4) monoD [of r x "of_nat m * 2 ^ k"] by (simp add: rounds_def)
qed

lemma rounds_ge: "rounds r \<Longrightarrow> k \<le> 200 \<Longrightarrow> 1 / 2 ^ k \<le> x \<Longrightarrow> 1 / 2 ^ k \<le> r x"
proof -
  assume a: "rounds r" "k \<le> 200" "1 / 2 ^ k \<le> x"
  then have "r (of_nat 1 / 2 ^ k) = of_nat 1 / 2 ^ k" unfolding rounds_def by (meson one_le_numeral one_le_power)
  then show ?thesis using a(1,3) monoD [of r "1 / 2 ^ k" x] by (simp add: rounds_def)
qed

lemma rounds_between:
  assumes "rounds r" "j \<le> 200" "k \<le> 200" "1 / 2 ^ j \<le> x" "x \<le> 2 ^ k"
  shows "1 / 2 ^ j \<le> r x" "r x \<le> 2 ^ k"
  using rounds_ge [OF assms(1,2,4)] rounds_le [OF assms(1) _ assms(3), of 1 x] assms(5) by simp_all

text \<open>The sum of the inverse widths after \<open>n\<close> samples.\<close>

definition sum_ok :: "PM \<Rightarrow> bool" where
  "sum_ok st \<longleftrightarrow> 0 \<le> num_sampling st \<and> 0 \<le> sum_effective_dispatch_width st \<and>
     sum_effective_dispatch_width st \<le> of_int (num_sampling st) * 2 ^ 64"

lemma perfmodel_update_ok:
  assumes r: "rounds r" and s: "sum_ok st" "num_sampling st < 2 ^ 53" and n: "1 \<le> ss_num_insts (sample_stat st)" "ss_num_insts (sample_stat st) < 2 ^ 31"
    and c: "cycle \<noteq> 0"
  shows "\<exists>st'. perfmodel_update r cycle penalty st = Some st' \<and> sum_ok st' \<and> 0 < effective_dispatch_width st' \<and>
    num_sampling st' = num_sampling st + 1 \<and> num_insts st' = num_insts st \<and> sample_stat st' = sample_stat st \<and>
    enable_save_files st' = enable_save_files st"
proof -
  let ?n = "ss_num_insts (sample_stat st)" and ?k = "nat (num_sampling st)"
  define cy where "cy = as_double r cycle"
  define D where "D = r (of_int ?n / cy)"
  define x where "x = r (1 / D)"
  define t where "t = r (sum_effective_dispatch_width st + x)"
  have "1 \<le> unat cycle" using c by (simp add: Suc_le_eq unat_gt_0)
  moreover have "unat cycle \<le> 2 ^ 64" using unsigned_less [of cycle, where 'a = nat] by simp
  ultimately have "1 \<le> (of_nat (unat cycle) :: rat)" "of_nat (unat cycle) \<le> (2 ^ 64 :: rat)"
    using of_nat_mono [of 1 "unat cycle", where 'a = rat] of_nat_mono [of "unat cycle" "2 ^ 64", where 'a = rat] by simp_all
  then have cy: "1 \<le> cy" "cy \<le> 2 ^ 64" using rounds_between [OF r, of 0 64 "of_nat (unat cycle)"] by (simp_all add: cy_def as_double_def)
  have n': "1 \<le> (of_int ?n :: rat)" "of_int ?n \<le> (2 ^ 31 :: rat)"
    using n of_int_le_iff [of ?n "2 ^ 31", where 'a = rat] by simp_all
  have "1 / 2 ^ 64 \<le> of_int ?n / cy" using cy n'(1) by (intro frac_le) auto
  moreover have "of_int ?n / cy \<le> 2 ^ 31 / 1" using cy n' by (intro frac_le) auto
  ultimately have D: "1 / 2 ^ 64 \<le> D" "D \<le> 2 ^ 31" using rounds_between [OF r, of 64 31 "of_int ?n / cy"] by (simp_all add: D_def)
  have D0: "0 < D" using D(1) by (rule less_le_trans [rotated]) simp
  have "1 / 2 ^ 31 \<le> 1 / D" using D D0 by (intro frac_le) auto
  moreover have "1 / D \<le> 1 / (1 / 2 ^ 64)" using D D0 by (intro frac_le) auto
  ultimately have x: "1 / 2 ^ 31 \<le> x" "x \<le> 2 ^ 64" using rounds_between [OF r, of 31 64 "1 / D"] by (simp_all add: x_def)
  have "1 / 2 ^ 31 \<le> sum_effective_dispatch_width st + x" using s(1) x(1) by (simp add: sum_ok_def)
  then have t1: "1 / 2 ^ 31 \<le> t" using rounds_ge [OF r, of 31] by (simp add: t_def)
  have k: "of_nat ?k = (of_int (num_sampling st) :: rat)" using s(1) by (simp add: sum_ok_def)
  have "sum_effective_dispatch_width st + x \<le> of_nat (Suc ?k) * 2 ^ 64"
    using s(1) x(2) k by (simp add: sum_ok_def distrib_right)
  then have t2: "t \<le> of_nat (Suc ?k) * 2 ^ 64" unfolding t_def using s by (intro rounds_le [OF r]) (auto simp: sum_ok_def nat_less_iff Suc_le_eq)
  have t0: "0 < t" using t1 by (rule less_le_trans [rotated]) simp
  have "1 / 2 ^ 64 \<le> of_nat (Suc ?k) / t" using t2 t0 by (simp add: field_simps)
  then have "1 / 2 ^ 64 \<le> r (of_nat (Suc ?k) / t)" using rounds_ge [OF r, of 64] by simp
  then have w: "0 < r (of_nat (Suc ?k) / t)" by (rule less_le_trans [rotated]) simp
  have k1: "of_nat (Suc ?k) = (of_int (num_sampling st + 1) :: rat)" using k by simp
  have nz: "\<not> (cy = 0 \<or> D = 0 \<or> t = 0)" using cy D0 t0 by auto
  have "\<exists>st'. perfmodel_update r cycle penalty st = Some st' \<and> sum_effective_dispatch_width st' = t \<and>
    effective_dispatch_width st' = r (of_int (num_sampling st + 1) / t) \<and>
    num_sampling st' = num_sampling st + 1 \<and> num_insts st' = num_insts st \<and> sample_stat st' = sample_stat st \<and>
    enable_save_files st' = enable_save_files st"
    unfolding perfmodel_update_def Let_def cy_def [symmetric] D_def [symmetric] x_def [symmetric] t_def [symmetric]
    by (simp only: nz if_False) simp
  then show ?thesis using w t0 t2 s(1) unfolding k1 sum_ok_def by (metis add_nonneg_nonneg less_eq_rat_def zero_le_one)
qed

section \<open>The means over all samples\<close>

text \<open>
  A sample is a number of instructions and of mispredictions, and the cycles and the penalty that its
  analysis found.
\<close>

type_synonym sampled = "int \<times> int \<times> u64 \<times> int"

definition apply_sample :: "(rat \<Rightarrow> rat) \<Rightarrow> sampled \<Rightarrow> PM \<Rightarrow> PM option" where
  "apply_sample round64 x st = (case x of (n, m, cycle, penalty) \<Rightarrow>
     perfmodel_update round64 cycle penalty (st\<lparr>sample_stat := (sample_stat st)\<lparr>ss_num_insts := n, ss_num_mispred := m\<rparr>\<rparr>))"

definition valid_sample :: "sampled \<Rightarrow> bool" where
  "valid_sample x \<longleftrightarrow> (case x of (n, m, cycle, penalty) \<Rightarrow> 0 < n \<and> 0 \<le> m \<and> cycle \<noteq> 0 \<and> 0 \<le> penalty)"

definition cycles_of :: "sampled \<Rightarrow> rat" where
  "cycles_of x = (case x of (n, m, cycle, penalty) \<Rightarrow> of_nat (unat cycle))"

definition cpi_of :: "sampled \<Rightarrow> rat" where
  "cpi_of x = cycles_of x / of_int (fst x)"

definition penalties_of :: "sampled \<Rightarrow> int" where
  "penalties_of x = (case x of (n, m, cycle, penalty) \<Rightarrow> m * penalty)"

definition penalised_of :: "sampled \<Rightarrow> int" where
  "penalised_of x = (case x of (n, m, cycle, penalty) \<Rightarrow> if penalty \<noteq> 0 then m else 0)"

lemma cycles_pos: "c \<noteq> 0 \<Longrightarrow> 0 < (of_nat (unat (c :: u64)) :: rat)"
  by (simp add: unat_gt_0 del: of_nat_unat)

lemma cpi_pos: "valid_sample x \<Longrightarrow> 0 < cpi_of x"
  using cycles_pos by (auto simp: valid_sample_def cpi_of_def cycles_of_def simp del: of_nat_unat split: prod.splits)

lemma apply_sample_id:
  assumes "valid_sample x" "0 \<le> sum_effective_dispatch_width st"
  shows "\<exists>st'. apply_sample id x st = Some st' \<and> sum_effective_dispatch_width st' = sum_effective_dispatch_width st + cpi_of x \<and>
    num_sampling st' = num_sampling st + 1 \<and> effective_dispatch_width st' = of_int (num_sampling st + 1) / (sum_effective_dispatch_width st + cpi_of x) \<and>
    sum_bpred_penalty st' = sum_bpred_penalty st + penalties_of x \<and> num_total_branch st' = num_total_branch st + penalised_of x \<and>
    bpred_penalty st' = (if num_total_branch st' = 0 then bpred_penalty st
      else word_of_int (c_trunc (of_int (sum_bpred_penalty st') / of_int (num_total_branch st'))))"
proof -
  obtain n m c p where x: "x = (n, m, c, p)" by (cases x)
  have v: "0 < n" "c \<noteq> 0" using assms(1) by (simp_all add: x valid_sample_def)
  then have "(of_nat (unat c) :: rat) \<noteq> 0" "(of_int n :: rat) \<noteq> 0" using cycles_pos [of c] by auto
  moreover have "sum_effective_dispatch_width st + of_nat (unat c) / of_int n \<noteq> 0"
    using cpi_pos [OF assms(1)] assms(2) by (simp add: cpi_of_def cycles_of_def x)
  ultimately show ?thesis
    unfolding apply_sample_def x prod.case perfmodel_update_def as_double_def id_apply Let_def
    by (simp add: penalties_of_def penalised_of_def cpi_of_def cycles_of_def)
qed

lemma samples_id:
  assumes "\<forall>x\<in>set xs. valid_sample x" "sum_effective_dispatch_width st = 0" "num_sampling st = 0" "sum_bpred_penalty st = 0" "num_total_branch st = 0"
  shows "\<exists>st'. ofold (apply_sample id) xs st = Some st' \<and> sum_effective_dispatch_width st' = (\<Sum>x\<leftarrow>xs. cpi_of x) \<and> num_sampling st' = int (length xs) \<and>
    (xs \<noteq> [] \<longrightarrow> effective_dispatch_width st' = of_nat (length xs) / (\<Sum>x\<leftarrow>xs. cpi_of x)) \<and>
    sum_bpred_penalty st' = (\<Sum>x\<leftarrow>xs. penalties_of x) \<and> num_total_branch st' = (\<Sum>x\<leftarrow>xs. penalised_of x) \<and>
    bpred_penalty st' = (if num_total_branch st' = 0 then bpred_penalty st
      else word_of_int (c_trunc (of_int (sum_bpred_penalty st') / of_int (num_total_branch st'))))"
  using assms
proof (induction xs rule: rev_induct)
  case (snoc x xs)
  have v: "valid_sample y" if "y \<in> set xs" for y using snoc.prems(1) that by simp
  have pos: "0 \<le> penalised_of x" if "valid_sample x" for x using that by (auto simp: valid_sample_def penalised_of_def)
  obtain st1 where 1: "ofold (apply_sample id) xs st = Some st1" "sum_effective_dispatch_width st1 = (\<Sum>x\<leftarrow>xs. cpi_of x)" "num_sampling st1 = int (length xs)"
    "sum_bpred_penalty st1 = (\<Sum>x\<leftarrow>xs. penalties_of x)" "num_total_branch st1 = (\<Sum>x\<leftarrow>xs. penalised_of x)"
    "bpred_penalty st1 = (if num_total_branch st1 = 0 then bpred_penalty st
      else word_of_int (c_trunc (of_int (sum_bpred_penalty st1) / of_int (num_total_branch st1))))" using snoc.IH [OF ballI [OF v] snoc.prems(2-5)] by blast
  have "0 \<le> (\<Sum>x\<leftarrow>xs. cpi_of x)" by (rule sum_list_nonneg) (use snoc.prems(1) cpi_pos in \<open>force intro: less_imp_le\<close>)
  then have "0 \<le> sum_effective_dispatch_width st1" using 1(2) by simp
  moreover have "0 \<le> (\<Sum>x\<leftarrow>xs. penalised_of x)" by (rule sum_list_nonneg) (use snoc.prems(1) pos in auto)
  moreover have x: "valid_sample x" using snoc.prems(1) by simp
  ultimately obtain st2 where 2: "apply_sample id x st1 = Some st2" "sum_effective_dispatch_width st2 = sum_effective_dispatch_width st1 + cpi_of x"
    "num_sampling st2 = num_sampling st1 + 1" "effective_dispatch_width st2 = of_int (num_sampling st1 + 1) / (sum_effective_dispatch_width st1 + cpi_of x)"
    "sum_bpred_penalty st2 = sum_bpred_penalty st1 + penalties_of x" "num_total_branch st2 = num_total_branch st1 + penalised_of x"
    "bpred_penalty st2 = (if num_total_branch st2 = 0 then bpred_penalty st1
      else word_of_int (c_trunc (of_int (sum_bpred_penalty st2) / of_int (num_total_branch st2))))" "0 \<le> num_total_branch st1"
    using apply_sample_id [of x st1] unfolding 1(5) by blast
  have "ofold (apply_sample id) (xs @ [x]) st = Some st2" by (simp only: ofold_append 1(1) 2(1) ofold.simps Option.bind.simps)
  moreover have "num_total_branch st2 = 0 \<Longrightarrow> num_total_branch st1 = 0" using 2(6,8) pos [OF x] by linarith
  then have "bpred_penalty st2 = (if num_total_branch st2 = 0 then bpred_penalty st
      else word_of_int (c_trunc (of_int (sum_bpred_penalty st2) / of_int (num_total_branch st2))))" using 1(6) 2(7) by simp
  ultimately show ?case using 1(2-5) 2(2-6) by (intro exI [of _ st2] conjI) (assumption | simp)+
qed simp

text \<open>
  C7: The model is corrected to the means of all samples. Starting with empty sums, in exact arithmetic, the updates for
  any sequence of analysed samples succeed; the effective dispatch width is then the harmonic mean of the
  instructions per cycle of the samples, which for samples of the same length is the instructions per
  cycle over all of them together; and the misprediction penalty is the mean of the penalties found,
  weighted with the mispredictions, and unchanged as long as no sample had any.
\<close>

theorem perfmodel_means:
  assumes "\<forall>x\<in>set xs. valid_sample x" "xs \<noteq> []"
    "sum_effective_dispatch_width st = 0" "num_sampling st = 0" "sum_bpred_penalty st = 0" "num_total_branch st = 0"
  shows "\<exists>st'. ofold (apply_sample id) xs st = Some st' \<and>
    effective_dispatch_width st' = of_nat (length xs) / (\<Sum>x\<leftarrow>xs. cpi_of x) \<and>
    (\<forall>N. (\<forall>x\<in>set xs. fst x = N) \<longrightarrow> effective_dispatch_width st' = of_nat (length xs) * of_int N / (\<Sum>x\<leftarrow>xs. cycles_of x)) \<and>
    bpred_penalty st' = (if (\<Sum>x\<leftarrow>xs. penalised_of x) = 0 then bpred_penalty st
      else word_of_int ((\<Sum>x\<leftarrow>xs. penalties_of x) div (\<Sum>x\<leftarrow>xs. penalised_of x)))"
proof -
  obtain st' where st': "ofold (apply_sample id) xs st = Some st'" "effective_dispatch_width st' = of_nat (length xs) / (\<Sum>x\<leftarrow>xs. cpi_of x)"
    "sum_bpred_penalty st' = (\<Sum>x\<leftarrow>xs. penalties_of x)" "num_total_branch st' = (\<Sum>x\<leftarrow>xs. penalised_of x)"
    "bpred_penalty st' = (if num_total_branch st' = 0 then bpred_penalty st
      else word_of_int (c_trunc (of_int (sum_bpred_penalty st') / of_int (num_total_branch st'))))"
    using samples_id [OF assms(1,3-6)] assms(2) by auto
  have "effective_dispatch_width st' = of_nat (length xs) * of_int N / (\<Sum>x\<leftarrow>xs. cycles_of x)" if N: "\<forall>x\<in>set xs. fst x = N" for N
  proof -
    have "(\<Sum>x\<leftarrow>xs. cpi_of x) = (\<Sum>x\<leftarrow>xs. cycles_of x / of_int N)"
      by (intro arg_cong [where f = sum_list] map_cong) (use N in \<open>auto simp: cpi_of_def\<close>)
    also have "\<dots> = (\<Sum>x\<leftarrow>xs. cycles_of x) / of_int N" by (induction xs) (simp_all add: add_divide_distrib)
    finally show ?thesis using st'(2) by simp
  qed
  moreover have "0 \<le> (\<Sum>x\<leftarrow>xs. penalties_of x)" "0 \<le> (\<Sum>x\<leftarrow>xs. penalised_of x)"
    by (rule sum_list_nonneg; use assms(1) in \<open>force simp: valid_sample_def penalties_of_def penalised_of_def\<close>)+
  then have "c_trunc (of_int (\<Sum>x\<leftarrow>xs. penalties_of x) / of_int (\<Sum>x\<leftarrow>xs. penalised_of x)) = (\<Sum>x\<leftarrow>xs. penalties_of x) div (\<Sum>x\<leftarrow>xs. penalised_of x)"
    by (simp add: c_trunc_def floor_divide_of_int_eq)
  ultimately show ?thesis using st' by auto
qed

theorem perfmodel_means_witness:
  "\<exists>st'. ofold (apply_sample id) [(6, 2, 2, 10), (6, 0, 3, 0), (6, 1, 4, 4)] static_PM = Some st' \<and>
    effective_dispatch_width st' = 2 \<and> bpred_penalty st' = 8"
proof -
  let ?xs = "[(6, 2, 2, 10), (6, 0, 3, 0), (6, 1, 4, 4)] :: sampled list"
  have "\<forall>x\<in>set ?xs. valid_sample x" by (simp add: valid_sample_def)
  from perfmodel_means [OF this, of static_PM] show ?thesis
    by (auto simp: static_PM_def cpi_of_def cycles_of_def penalties_of_def penalised_of_def)
qed

end
