(* ===== verification/Queue_Set.thy ===== *)
theory Queue_Set
  imports Trace_Analyzer
begin

text \<open>
  The five queues of the trace analyzer share one heap of elements and one pool. \<open>queues_ok\<close> says that
  they are well formed and separate, and names the elements of each; the lemmas say what each queue
  operation does to all of them at once.
\<close>

section \<open>The queues by name\<close>

datatype qname = QTrace | QIssue | QLoad | QStore | QUnits

fun qsel :: "'q \<Rightarrow> 'q \<Rightarrow> 'q \<Rightarrow> 'q \<Rightarrow> 'q \<Rightarrow> qname \<Rightarrow> 'q" where
  "qsel t i l s u QTrace = t"
| "qsel t i l s u QIssue = i"
| "qsel t i l s u QLoad = l"
| "qsel t i l s u QStore = s"
| "qsel t i l s u QUnits = u"

abbreviation queue_of :: "TA \<Rightarrow> qname \<Rightarrow> InstQueue" where
  "queue_of st \<equiv> qsel (trace_buffer st) (IQ st) (LDQ st) (STQ st) (FUBuffer st)"

lemma qsel_upd [simp]:
  "(qsel t i l s u)(QTrace := q) = qsel q i l s u"
  "(qsel t i l s u)(QIssue := q) = qsel t q l s u"
  "(qsel t i l s u)(QLoad := q) = qsel t i q s u"
  "(qsel t i l s u)(QStore := q) = qsel t i l q u"
  "(qsel t i l s u)(QUnits := q) = qsel t i l s q"
proof -
  have eq: "f = g" if "f QTrace = g QTrace" "f QIssue = g QIssue" "f QLoad = g QLoad" "f QStore = g QStore" "f QUnits = g QUnits"
    for f g :: "qname \<Rightarrow> 'a" using that by (intro ext) (metis qname.exhaust)
  show "(qsel t i l s u)(QTrace := q) = qsel q i l s u" by (rule eq) simp_all
  show "(qsel t i l s u)(QIssue := q) = qsel t q l s u" by (rule eq) simp_all
  show "(qsel t i l s u)(QLoad := q) = qsel t i q s u" by (rule eq) simp_all
  show "(qsel t i l s u)(QStore := q) = qsel t i l q u" by (rule eq) simp_all
  show "(qsel t i l s u)(QUnits := q) = qsel t i l s q" by (rule eq) simp_all
qed

text \<open>\<open>L n\<close> are the elements of queue \<open>n\<close>, oldest first, \<open>U n\<close> the instructions they point to.\<close>

definition queues_ok :: "ElemMem \<Rightarrow> (qname \<Rightarrow> InstQueue) \<Rightarrow> (qname \<Rightarrow> addr list) \<Rightarrow> addr list \<Rightarrow> (qname \<Rightarrow> addr list) \<Rightarrow> bool" where
  "queues_ok m Q L ps U \<longleftrightarrow>
     (\<forall>n. q_rep m (Q n) (L n)) \<and> (\<forall>n. n \<noteq> QTrace \<longrightarrow> q_tail (Q n) (L n)) \<and> pool_rep m ps \<and>
     (\<forall>n. set (L n) \<inter> set ps = {}) \<and> (\<forall>n n'. n \<noteq> n' \<longrightarrow> set (L n) \<inter> set (L n') = {}) \<and>
     (\<forall>n. insts_of m (L n) = map Some (U n))"

lemma queues_okD:
  assumes "queues_ok m Q L ps U"
  shows "q_rep m (Q n) (L n)" "n \<noteq> QTrace \<Longrightarrow> q_tail (Q n) (L n)" "pool_rep m ps" "set (L n) \<inter> set ps = {}"
    "n \<noteq> n' \<Longrightarrow> set (L n) \<inter> set (L n') = {}" "insts_of m (L n) = map Some (U n)"
proof -
  note a = assms [unfolded queues_ok_def]
  show "q_rep m (Q n) (L n)" using a by blast
  show "q_tail (Q n) (L n)" if "n \<noteq> QTrace" using a that by blast
  show "pool_rep m ps" using a by blast
  show "set (L n) \<inter> set ps = {}" using a by blast
  show "set (L n) \<inter> set (L n') = {}" if "n \<noteq> n'" using a that by blast
  show "insts_of m (L n) = map Some (U n)" using a by blast
qed

lemma queues_okI:
  assumes "\<And>n. q_rep m (Q n) (L n)" "\<And>n. n \<noteq> QTrace \<Longrightarrow> q_tail (Q n) (L n)" "pool_rep m ps"
    "\<And>n. set (L n) \<inter> set ps = {}" "\<And>n n'. n \<noteq> n' \<Longrightarrow> set (L n) \<inter> set (L n') = {}"
    "\<And>n. insts_of m (L n) = map Some (U n)"
  shows "queues_ok m Q L ps U"
  unfolding queues_ok_def using assms by blast

lemma queues_ok_length: "queues_ok m Q L ps U \<Longrightarrow> length (U n) = length (L n)"
  using arg_cong [OF queues_okD(6) [of m Q L ps U n], of length] by (simp add: insts_of_def)

lemma queues_ok_size: "queues_ok m Q L ps U \<Longrightarrow> q_size (Q n) = int (length (U n))"
  using queues_ok_length [of m Q L ps U n] queues_okD(1) [of m Q L ps U n] by (simp add: q_rep_def)

lemma queues_ok_room: "queues_ok m Q L ps U \<Longrightarrow> is_full_queue (Q n) \<longleftrightarrow> q_capacity (Q n) \<noteq> 0 \<and> q_capacity (Q n) \<le> int (length (U n))"
  using queues_ok_size [of m Q L ps U n] by (auto simp: is_full_queue_def)

lemma queues_ok_elem:
  assumes q: "queues_ok m Q L ps U" and L: "L n = as @ a # cs"
  shows "\<exists>e. elems m a = Some e \<and> e_inst e = Some (U n ! length as) \<and> e_next e = hdo cs None \<and> oldest (Q n) = hdo (L n) None"
proof -
  have r: "q_rep m (Q n) (as @ a # cs)" and i: "insts_of m (L n) = map Some (U n)"
    using queues_okD(1,6) [OF q, of n] L by simp_all
  obtain e where e: "elems m a = Some e" using q_rep_dom [OF r] by auto
  have "e_next e = hdo cs None" using r dlist_split_fields(2) [of e_next e_prev "elems m" _ _ as a cs e] e by (auto simp: q_rep_def)
  moreover have "insts_of m (L n) ! length as = map Some (U n) ! length as" using i by simp
  then have "e_inst e = Some (U n ! length as)"
    using L e queues_ok_length [OF q, of n] by (simp add: insts_of_def fld_in nth_append)
  ultimately show ?thesis using e q_rep_oldest [OF r] L by simp
qed

lemma queues_ok_front: "queues_ok m Q L ps U \<Longrightarrow> oldest (Q n) = hdo (L n) None"
  using queues_okD(1) [of m Q L ps U n] by (simp add: q_rep_oldest)

text \<open>What an operation keeps of the elements that stay in a queue.\<close>

definition payload_kept :: "ElemMem \<Rightarrow> ElemMem \<Rightarrow> (qname \<Rightarrow> addr list) \<Rightarrow> bool" where
  "payload_kept m m' L \<longleftrightarrow> (\<forall>n. \<forall>b\<in>set (L n). fld e_inst (elems m') b = fld e_inst (elems m) b)"

lemma insts_of_nth: "insts_of m xs = insts_of m' xs \<Longrightarrow> b \<in> set xs \<Longrightarrow> fld e_inst (elems m) b = fld e_inst (elems m') b"
  by (auto simp: insts_of_def)

lemma keeps_payload: "keeps S m m' \<Longrightarrow> b \<notin> S \<Longrightarrow> fld e_inst (elems m') b = fld e_inst (elems m) b"
  by (simp add: keeps_def fld_def)

section \<open>Operations\<close>

lemma queues_remove:
  assumes q: "queues_ok m Q L ps U" and L: "L n = as @ a # cs" and U: "U n = us @ p # vs" and len: "length us = length as"
  shows "\<exists>q' m'. remove_from_list (Q n) (Some a) True m = Some (q', m') \<and> q_capacity q' = q_capacity (Q n) \<and>
    queues_ok m' (Q(n := q')) (L(n := as @ cs)) ps (U(n := us @ vs)) \<and> payload_kept m m' (L(n := as @ cs))"
proof -
  have r: "q_rep m (Q n) (as @ a # cs)" using queues_okD(1) [OF q, of n] L by simp
  obtain m' where m': "remove_from_list (Q n) (Some a) True m = Some (dequeued as a cs (Q n), m')"
    "q_rep m' (dequeued as a cs (Q n)) (as @ cs)" "insts_of m' (as @ cs) = insts_of m (as @ cs)"
    "keeps (set (as @ a # cs)) m m'" "inst_elem_pool m' = inst_elem_pool m" "elem_brk m' = elem_brk m" "dom (elems m') \<subseteq> dom (elems m)"
    using remove_rep [OF r] by blast
  have other: "set (L n') \<inter> set (as @ a # cs) = {}" if "n' \<noteq> n" for n' using queues_okD(5) [OF q that] L by simp
  have "set (as @ a # cs) \<inter> set ps = {}" using queues_okD(4) [OF q, of n] L by simp
  then have pool: "pool_rep m' ps" using pool_rep_frame [OF queues_okD(3) [OF q] m'(4) _ m'(5,6,7)] by simp
  have rest: "q_rep m' (Q n') (L n')" "insts_of m' (L n') = map Some (U n')" if "n' \<noteq> n" for n'
    using keeps_q_rep [OF m'(4) queues_okD(1) [OF q] other [OF that]] keeps_insts [OF m'(4) other [OF that]] queues_okD(6) [OF q] by simp_all
  have "insts_of m as @ insts_of m [a] @ insts_of m cs = map Some us @ [Some p] @ map Some vs"
    using queues_okD(6) [OF q, of n] L U by (simp add: insts_of_def)
  then have ins: "insts_of m (as @ cs) = map Some (us @ vs)" using len by (auto simp: insts_of_def)
  have "queues_ok m' (Q(n := dequeued as a cs (Q n))) (L(n := as @ cs)) ps (U(n := us @ vs))"
  proof (rule queues_okI)
    fix n' n''
    show "q_rep m' ((Q(n := dequeued as a cs (Q n))) n') ((L(n := as @ cs)) n')" using rest m'(2) by simp
    show "q_tail ((Q(n := dequeued as a cs (Q n))) n') ((L(n := as @ cs)) n')" if "n' \<noteq> QTrace"
      using dequeued_fields(5) [OF r] queues_okD(2) [OF q that] L by auto
    show "set ((L(n := as @ cs)) n') \<inter> set ps = {}" using queues_okD(4) [OF q, of n'] L by auto
    show "set ((L(n := as @ cs)) n') \<inter> set ((L(n := as @ cs)) n'') = {}" if "n' \<noteq> n''"
      using queues_okD(5) [OF q that] other [of n'] other [of n''] that L by auto
    show "insts_of m' ((L(n := as @ cs)) n') = map Some ((U(n := us @ vs)) n')" using rest m'(3) ins by simp
  qed (rule pool)
  moreover have "payload_kept m m' (L(n := as @ cs))"
    unfolding payload_kept_def
  proof (intro allI ballI)
    fix n' b assume b: "b \<in> set ((L(n := as @ cs)) n')"
    then show "fld e_inst (elems m') b = fld e_inst (elems m) b"
      using insts_of_nth [OF m'(3)] keeps_payload [OF m'(4), of b] other [of n'] by (cases "n' = n") auto
  qed
  ultimately show ?thesis using m'(1) dequeued_fields(4) [OF r] by blast
qed

lemma queues_push_back_tail:
  assumes q: "queues_ok m Q L ps U" and tail: "q_tail (Q n) (L n)" and room: "\<not> is_full_queue (Q n)"
  shows "\<exists>a q' m'. push_back_inst (Q n) (Some p) m = Some (Some a, q', m') \<and> q_capacity q' = q_capacity (Q n) \<and> q_tail q' (L n @ [a]) \<and>
    queues_ok m' (Q(n := q')) (L(n := L n @ [a])) (tl ps) (U(n := U n @ [p])) \<and> payload_kept m m' L \<and>
    fld e_inst (elems m') a = Some p \<and> (\<forall>n'. a \<notin> set (L n'))"
proof -
  let ?a = "pool_front m ps"
  have pr: "pool_rep m ps" by (rule queues_okD(3) [OF q])
  have hr: "has_room (Q n)" using room by (simp add: full_no_room)
  obtain q' m' where r: "push_back_inst (Q n) (Some p) m = Some (Some ?a, q', m')"
    "q_rep m' q' (L n @ [?a])" "q_tail q' (L n @ [?a])" "q_capacity q' = q_capacity (Q n)"
    "insts_of m' (L n @ [?a]) = insts_of m (L n) @ [Some p]" "pool_rep m' (tl ps)" "keeps (insert ?a (set (L n) \<union> set ps)) m m'"
    using push_back_rep [OF pr queues_okD(1) [OF q] tail queues_okD(4) [OF q] hr] by blast
  have fresh: "?a \<notin> set (L n')" for n'
    using pool_front_fresh [OF pr] queues_okD(4) [OF q, of n'] q_rep_dom [OF queues_okD(1) [OF q, of n']] by auto
  have sub: "set (tl ps) \<subseteq> set ps" by (cases ps) auto
  have other: "set (L n') \<inter> insert ?a (set (L n) \<union> set ps) = {}" if "n' \<noteq> n" for n'
    using fresh [of n'] queues_okD(4) [OF q, of n'] queues_okD(5) [OF q that] by auto
  have ins: "insts_of m' (L n @ [?a]) = map Some (U n @ [p])" using r(5) queues_okD(6) [OF q, of n] by simp
  have rest: "q_rep m' (Q n') (L n')" "insts_of m' (L n') = map Some (U n')" if "n' \<noteq> n" for n'
    using keeps_q_rep [OF r(7) queues_okD(1) [OF q] other [OF that]] keeps_insts [OF r(7) other [OF that]] queues_okD(6) [OF q] by simp_all
  have "queues_ok m' (Q(n := q')) (L(n := L n @ [?a])) (tl ps) (U(n := U n @ [p]))"
  proof (rule queues_okI)
    fix n' n''
    show "q_rep m' ((Q(n := q')) n') ((L(n := L n @ [?a])) n')" using rest r(2) by simp
    show "q_tail ((Q(n := q')) n') ((L(n := L n @ [?a])) n')" if "n' \<noteq> QTrace" using r(3) queues_okD(2) [OF q that] by simp
    show "set ((L(n := L n @ [?a])) n') \<inter> set (tl ps) = {}"
      using queues_okD(4) [OF q, of n'] sub pool_front_tl [OF pr] by auto
    show "set ((L(n := L n @ [?a])) n') \<inter> set ((L(n := L n @ [?a])) n'') = {}" if "n' \<noteq> n''"
      using queues_okD(5) [OF q that] fresh that by auto
    show "insts_of m' ((L(n := L n @ [?a])) n') = map Some ((U(n := U n @ [p])) n')" using rest ins by simp
  qed (rule r(6))
  moreover have "payload_kept m m' L"
    unfolding payload_kept_def
  proof (intro allI ballI)
    fix n' b assume b: "b \<in> set (L n')"
    have "insts_of m' (L n) = insts_of m (L n)" using r(5) by (simp add: insts_of_def)
    then show "fld e_inst (elems m') b = fld e_inst (elems m) b"
      using insts_of_nth [of m' "L n" m b] keeps_payload [OF r(7), of b] other [of n'] b by (cases "n' = n") auto
  qed
  moreover have "fld e_inst (elems m') ?a = Some p" using ins by (simp add: insts_of_def)
  ultimately show ?thesis using r(1,3,4) fresh by blast
qed

lemma queues_push_back:
  assumes q: "queues_ok m Q L ps U" and n: "n \<noteq> QTrace" and room: "\<not> is_full_queue (Q n)"
  shows "\<exists>a q' m'. push_back_inst (Q n) (Some p) m = Some (Some a, q', m') \<and> q_capacity q' = q_capacity (Q n) \<and>
    queues_ok m' (Q(n := q')) (L(n := L n @ [a])) (tl ps) (U(n := U n @ [p])) \<and> payload_kept m m' L \<and>
    fld e_inst (elems m') a = Some p \<and> (\<forall>n'. a \<notin> set (L n'))"
  using queues_push_back_tail [OF q queues_okD(2) [OF q n] room] by blast

lemma queues_push_front:
  assumes q: "queues_ok m Q L ps U" and room: "\<not> is_full_queue (Q QTrace)"
  shows "\<exists>a q' m'. push_front_inst (Q QTrace) (Some p) m = Some (q', m') \<and> q_capacity q' = q_capacity (Q QTrace) \<and>
    queues_ok m' (Q(QTrace := q')) (L(QTrace := a # L QTrace)) (tl ps) (U(QTrace := p # U QTrace)) \<and> payload_kept m m' L"
proof -
  let ?a = "pool_front m ps" and ?n = QTrace
  have pr: "pool_rep m ps" by (rule queues_okD(3) [OF q])
  have hr: "has_room (Q ?n)" using room by (simp add: full_no_room)
  obtain q' m' where r: "push_front_inst (Q ?n) (Some p) m = Some (q', m')"
    "q_rep m' q' (?a # L ?n)" "q_capacity q' = q_capacity (Q ?n)"
    "insts_of m' (?a # L ?n) = Some p # insts_of m (L ?n)" "pool_rep m' (tl ps)" "keeps (insert ?a (set (L ?n) \<union> set ps)) m m'"
    using push_front_rep [OF pr queues_okD(1) [OF q] queues_okD(4) [OF q] hr] by blast
  have fresh: "?a \<notin> set (L n')" for n'
    using pool_front_fresh [OF pr] queues_okD(4) [OF q, of n'] q_rep_dom [OF queues_okD(1) [OF q, of n']] by auto
  have sub: "set (tl ps) \<subseteq> set ps" by (cases ps) auto
  have other: "set (L n') \<inter> insert ?a (set (L ?n) \<union> set ps) = {}" if "n' \<noteq> ?n" for n'
    using fresh [of n'] queues_okD(4) [OF q, of n'] queues_okD(5) [OF q that] by auto
  have ins: "insts_of m' (?a # L ?n) = map Some (p # U ?n)" using r(4) queues_okD(6) [OF q, of ?n] by simp
  have rest: "q_rep m' (Q n') (L n')" "insts_of m' (L n') = map Some (U n')" if "n' \<noteq> ?n" for n'
    using keeps_q_rep [OF r(6) queues_okD(1) [OF q] other [OF that]] keeps_insts [OF r(6) other [OF that]] queues_okD(6) [OF q] by simp_all
  have "queues_ok m' (Q(?n := q')) (L(?n := ?a # L ?n)) (tl ps) (U(?n := p # U ?n))"
  proof (rule queues_okI)
    fix n' n''
    show "q_rep m' ((Q(?n := q')) n') ((L(?n := ?a # L ?n)) n')" using rest r(2) by simp
    show "q_tail ((Q(?n := q')) n') ((L(?n := ?a # L ?n)) n')" if "n' \<noteq> QTrace" using queues_okD(2) [OF q that] that by simp
    show "set ((L(?n := ?a # L ?n)) n') \<inter> set (tl ps) = {}"
      using queues_okD(4) [OF q, of n'] sub pool_front_tl [OF pr] by auto
    show "set ((L(?n := ?a # L ?n)) n') \<inter> set ((L(?n := ?a # L ?n)) n'') = {}" if "n' \<noteq> n''"
      using queues_okD(5) [OF q that] fresh that by auto
    show "insts_of m' ((L(?n := ?a # L ?n)) n') = map Some ((U(?n := p # U ?n)) n')" using rest ins by simp
  qed (rule r(5))
  moreover have "payload_kept m m' L"
    unfolding payload_kept_def
  proof (intro allI ballI)
    fix n' b assume b: "b \<in> set (L n')"
    have "insts_of m' (L ?n) = insts_of m (L ?n)" using r(4) by (simp add: insts_of_def)
    then show "fld e_inst (elems m') b = fld e_inst (elems m) b"
      using insts_of_nth [of m' "L ?n" m b] keeps_payload [OF r(6), of b] other [of n'] b by (cases "n' = ?n") auto
  qed
  ultimately show ?thesis using r(1,3) by blast
qed

lemma queues_pop:
  assumes q: "queues_ok m Q L ps U" and U: "U QTrace = p # us"
  shows "\<exists>q' m'. pop_front_inst (Q QTrace) m = Some (Some p, q', m') \<and> q_capacity q' = q_capacity (Q QTrace) \<and>
    queues_ok m' (Q(QTrace := q')) (L(QTrace := tl (L QTrace))) ps (U(QTrace := us)) \<and> payload_kept m m' (L(QTrace := tl (L QTrace)))"
proof -
  obtain a cs where L: "L QTrace = a # cs" using queues_ok_length [OF q, of QTrace] U by (cases "L QTrace") auto
  obtain e where e: "elems m a = Some e" "e_inst e = Some p" "oldest (Q QTrace) = Some a"
    using queues_ok_elem [OF q, of QTrace "[]" a cs] L U by auto
  obtain q' m' where "remove_from_list (Q QTrace) (Some a) True m = Some (q', m')" "q_capacity q' = q_capacity (Q QTrace)"
    "queues_ok m' (Q(QTrace := q')) (L(QTrace := cs)) ps (U(QTrace := us))" "payload_kept m m' (L(QTrace := cs))"
    using queues_remove [OF q, of QTrace "[]" a cs "[]" p us] L U by auto
  then show ?thesis using e L by (simp add: pop_front_inst_def)
qed

end
