(* ===== verification/Pipeline.thy ===== *)
theory Pipeline
  imports Queue_Set
begin

text \<open>
  The invariant of the trace analyzer's pipeline, and that every stage keeps it and cannot fault.
  The invariant relates the state to a \<open>ghost\<close>: the instructions in the reorder buffer, oldest
  first, and for each queue its elements and the instructions they point to.
\<close>

section \<open>Instructions in the pipeline\<close>

record ghost =
  g_start :: nat
  g_rob :: "addr list"
  g_L :: "qname \<Rightarrow> addr list"
  g_ps :: "addr list"
  g_U :: "qname \<Rightarrow> addr list"

definition arrays16 :: "Inst \<Rightarrow> bool" where
  "arrays16 i \<longleftrightarrow> length (i_src_reg i) = 16 \<and> length (i_dst_reg i) = 16 \<and> length (i_eff_addr i) = 16"

text \<open>The counters of an instruction stay inside its arrays, and it writes no invalid register.\<close>

definition inst_fit :: "Inst \<Rightarrow> bool" where
  "inst_fit i \<longleftrightarrow> 0 \<le> i_num_src_reg i \<and> nat (i_num_src_reg i) \<le> length (i_src_reg i) \<and>
     nat (i_num_dst_reg i) \<le> length (i_dst_reg i) \<and> - 1 \<notin> dst_set i \<and> nat (i_num_eff_addr i) \<le> length (i_eff_addr i)"

lemma inst_fit_regs: "inst_fit i \<Longrightarrow> 0 \<le> i_rob_idx i \<Longrightarrow> i_rob_idx i < 60 \<Longrightarrow> regs_fit 60 i \<and> addrs_fit 60 i"
  by (simp add: inst_fit_def regs_fit_def addrs_fit_def)

text \<open>An instruction in the reorder buffer; \<open>busy\<close> ones are in the functional units or being written back.\<close>

definition flying :: "Inst \<Rightarrow> bool" where
  "flying i \<longleftrightarrow> inst_fit i \<and> (i_state i = Dispatch \<or> i_state i = Issue \<or> i_state i = Complete \<and> 0 \<le> i_remaining_latency i)"

definition busy :: "Inst \<Rightarrow> bool" where
  "busy i \<longleftrightarrow> i_state i = Issue \<or> i_state i = Complete \<and> i_remaining_latency i \<noteq> 0"

text \<open>
  An instruction of the trace buffer can be decoded. A \<open>pop\<close> has at most one address for each
  register it writes, as the trace records one per transferred register.
\<close>

definition decoded_ok :: "Inst \<Rightarrow> bool" where
  "decoded_ok i \<longleftrightarrow> i_decoded i \<and> i_ldq_elem i = None \<and> i_stq_elem i = None \<and>
     (i_type i = Unsupported \<or> inst_fit i \<and>
       (i_type i = Pop \<longrightarrow> nat (i_num_eff_addr i) \<le> nat (i_num_dst_reg i)) \<and>
       (i_type i = Push \<longrightarrow> nat (i_num_eff_addr i) \<le> length (i_src_reg i)))"

definition ready :: "nat \<Rightarrow> Inst \<Rightarrow> bool" where
  "ready z i \<longleftrightarrow> (\<exists>i'. decode_inst z i = Some i' \<and> decoded_ok i')"

text \<open>The number of instructions it becomes.\<close>

definition expand :: "nat \<Rightarrow> Inst \<Rightarrow> nat" where
  "expand z i = (case decode_inst z i of None \<Rightarrow> 1
     | Some i' \<Rightarrow> if i_type i' = Pop \<or> i_type i' = Push then Suc (nat (i_num_eff_addr i')) else 1)"

section \<open>The invariant\<close>

definition flight_part :: "addr list \<Rightarrow> (qname \<Rightarrow> addr list) \<Rightarrow> (addr \<rightharpoonup> Inst) \<Rightarrow> bool" where
  "flight_part xs U h \<longleftrightarrow> (\<forall>p\<in>set xs. flying (the (h p))) \<and>
     U QIssue = filter (\<lambda>p. i_state (the (h p)) = Dispatch) xs \<and>
     distinct (U QUnits) \<and> set (U QUnits) = {p \<in> set xs. busy (the (h p))}"

text \<open>Load and store queue: each of their instructions knows its element.\<close>

definition lsq_part :: "(Inst \<Rightarrow> ptr) \<Rightarrow> qname \<Rightarrow> addr list \<Rightarrow> (qname \<Rightarrow> addr list) \<Rightarrow> (qname \<Rightarrow> addr list) \<Rightarrow>
    ElemMem \<Rightarrow> (addr \<rightharpoonup> Inst) \<Rightarrow> bool" where
  "lsq_part f n xs L U m h \<longleftrightarrow> distinct (U n) \<and> set (U n) = {p \<in> set xs. f (the (h p)) \<noteq> None} \<and>
     (\<forall>p\<in>set xs. \<forall>e. f (the (h p)) = Some e \<longrightarrow> e \<in> set (L n) \<and> fld e_inst (elems m) e = Some p)"

definition fresh_part :: "nat \<Rightarrow> addr list \<Rightarrow> addr list \<Rightarrow> (addr \<rightharpoonup> Inst) \<Rightarrow> addr \<Rightarrow> (addr \<Rightarrow> Inst) \<Rightarrow> bool" where
  "fresh_part z xs tb h brk junk \<longleftrightarrow> dom h \<subseteq> {..<brk} \<and> (\<forall>a. arrays16 (junk a)) \<and> distinct tb \<and>
     set tb \<inter> set xs = {} \<and> (\<forall>p\<in>set tb. \<exists>i. h p = Some i \<and> ready z i)"

text \<open>The functional units count the issued instructions.\<close>

definition unit_part :: "addr list \<Rightarrow> (addr \<rightharpoonup> Inst) \<Rightarrow> (InstTypeName \<Rightarrow> FUType) \<Rightarrow> (FUType \<Rightarrow> FU) \<Rightarrow> bool" where
  "unit_part us h tm fus \<longleftrightarrow> (\<forall>t. fu_num_active (fus t) =
     int (length (filter (\<lambda>p. i_state (the (h p)) = Issue \<and> tm (i_type (the (h p))) = t) us)))"

definition unit_limits :: "(FUType \<Rightarrow> FU) \<Rightarrow> bool" where
  "unit_limits fus \<longleftrightarrow> (\<forall>t. 1 \<le> fu_capacity (fus t) \<and> 1 \<le> fu_num_stage (fus t))"

definition limits :: "TA \<Rightarrow> bool" where
  "limits st \<longleftrightarrow> 0 \<le> latency_l1_miss st \<and> (\<forall>t. it_latency (inst_type st t) \<le> 20) \<and>
     1 \<le> dispatch_width st \<and> 1 \<le> issue_width st \<and> 1 \<le> wb_width st \<and> 1 \<le> commit_width st \<and> unit_limits (fu st) \<and>
     0 \<le> q_capacity (IQ st) \<and> 0 \<le> q_capacity (LDQ st) \<and> 0 \<le> q_capacity (STQ st) \<and> q_capacity (FUBuffer st) = 0"

definition buffer_part :: "nat \<Rightarrow> addr list \<Rightarrow> TA \<Rightarrow> bool" where
  "buffer_part z tb st \<longleftrightarrow> q_capacity (trace_buffer st) = 0 \<or>
     int (\<Sum>p\<in>set tb. expand z (the (insts st p))) \<le> q_capacity (trace_buffer st)"

definition pipe :: "nat \<Rightarrow> nat \<Rightarrow> ghost \<Rightarrow> TA \<Rightarrow> bool" where
  "pipe z N g st \<longleftrightarrow>
     queues_ok (emem st) (queue_of st) (g_L g) (g_ps g) (g_U g) \<and>
     rob_insts N (g_start g) (g_rob g) (rob st) (insts st) \<and> N \<le> 60 \<and> mat_dim 60 (deps st) \<and>
     flight_part (g_rob g) (g_U g) (insts st) \<and>
     lsq_part i_ldq_elem QLoad (g_rob g) (g_L g) (g_U g) (emem st) (insts st) \<and>
     lsq_part i_stq_elem QStore (g_rob g) (g_L g) (g_U g) (emem st) (insts st) \<and>
     fresh_part z (g_rob g) (g_U g QTrace) (insts st) (inst_brk st) (inst_junk st) \<and>
     unit_part (g_U g QUnits) (insts st) (inst_type_fu_type_map st) (fu st) \<and>
     limits st \<and> buffer_part z (g_U g QTrace) st \<and>
     num_fetched_insts st = num_committed_insts st + int (length (g_rob g)) + int (length (g_U g QTrace))"

text \<open>What no stage changes.\<close>

definition same_config :: "TA \<Rightarrow> TA \<Rightarrow> bool" where
  "same_config st st' \<longleftrightarrow> latency_l1_miss st' = latency_l1_miss st \<and> inst_type st' = inst_type st \<and>
     inst_type_fu_type_map st' = inst_type_fu_type_map st \<and> cur_cycle st' = cur_cycle st \<and>
     q_capacity (trace_buffer st') = q_capacity (trace_buffer st)"

section \<open>Work left\<close>

text \<open>
  A bound on the work left in the pipeline. Every stage keeps or lowers it; when it stays the same
  over a whole cycle, nothing is left to do.
\<close>

definition wb_max :: "TA \<Rightarrow> nat" where
  "wb_max st = 3 + nat (latency_l1_miss st)"

definition inst_work :: "nat \<Rightarrow> Inst \<Rightarrow> nat" where
  "inst_work wb i = (case i_state i of
     Dispatch \<Rightarrow> 23 + wb
   | Issue \<Rightarrow> nat (i_remaining_latency i) + wb + 2
   | Complete \<Rightarrow> nat (i_remaining_latency i) + 1
   | _ \<Rightarrow> 0)"

definition work :: "nat \<Rightarrow> ghost \<Rightarrow> TA \<Rightarrow> nat" where
  "work z g st = (\<Sum>p\<in>set (g_rob g). inst_work (wb_max st) (the (insts st p))) +
     (24 + wb_max st) * (\<Sum>p\<in>set (g_U g QTrace). expand z (the (insts st p)))"

lemma wb_max_same: "same_config st st' \<Longrightarrow> wb_max st' = wb_max st"
  by (simp add: same_config_def wb_max_def)

section \<open>Frame rules of the parts\<close>

lemma flight_cong:
  "(\<And>p. p \<in> set xs \<Longrightarrow> h' p = h p) \<Longrightarrow> U' QIssue = U QIssue \<Longrightarrow> U' QUnits = U QUnits \<Longrightarrow> flight_part xs U' h' = flight_part xs U h"
proof -
  assume h: "\<And>p. p \<in> set xs \<Longrightarrow> h' p = h p" and U: "U' QIssue = U QIssue" "U' QUnits = U QUnits"
  have "filter (\<lambda>p. i_state (the (h' p)) = Dispatch) xs = filter (\<lambda>p. i_state (the (h p)) = Dispatch) xs"
    by (rule filter_cong) (simp_all add: h)
  moreover have "{p \<in> set xs. busy (the (h' p))} = {p \<in> set xs. busy (the (h p))}" using h by auto
  ultimately show ?thesis using h U by (simp add: flight_part_def)
qed

lemma payload_keptD: "payload_kept m m' L \<Longrightarrow> b \<in> set (L n) \<Longrightarrow> fld e_inst (elems m') b = fld e_inst (elems m) b"
  by (auto simp: payload_kept_def)

definition payload_same :: "ElemMem \<Rightarrow> ElemMem \<Rightarrow> addr list \<Rightarrow> bool" where
  "payload_same m m' l \<longleftrightarrow> (\<forall>b\<in>set l. fld e_inst (elems m') b = fld e_inst (elems m) b)"

lemma payload_same_of: "payload_kept m m' L \<Longrightarrow> L n = l \<Longrightarrow> payload_same m m' l"
  by (auto simp: payload_kept_def payload_same_def)

lemma payload_same_refl [simp]: "payload_same m m l"
  by (simp add: payload_same_def)

lemma payload_same_trans: "payload_same m m' l \<Longrightarrow> payload_same m' m'' l \<Longrightarrow> payload_same m m'' l"
  by (simp add: payload_same_def)

lemma lsq_cong:
  assumes "lsq_part f n xs L U m h" "\<And>p. p \<in> set xs \<Longrightarrow> f (the (h' p)) = f (the (h p))" "L' n = L n" "U' n = U n" "payload_same m m' (L n)"
  shows "lsq_part f n xs L' U' m' h'"
proof -
  have "{p \<in> set xs. f (the (h' p)) \<noteq> None} = {p \<in> set xs. f (the (h p)) \<noteq> None}" using assms(2) by auto
  then show ?thesis using assms by (simp add: lsq_part_def payload_same_def)
qed

lemma unit_cong: "(\<And>p. p \<in> set us \<Longrightarrow> h' p = h p) \<Longrightarrow> unit_part us h' tm fus = unit_part us h tm fus"
  unfolding unit_part_def by (metis (no_types, lifting) filter_cong)

lemma fresh_cong:
  assumes "fresh_part z xs tb h brk junk" "\<And>p. p \<in> set tb \<Longrightarrow> h' p = h p" "dom h' \<subseteq> {..<brk}" "set xs' \<subseteq> set xs"
  shows "fresh_part z xs' tb h' brk junk"
proof -
  have "\<exists>i. h' p = Some i \<and> ready z i" if "p \<in> set tb" for p
    using assms(1,2) that unfolding fresh_part_def by fastforce
  moreover have "set tb \<inter> set xs' = {}" using assms(1,4) by (auto simp: fresh_part_def)
  ultimately show ?thesis using assms(1,3) unfolding fresh_part_def by blast
qed

lemma buffer_cong:
  "buffer_part z tb st \<Longrightarrow> (\<And>p. p \<in> set tb \<Longrightarrow> insts st' p = insts st p) \<Longrightarrow> q_capacity (trace_buffer st') = q_capacity (trace_buffer st) \<Longrightarrow>
   buffer_part z tb st'"
proof -
  assume b: "buffer_part z tb st" and h: "\<And>p. p \<in> set tb \<Longrightarrow> insts st' p = insts st p"
    and c: "q_capacity (trace_buffer st') = q_capacity (trace_buffer st)"
  have "(\<Sum>p\<in>set tb. expand z (the (insts st' p))) = (\<Sum>p\<in>set tb. expand z (the (insts st p)))"
    by (rule sum.cong) (simp_all add: h)
  then show ?thesis using b c by (simp add: buffer_part_def)
qed

lemma rob_insts_cong: "(\<And>p. p \<in> set xs \<Longrightarrow> h' p = h p) \<Longrightarrow> rob_insts N s xs r h' = rob_insts N s xs r h"
  by (auto simp: rob_insts_def)

section \<open>Commit\<close>

lemma flight_tl:
  assumes "flight_part (p # xs) U h" "p \<notin> set xs" "\<not> busy (the (h p))" "i_state (the (h p)) \<noteq> Dispatch"
  shows "flight_part xs U h"
  using assms by (auto simp: flight_part_def)

lemma rob_insts_tl:
  assumes "rob_insts N s (p # xs) r h"
  shows "\<exists>r'. rob_remove_inst r = Some r' \<and> rob_insts N (slot N s 1) xs r' h"
proof -
  obtain r' where r': "rob_remove_inst r = Some r'" "rob_holds N (slot N s 1) xs r'"
    using rob_remove_holds [of N s p xs r] assms unfolding rob_insts_def by blast
  have sl: "slot N (slot N s (Suc 0)) i = slot N s (Suc i)" for i by (simp add: slot_def mod_simps)
  have "rob_insts N (slot N s 1) xs r' h"
    unfolding rob_insts_def using r'(2) assms rob_insts_nth [OF assms, of "Suc _"] by (auto simp: sl rob_insts_def)
  then show ?thesis using r'(1) by blast
qed

lemma lsq_drop:
  assumes q: "queues_ok m Q L ps U" and l: "lsq_part f n (p # xs) L U m h" and p: "p \<notin> set xs" and f: "f (the (h p)) = Some e"
  shows "\<exists>q' m' L' U'. remove_from_list (Q n) (Some e) True m = Some (q', m') \<and> q_capacity q' = q_capacity (Q n) \<and>
    queues_ok m' (Q(n := q')) (L(n := L')) ps (U(n := U')) \<and> lsq_part f n xs (L(n := L')) (U(n := U')) m' h \<and> payload_kept m m' (L(n := L'))"
proof -
  have e: "e \<in> set (L n)" "fld e_inst (elems m) e = Some p" using l f by (auto simp: lsq_part_def)
  obtain as cs where L: "L n = as @ e # cs" using split_list [OF e(1)] by blast
  define us vs where "us = take (length as) (U n)" and "vs = drop (Suc (length as)) (U n)"
  have len: "length (U n) = length (L n)" by (rule queues_ok_length [OF q])
  have "map Some (U n) ! length as = Some p"
    using queues_okD(6) [OF q, of n] L e(2) by (metis (no_types) insts_of_def length_map list.simps(9) map_append nth_append_length)
  then have "U n ! length as = p" using len L by simp
  then have U: "U n = us @ p # vs" and lu: "length us = length as"
    using len L id_take_nth_drop [of "length as" "U n"] by (auto simp: us_def vs_def)
  obtain q' m' where r: "remove_from_list (Q n) (Some e) True m = Some (q', m')" "q_capacity q' = q_capacity (Q n)"
    "queues_ok m' (Q(n := q')) (L(n := as @ cs)) ps (U(n := us @ vs))" "payload_kept m m' (L(n := as @ cs))"
    using queues_remove [OF q L U lu] by blast
  have d: "distinct (U n)" "set (U n) = {q \<in> set (p # xs). f (the (h q)) \<noteq> None}" using l by (auto simp: lsq_part_def)
  have "set (us @ vs) = set (U n) - {p}" using d(1) U by auto
  then have s: "set (us @ vs) = {q \<in> set xs. f (the (h q)) \<noteq> None}" using d(2) p by auto
  have "e' \<in> set (as @ cs) \<and> fld e_inst (elems m') e' = Some q" if qx: "q \<in> set xs" and fq: "f (the (h q)) = Some e'" for q e'
  proof -
    have e': "e' \<in> set (L n)" "fld e_inst (elems m) e' = Some q" using l qx fq by (auto simp: lsq_part_def)
    then have "e' \<noteq> e" using e(2) qx p by auto
    then have "e' \<in> set (as @ cs)" using e'(1) L by auto
    then show ?thesis using payload_keptD [OF r(4), of e' n] e'(2) by simp
  qed
  then have "lsq_part f n xs (L(n := as @ cs)) (U(n := us @ vs)) m' h"
    using s d(1) U by (auto simp: lsq_part_def)
  then show ?thesis using r by blast
qed

lemma lsq_tl: "lsq_part f n (p # xs) L U m h \<Longrightarrow> p \<notin> set xs \<Longrightarrow> f (the (h p)) = None \<Longrightarrow> lsq_part f n xs L U m h"
  by (auto simp: lsq_part_def)

text \<open>Removing the element of an instruction that may have none.\<close>

definition opt_remove :: "InstQueue \<Rightarrow> ptr \<Rightarrow> ElemMem \<Rightarrow> (InstQueue \<times> ElemMem) option" where
  "opt_remove q x m = (if x \<noteq> None then remove_from_list q x True m else Some (q, m))"

lemma lsq_drop_opt:
  assumes q: "queues_ok m Q L ps U" and l: "lsq_part f n (p # xs) L U m h" and p: "p \<notin> set xs"
    and l2: "lsq_part f2 n2 ys L U m h" and n2: "n2 \<noteq> n"
  shows "\<exists>q' m' L' U'. opt_remove (Q n) (f (the (h p))) m = Some (q', m') \<and>
    q_capacity q' = q_capacity (Q n) \<and> queues_ok m' (Q(n := q')) (L(n := L')) ps (U(n := U')) \<and>
    lsq_part f n xs (L(n := L')) (U(n := U')) m' h \<and> lsq_part f2 n2 ys (L(n := L')) (U(n := U')) m' h"
proof (cases "f (the (h p))")
  case None
  then show ?thesis
    using q lsq_tl [OF l p] l2 by (intro exI [of _ "Q n"] exI [of _ m] exI [of _ "L n"] exI [of _ "U n"]) (simp add: opt_remove_def)
next
  case (Some e)
  obtain q' m' L' U' where r: "remove_from_list (Q n) (Some e) True m = Some (q', m')" "q_capacity q' = q_capacity (Q n)"
    "queues_ok m' (Q(n := q')) (L(n := L')) ps (U(n := U'))" "lsq_part f n xs (L(n := L')) (U(n := U')) m' h" "payload_kept m m' (L(n := L'))"
    using lsq_drop [OF q l p Some] by blast
  have "lsq_part f2 n2 ys (L(n := L')) (U(n := U')) m' h"
    by (rule lsq_cong [OF l2]) (use n2 payload_same_of [OF r(5), of n2] in simp_all)
  then show ?thesis using r Some by (intro exI [of _ q'] exI [of _ m'] exI [of _ L'] exI [of _ U']) (simp add: opt_remove_def)
qed

lemma upd_inst_in: "insts st p = Some i \<Longrightarrow> upd_inst (Some p) f st = Some (st\<lparr>insts := (insts st)(p \<mapsto> f i)\<rparr>)"
  by (simp add: upd_inst_def store_Some)

lemma drop_queue_eq:
  "(if x \<noteq> None then do { (q, m) \<leftarrow> remove_from_list (LDQ st) x True (emem st); Some (st\<lparr>LDQ := q, emem := m\<rparr>) } else Some st) =
   do { (q, m) \<leftarrow> opt_remove (LDQ st) x (emem st); Some (st\<lparr>LDQ := q, emem := m\<rparr>) }"
  "(if x \<noteq> None then do { (q, m) \<leftarrow> remove_from_list (STQ st) x True (emem st); Some (st\<lparr>STQ := q, emem := m\<rparr>) } else Some st) =
   do { (q, m) \<leftarrow> opt_remove (STQ st) x (emem st); Some (st\<lparr>STQ := q, emem := m\<rparr>) }"
  by (cases x; simp add: opt_remove_def)+

lemma commit_inst_ok:
  assumes inv: "pipe z N g st" and xs: "g_rob g = p # xs" and i: "insts st p = Some i" and fin: "i_state i = Complete" "i_remaining_latency i = 0"
  shows "\<exists>g' st'. commit_inst (Some p) st = Some st' \<and> pipe z N g' st' \<and> g_rob g' = xs \<and> g_U g' QTrace = g_U g QTrace \<and>
    same_config st st' \<and> (\<forall>q. q \<noteq> p \<longrightarrow> insts st' q = insts st q) \<and> fu st' = fu st"
proof -
  let ?L = "g_L g" and ?U = "g_U g" and ?h = "insts st"
  note inv' = inv [unfolded pipe_def xs]
  have r: "rob_insts N (g_start g) (p # xs) (rob st) ?h" and p: "p \<notin> set xs" using inv' by (auto simp: rob_insts_def)
  define i1 where "i1 = i\<lparr>i_committed_cycle := cur_cycle st\<rparr>"
  define st1 where "st1 = st\<lparr>insts := ?h(p \<mapsto> i1)\<rparr>"
  have same: "f (the ((?h(p \<mapsto> i1)) q)) = f (the (?h q))" if "f i1 = f i" for q and f :: "Inst \<Rightarrow> ptr" using that i by auto
  have Q1: "queues_ok (emem st) (queue_of st) ?L (g_ps g) ?U" using inv' by blast
  have l1: "lsq_part i_ldq_elem QLoad (p # xs) ?L ?U (emem st) ?h" "lsq_part i_stq_elem QStore (p # xs) ?L ?U (emem st) ?h" using inv' by blast+
  obtain q2 m2 L2 U2 where 2: "opt_remove (LDQ st) (i_ldq_elem i) (emem st) = Some (q2, m2)"
    "q_capacity q2 = q_capacity (LDQ st)" "queues_ok m2 ((queue_of st)(QLoad := q2)) (?L(QLoad := L2)) (g_ps g) (?U(QLoad := U2))"
    "lsq_part i_ldq_elem QLoad xs (?L(QLoad := L2)) (?U(QLoad := U2)) m2 ?h"
    "lsq_part i_stq_elem QStore (p # xs) (?L(QLoad := L2)) (?U(QLoad := U2)) m2 ?h"
    using lsq_drop_opt [OF Q1 l1(1) p l1(2), unfolded qsel.simps i option.sel] by auto
  have sq: "((queue_of st)(QLoad := q2)) QStore = STQ st" by simp
  obtain q3 m3 L3 U3 where 3: "opt_remove (STQ st) (i_stq_elem i) m2 = Some (q3, m3)"
    "q_capacity q3 = q_capacity (STQ st)"
    "queues_ok m3 ((queue_of st)(QLoad := q2, QStore := q3)) (?L(QLoad := L2, QStore := L3)) (g_ps g) (?U(QLoad := U2, QStore := U3))"
    "lsq_part i_stq_elem QStore xs (?L(QLoad := L2, QStore := L3)) (?U(QLoad := U2, QStore := U3)) m3 ?h"
    "lsq_part i_ldq_elem QLoad xs (?L(QLoad := L2, QStore := L3)) (?U(QLoad := U2, QStore := U3)) m3 ?h"
    using lsq_drop_opt [OF 2(3,5) p 2(4), unfolded sq i option.sel] by auto
  obtain r' where r': "rob_remove_inst (rob st) = Some r'" "rob_insts N (slot N (g_start g) 1) xs r' ?h" using rob_insts_tl [OF r] by blast
  define st' where "st' = st\<lparr>insts := ?h(p := None), LDQ := q2, STQ := q3, emem := m3, rob := r',
    num_inst_type := (num_inst_type st)(i_type i := num_inst_type st (i_type i) + 1),
    num_committed_insts := num_committed_insts st + 1, num_committed_insts_cycle := num_committed_insts_cycle st + 1\<rparr>"
  define g' where "g' = g\<lparr>g_start := slot N (g_start g) 1, g_rob := xs, g_L := ?L(QLoad := L2, QStore := L3), g_U := ?U(QLoad := U2, QStore := U3)\<rparr>"
  have run: "commit_inst (Some p) st = Some st'"
    using i 2(1) 3(1) r'(1)
    by (simp add: commit_inst_def upd_inst_in drop_queue_eq i1_def free_inst_def st'_def del: not_None_eq)
  have keep: "(?h(p := None)) q = ?h q" if "q \<in> set xs" for q using that p by auto
  have nb: "\<not> busy (the (?h p))" "i_state (the (?h p)) \<noteq> Dispatch" using i fin by (simp_all add: busy_def)
  have tb: "q \<noteq> p" if "q \<in> set (?U QTrace)" for q using inv' that by (auto simp: fresh_part_def)
  have us: "q \<in> set xs" if "q \<in> set (?U QUnits)" for q using inv' that nb by (auto simp: flight_part_def)
  have "pipe z N g' st'"
    unfolding pipe_def
  proof (intro conjI)
    show "queues_ok (emem st') (queue_of st') (g_L g') (g_ps g') (g_U g')" using 3(3) by (simp add: st'_def g'_def)
    show "rob_insts N (g_start g') (g_rob g') (rob st') (insts st')"
      using r'(2) rob_insts_cong [of xs "?h(p := None)" ?h] keep by (simp add: st'_def g'_def)
    show "flight_part (g_rob g') (g_U g') (insts st')"
      using flight_tl [of p xs ?U ?h] p nb flight_cong [of xs "?h(p := None)" ?h "g_U g'" ?U] keep inv' by (simp add: st'_def g'_def)
    show "lsq_part i_ldq_elem QLoad (g_rob g') (g_L g') (g_U g') (emem st') (insts st')"
      using lsq_cong [OF 3(5), of "?h(p := None)"] keep by (simp add: st'_def g'_def)
    show "lsq_part i_stq_elem QStore (g_rob g') (g_L g') (g_U g') (emem st') (insts st')"
      using lsq_cong [OF 3(4), of "?h(p := None)"] keep by (simp add: st'_def g'_def)
    show "fresh_part z (g_rob g') (g_U g' QTrace) (insts st') (inst_brk st') (inst_junk st')"
      using inv' tb fresh_cong [of z "p # xs" "?U QTrace" ?h "inst_brk st" "inst_junk st" "?h(p := None)" xs]
      by (auto simp: st'_def g'_def fresh_part_def)
    show "unit_part (g_U g' QUnits) (insts st') (inst_type_fu_type_map st') (fu st')"
      using inv' unit_cong [of "?U QUnits" "?h(p := None)" ?h] us keep by (simp add: st'_def g'_def)
    show "limits st'" using inv' 2(2) 3(2) by (simp add: limits_def st'_def)
    show "buffer_part z (g_U g' QTrace) st'"
      using inv' buffer_cong [of z "?U QTrace" st st'] tb by (simp add: st'_def g'_def)
  qed (use inv' in \<open>simp_all add: st'_def g'_def\<close>)
  moreover have "same_config st st'" by (simp add: same_config_def st'_def)
  ultimately show ?thesis using run by (intro exI [of _ g'] exI [of _ st']) (simp add: g'_def st'_def)
qed

lemma pipe_rob:
  assumes "pipe z N g st"
  shows "rob_insts N (g_start g) (g_rob g) (rob st) (insts st)" "distinct (g_rob g)" "set (g_U g QTrace) \<inter> set (g_rob g) = {}"
    "\<And>p. p \<in> set (g_rob g) \<Longrightarrow> \<exists>i. insts st p = Some i \<and> flying i"
proof -
  show r: "rob_insts N (g_start g) (g_rob g) (rob st) (insts st)" using assms by (simp add: pipe_def)
  show "distinct (g_rob g)" using r by (simp add: rob_insts_def)
  show "set (g_U g QTrace) \<inter> set (g_rob g) = {}" using assms by (auto simp: pipe_def fresh_part_def)
  show "\<exists>i. insts st p = Some i \<and> flying i" if px: "p \<in> set (g_rob g)" for p
  proof -
    obtain i where "insts st p = Some i" using rob_insts_nth [OF r] px by (metis in_set_conv_nth)
    moreover have "flying (the (insts st p))" using assms px by (auto simp: pipe_def flight_part_def)
    ultimately show ?thesis by simp
  qed
qed

definition finished :: "Inst \<Rightarrow> bool" where
  "finished i \<longleftrightarrow> i_state i = Complete \<and> i_remaining_latency i = 0"

lemma sum_heap_cong: "(\<And>q. q \<in> A \<Longrightarrow> h' q = h q) \<Longrightarrow> (\<Sum>q\<in>A. f (the (h' q))) = (\<Sum>q\<in>A. f (the (h q)))" for f :: "_ \<Rightarrow> nat"
  by (rule sum.cong) simp_all

lemma work_commit:
  assumes "g_rob g = p # xs" "g_rob g' = xs" "g_U g' QTrace = g_U g QTrace" "p \<notin> set xs" "p \<notin> set (g_U g QTrace)"
    "\<And>q. q \<noteq> p \<Longrightarrow> insts st' q = insts st q" "wb_max st' = wb_max st" "0 < inst_work (wb_max st) (the (insts st p))"
  shows "work z g' st' < work z g st"
proof -
  have "(\<Sum>q\<in>set xs. inst_work (wb_max st') (the (insts st' q))) = (\<Sum>q\<in>set xs. inst_work (wb_max st) (the (insts st q)))"
    unfolding assms(7) using assms(4,6) by (intro sum_heap_cong) metis
  moreover have "(\<Sum>q\<in>set (g_U g QTrace). expand z (the (insts st' q))) = (\<Sum>q\<in>set (g_U g QTrace). expand z (the (insts st q)))"
    using assms(5,6) by (intro sum_heap_cong) metis
  ultimately show ?thesis using assms by (simp add: work_def)
qed

lemma commit_loop_ok:
  assumes "pipe z N g st"
  shows "\<exists>g' st'. commit_loop w st = Some st' \<and> pipe z N g' st' \<and>
    g_rob g' = drop (length (takeWhile (\<lambda>p. finished (the (insts st p))) (take w (g_rob g)))) (g_rob g) \<and>
    g_U g' QTrace = g_U g QTrace \<and> same_config st st' \<and> fu st' = fu st \<and>
    work z g' st' \<le> work z g st \<and> (g_rob g' \<noteq> g_rob g \<longrightarrow> work z g' st' < work z g st) \<and>
    (\<forall>q. q \<in> set (g_rob g') \<longrightarrow> insts st' q = insts st q)"
  using assms
proof (induction w arbitrary: g st)
  case 0
  then show ?case by (auto simp: same_config_def)
next
  case (Suc w)
  note inv = Suc.prems
  have r: "rob_insts N (g_start g) (g_rob g) (rob st) (insts st)" and hold: "rob_holds N (g_start g) (g_rob g) (rob st)"
    using pipe_rob(1) [OF inv] by (auto simp: rob_insts_def)
  show ?case
  proof (cases "g_rob g")
    case Nil
    then show ?thesis using inv rob_empty_iff [OF hold] by (intro exI [of _ g] exI [of _ st]) (simp add: same_config_def)
  next
    case (Cons p xs)
    obtain i where i: "insts st p = Some i" "flying i" using pipe_rob(4) [OF inv] Cons by auto
    have o: "rob_get_oldest_inst (rob st) = Some (Some p)" "\<not> is_rob_empty (rob st)"
      using rob_oldest [of N "g_start g" p xs] rob_empty_iff [OF hold] hold Cons by auto
    show ?thesis
    proof (cases "finished i")
      case False
      then show ?thesis using o i inv Cons by (intro exI [of _ g] exI [of _ st]) (auto simp: same_config_def finished_def)
    next
      case True
      then have fin: "i_state i = Complete" "i_remaining_latency i = 0" by (auto simp: finished_def)
      obtain g1 st1 where 1: "commit_inst (Some p) st = Some st1" "pipe z N g1 st1" "g_rob g1 = xs" "g_U g1 QTrace = g_U g QTrace"
        "same_config st st1" "\<And>q. q \<noteq> p \<Longrightarrow> insts st1 q = insts st q" "fu st1 = fu st"
        using commit_inst_ok [OF inv Cons i(1) fin] by blast
      have p: "p \<notin> set xs" "p \<notin> set (g_U g QTrace)" using pipe_rob(2,3) [OF inv] Cons by auto
      have w: "work z g1 st1 < work z g st"
        using work_commit [OF Cons 1(3,4) p 1(6) wb_max_same [OF 1(5)]] i fin by (simp add: inst_work_def)
      have tw: "takeWhile (\<lambda>p. finished (the (insts st1 p))) (take w xs) = takeWhile (\<lambda>p. finished (the (insts st p))) (take w xs)"
        using 1(6) p(1) by (intro takeWhile_cong refl) (metis in_set_takeD)
      obtain g' st' where 2: "commit_loop w st1 = Some st'" "pipe z N g' st'"
        "g_rob g' = drop (length (takeWhile (\<lambda>p. finished (the (insts st p))) (take w xs))) xs"
        "g_U g' QTrace = g_U g1 QTrace" "same_config st1 st'" "fu st' = fu st1" "work z g' st' \<le> work z g1 st1"
        "\<And>q. q \<in> set (g_rob g') \<Longrightarrow> insts st' q = insts st1 q"
        using Suc.IH [OF 1(2)] unfolding 1(3) tw by blast
      have "insts st' q = insts st q" if "q \<in> set (g_rob g')" for q
        using 2(3,8) 1(6) p(1) that by (metis in_set_dropD)
      then show ?thesis
        using o i fin 1 2 w Cons True by (intro exI [of _ g'] exI [of _ st']) (auto simp: same_config_def finished_def)
    qed
  qed
qed

section \<open>Changing one instruction in flight\<close>

lemma pipe_set_inst:
  assumes inv: "pipe z N g st" and p: "p \<in> set (g_rob g)" "insts st p = Some i"
    and same: "i_rob_idx i' = i_rob_idx i" "i_ldq_elem i' = i_ldq_elem i" "i_stq_elem i' = i_stq_elem i"
    and st': "insts st' = (insts st)(p \<mapsto> i')" "rob st' = rob st" "mat_dim 60 (deps st')" "inst_brk st' = inst_brk st"
      "inst_junk st' = inst_junk st" "trace_buffer st' = trace_buffer st" "num_fetched_insts st' = num_fetched_insts st"
      "num_committed_insts st' = num_committed_insts st" "same_config st st'" "limits st'"
    and g': "g_start g' = g_start g" "g_rob g' = g_rob g" "g_U g' QTrace = g_U g QTrace" "g_L g' QLoad = g_L g QLoad" "g_U g' QLoad = g_U g QLoad"
      "g_L g' QStore = g_L g QStore" "g_U g' QStore = g_U g QStore"
    and q: "queues_ok (emem st') (queue_of st') (g_L g') (g_ps g') (g_U g')" "payload_same (emem st) (emem st') (g_L g QLoad)"
      "payload_same (emem st) (emem st') (g_L g QStore)"
    and f: "flight_part (g_rob g) (g_U g') (insts st')"
    and u: "unit_part (g_U g' QUnits) (insts st') (inst_type_fu_type_map st) (fu st')"
  shows "pipe z N g' st'"
proof -
  note inv' = inv [unfolded pipe_def]
  let ?h = "(insts st)(p \<mapsto> i')"
  have same': "f (the (?h q)) = f (the (insts st q))" if "f i' = f i" for q and f :: "Inst \<Rightarrow> ptr" using that p(2) by auto
  have "rob_insts N (g_start g) (g_rob g) (rob st) ?h"
    using inv' p(2) same(1) unfolding rob_insts_def by (metis fun_upd_apply option.inject)
  moreover have ls: "lsq_part i_ldq_elem QLoad (g_rob g) (g_L g) (g_U g) (emem st) (insts st)"
    "lsq_part i_stq_elem QStore (g_rob g) (g_L g) (g_U g) (emem st) (insts st)" using inv' by blast+
  have "lsq_part i_ldq_elem QLoad (g_rob g) (g_L g') (g_U g') (emem st') ?h"
    by (rule lsq_cong [OF ls(1)]) (use same' [of i_ldq_elem] same(2) g' q(2) in simp_all)
  moreover have "lsq_part i_stq_elem QStore (g_rob g) (g_L g') (g_U g') (emem st') ?h"
    by (rule lsq_cong [OF ls(2)]) (use same' [of i_stq_elem] same(3) g' q(3) in simp_all)
  moreover have tb: "?h q = insts st q" if "q \<in> set (g_U g QTrace)" for q using pipe_rob(3) [OF inv] p(1) that by auto
  have fp: "fresh_part z (g_rob g) (g_U g QTrace) (insts st) (inst_brk st) (inst_junk st)" using inv' by blast
  have "dom ?h \<subseteq> {..<inst_brk st}" using fp p(2) by (auto simp: fresh_part_def)
  then have "fresh_part z (g_rob g) (g_U g QTrace) ?h (inst_brk st) (inst_junk st)" using fresh_cong [OF fp tb] by blast
  moreover have "buffer_part z (g_U g QTrace) st'"
    using buffer_cong [of z "g_U g QTrace" st st'] inv' tb st'(1,6) by simp
  ultimately show ?thesis using inv' st' g' q f u by (simp add: pipe_def same_config_def)
qed

lemma work_set_inst:
  assumes "p \<in> set (g_rob g)" "p \<notin> set (g_U g QTrace)" "insts st p = Some i" "insts st' = (insts st)(p \<mapsto> i')"
    "g_rob g' = g_rob g" "g_U g' QTrace = g_U g QTrace" "wb_max st' = wb_max st"
  shows "inst_work (wb_max st) i' \<le> inst_work (wb_max st) i \<Longrightarrow> work z g' st' \<le> work z g st"
    "inst_work (wb_max st) i' < inst_work (wb_max st) i \<Longrightarrow> work z g' st' < work z g st"
proof -
  let ?f = "\<lambda>h q. inst_work (wb_max st) (the (h q))"
  have tb: "(\<Sum>q\<in>set (g_U g QTrace). expand z (the (insts st' q))) = (\<Sum>q\<in>set (g_U g QTrace). expand z (the (insts st q)))"
    using assms(2,4) by (intro sum_heap_cong) (metis fun_upd_apply)
  show "work z g' st' \<le> work z g st" if le: "inst_work (wb_max st) i' \<le> inst_work (wb_max st) i"
  proof -
    have "(\<Sum>q\<in>set (g_rob g). ?f (insts st') q) \<le> (\<Sum>q\<in>set (g_rob g). ?f (insts st) q)"
      using assms(3,4) le by (intro sum_mono) auto
    then show ?thesis using assms tb by (simp add: work_def)
  qed
  show "work z g' st' < work z g st" if lt: "inst_work (wb_max st) i' < inst_work (wb_max st) i"
  proof -
    have "(\<Sum>q\<in>set (g_rob g). ?f (insts st') q) < (\<Sum>q\<in>set (g_rob g). ?f (insts st) q)"
      using assms(1,3,4) lt by (intro sum_strict_mono_ex1) auto
    then show ?thesis using assms tb by (simp add: work_def)
  qed
qed

end
