(* ===== verification/Pipeline_Back.thy ===== *)
theory Pipeline_Back
  imports Pipeline
begin

text \<open>Write back and execution keep the pipeline invariant and cannot fault.\<close>

section \<open>Changing the record of one instruction\<close>

lemma flight_set:
  assumes "flight_part xs U h" "p \<in> set xs" "h p = Some i" "flying i'" "i_state i' = Dispatch \<longleftrightarrow> i_state i = Dispatch" "busy i' = busy i"
  shows "flight_part xs U (h(p \<mapsto> i'))"
proof -
  have "filter (\<lambda>q. i_state (the ((h(p \<mapsto> i')) q)) = Dispatch) xs = filter (\<lambda>q. i_state (the (h q)) = Dispatch) xs"
    using assms(3,5) by (intro filter_cong) auto
  moreover have "{q \<in> set xs. busy (the ((h(p \<mapsto> i')) q))} = {q \<in> set xs. busy (the (h q))}" using assms(3,6) by auto
  ultimately show ?thesis using assms by (simp add: flight_part_def)
qed

lemma flight_drop:
  assumes "flight_part xs U h" "p \<in> set xs" "h p = Some i" "flying i'" "\<not> busy i'" "i_state i \<noteq> Dispatch" "i_state i' \<noteq> Dispatch"
    and U: "U QUnits = us @ p # vs" "U' QUnits = us @ vs" "U' QIssue = U QIssue"
  shows "flight_part xs U' (h(p \<mapsto> i'))"
proof -
  have "filter (\<lambda>q. i_state (the ((h(p \<mapsto> i')) q)) = Dispatch) xs = filter (\<lambda>q. i_state (the (h q)) = Dispatch) xs"
    using assms(3,6,7) by (intro filter_cong) auto
  moreover have d: "distinct (us @ p # vs)" "set (us @ p # vs) = {q \<in> set xs. busy (the (h q))}"
    using assms(1) unfolding flight_part_def U(1) by blast+
  moreover have "set (us @ vs) = set (us @ p # vs) - {p}" using d(1) by auto
  then have "set (us @ vs) = {q \<in> set xs. busy (the ((h(p \<mapsto> i')) q))}" using d(2) assms(5) by auto
  ultimately show ?thesis using assms by (simp add: flight_part_def)
qed

lemma unit_set:
  assumes "unit_part us h tm fus" "h p = Some i" "i_state i' = Issue \<longleftrightarrow> i_state i = Issue" "i_type i' = i_type i"
  shows "unit_part us (h(p \<mapsto> i')) tm fus"
proof -
  have "filter (\<lambda>q. i_state (the ((h(p \<mapsto> i')) q)) = Issue \<and> tm (i_type (the ((h(p \<mapsto> i')) q))) = t) us =
      filter (\<lambda>q. i_state (the (h q)) = Issue \<and> tm (i_type (the (h q))) = t) us" for t
    using assms(2-4) by (intro filter_cong) auto
  then show ?thesis using assms(1) by (simp add: unit_part_def)
qed

lemma unit_drop:
  assumes "unit_part (us @ p # vs) h tm fus" "h p = Some i" "i_state i \<noteq> Issue"
  shows "unit_part (us @ vs) h tm fus"
  using assms by (simp add: unit_part_def)

lemma unit_release:
  assumes u: "unit_part us h tm fus" and d: "distinct us" "p \<in> set us" and i: "h p = Some i" "i_state i = Issue" and i': "i_state i' \<noteq> Issue"
    and t: "t = tm (i_type i)"
  shows "unit_part us (h(p \<mapsto> i')) tm (fus(t := release_FU (fus t)))"
proof -
  obtain as cs where us: "us = as @ p # cs" using split_list [OF d(2)] by blast
  have nin: "p \<notin> set as" "p \<notin> set cs" using d(1) us by auto
  have rest: "filter (\<lambda>q. i_state (the ((h(p \<mapsto> i')) q)) = Issue \<and> tm (i_type (the ((h(p \<mapsto> i')) q))) = s) bs =
      filter (\<lambda>q. i_state (the (h q)) = Issue \<and> tm (i_type (the (h q))) = s) bs" if "p \<notin> set bs" for bs s
    using that by (intro filter_cong) auto
  show ?thesis
    using u i i' t unfolding us unit_part_def
    by (simp add: rest [OF nin(1), simplified] rest [OF nin(2), simplified] release_FU_def)
qed

section \<open>Write back\<close>

lemma limits_units: "limits st \<Longrightarrow> q_capacity q = 0 \<Longrightarrow> limits (st\<lparr>insts := h, FUBuffer := q, emem := m\<rparr>)"
  by (simp add: limits_def)

lemma pipe_units:
  assumes "pipe z N g st" "p \<in> set (g_U g QUnits)"
  shows "p \<in> set (g_rob g)" "p \<notin> set (g_U g QTrace)" "\<exists>i. insts st p = Some i \<and> flying i \<and> busy i"
proof -
  have u: "set (g_U g QUnits) = {q \<in> set (g_rob g). busy (the (insts st q))}" using assms(1) by (auto simp: pipe_def flight_part_def)
  show p: "p \<in> set (g_rob g)" using u assms(2) by blast
  show "p \<notin> set (g_U g QTrace)" using pipe_rob(3) [OF assms(1)] p by blast
  show "\<exists>i. insts st p = Some i \<and> flying i \<and> busy i" using pipe_rob(4) [OF assms(1) p] u assms(2) by auto
qed

text \<open>One instruction loses a cycle of its write-back latency.\<close>

lemma writeback_tick:
  assumes inv: "pipe z N g st" and p: "p \<in> set (g_U g QUnits)" "insts st p = Some i" and i: "i_state i = Complete" "1 < i_remaining_latency i"
  defines "st' \<equiv> st\<lparr>insts := (insts st)(p \<mapsto> i\<lparr>i_remaining_latency := i_remaining_latency i - 1\<rparr>)\<rparr>"
  shows "pipe z N g st'" "work z g st' < work z g st"
proof -
  note inv' = inv [unfolded pipe_def]
  have pr: "p \<in> set (g_rob g)" "p \<notin> set (g_U g QTrace)" and f: "flying i" using pipe_units [OF inv p(1)] p(2) by auto
  let ?i = "i\<lparr>i_remaining_latency := i_remaining_latency i - 1\<rparr>"
  have f': "flying ?i" using f i by (simp add: flying_def inst_fit_def dst_set_def)
  show "pipe z N g st'"
  proof (rule pipe_set_inst [OF inv pr(1) p(2)])
    show "flight_part (g_rob g) (g_U g) (insts st')"
      using flight_set [of "g_rob g" "g_U g" "insts st" p i ?i] inv' pr(1) p(2) f' i by (simp add: st'_def busy_def)
    show "unit_part (g_U g QUnits) (insts st') (inst_type_fu_type_map st) (fu st')"
      using unit_set [of "g_U g QUnits" "insts st" _ _ p i ?i] inv' p(2) by (simp add: st'_def)
  qed (use inv' in \<open>simp_all add: st'_def same_config_def limits_def\<close>)
  show "work z g st' < work z g st"
    by (rule work_set_inst(2) [OF pr p(2), of st' ?i]) (use i in \<open>simp_all add: st'_def wb_max_def inst_work_def\<close>)
qed

lemma writeback_retire:
  assumes inv: "pipe z N g st" and L: "g_L g QUnits = as @ a # cs" and U: "g_U g QUnits = us @ p # vs" "length us = length as"
    and p: "insts st p = Some i" and i: "i_state i = Complete" "i_remaining_latency i = 1"
  shows "\<exists>q m. remove_from_list (FUBuffer st) (Some a) True (emem st) = Some (q, m) \<and>
    pipe z N (g\<lparr>g_L := (g_L g)(QUnits := as @ cs), g_U := (g_U g)(QUnits := us @ vs)\<rparr>)
      (st\<lparr>insts := (insts st)(p \<mapsto> i\<lparr>i_remaining_latency := 0\<rparr>), FUBuffer := q, emem := m\<rparr>) \<and>
    work z (g\<lparr>g_L := (g_L g)(QUnits := as @ cs), g_U := (g_U g)(QUnits := us @ vs)\<rparr>)
      (st\<lparr>insts := (insts st)(p \<mapsto> i\<lparr>i_remaining_latency := 0\<rparr>), FUBuffer := q, emem := m\<rparr>) < work z g st"
proof -
  note inv' = inv [unfolded pipe_def]
  have pu: "p \<in> set (g_U g QUnits)" using U(1) by simp
  have pr: "p \<in> set (g_rob g)" "p \<notin> set (g_U g QTrace)" and f: "flying i" using pipe_units [OF inv pu] p by auto
  let ?i = "i\<lparr>i_remaining_latency := 0\<rparr>" and ?U = "(g_U g)(QUnits := us @ vs)"
  have f': "flying ?i" using f i by (simp add: flying_def inst_fit_def dst_set_def)
  have Q: "queues_ok (emem st) (queue_of st) (g_L g) (g_ps g) (g_U g)" using inv' by blast
  obtain q m where r: "remove_from_list (FUBuffer st) (Some a) True (emem st) = Some (q, m)" "q_capacity q = q_capacity (FUBuffer st)"
    "queues_ok m ((queue_of st)(QUnits := q)) ((g_L g)(QUnits := as @ cs)) (g_ps g) ?U"
    "payload_kept (emem st) m ((g_L g)(QUnits := as @ cs))"
    using queues_remove [OF Q L U] by auto
  define st' where "st' = st\<lparr>insts := (insts st)(p \<mapsto> ?i), FUBuffer := q, emem := m\<rparr>"
  define g' where "g' = g\<lparr>g_L := (g_L g)(QUnits := as @ cs), g_U := ?U\<rparr>"
  have fl: "flight_part (g_rob g) (g_U g) (insts st)" and un: "unit_part (us @ p # vs) (insts st) (inst_type_fu_type_map st) (fu st)"
    using inv' U(1) by auto
  have "pipe z N g' st'"
  proof (rule pipe_set_inst [OF inv pr(1) p])
    show "queues_ok (emem st') (queue_of st') (g_L g') (g_ps g') (g_U g')" using r(3) by (simp add: st'_def g'_def)
    show "payload_same (emem st) (emem st') (g_L g QLoad)" "payload_same (emem st) (emem st') (g_L g QStore)"
      using payload_same_of [OF r(4), of QLoad] payload_same_of [OF r(4), of QStore] by (simp_all add: st'_def)
    show "flight_part (g_rob g) (g_U g') (insts st')"
      using flight_drop [OF fl pr(1) p f' _ _ _ U(1), of ?U] i by (simp add: st'_def g'_def busy_def)
    show "unit_part (g_U g' QUnits) (insts st') (inst_type_fu_type_map st) (fu st')"
      using unit_set [OF unit_drop [OF un p], of p i ?i] p i by (simp add: st'_def g'_def)
    show "limits st'" using inv' r(2) by (simp add: st'_def limits_def)
  qed (use inv' in \<open>simp_all add: st'_def g'_def same_config_def\<close>)
  moreover have "work z g' st' < work z g st"
    by (rule work_set_inst(2) [OF pr p, of st' ?i]) (use i in \<open>simp_all add: st'_def g'_def wb_max_def inst_work_def\<close>)
  ultimately show ?thesis using r(1) unfolding st'_def g'_def by blast
qed

text \<open>What write back and execution keep.\<close>

definition back_frame :: "ghost \<Rightarrow> TA \<Rightarrow> ghost \<Rightarrow> TA \<Rightarrow> bool" where
  "back_frame g st g' st' \<longleftrightarrow> g_rob g' = g_rob g \<and> g_U g' QTrace = g_U g QTrace \<and> same_config st st' \<and>
     (\<forall>t. fu_num_issue (fu st' t) = fu_num_issue (fu st t))"

lemma back_frame_refl: "back_frame g st g st"
  by (simp add: back_frame_def same_config_def)

lemma back_frame_trans: "back_frame g st g1 st1 \<Longrightarrow> back_frame g1 st1 g2 st2 \<Longrightarrow> back_frame g st g2 st2"
  by (simp add: back_frame_def same_config_def)

text \<open>The instruction that element \<open>a\<close> of the unit buffer stands for.\<close>

lemma units_elem:
  assumes inv: "pipe z N g st" and L: "g_L g QUnits = as @ a # cs" and U: "g_U g QUnits = us @ vs" "length us = length as"
  shows "\<exists>p vs' e i. vs = p # vs' \<and> p \<in> set (g_U g QUnits) \<and> p \<in> set (g_rob g) \<and> elems (emem st) a = Some e \<and> e_inst e = Some p \<and>
    e_next e = hdo cs None \<and> insts st p = Some i \<and> flying i \<and> busy i"
proof -
  have Q: "queues_ok (emem st) (queue_of st) (g_L g) (g_ps g) (g_U g)" using inv by (simp add: pipe_def)
  obtain p vs' where vs: "vs = p # vs'" using queues_ok_length [OF Q, of QUnits] L U by (cases vs) auto
  obtain e where e: "elems (emem st) a = Some e" "e_inst e = Some p" "e_next e = hdo cs None"
    using queues_ok_elem [OF Q L] U vs by (auto simp: nth_append)
  have pu: "p \<in> set (g_U g QUnits)" using U vs by simp
  then show ?thesis using pipe_units [OF inv pu] vs e by blast
qed

lemma units_end: "pipe z N g st \<Longrightarrow> g_L g QUnits = as \<Longrightarrow> g_U g QUnits = us @ vs \<Longrightarrow> length us = length as \<Longrightarrow> vs = []"
  using queues_ok_length [of "emem st" "queue_of st" "g_L g" "g_ps g" "g_U g" QUnits] by (auto simp: pipe_def)

text \<open>One round of the write-back loop.\<close>

lemma writeback_step:
  assumes inv: "pipe z N g st" and L: "g_L g QUnits = as @ a # cs" and U: "g_U g QUnits = us @ p # vs" "length us = length as" and w: "w \<noteq> 0"
  shows "\<exists>g1 st1 w1 as1 us1. writeback_loop w (Some a) st = writeback_loop w1 (hdo cs None) st1 \<and> pipe z N g1 st1 \<and>
    g_L g1 QUnits = as1 @ cs \<and> g_U g1 QUnits = us1 @ vs \<and> length us1 = length as1 \<and> back_frame g st g1 st1 \<and>
    work z g1 st1 \<le> work z g st \<and> (i_state (the (insts st p)) = Complete \<longrightarrow> work z g1 st1 < work z g st) \<and>
    (\<forall>q. i_state (the (insts st1 q)) = i_state (the (insts st q)))"
proof -
  obtain e i where e: "elems (emem st) a = Some e" "e_inst e = Some p" "e_next e = hdo cs None"
    and pu: "p \<in> set (g_U g QUnits)" and i: "insts st p = Some i" "flying i" "busy i"
    using units_elem [OF inv L U] by auto
  have stay: "g_L g QUnits = (as @ [a]) @ cs" "g_U g QUnits = (us @ [p]) @ vs" "length (us @ [p]) = length (as @ [a])"
    using L U by simp_all
  let ?i = "i\<lparr>i_remaining_latency := i_remaining_latency i - 1\<rparr>"
  consider "i_state i \<noteq> Complete" | "i_state i = Complete" "1 < i_remaining_latency i" | "i_state i = Complete" "i_remaining_latency i = 1"
    using i by (force simp: flying_def busy_def)
  then show ?thesis
  proof cases
    case 1
    then have "writeback_loop w (Some a) st = writeback_loop w (hdo cs None) st"
      using w e i by (subst writeback_loop.simps) (simp add: writeback_inst_def)
    then show ?thesis using 1 inv stay i back_frame_refl
      by (intro exI [of _ g] exI [of _ st] exI [of _ w] exI [of _ "as @ [a]"] exI [of _ "us @ [p]"]) simp
  next
    case 2
    define st1 where "st1 = st\<lparr>insts := (insts st)(p \<mapsto> ?i)\<rparr>"
    have "pipe z N g st1" "work z g st1 < work z g st" using writeback_tick [OF inv pu i(1) 2] by (simp_all add: st1_def)
    moreover have "writeback_loop w (Some a) st = writeback_loop w (hdo cs None) st1"
      using w e i 2 by (subst writeback_loop.simps) (simp add: writeback_inst_def upd_inst_in st1_def)
    moreover have "back_frame g st g st1" "\<forall>q. i_state (the (insts st1 q)) = i_state (the (insts st q))"
      using i(1) by (simp_all add: st1_def back_frame_def same_config_def)
    ultimately show ?thesis using stay
      by (intro exI [of _ g] exI [of _ st1] exI [of _ w] exI [of _ "as @ [a]"] exI [of _ "us @ [p]"]) simp
  next
    case 3
    define g1 where "g1 = g\<lparr>g_L := (g_L g)(QUnits := as @ cs), g_U := (g_U g)(QUnits := us @ vs)\<rparr>"
    obtain q m where r: "remove_from_list (FUBuffer st) (Some a) True (emem st) = Some (q, m)"
      "pipe z N g1 (st\<lparr>insts := (insts st)(p \<mapsto> ?i), FUBuffer := q, emem := m\<rparr>)"
      "work z g1 (st\<lparr>insts := (insts st)(p \<mapsto> ?i), FUBuffer := q, emem := m\<rparr>) < work z g st"
      using writeback_retire [OF inv L U i(1) 3] 3 by (auto simp: g1_def)
    define st1 where "st1 = st\<lparr>insts := (insts st)(p \<mapsto> ?i), FUBuffer := q, emem := m\<rparr>"
    have "writeback_loop w (Some a) st = writeback_loop (w - 1) (hdo cs None) st1"
      using w e i 3 r(1) by (subst writeback_loop.simps) (simp add: writeback_inst_def upd_inst_in st1_def)
    moreover have "back_frame g st g1 st1" "\<forall>q. i_state (the (insts st1 q)) = i_state (the (insts st q))"
      using i(1) by (simp_all add: st1_def g1_def back_frame_def same_config_def)
    ultimately show ?thesis using r(2,3) U
      by (intro exI [of _ g1] exI [of _ st1] exI [of _ "w - 1"] exI [of _ as] exI [of _ us]) (simp add: st1_def g1_def)
  qed
qed

lemma writeback_loop_ok:
  assumes "pipe z N g st" "g_L g QUnits = as @ cs" "g_U g QUnits = us @ vs" "length us = length as"
  shows "\<exists>g' st'. writeback_loop w (hdo cs None) st = Some st' \<and> pipe z N g' st' \<and> back_frame g st g' st' \<and>
    work z g' st' \<le> work z g st \<and>
    (w \<noteq> 0 \<and> vs \<noteq> [] \<and> i_state (the (insts st (hd vs))) = Complete \<longrightarrow> work z g' st' < work z g st) \<and>
    (\<forall>q. i_state (the (insts st' q)) = i_state (the (insts st q)))"
  using assms
proof (induction cs arbitrary: as us vs g st w)
  case Nil
  moreover have "vs = []" using units_end [OF Nil(1) _ Nil(3,4)] Nil(2) by simp
  ultimately show ?case
    by (intro exI [of _ g] exI [of _ st]) (simp add: writeback_loop.simps back_frame_refl)
next
  case (Cons a cs)
  show ?case
  proof (cases "w = 0")
    case True
    then show ?thesis using Cons.prems(1)
      by (intro exI [of _ g] exI [of _ st]) (simp add: writeback_loop.simps back_frame_refl)
  next
    case w: False
    obtain p vs' where vs: "vs = p # vs'" using units_elem [OF Cons.prems] by blast
    obtain g1 st1 w1 as1 us1 where 1: "writeback_loop w (Some a) st = writeback_loop w1 (hdo cs None) st1" "pipe z N g1 st1"
      "g_L g1 QUnits = as1 @ cs" "g_U g1 QUnits = us1 @ vs'" "length us1 = length as1" "back_frame g st g1 st1" "work z g1 st1 \<le> work z g st"
      "i_state (the (insts st p)) = Complete \<longrightarrow> work z g1 st1 < work z g st" "\<forall>q. i_state (the (insts st1 q)) = i_state (the (insts st q))"
      using writeback_step [OF Cons.prems(1,2) _ Cons.prems(4) w, of p vs'] Cons.prems(3) vs by blast
    obtain g' st' where 2: "writeback_loop w1 (hdo cs None) st1 = Some st'" "pipe z N g' st'" "back_frame g1 st1 g' st'"
      "work z g' st' \<le> work z g1 st1" "\<forall>q. i_state (the (insts st' q)) = i_state (the (insts st1 q))"
      using Cons.IH [OF 1(2-5), of w1] by blast
    then show ?thesis using 1 vs back_frame_trans by (intro exI [of _ g'] exI [of _ st']) auto
  qed
qed

section \<open>Execution\<close>

text \<open>The instruction after one more cycle in its functional unit.\<close>

definition executed :: "TA \<Rightarrow> Inst \<Rightarrow> Inst" where
  "executed st i =
     (if i_remaining_latency i - 1 \<le> 0
      then set_writeback_latency st (i\<lparr>i_remaining_latency := i_remaining_latency i - 1, i_state := Complete, i_completed_cycle := cur_cycle st\<rparr>)
      else i\<lparr>i_remaining_latency := i_remaining_latency i - 1\<rparr>)"

lemma set_writeback_latency_same:
  "set_writeback_latency (st\<lparr>num_executed_insts_cycle := n, insts := h\<rparr>) i = set_writeback_latency st i"
  by (simp add: set_writeback_latency_def)

lemma executed_props:
  assumes "flying i" "i_state i = Issue" "0 \<le> latency_l1_miss st"
  shows "flying (executed st i)" "busy (executed st i)" "i_state (executed st i) \<noteq> Dispatch" "i_type (executed st i) = i_type i"
    "i_state (executed st i) = (if i_remaining_latency i - 1 \<le> 0 then Complete else Issue)"
    "i_rob_idx (executed st i) = i_rob_idx i" "i_ldq_elem (executed st i) = i_ldq_elem i" "i_stq_elem (executed st i) = i_stq_elem i"
    "inst_work (wb_max st) (executed st i) < inst_work (wb_max st) i"
  using assms
  by (auto simp: executed_def set_writeback_latency_def flying_def busy_def inst_fit_def dst_set_def inst_work_def wb_max_def default_wb_latency_def)

lemma limits_release:
  "limits st \<Longrightarrow> limits (st\<lparr>fu := (fu st)(t := release_FU (fu st t))\<rparr>)"
  by (simp add: limits_def unit_limits_def release_FU_def)

lemma execute_inst_eq:
  assumes p: "insts st p = Some i" and i: "i_state i = Issue"
  shows "\<exists>n a. execute_inst round64 (Some p) st =
    Some (st\<lparr>num_executed_insts_cycle := num_executed_insts_cycle st + 1, insts := (insts st)(p \<mapsto> executed st i),
      fu := (if i_remaining_latency i - 1 \<le> 0 then (fu st)(inst_type_fu_type_map st (i_type i) := release_FU (fu st (inst_type_fu_type_map st (i_type i)))) else fu st),
      num_mispred_insts := n, avg_mispred_penalty := a\<rparr>)"
proof (cases "i_remaining_latency i - 1 \<le> 0")
  case True
  define i2 where "i2 = executed st i"
  have 2: "i_type i2 = i_type i" "i_state i2 = Complete" "i_bpred_mispred i2 = i_bpred_mispred i" "i_dispatched_cycle i2 = i_dispatched_cycle i"
    using True by (simp_all add: i2_def executed_def set_writeback_latency_def)
  define st2 where "st2 = st\<lparr>num_executed_insts_cycle := num_executed_insts_cycle st + 1, insts := (insts st)(p \<mapsto> i2),
      fu := (fu st)(inst_type_fu_type_map st (i_type i) := release_FU (fu st (inst_type_fu_type_map st (i_type i))))\<rparr>"
  have "\<exists>n a. execute_inst round64 (Some p) st = Some (st2\<lparr>num_mispred_insts := n, avg_mispred_penalty := a\<rparr>)"
  proof (cases "i_type i = Branch \<and> i_bpred_mispred i")
    case b: True
    then show ?thesis using p True 2
      by (simp add: execute_inst_def upd_inst_in set_writeback_latency_same executed_def i2_def st2_def Let_def) blast
  next
    case b: False
    then have "execute_inst round64 (Some p) st = Some (st2\<lparr>num_mispred_insts := num_mispred_insts st2, avg_mispred_penalty := avg_mispred_penalty st2\<rparr>)"
      using p True 2 by (auto simp: execute_inst_def upd_inst_in set_writeback_latency_same executed_def i2_def st2_def Let_def)
    then show ?thesis by blast
  qed
  then show ?thesis using True by (simp add: st2_def i2_def)
next
  case False
  then have "execute_inst round64 (Some p) st = Some (st\<lparr>num_executed_insts_cycle := num_executed_insts_cycle st + 1, insts := (insts st)(p \<mapsto> executed st i)\<rparr>)"
    using p i by (simp add: execute_inst_def upd_inst_in executed_def Let_def)
  then show ?thesis using False
    by (intro exI [of _ "num_mispred_insts st"] exI [of _ "avg_mispred_penalty st"]) simp
qed

lemma execute_inst_ok:
  assumes inv: "pipe z N g st" and p: "p \<in> set (g_U g QUnits)" "insts st p = Some i" and i: "i_state i = Issue"
  shows "\<exists>st'. execute_inst round64 (Some p) st = Some st' \<and> pipe z N g st' \<and> work z g st' < work z g st \<and> back_frame g st g st' \<and>
    (\<forall>q. q \<noteq> p \<longrightarrow> insts st' q = insts st q)"
proof -
  note inv' = inv [unfolded pipe_def]
  have pr: "p \<in> set (g_rob g)" "p \<notin> set (g_U g QTrace)" and f: "flying i" using pipe_units [OF inv p(1)] p(2) by auto
  have lat: "0 \<le> latency_l1_miss st" using inv' by (simp add: limits_def)
  note ex = executed_props [OF f i lat]
  let ?t = "inst_type_fu_type_map st (i_type i)"
  define fus where "fus = (if i_remaining_latency i - 1 \<le> 0 then (fu st)(?t := release_FU (fu st ?t)) else fu st)"
  define st1 where "st1 = st\<lparr>num_executed_insts_cycle := num_executed_insts_cycle st + 1, insts := (insts st)(p \<mapsto> executed st i), fu := fus\<rparr>"
  obtain n a where run: "execute_inst round64 (Some p) st = Some (st1\<lparr>num_mispred_insts := n, avg_mispred_penalty := a\<rparr>)"
    using execute_inst_eq [OF p(2) i, of round64] unfolding st1_def fus_def by blast
  define st' where "st' = st1\<lparr>num_mispred_insts := n, avg_mispred_penalty := a\<rparr>"
  have fl: "flight_part (g_rob g) (g_U g) (insts st)" and un: "unit_part (g_U g QUnits) (insts st) (inst_type_fu_type_map st) (fu st)"
    and d: "distinct (g_U g QUnits)" using inv' by (auto simp: flight_part_def)
  have "pipe z N g st'"
  proof (rule pipe_set_inst [OF inv pr(1) p(2) ex(6,7,8)])
    show "flight_part (g_rob g) (g_U g) (insts st')"
      using flight_set [OF fl pr(1) p(2) ex(1)] ex(2,3) i by (simp add: st'_def st1_def busy_def)
    show "unit_part (g_U g QUnits) (insts st') (inst_type_fu_type_map st) (fu st')"
      using unit_release [OF un d p i, of "executed st i"] unit_set [OF un p(2), of "executed st i"] ex(4,5) i
      by (auto simp: st'_def st1_def fus_def)
    show "limits st'" using inv' limits_release [of st ?t] by (auto simp: st'_def st1_def fus_def limits_def)
  qed (use inv' in \<open>simp_all add: st'_def st1_def same_config_def\<close>)
  moreover have "work z g st' < work z g st"
    by (rule work_set_inst(2) [OF pr p(2), of st' "executed st i"]) (use ex(9) in \<open>simp_all add: st'_def st1_def wb_max_def\<close>)
  moreover have "back_frame g st g st'"
    by (simp add: back_frame_def same_config_def st'_def st1_def fus_def release_FU_def)
  ultimately show ?thesis using run by (simp add: st'_def st1_def)
qed

lemma execute_loop_ok:
  assumes "pipe z N g st" "g_L g QUnits = as @ cs" "g_U g QUnits = us @ vs" "length us = length as"
  shows "\<exists>st'. execute_loop round64 (hdo cs None) st = Some st' \<and> pipe z N g st' \<and> back_frame g st g st' \<and>
    work z g st' \<le> work z g st \<and> ((\<exists>p\<in>set vs. i_state (the (insts st p)) = Issue) \<longrightarrow> work z g st' < work z g st)"
  using assms
proof (induction cs arbitrary: as us vs st)
  case Nil
  moreover have "vs = []" using units_end [OF Nil(1) _ Nil(3,4)] Nil(2) by simp
  ultimately show ?case by (simp add: execute_loop.simps back_frame_refl)
next
  case (Cons a cs)
  note inv = Cons.prems(1)
  obtain p vs' e i where vs: "vs = p # vs'" and pu: "p \<in> set (g_U g QUnits)"
    and e: "elems (emem st) a = Some e" "e_inst e = Some p" "e_next e = hdo cs None" and i: "insts st p = Some i"
    using units_elem [OF Cons.prems] by blast
  have next_L: "g_L g QUnits = (as @ [a]) @ cs" "g_U g QUnits = (us @ [p]) @ vs'" "length (us @ [p]) = length (as @ [a])"
    using Cons.prems(2-4) vs by simp_all
  show ?case
  proof (cases "i_state i = Issue")
    case True
    obtain st1 where 1: "execute_inst round64 (Some p) st = Some st1" "pipe z N g st1" "work z g st1 < work z g st" "back_frame g st g st1"
      using execute_inst_ok [OF inv pu i True] by blast
    obtain st' where 2: "execute_loop round64 (hdo cs None) st1 = Some st'" "pipe z N g st'" "back_frame g st1 g st'" "work z g st' \<le> work z g st1"
      using Cons.IH [OF 1(2) next_L] by blast
    have "execute_loop round64 (hdo (a # cs) None) st = Some st'"
      using e i True 1(1) 2(1) by (subst execute_loop.simps) simp
    then show ?thesis using 1 2 back_frame_trans by (intro exI [of _ st']) auto
  next
    case False
    obtain st' where 2: "execute_loop round64 (hdo cs None) st = Some st'" "pipe z N g st'" "back_frame g st g st'" "work z g st' \<le> work z g st"
      "(\<exists>p\<in>set vs'. i_state (the (insts st p)) = Issue) \<longrightarrow> work z g st' < work z g st"
      using Cons.IH [OF inv next_L] by blast
    have "execute_loop round64 (hdo (a # cs) None) st = Some st'"
      using e i False 2(1) by (subst execute_loop.simps) simp
    then show ?thesis using 2 False i vs by (intro exI [of _ st']) auto
  qed
qed

end
