(* ===== verification/Pipeline_Issue.thy ===== *)
theory Pipeline_Issue
  imports Pipeline
begin

text \<open>The issue stage keeps the pipeline invariant and cannot fault.\<close>

lemma filter_drop_one:
  assumes "distinct xs" "filter P xs = us @ p # vs"
  shows "filter (\<lambda>q. q \<noteq> p \<and> P q) xs = us @ vs"
proof -
  have d: "distinct (us @ p # vs)" using distinct_filter [OF assms(1), of P] assms(2) by simp
  have "filter (\<lambda>q. q \<noteq> p \<and> P q) xs = filter (\<lambda>q. q \<noteq> p) (filter P xs)" by (simp add: conj_commute)
  also have "\<dots> = us @ vs" using d unfolding assms(2) by (auto intro!: filter_True arg_cong2 [of _ _ _ _ append])
  finally show ?thesis .
qed

lemma flight_issue:
  assumes f: "flight_part xs U h" and d: "distinct xs" and p: "h p = Some i" and i': "flying i'" "i_state i' = Issue"
    and U: "U QIssue = us @ p # vs" "U' QIssue = us @ vs" "U' QUnits = U QUnits @ [p]"
  shows "flight_part xs U' (h(p \<mapsto> i'))"
proof -
  have fl: "filter (\<lambda>q. i_state (the (h q)) = Dispatch) xs = us @ p # vs" using f U(1) by (simp add: flight_part_def)
  then have "p \<in> set (filter (\<lambda>q. i_state (the (h q)) = Dispatch) xs)" by simp
  then have px: "p \<in> set xs" "i_state i = Dispatch" using p by auto
  have "filter (\<lambda>q. i_state (the ((h(p \<mapsto> i')) q)) = Dispatch) xs = filter (\<lambda>q. q \<noteq> p \<and> i_state (the (h q)) = Dispatch) xs"
    using i'(2) by (intro filter_cong) auto
  also have "\<dots> = us @ vs" by (rule filter_drop_one [OF d fl])
  finally have 1: "U' QIssue = filter (\<lambda>q. i_state (the ((h(p \<mapsto> i')) q)) = Dispatch) xs" using U(2) by simp
  have u: "distinct (U QUnits)" "set (U QUnits) = {q \<in> set xs. busy (the (h q))}" using f by (auto simp: flight_part_def)
  have nb: "\<not> busy i" "busy i'" using px(2) i'(2) by (simp_all add: busy_def)
  then have "p \<notin> set (U QUnits)" using u(2) p by simp
  moreover have "set (U' QUnits) = {q \<in> set xs. busy (the ((h(p \<mapsto> i')) q))}" using U(3) u(2) px nb by auto
  ultimately show ?thesis using f 1 u(1) U(3) i' by (auto simp: flight_part_def)
qed

lemma unit_issue:
  assumes u: "unit_part us h tm fus" and p: "p \<notin> set us" and i': "i_state i' = Issue" "tm (i_type i') = t" and f: "fu_num_active f = fu_num_active (fus t) + 1"
  shows "unit_part (us @ [p]) (h(p \<mapsto> i')) tm (fus(t := f))"
proof -
  have "filter (\<lambda>q. i_state (the ((h(p \<mapsto> i')) q)) = Issue \<and> tm (i_type (the ((h(p \<mapsto> i')) q))) = s) us =
      filter (\<lambda>q. i_state (the (h q)) = Issue \<and> tm (i_type (the (h q))) = s) us" for s
    using p by (intro filter_cong) auto
  then show ?thesis using u i' f by (simp add: unit_part_def)
qed

lemma try_FU_fields:
  "try_FU f = (ok, f') \<Longrightarrow> fu_capacity f' = fu_capacity f \<and> fu_num_stage f' = fu_num_stage f \<and>
     fu_num_active f' = fu_num_active f + (if ok then 1 else 0)"
  by (auto simp: try_FU_def Let_def split: if_splits)

text \<open>A refused instruction only counts an access.\<close>

lemma pipe_refused:
  assumes inv: "pipe z N g st" and t: "try_FU (fu st t) = (False, f)"
  shows "pipe z N g (st\<lparr>fu := (fu st)(t := f)\<rparr>)" "work z g (st\<lparr>fu := (fu st)(t := f)\<rparr>) = work z g st"
    "same_config st (st\<lparr>fu := (fu st)(t := f)\<rparr>)"
proof -
  have f: "fu_capacity f = fu_capacity (fu st t)" "fu_num_stage f = fu_num_stage (fu st t)" "fu_num_active f = fu_num_active (fu st t)"
    using try_FU_fields [OF t] by auto
  show "pipe z N g (st\<lparr>fu := (fu st)(t := f)\<rparr>)"
    using inv f by (auto simp: pipe_def limits_def unit_limits_def unit_part_def buffer_part_def)
  show "work z g (st\<lparr>fu := (fu st)(t := f)\<rparr>) = work z g st" by (simp add: work_def wb_max_def)
  show "same_config st (st\<lparr>fu := (fu st)(t := f)\<rparr>)" by (simp add: same_config_def)
qed

lemma issue_inst_ok:
  assumes inv: "pipe z N g st" and L: "g_L g QIssue = as @ a # cs" and U: "g_U g QIssue = us @ p # vs" "length us = length as"
    and p: "insts st p = Some i" and t: "t = inst_type_fu_type_map st (i_type i)" "try_FU (fu st t) = (True, f)"
  shows "\<exists>g' st'. issue_inst a (Some p) (st\<lparr>fu := (fu st)(t := f)\<rparr>) = Some st' \<and> pipe z N g' st' \<and>
    g_L g' QIssue = as @ cs \<and> g_U g' QIssue = us @ vs \<and> g_rob g' = g_rob g \<and> g_U g' QTrace = g_U g QTrace \<and>
    same_config st st' \<and> work z g' st' < work z g st"
proof -
  note inv' = inv [unfolded pipe_def]
  have fl: "flight_part (g_rob g) (g_U g) (insts st)" and un: "unit_part (g_U g QUnits) (insts st) (inst_type_fu_type_map st) (fu st)"
    and d: "distinct (g_rob g)" using inv' by (auto simp: rob_insts_def)
  have "filter (\<lambda>p. i_state (the (insts st p)) = Dispatch) (g_rob g) = us @ p # vs" using fl U(1) by (simp add: flight_part_def)
  then have "p \<in> set (filter (\<lambda>p. i_state (the (insts st p)) = Dispatch) (g_rob g))" by simp
  then have pr: "p \<in> set (g_rob g)" "i_state i = Dispatch" using p by auto
  have tb: "p \<notin> set (g_U g QTrace)" using pipe_rob(3) [OF inv] pr by blast
  have f: "flying i" using pipe_rob(4) [OF inv pr(1)] p by auto
  have pu: "p \<notin> set (g_U g QUnits)" using fl p pr(2) by (auto simp: flight_part_def busy_def)
  have Q: "queues_ok (emem st) (queue_of st) (g_L g) (g_ps g) (g_U g)" using inv' by blast
  obtain q1 m1 where 1: "remove_from_list (IQ st) (Some a) True (emem st) = Some (q1, m1)" "q_capacity q1 = q_capacity (IQ st)"
    "queues_ok m1 ((queue_of st)(QIssue := q1)) ((g_L g)(QIssue := as @ cs)) (g_ps g) ((g_U g)(QIssue := us @ vs))"
    "payload_kept (emem st) m1 ((g_L g)(QIssue := as @ cs))"
    using queues_remove [OF Q L U] by auto
  have nf: "\<not> is_full_queue (((queue_of st)(QIssue := q1)) QUnits)" using inv' by (simp add: limits_def is_full_queue_def)
  obtain b q2 m2 where 2: "push_back_inst (FUBuffer st) (Some p) m1 = Some (Some b, q2, m2)" "q_capacity q2 = q_capacity (FUBuffer st)"
    "queues_ok m2 ((queue_of st)(QIssue := q1, QUnits := q2)) ((g_L g)(QIssue := as @ cs, QUnits := g_L g QUnits @ [b])) (tl (g_ps g))
       ((g_U g)(QIssue := us @ vs, QUnits := g_U g QUnits @ [p]))" "payload_kept m1 m2 ((g_L g)(QIssue := as @ cs))"
    "fld e_inst (elems m2) b = Some p" "\<forall>n'. b \<notin> set (((g_L g)(QIssue := as @ cs)) n')"
    using queues_push_back [OF 1(3) _ nf, of p] by auto
  define i' where "i' = i\<lparr>i_issued_cycle := cur_cycle st, i_state := Issue, i_remaining_latency := it_latency (inst_type st (i_type i))\<rparr>"
  define g' where "g' = g\<lparr>g_L := (g_L g)(QIssue := as @ cs, QUnits := g_L g QUnits @ [b]), g_ps := tl (g_ps g),
    g_U := (g_U g)(QIssue := us @ vs, QUnits := g_U g QUnits @ [p])\<rparr>"
  define st0 where "st0 = (if first_issue_cycle st = 0 then st\<lparr>fu := (fu st)(t := f), first_issue_cycle := cur_cycle st\<rparr> else st\<lparr>fu := (fu st)(t := f)\<rparr>)"
  define st' where "st' = st0\<lparr>IQ := q1, insts := (insts st)(p \<mapsto> i'), num_issued_insts := num_issued_insts st + 1,
    num_issued_insts_cycle := num_issued_insts_cycle st + 1, FUBuffer := q2, emem := m2\<rparr>"
  have run: "issue_inst a (Some p) (st\<lparr>fu := (fu st)(t := f)\<rparr>) = Some st'"
    using 1(1) 2(1) p by (auto simp: issue_inst_def upd_inst_in Let_def st'_def st0_def i'_def)
  have st0: "emem st0 = emem st" "rob st0 = rob st" "deps st0 = deps st" "inst_brk st0 = inst_brk st" "inst_junk st0 = inst_junk st"
    "trace_buffer st0 = trace_buffer st" "LDQ st0 = LDQ st" "STQ st0 = STQ st" "num_fetched_insts st0 = num_fetched_insts st"
    "num_committed_insts st0 = num_committed_insts st" "same_config st st0" "fu st0 = (fu st)(t := f)" "wb_max st0 = wb_max st"
    "dispatch_width st0 = dispatch_width st" "issue_width st0 = issue_width st" "wb_width st0 = wb_width st" "commit_width st0 = commit_width st"
    by (simp_all add: st0_def same_config_def wb_max_def)
  have f': "flying i'" using f by (simp add: i'_def flying_def inst_fit_def dst_set_def)
  have "pipe z N g' st'"
  proof (rule pipe_set_inst [OF inv pr(1) p, of i'])
    show "queues_ok (emem st') (queue_of st') (g_L g') (g_ps g') (g_U g')" using 2(3) by (simp add: st'_def g'_def st0)
    show "payload_same (emem st) (emem st') (g_L g QLoad)" "payload_same (emem st) (emem st') (g_L g QStore)"
      using payload_same_trans [OF payload_same_of [OF 1(4), of QLoad] payload_same_of [OF 2(4), of QLoad]]
        payload_same_trans [OF payload_same_of [OF 1(4), of QStore] payload_same_of [OF 2(4), of QStore]] by (simp_all add: st'_def)
    show "flight_part (g_rob g) (g_U g') (insts st')"
      using flight_issue [OF fl d p f' _ U(1), of "g_U g'"] by (simp add: st'_def g'_def i'_def)
    show "unit_part (g_U g' QUnits) (insts st') (inst_type_fu_type_map st) (fu st')"
      using unit_issue [OF un pu, of i' t f] try_FU_fields [OF t(2)] t(1) by (simp add: st'_def g'_def st0 i'_def)
    show "limits st'"
      using inv' 1(2) 2(2) try_FU_fields [OF t(2)] st0 by (auto simp: limits_def unit_limits_def st'_def same_config_def)
  qed (use inv' st0 in \<open>simp_all add: st'_def g'_def i'_def same_config_def\<close>)
  moreover have "work z g' st' < work z g st"
  proof (rule work_set_inst(2) [OF pr(1) tb p, of st' i'])
    have "it_latency (inst_type st (i_type i)) \<le> 20" using inv' by (simp add: limits_def)
    then show "inst_work (wb_max st) i' < inst_work (wb_max st) i" using pr(2) by (simp add: inst_work_def i'_def)
  qed (use st0 in \<open>simp_all add: st'_def g'_def wb_max_def\<close>)
  moreover have "same_config st st'" using st0 by (simp add: st'_def same_config_def)
  ultimately show ?thesis using run by (intro exI [of _ g'] exI [of _ st']) (simp add: g'_def)
qed

text \<open>The instruction that element \<open>a\<close> of the issue queue stands for.\<close>

lemma issue_elem:
  assumes inv: "pipe z N g st" and L: "g_L g QIssue = as @ a # cs" and U: "g_U g QIssue = us @ vs" "length us = length as"
  shows "\<exists>p vs' e i d. vs = p # vs' \<and> p \<in> set (g_rob g) \<and> elems (emem st) a = Some e \<and> e_inst e = Some p \<and>
    e_next e = hdo cs None \<and> insts st p = Some i \<and> i_state i = Dispatch \<and> has_dependency (rob st) (insts st) (deps st) (Some p) = Some d"
proof -
  have Q: "queues_ok (emem st) (queue_of st) (g_L g) (g_ps g) (g_U g)" and d: "N \<le> 60" "mat_dim 60 (deps st)"
    and fl: "g_U g QIssue = filter (\<lambda>p. i_state (the (insts st p)) = Dispatch) (g_rob g)"
    using inv by (simp_all add: pipe_def flight_part_def)
  obtain p vs' where vs: "vs = p # vs'" using queues_ok_length [OF Q, of QIssue] L U by (cases vs) auto
  obtain e where e: "elems (emem st) a = Some e" "e_inst e = Some p" "e_next e = hdo cs None"
    using queues_ok_elem [OF Q L] U vs by (auto simp: nth_append)
  have "p \<in> set (g_U g QIssue)" using U vs by simp
  then have p: "p \<in> set (g_rob g)" "i_state (the (insts st p)) = Dispatch" unfolding fl by simp_all
  obtain i where i: "insts st p = Some i" using pipe_rob(4) [OF inv p(1)] by blast
  obtain j where j: "j < length (g_rob g)" "g_rob g ! j = p" using p(1) by (auto simp: in_set_conv_nth)
  show ?thesis using has_dependency_eq [OF pipe_rob(1) [OF inv] d j(1)] j(2) vs p e i by auto
qed

lemma issue_step:
  assumes inv: "pipe z N g st" and L: "g_L g QIssue = as @ a # cs" and U: "g_U g QIssue = us @ p # vs" "length us = length as" and w: "0 < w"
  shows "\<exists>g1 st1 w1 as1 us1. issue_loop w (Some a) st = issue_loop w1 (hdo cs None) st1 \<and> pipe z N g1 st1 \<and>
    g_L g1 QIssue = as1 @ cs \<and> g_U g1 QIssue = us1 @ vs \<and> length us1 = length as1 \<and> g_rob g1 = g_rob g \<and> g_U g1 QTrace = g_U g QTrace \<and>
    same_config st st1 \<and> work z g1 st1 \<le> work z g st \<and>
    (has_dependency (rob st) (insts st) (deps st) (Some p) = Some False \<and> fst (try_FU (fu st (inst_type_fu_type_map st (i_type (the (insts st p)))))) \<longrightarrow>
      work z g1 st1 < work z g st)"
proof -
  obtain e i d where e: "elems (emem st) a = Some e" "e_inst e = Some p" "e_next e = hdo cs None"
    and i: "insts st p = Some i" "i_state i = Dispatch" and d: "has_dependency (rob st) (insts st) (deps st) (Some p) = Some d"
    using issue_elem [OF inv L U] by auto
  have stay: "g_L g QIssue = (as @ [a]) @ cs" "g_U g QIssue = (us @ [p]) @ vs" "length (us @ [p]) = length (as @ [a])"
    using L U by simp_all
  let ?t = "inst_type_fu_type_map st (i_type i)"
  obtain ok f where t: "try_FU (fu st ?t) = (ok, f)" by (cases "try_FU (fu st ?t)")
  consider "d" | "\<not> d" "\<not> ok" | "\<not> d" "ok" by blast
  then show ?thesis
  proof cases
    case 1
    then have "issue_loop w (Some a) st = issue_loop w (hdo cs None) st"
      using w e i d by (subst issue_loop.simps) simp
    then show ?thesis using 1 inv stay d
      by (intro exI [of _ g] exI [of _ st] exI [of _ w] exI [of _ "as @ [a]"] exI [of _ "us @ [p]"]) (simp add: same_config_def)
  next
    case 2
    let ?st = "st\<lparr>fu := (fu st)(?t := f)\<rparr>"
    have "issue_loop w (Some a) st = issue_loop w (hdo cs None) ?st"
      using w e i d t 2 by (subst issue_loop.simps) simp
    then show ?thesis using 2 pipe_refused [OF inv, of ?t f] stay t i
      by (intro exI [of _ g] exI [of _ ?st] exI [of _ w] exI [of _ "as @ [a]"] exI [of _ "us @ [p]"]) simp
  next
    case 3
    then have t': "try_FU (fu st ?t) = (True, f)" using t by simp
    obtain g1 st1 where r: "issue_inst a (Some p) (st\<lparr>fu := (fu st)(?t := f)\<rparr>) = Some st1" "pipe z N g1 st1"
      "g_L g1 QIssue = as @ cs" "g_U g1 QIssue = us @ vs" "g_rob g1 = g_rob g" "g_U g1 QTrace = g_U g QTrace" "same_config st st1" "work z g1 st1 < work z g st"
      using issue_inst_ok [OF inv L U i(1) refl t'] by blast
    have "issue_loop w (Some a) st = issue_loop (w - 1) (hdo cs None) st1"
      using w e i d t' 3 r(1) by (subst issue_loop.simps) simp
    then show ?thesis using r U
      by (intro exI [of _ g1] exI [of _ st1] exI [of _ "w - 1"] exI [of _ as] exI [of _ us]) simp
  qed
qed

lemma issue_loop_ok:
  assumes "pipe z N g st" "g_L g QIssue = as @ cs" "g_U g QIssue = us @ vs" "length us = length as"
  shows "\<exists>g' st'. issue_loop w (hdo cs None) st = Some st' \<and> pipe z N g' st' \<and> g_rob g' = g_rob g \<and> g_U g' QTrace = g_U g QTrace \<and>
    same_config st st' \<and> work z g' st' \<le> work z g st \<and>
    (0 < w \<and> vs \<noteq> [] \<and> has_dependency (rob st) (insts st) (deps st) (Some (hd vs)) = Some False \<and>
      fst (try_FU (fu st (inst_type_fu_type_map st (i_type (the (insts st (hd vs))))))) \<longrightarrow> work z g' st' < work z g st)"
  using assms
proof (induction cs arbitrary: as us vs g st w)
  case Nil
  moreover have "vs = []" using Nil queues_ok_length [of "emem st" "queue_of st" "g_L g" "g_ps g" "g_U g" QIssue] by (auto simp: pipe_def)
  ultimately show ?case
    by (intro exI [of _ g] exI [of _ st]) (simp add: issue_loop.simps same_config_def)
next
  case (Cons a cs)
  show ?case
  proof (cases "0 < w")
    case False
    then show ?thesis using Cons.prems(1)
      by (intro exI [of _ g] exI [of _ st]) (simp add: issue_loop.simps same_config_def)
  next
    case w: True
    obtain p vs' where vs: "vs = p # vs'" using issue_elem [OF Cons.prems] by blast
    obtain g1 st1 w1 as1 us1 where 1: "issue_loop w (Some a) st = issue_loop w1 (hdo cs None) st1" "pipe z N g1 st1"
      "g_L g1 QIssue = as1 @ cs" "g_U g1 QIssue = us1 @ vs'" "length us1 = length as1" "g_rob g1 = g_rob g" "g_U g1 QTrace = g_U g QTrace"
      "same_config st st1" "work z g1 st1 \<le> work z g st"
      "has_dependency (rob st) (insts st) (deps st) (Some p) = Some False \<and> fst (try_FU (fu st (inst_type_fu_type_map st (i_type (the (insts st p)))))) \<longrightarrow>
        work z g1 st1 < work z g st"
      using issue_step [OF Cons.prems(1,2) _ Cons.prems(4) w, of p vs'] Cons.prems(3) vs by blast
    obtain g' st' where 2: "issue_loop w1 (hdo cs None) st1 = Some st'" "pipe z N g' st'" "g_rob g' = g_rob g1" "g_U g' QTrace = g_U g1 QTrace"
      "same_config st1 st'" "work z g' st' \<le> work z g1 st1"
      using Cons.IH [OF 1(2-5), of w1] by blast
    then show ?thesis using 1 vs by (intro exI [of _ g'] exI [of _ st']) (auto simp: same_config_def)
  qed
qed

end
