(* ===== verification/Pipeline_Microops.thy ===== *)
theory Pipeline_Microops
  imports Pipeline
begin

text \<open>
  Decoding the next instruction of the trace buffer and splitting \<open>push\<close> and \<open>pop\<close> keep the pipeline
  invariant and the work left.
\<close>

section \<open>Decoding\<close>

lemma decode_inst_again: "decode_inst z i = Some i' \<Longrightarrow> decoded_ok i' \<Longrightarrow> decode_inst z i' = Some i'"
  by (simp add: decode_inst_def decoded_ok_def)

lemma decoded_ready: "decoded_ok i \<Longrightarrow> ready z i"
  by (auto simp: ready_def decoded_ok_def decode_inst_def)

lemma expand_decoded: "decode_inst z i = Some i' \<Longrightarrow> decoded_ok i' \<Longrightarrow> expand z i' = expand z i"
  by (simp add: expand_def decode_inst_again)

lemma expand_pos: "1 \<le> expand z i"
  by (auto simp: expand_def split: option.splits)

lemma pipe_tb:
  assumes "pipe z N g st" "g_U g QTrace = p # us"
  shows "p \<notin> set us" "p \<notin> set (g_rob g)" "\<exists>i. insts st p = Some i \<and> ready z i"
  using assms by (auto simp: pipe_def fresh_part_def)

lemma pipe_set_tb:
  assumes inv: "pipe z N g st" and p: "p \<in> set (g_U g QTrace)" "insts st p = Some i" and i': "ready z i'" "expand z i' = expand z i"
  shows "pipe z N g (st\<lparr>insts := (insts st)(p \<mapsto> i')\<rparr>)" "work z g (st\<lparr>insts := (insts st)(p \<mapsto> i')\<rparr>) = work z g st"
proof -
  note inv' = inv [unfolded pipe_def]
  let ?h = "(insts st)(p \<mapsto> i')"
  have px: "?h q = insts st q" if "q \<in> set (g_rob g)" for q using pipe_rob(3) [OF inv] p(1) that by auto
  have pu: "?h q = insts st q" if "q \<in> set (g_U g QUnits)" for q
    using px that inv' by (auto simp: flight_part_def)
  have ex: "expand z (the (?h q)) = expand z (the (insts st q))" for q using p(2) i'(2) by simp
  have fr: "fresh_part z (g_rob g) (g_U g QTrace) ?h (inst_brk st) (inst_junk st)"
    using inv' p i'(1) by (auto simp: fresh_part_def)
  have "lsq_part i_ldq_elem QLoad (g_rob g) (g_L g) (g_U g) (emem st) ?h" "lsq_part i_stq_elem QStore (g_rob g) (g_L g) (g_U g) (emem st) ?h"
    using inv' px lsq_cong [of i_ldq_elem QLoad "g_rob g" "g_L g" "g_U g" "emem st" "insts st" ?h "g_L g" "g_U g" "emem st"]
      lsq_cong [of i_stq_elem QStore "g_rob g" "g_L g" "g_U g" "emem st" "insts st" ?h "g_L g" "g_U g" "emem st"] by auto
  then show "pipe z N g (st\<lparr>insts := ?h\<rparr>)"
    using inv' fr rob_insts_cong [of "g_rob g" ?h "insts st"] px pu ex flight_cong [of "g_rob g" ?h "insts st" "g_U g" "g_U g"]
      unit_cong [of "g_U g QUnits" ?h "insts st"]
    unfolding pipe_def by (simp add: limits_def buffer_part_def)
  have "(\<Sum>q\<in>set (g_rob g). inst_work (wb_max st) (the (?h q))) = (\<Sum>q\<in>set (g_rob g). inst_work (wb_max st) (the (insts st q)))"
    by (rule sum_heap_cong) (rule px)
  then show "work z g (st\<lparr>insts := ?h\<rparr>) = work z g st" using ex by (simp add: work_def wb_max_def)
qed

section \<open>Splitting\<close>

text \<open>
  The invariant while an instruction is being split: \<open>k\<close> instructions still have to be pushed,
  and \<open>c\<close> instructions that were fetched are in no queue.
\<close>

definition splitting :: "nat \<Rightarrow> nat \<Rightarrow> nat \<Rightarrow> int \<Rightarrow> ghost \<Rightarrow> TA \<Rightarrow> bool" where
  "splitting z N k c g st \<longleftrightarrow>
     queues_ok (emem st) (queue_of st) (g_L g) (g_ps g) (g_U g) \<and>
     rob_insts N (g_start g) (g_rob g) (rob st) (insts st) \<and> N \<le> 60 \<and> mat_dim 60 (deps st) \<and>
     flight_part (g_rob g) (g_U g) (insts st) \<and>
     lsq_part i_ldq_elem QLoad (g_rob g) (g_L g) (g_U g) (emem st) (insts st) \<and>
     lsq_part i_stq_elem QStore (g_rob g) (g_L g) (g_U g) (emem st) (insts st) \<and>
     fresh_part z (g_rob g) (g_U g QTrace) (insts st) (inst_brk st) (inst_junk st) \<and>
     unit_part (g_U g QUnits) (insts st) (inst_type_fu_type_map st) (fu st) \<and>
     limits st \<and>
     (q_capacity (trace_buffer st) = 0 \<or>
       int (\<Sum>p\<in>set (g_U g QTrace). expand z (the (insts st p))) + int k \<le> q_capacity (trace_buffer st)) \<and>
     num_fetched_insts st = num_committed_insts st + int (length (g_rob g)) + int (length (g_U g QTrace)) + c"

lemma splitting_pipe: "splitting z N 0 0 g st \<longleftrightarrow> pipe z N g st"
  by (simp add: splitting_def pipe_def buffer_part_def)

lemma sum_expand_ge: "distinct tb \<Longrightarrow> int (length tb) \<le> int (\<Sum>p\<in>set tb. expand z (f p))"
proof -
  assume "distinct tb"
  then have "length tb = (\<Sum>p\<in>set tb. 1)" by (simp add: distinct_card)
  also have "\<dots> \<le> (\<Sum>p\<in>set tb. expand z (f p))" by (intro sum_mono expand_pos)
  finally show ?thesis by (simp only: of_nat_le_iff)
qed

text \<open>Taking the instruction off the trace buffer, to split it or to drop or dispatch it.\<close>

lemma splitting_pop:
  assumes inv: "pipe z N g st" and tb: "g_U g QTrace = p # us"
  shows "\<exists>q m. pop_trace_buffer st = Some (Some p, st\<lparr>trace_buffer := q, emem := m\<rparr>) \<and> q_capacity q = q_capacity (trace_buffer st) \<and>
    splitting z N (expand z (the (insts st p))) 1
      (g\<lparr>g_L := (g_L g)(QTrace := tl (g_L g QTrace)), g_U := (g_U g)(QTrace := us)\<rparr>) (st\<lparr>trace_buffer := q, emem := m\<rparr>)"
proof -
  note inv' = inv [unfolded pipe_def]
  have Q: "queues_ok (emem st) (queue_of st) (g_L g) (g_ps g) (g_U g)" using inv' by blast
  obtain q m where r: "pop_front_inst (trace_buffer st) (emem st) = Some (Some p, q, m)" "q_capacity q = q_capacity (trace_buffer st)"
    "queues_ok m ((queue_of st)(QTrace := q)) ((g_L g)(QTrace := tl (g_L g QTrace))) (g_ps g) ((g_U g)(QTrace := us))"
    "payload_kept (emem st) m ((g_L g)(QTrace := tl (g_L g QTrace)))"
    using queues_pop [OF Q tb] by auto
  let ?g = "g\<lparr>g_L := (g_L g)(QTrace := tl (g_L g QTrace)), g_U := (g_U g)(QTrace := us)\<rparr>"
  let ?st = "st\<lparr>trace_buffer := q, emem := m\<rparr>"
  have ls: "lsq_part i_ldq_elem QLoad (g_rob g) (g_L g) (g_U g) (emem st) (insts st)"
    "lsq_part i_stq_elem QStore (g_rob g) (g_L g) (g_U g) (emem st) (insts st)" using inv' by blast+
  have "lsq_part i_ldq_elem QLoad (g_rob g) (g_L ?g) (g_U ?g) m (insts st)" "lsq_part i_stq_elem QStore (g_rob g) (g_L ?g) (g_U ?g) m (insts st)"
    using lsq_cong [OF ls(1), of "insts st" "g_L ?g" "g_U ?g" m] lsq_cong [OF ls(2), of "insts st" "g_L ?g" "g_U ?g" m]
      payload_same_of [OF r(4), of QLoad] payload_same_of [OF r(4), of QStore] by auto
  moreover have "flight_part (g_rob g) (g_U ?g) (insts st)"
    using inv' flight_cong [of "g_rob g" "insts st" "insts st" "g_U ?g" "g_U g"] by simp
  moreover have "p \<notin> set us" using pipe_tb(1) [OF inv tb] .
  then have "(\<Sum>p\<in>set (g_U g QTrace). expand z (the (insts st p))) = expand z (the (insts st p)) + (\<Sum>p\<in>set us. expand z (the (insts st p)))"
    using tb by simp
  ultimately have "splitting z N (expand z (the (insts st p))) 1 ?g ?st"
    using inv' r(2,3) tb unfolding splitting_def by (auto simp: limits_def buffer_part_def fresh_part_def)
  moreover have "pop_trace_buffer st = Some (Some p, ?st)" using r(1) by (simp add: pop_trace_buffer_def)
  ultimately show ?thesis using r(2) by blast
qed

lemma fresh_brk: "fresh_part z xs tb h brk junk \<Longrightarrow> h brk = None \<and> brk \<notin> set tb"
proof -
  assume fr: "fresh_part z xs tb h brk junk"
  then have n: "h brk = None" by (auto simp: fresh_part_def)
  moreover have "\<forall>p\<in>set tb. h p \<noteq> None" using fr by (auto simp: fresh_part_def)
  ultimately show ?thesis by blast
qed

text \<open>A new instruction goes to the front of the trace buffer.\<close>

lemma push_microop_ok:
  assumes inv: "splitting z N (Suc k) c g st" and d: "decoded_ok mi" "i_type mi \<noteq> Pop" "i_type mi \<noteq> Push"
    and fill: "fill ((init_inst (inst_junk st (inst_brk st)) (ucast (i_seq inst)) (i_pc inst) (i_code inst))\<lparr>i_decoded := True\<rparr>) = Some mi"
  shows "\<exists>a q m. push_microop fill inst st = Some (st\<lparr>insts := (insts st)(inst_brk st \<mapsto> mi), inst_brk := inst_brk st + 1, trace_buffer := q, emem := m\<rparr>) \<and>
    q_capacity q = q_capacity (trace_buffer st) \<and> splitting z N k (c - 1) (g\<lparr>g_L := (g_L g)(QTrace := a # g_L g QTrace), g_ps := tl (g_ps g), g_U := (g_U g)(QTrace := inst_brk st # g_U g QTrace)\<rparr>)
      (st\<lparr>insts := (insts st)(inst_brk st \<mapsto> mi), inst_brk := inst_brk st + 1, trace_buffer := q, emem := m\<rparr>)"
proof -
  note inv' = inv [unfolded splitting_def]
  have Q: "queues_ok (emem st) (queue_of st) (g_L g) (g_ps g) (g_U g)" using inv' by blast
  let ?p = "inst_brk st" and ?h = "(insts st)(inst_brk st \<mapsto> mi)"
  have fr: "fresh_part z (g_rob g) (g_U g QTrace) (insts st) (inst_brk st) (inst_junk st)" using inv' by blast
  have new: "?p \<notin> dom (insts st)" using fr by (auto simp: fresh_part_def)
  have "\<And>q. q \<in> set (g_rob g) \<Longrightarrow> q \<in> dom (insts st)" using inv' by (fastforce simp: rob_insts_def in_set_conv_nth)
  then have px: "?p \<notin> set (g_rob g)" using new by blast
  have pt: "?p \<notin> set (g_U g QTrace)" using fr new by (auto simp: fresh_part_def)
  have pu: "?p \<notin> set (g_U g QUnits)" using inv' px by (auto simp: flight_part_def)
  have hx: "?h q = insts st q" if "q \<in> set (g_rob g)" for q using px that by auto
  have hu: "?h q = insts st q" if "q \<in> set (g_U g QUnits)" for q using pu that by auto
  have ht: "?h q = insts st q" if "q \<in> set (g_U g QTrace)" for q using pt that by auto
  have ex: "expand z mi = 1" using d by (simp add: expand_def decode_inst_def decoded_ok_def)
  have dt: "distinct (g_U g QTrace)" using fr by (simp add: fresh_part_def)
  have room: "\<not> is_full_queue (queue_of st QTrace)"
    using queues_ok_room [OF Q, of QTrace] inv' sum_expand_ge [OF dt, of z "\<lambda>p. the (insts st p)"] by auto
  obtain a q m where r: "push_front_inst (trace_buffer st) (Some ?p) (emem st) = Some (q, m)" "q_capacity q = q_capacity (trace_buffer st)"
    "queues_ok m ((queue_of st)(QTrace := q)) ((g_L g)(QTrace := a # g_L g QTrace)) (tl (g_ps g)) ((g_U g)(QTrace := ?p # g_U g QTrace))"
    "payload_kept (emem st) m (g_L g)"
    using queues_push_front [OF Q room, of ?p] by auto
  let ?g = "g\<lparr>g_L := (g_L g)(QTrace := a # g_L g QTrace), g_ps := tl (g_ps g), g_U := (g_U g)(QTrace := ?p # g_U g QTrace)\<rparr>"
  let ?st = "st\<lparr>insts := ?h, inst_brk := inst_brk st + 1, trace_buffer := q, emem := m\<rparr>"
  have ls: "lsq_part i_ldq_elem QLoad (g_rob g) (g_L g) (g_U g) (emem st) (insts st)"
    "lsq_part i_stq_elem QStore (g_rob g) (g_L g) (g_U g) (emem st) (insts st)" using inv' by blast+
  have "lsq_part i_ldq_elem QLoad (g_rob g) (g_L ?g) (g_U ?g) m ?h"
    by (rule lsq_cong [OF ls(1)]) (use px payload_same_of [OF r(4), of QLoad] in auto)
  moreover have "lsq_part i_stq_elem QStore (g_rob g) (g_L ?g) (g_U ?g) m ?h"
    by (rule lsq_cong [OF ls(2)]) (use px payload_same_of [OF r(4), of QStore] in auto)
  moreover have "flight_part (g_rob g) (g_U ?g) ?h"
    using inv' flight_cong [of "g_rob g" ?h "insts st" "g_U ?g" "g_U g", OF hx] by simp
  moreover have "rob_insts N (g_start g) (g_rob g) (rob st) ?h" using inv' rob_insts_cong [of "g_rob g" ?h "insts st", OF hx] by simp
  moreover have "unit_part (g_U g QUnits) ?h (inst_type_fu_type_map st) (fu st)" using inv' unit_cong [of "g_U g QUnits" ?h "insts st", OF hu] by simp
  moreover have "fresh_part z (g_rob g) (?p # g_U g QTrace) ?h (inst_brk st + 1) (inst_junk st)"
    using fr pt px decoded_ready [OF d(1)] by (auto simp: fresh_part_def less_Suc_eq)
  moreover have "(\<Sum>q\<in>set (?p # g_U g QTrace). expand z (the (?h q))) = Suc (\<Sum>q\<in>set (g_U g QTrace). expand z (the (insts st q)))"
    using pt ex sum_heap_cong [of "set (g_U g QTrace)" ?h "insts st" "expand z", OF ht] by (simp del: fun_upd_apply) simp
  ultimately have "splitting z N k (c - 1) ?g ?st"
    using inv' r(2,3) unfolding splitting_def by (simp add: limits_def algebra_simps)
  moreover have "push_microop fill inst st = Some ?st"
    using fill r(1) by (simp add: push_microop_def malloc_inst_def)
  ultimately show ?thesis using r(2) by blast
qed

text \<open>The instructions that the parts of a \<open>push\<close> or \<open>pop\<close> are made of.\<close>

definition blank :: "Inst \<Rightarrow> bool" where
  "blank i \<longleftrightarrow> arrays16 i \<and> i_decoded i \<and> i_num_src_reg i = 0 \<and> i_num_dst_reg i = 0 \<and> i_num_eff_addr i = 0 \<and>
     i_ldq_elem i = None \<and> i_stq_elem i = None"

lemma blank_init: "arrays16 j \<Longrightarrow> blank ((init_inst j s pc code)\<lparr>i_decoded := True\<rparr>)"
  by (simp add: blank_def init_inst_def arrays16_def)

definition plain :: "Inst \<Rightarrow> bool" where
  "plain i \<longleftrightarrow> decoded_ok i \<and> i_type i \<noteq> Pop \<and> i_type i \<noteq> Push"

lemma take_one_upd: "length xs = 16 \<Longrightarrow> take (Suc 0) (xs[0 := v]) = [v]"
  by (cases xs) auto

lemma sp_update_ok: "blank i \<Longrightarrow> \<exists>mi. sp_update i = Some mi \<and> plain mi"
  by (auto simp: sp_update_def add_dst_reg_def add_src_reg_def aset_def blank_def arrays16_def plain_def decoded_ok_def inst_fit_def
      dst_set_def take_one_upd)

lemma push_store_ok:
  assumes "blank i" "decoded_ok inst" "i_type inst = Push" "j < nat (i_num_eff_addr inst)"
  shows "\<exists>mi. push_store inst (int j) i = Some mi \<and> plain mi"
  using assms
  by (auto simp: push_store_def add_eff_addr_def add_src_reg_def aset_def aget_def blank_def arrays16_def plain_def decoded_ok_def inst_fit_def
      dst_set_def take_one_upd)

lemma pop_load_ok:
  assumes "blank i" "decoded_ok inst" "i_type inst = Pop" "j < nat (i_num_eff_addr inst)"
  shows "\<exists>mi. pop_load inst (int j) i = Some mi \<and> plain mi"
proof -
  have l: "j < nat (i_num_dst_reg inst)" "j < length (i_dst_reg inst)" "j < length (i_eff_addr inst)"
    using assms by (auto simp: decoded_ok_def inst_fit_def)
  then have "i_dst_reg inst ! j \<in> dst_set inst" "j < length (i_dst_reg inst)" "j < length (i_eff_addr inst)"
    by (auto simp: dst_set_def in_set_conv_nth intro!: exI [of _ j])
  then have "i_dst_reg inst ! j \<noteq> - 1" "j < length (i_dst_reg inst)" "j < length (i_eff_addr inst)"
    using assms(2,3) by (auto simp: decoded_ok_def inst_fit_def)
  then show ?thesis using assms
    by (auto simp: pop_load_def add_eff_addr_def add_dst_reg_def add_src_reg_def aset_def aget_def blank_def arrays16_def plain_def decoded_ok_def
        inst_fit_def dst_set_def take_one_upd)
qed

lemma plain_expand: "plain i \<Longrightarrow> expand z i = 1"
  by (simp add: plain_def expand_def decode_inst_def decoded_ok_def)

lemma work_new_tb:
  assumes "a \<notin> set (g_rob g)" "a \<notin> set (g_U g QTrace)" "g_rob g' = g_rob g" "g_U g' QTrace = a # g_U g QTrace"
    "insts st' = (insts st)(a \<mapsto> mi)" "plain mi" "wb_max st' = wb_max st"
  shows "work z g' st' = work z g st + (24 + wb_max st)"
proof -
  have h: "insts st' q = insts st q" if "q \<in> set (g_rob g) \<union> set (g_U g QTrace)" for q using assms that by auto
  have "(\<Sum>q\<in>set (g_rob g). inst_work (wb_max st) (the (insts st' q))) = (\<Sum>q\<in>set (g_rob g). inst_work (wb_max st) (the (insts st q)))"
    "(\<Sum>q\<in>set (g_U g QTrace). expand z (the (insts st' q))) = (\<Sum>q\<in>set (g_U g QTrace). expand z (the (insts st q)))"
    using h by (auto intro!: sum_heap_cong)
  moreover have "expand z (the (insts st' a)) = 1" using assms(5,6) by (simp add: plain_expand)
  ultimately show ?thesis using assms(2,3,4,7) by (simp add: work_def algebra_simps)
qed

text \<open>
  The loop over the addresses: the new instructions are at the front of the trace buffer, the one
  being split is in no queue, and the work left is that of the instructions still to come.
\<close>

definition split_inv :: "nat \<Rightarrow> nat \<Rightarrow> ghost \<Rightarrow> TA \<Rightarrow> addr \<Rightarrow> nat \<Rightarrow> ghost \<Rightarrow> TA \<Rightarrow> bool" where
  "split_inv z N g0 st0 p k g st \<longleftrightarrow> splitting z N k 0 g st \<and> g_rob g = g_rob g0 \<and> same_config st0 st \<and> fu st = fu st0 \<and>
     insts st p = insts st0 p \<and> p \<notin> set (g_U g QTrace) \<and> plain (the (insts st (hd (g_U g QTrace)))) \<and> g_U g QTrace \<noteq> [] \<and>
     work z g st + (24 + wb_max st) * k = work z g0 st0"

lemma microops_ok:
  assumes "split_inv z N g0 st0 p k g st" "insts st0 p = Some inst"
    and fill: "\<And>j i. j < k \<Longrightarrow> blank i \<Longrightarrow> \<exists>mi. fill inst (int j) i = Some mi \<and> plain mi"
  shows "\<exists>g' st'. ofold (\<lambda>i st. do { st \<leftarrow> push_microop (fill inst (int i)) inst st;
     Some (st\<lparr>num_fetched_insts := num_fetched_insts st + 1\<rparr>) }) (rev [0..<k]) st = Some st' \<and> split_inv z N g0 st0 p 0 g' st'"
  using assms
proof (induction k arbitrary: g st)
  case (Suc k)
  note inv = Suc.prems(1) [unfolded split_inv_def]
  have sp: "splitting z N (Suc k) 0 g st" using inv by blast
  have fr: "fresh_part z (g_rob g) (g_U g QTrace) (insts st) (inst_brk st) (inst_junk st)" using sp by (simp add: splitting_def)
  then have "blank ((init_inst (inst_junk st (inst_brk st)) (ucast (i_seq inst)) (i_pc inst) (i_code inst))\<lparr>i_decoded := True\<rparr>)"
    by (simp add: blank_init fresh_part_def)
  then obtain mi where mi: "fill inst (int k) ((init_inst (inst_junk st (inst_brk st)) (ucast (i_seq inst)) (i_pc inst) (i_code inst))\<lparr>i_decoded := True\<rparr>) = Some mi"
    "plain mi" using Suc.prems(3) by blast
  obtain a q m where r: "push_microop (fill inst (int k)) inst st = Some (st\<lparr>insts := (insts st)(inst_brk st \<mapsto> mi), inst_brk := inst_brk st + 1, trace_buffer := q, emem := m\<rparr>)"
    "q_capacity q = q_capacity (trace_buffer st)" "splitting z N k (0 - 1) (g\<lparr>g_L := (g_L g)(QTrace := a # g_L g QTrace), g_ps := tl (g_ps g), g_U := (g_U g)(QTrace := inst_brk st # g_U g QTrace)\<rparr>)
      (st\<lparr>insts := (insts st)(inst_brk st \<mapsto> mi), inst_brk := inst_brk st + 1, trace_buffer := q, emem := m\<rparr>)"
    using push_microop_ok [where fill = "fill inst (int k)" and inst = inst, OF sp _ _ _ mi(1)] mi(2) unfolding plain_def by blast
  define g1 where "g1 = g\<lparr>g_L := (g_L g)(QTrace := a # g_L g QTrace), g_ps := tl (g_ps g), g_U := (g_U g)(QTrace := inst_brk st # g_U g QTrace)\<rparr>"
  define st1 where "st1 = st\<lparr>insts := (insts st)(inst_brk st \<mapsto> mi), inst_brk := inst_brk st + 1, trace_buffer := q, emem := m,
    num_fetched_insts := num_fetched_insts st + 1\<rparr>"
  have s1: "splitting z N k 0 g1 st1" using r(3) by (simp add: splitting_def limits_def g1_def st1_def)
  have "set (g_rob g) \<subseteq> dom (insts st)" using sp by (fastforce simp: splitting_def rob_insts_def in_set_conv_nth)
  then have "inst_brk st \<notin> set (g_rob g)" "inst_brk st \<notin> set (g_U g QTrace)" using fresh_brk [OF fr] by auto
  then have w1: "work z g1 st1 = work z g st + (24 + wb_max st)"
    by (rule work_new_tb [OF _ _ _ _ _ mi(2)]) (simp_all add: g1_def st1_def wb_max_def)
  have "inst_brk st \<noteq> p" using fr inv Suc.prems(2) by (auto simp: fresh_part_def)
  moreover have "work z g1 st1 + (24 + wb_max st1) * k = work z g0 st0"
    using w1 inv by (simp add: st1_def wb_max_def algebra_simps)
  ultimately have "split_inv z N g0 st0 p k g1 st1"
    using s1 r(2) inv mi(2) unfolding split_inv_def by (simp add: g1_def st1_def same_config_def)
  from Suc.IH [OF this Suc.prems(2)] Suc.prems(3) show ?case using r(1) by (simp add: st1_def)
qed auto

lemma split_start:
  assumes inv: "pipe z N g st" and tb: "g_U g QTrace = p # us" and p: "insts st p = Some i" "decoded_ok i" "i_type i = Pop \<or> i_type i = Push"
  shows "\<exists>st1 g' st'. pop_trace_buffer st = Some (Some p, st1) \<and> insts st1 p = Some i \<and> push_microop sp_update i st1 = Some st' \<and>
    split_inv z N g st p (nat (i_num_eff_addr i)) g' st'"
proof -
  have ex: "expand z i = Suc (nat (i_num_eff_addr i))" using p by (simp add: expand_def decode_inst_def decoded_ok_def)
  let ?g = "g\<lparr>g_L := (g_L g)(QTrace := tl (g_L g QTrace)), g_U := (g_U g)(QTrace := us)\<rparr>"
  obtain q m where r: "pop_trace_buffer st = Some (Some p, st\<lparr>trace_buffer := q, emem := m\<rparr>)"
    "q_capacity q = q_capacity (trace_buffer st)" "splitting z N (Suc (nat (i_num_eff_addr i))) 1 ?g (st\<lparr>trace_buffer := q, emem := m\<rparr>)"
    using splitting_pop [OF inv tb] ex p(1) by auto
  let ?st = "st\<lparr>trace_buffer := q, emem := m\<rparr>"
  have fr: "fresh_part z (g_rob g) us (insts st) (inst_brk st) (inst_junk st)" using r(3) by (simp add: splitting_def)
  then have "blank ((init_inst (inst_junk st (inst_brk st)) (ucast (i_seq i)) (i_pc i) (i_code i))\<lparr>i_decoded := True\<rparr>)"
    by (simp add: blank_init fresh_part_def)
  then obtain mi where mi: "sp_update ((init_inst (inst_junk ?st (inst_brk ?st)) (ucast (i_seq i)) (i_pc i) (i_code i))\<lparr>i_decoded := True\<rparr>) = Some mi" "plain mi"
    using sp_update_ok by auto
  obtain a q' m' where r2: "push_microop sp_update i ?st = Some (?st\<lparr>insts := (insts ?st)(inst_brk ?st \<mapsto> mi), inst_brk := inst_brk ?st + 1, trace_buffer := q', emem := m'\<rparr>)"
    "q_capacity q' = q_capacity (trace_buffer ?st)" "splitting z N (nat (i_num_eff_addr i)) (1 - 1) (?g\<lparr>g_L := (g_L ?g)(QTrace := a # g_L ?g QTrace), g_ps := tl (g_ps ?g), g_U := (g_U ?g)(QTrace := inst_brk ?st # g_U ?g QTrace)\<rparr>)
      (?st\<lparr>insts := (insts ?st)(inst_brk ?st \<mapsto> mi), inst_brk := inst_brk ?st + 1, trace_buffer := q', emem := m'\<rparr>)"
    using push_microop_ok [where fill = sp_update and inst = i, OF r(3) _ _ _ mi(1)] mi(2) unfolding plain_def by blast
  define g' where "g' = ?g\<lparr>g_L := (g_L ?g)(QTrace := a # g_L ?g QTrace), g_ps := tl (g_ps ?g), g_U := (g_U ?g)(QTrace := inst_brk ?st # g_U ?g QTrace)\<rparr>"
  define st' where "st' = ?st\<lparr>insts := (insts ?st)(inst_brk ?st \<mapsto> mi), inst_brk := inst_brk ?st + 1, trace_buffer := q', emem := m'\<rparr>"
  have pu: "p \<notin> set us" using pipe_tb(1) [OF inv tb] .
  have pb: "inst_brk st \<noteq> p" using fr p(1) by (auto simp: fresh_part_def)
  have "set (g_rob g) \<subseteq> dom (insts st)" using inv by (fastforce simp: pipe_def rob_insts_def in_set_conv_nth)
  then have "inst_brk st \<notin> set (g_rob g)" "inst_brk st \<notin> set us" using fresh_brk [OF fr] by auto
  then have "work z g' st' = work z ?g ?st + (24 + wb_max st)"
    by (subst work_new_tb [OF _ _ _ _ _ mi(2), where g = ?g and st = ?st]) (simp_all add: g'_def st'_def wb_max_def)
  moreover have "work z g st = work z ?g ?st + (24 + wb_max st) * expand z i"
    using tb p(1) pu by (simp add: work_def wb_max_def algebra_simps)
  ultimately have "split_inv z N g st p (nat (i_num_eff_addr i)) g' st'"
    using r(2) r2(2,3) pu pb mi(2) ex unfolding split_inv_def by (simp add: g'_def st'_def same_config_def wb_max_def algebra_simps)
  then show ?thesis using r(1) r2(1) p(1) by (intro exI conjI) (auto simp: st'_def)
qed

text \<open>Freeing an instruction that is in no queue.\<close>

lemma pipe_free:
  assumes inv: "pipe z N g st" and p: "p \<notin> set (g_rob g)" "p \<notin> set (g_U g QTrace)" "insts st p = Some i"
  shows "\<exists>st'. free_inst (Some p) st = Some st' \<and> st' = st\<lparr>insts := (insts st)(p := None)\<rparr> \<and> pipe z N g st' \<and> work z g st' = work z g st"
proof -
  note inv' = inv [unfolded pipe_def]
  let ?h = "(insts st)(p := None)"
  have hx: "?h q = insts st q" if "q \<in> set (g_rob g)" for q using p(1) that by auto
  have ht: "?h q = insts st q" if "q \<in> set (g_U g QTrace)" for q using p(2) that by auto
  have hu: "?h q = insts st q" if "q \<in> set (g_U g QUnits)" for q using inv' hx that by (auto simp: flight_part_def)
  have ls: "lsq_part i_ldq_elem QLoad (g_rob g) (g_L g) (g_U g) (emem st) (insts st)"
    "lsq_part i_stq_elem QStore (g_rob g) (g_L g) (g_U g) (emem st) (insts st)" using inv' by blast+
  have "lsq_part i_ldq_elem QLoad (g_rob g) (g_L g) (g_U g) (emem st) ?h" by (rule lsq_cong [OF ls(1)]) (use hx in auto)
  moreover have "lsq_part i_stq_elem QStore (g_rob g) (g_L g) (g_U g) (emem st) ?h" by (rule lsq_cong [OF ls(2)]) (use hx in auto)
  moreover have "fresh_part z (g_rob g) (g_U g QTrace) (insts st) (inst_brk st) (inst_junk st)" using inv' by blast
  then have "fresh_part z (g_rob g) (g_U g QTrace) ?h (inst_brk st) (inst_junk st)"
    by (rule fresh_cong) (use ht inv' in \<open>auto simp: fresh_part_def\<close>)
  moreover have "buffer_part z (g_U g QTrace) st" using inv' by blast
  then have "buffer_part z (g_U g QTrace) (st\<lparr>insts := ?h\<rparr>)" by (rule buffer_cong) (use ht in auto)
  ultimately have "pipe z N g (st\<lparr>insts := ?h\<rparr>)"
    using inv' flight_cong [of "g_rob g" ?h "insts st" "g_U g" "g_U g", OF hx] rob_insts_cong [of "g_rob g" ?h "insts st", OF hx]
      unit_cong [of "g_U g QUnits" ?h "insts st", OF hu]
    unfolding pipe_def by (simp add: limits_def)
  moreover have "work z g (st\<lparr>insts := ?h\<rparr>) = work z g st"
    using sum_heap_cong [of "set (g_U g QTrace)" ?h "insts st", OF ht] sum_heap_cong [of "set (g_rob g)" ?h "insts st", OF hx]
    unfolding work_def wb_max_def by simp
  ultimately show ?thesis using p(3) by (simp add: free_inst_def load_def)
qed

section \<open>\<open>convert_microop\<close>\<close>

definition front_frame :: "ghost \<Rightarrow> TA \<Rightarrow> ghost \<Rightarrow> TA \<Rightarrow> bool" where
  "front_frame g st g' st' \<longleftrightarrow> g_rob g' = g_rob g \<and> same_config st st' \<and> fu st' = fu st"

lemma split_finish:
  assumes "split_inv z N g st p 0 g1 st1" "insts st p = Some i" "p \<notin> set (g_rob g)"
  shows "\<exists>st'. free_inst (Some p) st1 = Some st' \<and> pipe z N g1 st' \<and> front_frame g st g1 st' \<and> work z g1 st' = work z g st \<and>
    g_U g1 QTrace \<noteq> [] \<and> plain (the (insts st' (hd (g_U g1 QTrace))))"
proof -
  note inv = assms(1) [unfolded split_inv_def splitting_pipe]
  obtain st' where st': "free_inst (Some p) st1 = Some st'" "st' = st1\<lparr>insts := (insts st1)(p := None)\<rparr>" "pipe z N g1 st'" "work z g1 st' = work z g1 st1"
    using pipe_free [of z N g1 st1 p] inv assms(2,3) by auto
  have "hd (g_U g1 QTrace) \<noteq> p" using inv by (metis hd_in_set)
  then show ?thesis using st' inv by (auto simp: front_frame_def same_config_def)
qed

lemma convert_ok:
  assumes inv: "pipe z N g st" and tb: "g_U g QTrace = p # us" and p: "insts st p = Some i" "decoded_ok i"
  shows "\<exists>g' st'. convert_microop (Some p) st = Some st' \<and> pipe z N g' st' \<and> front_frame g st g' st' \<and> work z g' st' = work z g st \<and>
    g_U g' QTrace \<noteq> [] \<and> plain (the (insts st' (hd (g_U g' QTrace))))"
proof (cases "i_type i = Pop \<or> i_type i = Push")
  case True
  obtain st1 g2 st2 where s: "pop_trace_buffer st = Some (Some p, st1)" "insts st1 p = Some i" "push_microop sp_update i st1 = Some st2"
    "split_inv z N g st p (nat (i_num_eff_addr i)) g2 st2"
    using split_start [OF inv tb p True] by blast
  have px: "p \<notin> set (g_rob g)" using pipe_tb(2) [OF inv tb] .
  define fill where "fill = (if i_type i = Pop then pop_load else push_store)"
  have fill: "\<exists>mi. fill i (int j) m = Some mi \<and> plain mi" if "j < nat (i_num_eff_addr i)" "blank m" for j m
    using push_store_ok [OF that(2) p(2) _ that(1)] pop_load_ok [OF that(2) p(2) _ that(1)] True by (auto simp: fill_def)
  obtain g3 st3 where m: "microops fill i st2 = Some st3" "split_inv z N g st p 0 g3 st3"
    using microops_ok [where fill = fill, OF s(4) p(1) fill] unfolding microops_def by blast
  have c: "convert_microop (Some p) st = free_inst (Some p) st3"
    using True p(1) s(1-3) m(1)
    by (auto simp: convert_microop_def convert_pop_microop_def convert_push_microop_def load_def fill_def)
  show ?thesis using split_finish [OF m(2) p(1) px] unfolding c by blast
next
  case False
  have "plain i" using False p(2) by (simp add: plain_def)
  moreover have "convert_microop (Some p) st = Some st"
    using False p(1) by (auto simp: convert_microop_def load_def split: InstTypeName.splits)
  ultimately show ?thesis using inv tb p(1) by (intro exI [of _ g] exI [of _ st]) (simp add: front_frame_def same_config_def)
qed

end
