(* ===== verification/Pipeline_Dispatch.thy ===== *)
theory Pipeline_Dispatch
  imports Pipeline_Microops
begin

text \<open>
  The dispatch stage keeps the pipeline invariant and cannot fault; it lowers the work left
  whenever an instruction is waiting and the reorder buffer is empty.
\<close>

section \<open>Entering the reorder buffer and the queues\<close>

text \<open>Changing a dispatched instruction, or what the load and store queues hold for it.\<close>

lemma pipe_put:
  assumes inv: "pipe z N g st" and p: "p \<in> set (g_rob g)" "insts st p = Some i" "i_state i = Dispatch"
    and i': "i_state i' = Dispatch" "inst_fit i'" "i_rob_idx i' = i_rob_idx i"
    and st': "insts st' = (insts st)(p \<mapsto> i')" "rob st' = rob st" "mat_dim 60 (deps st')" "inst_brk st' = inst_brk st"
      "inst_junk st' = inst_junk st" "trace_buffer st' = trace_buffer st" "num_fetched_insts st' = num_fetched_insts st"
      "num_committed_insts st' = num_committed_insts st" "same_config st st'" "fu st' = fu st" "limits st'"
    and g': "g_start g' = g_start g" "g_rob g' = g_rob g" "g_U g' QTrace = g_U g QTrace" "g_U g' QIssue = g_U g QIssue" "g_U g' QUnits = g_U g QUnits"
    and q: "queues_ok (emem st') (queue_of st') (g_L g') (g_ps g') (g_U g')"
    and l: "lsq_part i_ldq_elem QLoad (g_rob g) (g_L g') (g_U g') (emem st') (insts st')"
      "lsq_part i_stq_elem QStore (g_rob g) (g_L g') (g_U g') (emem st') (insts st')"
  shows "pipe z N g' st'" "work z g' st' = work z g st"
proof -
  note inv' = inv [unfolded pipe_def]
  let ?h = "(insts st)(p \<mapsto> i')"
  have s: "i_state (the (?h q)) = i_state (the (insts st q))" for q using p(2,3) i'(1) by simp
  have b: "busy (the (?h q)) = busy (the (insts st q))" for q using p(2,3) i'(1) by (simp add: busy_def)
  have "rob_insts N (g_start g) (g_rob g) (rob st) ?h"
    using inv' p(2) i'(3) unfolding rob_insts_def by (metis fun_upd_apply option.inject)
  moreover have "flying (the (?h q))" if "q \<in> set (g_rob g)" for q using inv' that i' by (auto simp: flight_part_def flying_def)
  then have "flight_part (g_rob g) (g_U g') ?h" using inv' s b g' by (simp add: flight_part_def)
  moreover have "\<not> busy i" using p(3) by (simp add: busy_def)
  then have "p \<notin> set (g_U g QUnits)" using inv' p(2) by (auto simp: flight_part_def)
  then have "unit_part (g_U g QUnits) ?h (inst_type_fu_type_map st) (fu st)"
    using inv' unit_cong [of "g_U g QUnits" ?h "insts st"] by (metis fun_upd_other)
  moreover have tb: "?h q = insts st q" if "q \<in> set (g_U g QTrace)" for q using pipe_rob(3) [OF inv] p(1) that by auto
  have fp: "fresh_part z (g_rob g) (g_U g QTrace) (insts st) (inst_brk st) (inst_junk st)" using inv' by blast
  have "dom ?h \<subseteq> {..<inst_brk st}" using fp p(2) by (auto simp: fresh_part_def)
  then have "fresh_part z (g_rob g) (g_U g QTrace) ?h (inst_brk st) (inst_junk st)" using fresh_cong [OF fp tb] by blast
  moreover have "buffer_part z (g_U g QTrace) st'"
    using buffer_cong [of z "g_U g QTrace" st st'] inv' tb st'(1,6) by simp
  ultimately show "pipe z N g' st'" using inv' st' g' q l by (simp add: pipe_def same_config_def)
  have "(\<Sum>q\<in>set (g_rob g). inst_work (wb_max st) (the (?h q))) = (\<Sum>q\<in>set (g_rob g). inst_work (wb_max st) (the (insts st q)))"
    by (rule sum.cong) (use p(2,3) i'(1) in \<open>auto simp: inst_work_def\<close>)
  then show "work z g' st' = work z g st"
    using sum_heap_cong [of "set (g_U g QTrace)" ?h "insts st" "expand z", OF tb] st'(1) g' wb_max_same [OF st'(9)] by (simp add: work_def)
qed

text \<open>The state in which the instruction already counts as dispatched.\<close>

definition as_dispatched :: "addr \<Rightarrow> TA \<Rightarrow> TA" where
  "as_dispatched p st = st\<lparr>insts := (insts st)(p \<mapsto> (the (insts st p))\<lparr>i_state := Dispatch\<rparr>)\<rparr>"

lemma lsq_new:
  assumes "lsq_part f n xs L U m h" "p \<notin> set xs" "f i' = None" "L' n = L n" "U' n = U n" "payload_same m m' (L n)"
  shows "lsq_part f n (xs @ [p]) L' U' m' (h(p \<mapsto> i'))"
proof -
  have h: "(h(p \<mapsto> i')) q = h q" if "q \<in> set xs" for q using assms(2) that by auto
  have "{q \<in> set (xs @ [p]). f (the ((h(p \<mapsto> i')) q)) \<noteq> None} = {q \<in> set xs. f (the (h q)) \<noteq> None}" using assms(2,3) by auto
  then show ?thesis using assms h by (auto simp: lsq_part_def payload_same_def)
qed

lemma lsq_add:
  assumes "lsq_part f n xs L U m h" "p \<in> set xs" "h p = Some i" "f i = None" "f i' = Some a" "payload_same m m' (L n)"
    "fld e_inst (elems m') a = Some p"
  shows "lsq_part f n xs (L(n := L n @ [a])) (U(n := U n @ [p])) m' (h(p \<mapsto> i'))"
proof -
  have "{q \<in> set xs. f (the ((h(p \<mapsto> i')) q)) \<noteq> None} = insert p {q \<in> set xs. f (the (h q)) \<noteq> None}" using assms(2,5) by auto
  moreover have "p \<notin> set (U n)" using assms(1,3,4) by (auto simp: lsq_part_def)
  ultimately show ?thesis using assms unfolding lsq_part_def payload_same_def by auto
qed

text \<open>What the later steps of an instruction's entry keep.\<close>

definition entry_frame :: "addr \<Rightarrow> ghost \<Rightarrow> TA \<Rightarrow> ghost \<Rightarrow> TA \<Rightarrow> bool" where
  "entry_frame p g st g' st' \<longleftrightarrow> g_rob g' = g_rob g \<and> g_U g' QTrace = g_U g QTrace \<and> same_config st st' \<and> fu st' = fu st \<and>
     (\<exists>i i'. insts st p = Some i \<and> insts st' p = Some i' \<and> i_type i' = i_type i)"

lemma entry_trans: "entry_frame p g st g' st' \<Longrightarrow> entry_frame p g' st' g'' st'' \<Longrightarrow> entry_frame p g st g'' st''"
  by (auto simp: entry_frame_def same_config_def)

lemma as_dispatched_in:
  assumes "pipe z N g (as_dispatched p st)" "p \<in> set (g_rob g)" "insts st p = Some i"
  shows "inst_fit i" "queues_ok (emem st) (queue_of st) (g_L g) (g_ps g) (g_U g)" "mat_dim 60 (deps st)" "limits st"
    "lsq_part i_ldq_elem QLoad (g_rob g) (g_L g) (g_U g) (emem st) ((insts st)(p \<mapsto> i\<lparr>i_state := Dispatch\<rparr>))"
    "lsq_part i_stq_elem QStore (g_rob g) (g_L g) (g_U g) (emem st) ((insts st)(p \<mapsto> i\<lparr>i_state := Dispatch\<rparr>))"
proof -
  note inv = assms(1) [unfolded pipe_def as_dispatched_def]
  have "flying (i\<lparr>i_state := Dispatch\<rparr>)" using inv assms(2,3) by (auto simp: flight_part_def)
  then show "inst_fit i" by (simp add: flying_def inst_fit_def dst_set_def)
qed (use assms in \<open>auto simp: pipe_def as_dispatched_def limits_def\<close>)

lemma push_LDQ_ok:
  assumes inv: "pipe z N g (as_dispatched p st)" and p: "p \<in> set (g_rob g)" "insts st p = Some i" "i_ldq_elem i = None"
    and room: "\<not> is_full_queue (LDQ st)"
  shows "\<exists>g' st'. push_LDQ (Some p) st = Some st' \<and> pipe z N g' (as_dispatched p st') \<and> entry_frame p g st g' st' \<and>
    work z g' (as_dispatched p st') = work z g (as_dispatched p st) \<and> i_stq_elem (the (insts st' p)) = i_stq_elem i \<and> STQ st' = STQ st"
proof -
  note d = as_dispatched_in [OF inv p(1,2)]
  obtain a q m where r: "push_back_inst (LDQ st) (Some p) (emem st) = Some (Some a, q, m)" "q_capacity q = q_capacity (LDQ st)"
    "queues_ok m ((queue_of st)(QLoad := q)) ((g_L g)(QLoad := g_L g QLoad @ [a])) (tl (g_ps g)) ((g_U g)(QLoad := g_U g QLoad @ [p]))"
    "payload_kept (emem st) m (g_L g)" "fld e_inst (elems m) a = Some p"
    using queues_push_back [OF d(2), of QLoad p] room by auto
  define g' where "g' = g\<lparr>g_L := (g_L g)(QLoad := g_L g QLoad @ [a]), g_ps := tl (g_ps g), g_U := (g_U g)(QLoad := g_U g QLoad @ [p])\<rparr>"
  define st' where "st' = st\<lparr>LDQ := q, emem := m, insts := (insts st)(p \<mapsto> i\<lparr>i_ldq_elem := Some a\<rparr>)\<rparr>"
  have e: "push_LDQ (Some p) st = Some st'" using r(1) p(2) by (simp add: push_LDQ_def upd_inst_in st'_def)
  let ?i = "i\<lparr>i_state := Dispatch\<rparr>" and ?i' = "i\<lparr>i_ldq_elem := Some a, i_state := Dispatch\<rparr>"
  have l1: "lsq_part i_ldq_elem QLoad (g_rob g) (g_L g') (g_U g') m ((insts st)(p \<mapsto> ?i, p \<mapsto> ?i'))"
    unfolding g'_def using lsq_add [OF d(5) p(1), of ?i ?i' a m] p(3) r(5) payload_same_of [OF r(4)] by simp
  have l2: "lsq_part i_stq_elem QStore (g_rob g) (g_L g') (g_U g') m ((insts st)(p \<mapsto> ?i, p \<mapsto> ?i'))"
    by (rule lsq_cong [OF d(6)]) (use payload_same_of [OF r(4), of QStore] in \<open>auto simp: g'_def\<close>)
  have "pipe z N g' (as_dispatched p st')" "work z g' (as_dispatched p st') = work z g (as_dispatched p st)"
    by (rule pipe_put [OF inv p(1), of ?i ?i']; use p(2) d r(2,3) l1 l2 in \<open>auto simp: as_dispatched_def st'_def g'_def inst_fit_def dst_set_def limits_def same_config_def\<close>)+
  then show ?thesis using e p(2) by (intro exI [of _ g'] exI [of _ st']) (auto simp: entry_frame_def g'_def st'_def same_config_def)
qed

lemma push_STQ_ok:
  assumes inv: "pipe z N g (as_dispatched p st)" and p: "p \<in> set (g_rob g)" "insts st p = Some i" "i_stq_elem i = None"
    and room: "\<not> is_full_queue (STQ st)"
  shows "\<exists>g' st'. push_STQ (Some p) st = Some st' \<and> pipe z N g' (as_dispatched p st') \<and> entry_frame p g st g' st' \<and>
    work z g' (as_dispatched p st') = work z g (as_dispatched p st)"
proof -
  note d = as_dispatched_in [OF inv p(1,2)]
  obtain a q m where r: "push_back_inst (STQ st) (Some p) (emem st) = Some (Some a, q, m)" "q_capacity q = q_capacity (STQ st)"
    "queues_ok m ((queue_of st)(QStore := q)) ((g_L g)(QStore := g_L g QStore @ [a])) (tl (g_ps g)) ((g_U g)(QStore := g_U g QStore @ [p]))"
    "payload_kept (emem st) m (g_L g)" "fld e_inst (elems m) a = Some p"
    using queues_push_back [OF d(2), of QStore p] room by auto
  define g' where "g' = g\<lparr>g_L := (g_L g)(QStore := g_L g QStore @ [a]), g_ps := tl (g_ps g), g_U := (g_U g)(QStore := g_U g QStore @ [p])\<rparr>"
  define st' where "st' = st\<lparr>STQ := q, emem := m, insts := (insts st)(p \<mapsto> i\<lparr>i_stq_elem := Some a\<rparr>)\<rparr>"
  have e: "push_STQ (Some p) st = Some st'" using r(1) p(2) by (simp add: push_STQ_def upd_inst_in st'_def)
  let ?i = "i\<lparr>i_state := Dispatch\<rparr>" and ?i' = "i\<lparr>i_stq_elem := Some a, i_state := Dispatch\<rparr>"
  have l2: "lsq_part i_stq_elem QStore (g_rob g) (g_L g') (g_U g') m ((insts st)(p \<mapsto> ?i, p \<mapsto> ?i'))"
    unfolding g'_def using lsq_add [OF d(6) p(1), of ?i ?i' a m] p(3) r(5) payload_same_of [OF r(4)] by simp
  have l1: "lsq_part i_ldq_elem QLoad (g_rob g) (g_L g') (g_U g') m ((insts st)(p \<mapsto> ?i, p \<mapsto> ?i'))"
    by (rule lsq_cong [OF d(5)]) (use payload_same_of [OF r(4), of QLoad] in \<open>auto simp: g'_def\<close>)
  have "pipe z N g' (as_dispatched p st')" "work z g' (as_dispatched p st') = work z g (as_dispatched p st)"
    by (rule pipe_put [OF inv p(1), of ?i ?i']; use p(2) d r(2,3) l1 l2 in \<open>auto simp: as_dispatched_def st'_def g'_def inst_fit_def dst_set_def limits_def same_config_def\<close>)+
  then show ?thesis using e p(2) by (intro exI [of _ g'] exI [of _ st']) (auto simp: entry_frame_def g'_def st'_def same_config_def)
qed

lemma flight_new:
  assumes "flight_part xs U h" "p \<notin> set xs" "i_state i' = Dispatch" "inst_fit i'" "U' QIssue = U QIssue @ [p]" "U' QUnits = U QUnits"
  shows "flight_part (xs @ [p]) U' (h(p \<mapsto> i'))"
proof -
  have h: "(h(p \<mapsto> i')) q = h q" if "q \<in> set xs" for q using assms(2) that by auto
  have "filter (\<lambda>q. i_state (the ((h(p \<mapsto> i')) q)) = Dispatch) xs = filter (\<lambda>q. i_state (the (h q)) = Dispatch) xs"
    by (rule filter_cong) (simp_all add: h del: fun_upd_apply)
  moreover have "{q \<in> set (xs @ [p]). busy (the ((h(p \<mapsto> i')) q))} = {q \<in> set xs. busy (the (h q))}" using assms(2,3) by (auto simp: busy_def)
  moreover have "flying i'" using assms(3,4) by (simp add: flying_def)
  then have "\<forall>q\<in>set (xs @ [p]). flying (the ((h(p \<mapsto> i')) q))" using assms(1) h by (auto simp: flight_part_def)
  ultimately show ?thesis using assms by (simp add: flight_part_def)
qed

lemma rob_insts_set: "rob_insts N s xs r h \<Longrightarrow> h p = Some i \<Longrightarrow> i_rob_idx i' = i_rob_idx i \<Longrightarrow> rob_insts N s xs r (h(p \<mapsto> i'))"
  unfolding rob_insts_def by (metis fun_upd_apply option.inject)

lemma rob_enter:
  assumes r: "rob_insts N s xs ro h" "N \<le> 60" "length xs < N" and p: "p \<notin> set xs" "h p = Some i" and m: "mat_dim 60 mat"
  shows "\<exists>ro1 mat'. rob_insert_inst (Some p) ro h = Some (ro1, h(p \<mapsto> i\<lparr>i_rob_idx := int (slot N s (length xs))\<rparr>)) \<and>
    clean_dependency ro1 (i\<lparr>i_rob_idx := int (slot N s (length xs))\<rparr>) mat = Some mat' \<and> mat_dim 60 mat' \<and>
    rob_insts N s (xs @ [p]) ro1 (h(p \<mapsto> i\<lparr>i_rob_idx := int (slot N s (length xs))\<rparr>))"
proof -
  let ?i = "i\<lparr>i_rob_idx := int (slot N s (length xs))\<rparr>"
  have rh: "rob_holds N s xs ro" using r(1) by (simp add: rob_insts_def)
  obtain ro1 where r': "rob_insert_inst (Some p) ro h = Some (ro1, h(p \<mapsto> ?i))" "rob_holds N s (xs @ [p]) ro1"
    using rob_insert_holds [of N s xs ro h p i] rh r(3) p(2) by blast
  have "slot N s (length xs) < 60" using r(2,3) by (auto simp: slot_def intro: less_le_trans [OF mod_less_divisor])
  then obtain mat' where m': "clean_dependency ro1 ?i mat = Some mat'" "mat_dim 60 mat'"
    using clean_dependency_in [OF m _ _ r(2), of "slot N s (length xs)" ro1 ?i] r'(2) by (auto simp: rob_holds_def)
  have "\<exists>n. (h(p \<mapsto> ?i)) ((xs @ [p]) ! j) = Some n \<and> i_rob_idx n = int (slot N s j)" if "j < length (xs @ [p])" for j
    using that r(1) p(1) by (auto simp: rob_insts_def nth_append less_Suc_eq)
  then have "rob_insts N s (xs @ [p]) ro1 (h(p \<mapsto> ?i))" using r'(2) r(1) p(1) unfolding rob_insts_def by (auto simp del: fun_upd_apply)
  then show ?thesis using r' m' by blast
qed

text \<open>The entry up to the issue queue.\<close>

lemma enter_head:
  assumes inv: "splitting z N k 1 g st" and p: "p \<notin> set (g_rob g)" "p \<notin> set (g_U g QTrace)" "insts st p = Some i"
    and i: "inst_fit i" "i_ldq_elem i = None" "i_stq_elem i = None" and room: "length (g_rob g) < N" "\<not> is_full_queue (IQ st)"
  shows "\<exists>r h mat g' st'. rob_insert_inst (Some p) (rob st) (insts st) = Some (r, h) \<and> clean_dependency r (the (h p)) (deps st) = Some mat \<and> h p \<noteq> None \<and>
    push_IQ (Some p) (st\<lparr>rob := r, insts := h, deps := mat\<rparr>) = Some st' \<and> pipe z N g' (as_dispatched p st') \<and>
    g_rob g' = g_rob g @ [p] \<and> g_U g' QTrace = g_U g QTrace \<and> same_config st st' \<and> fu st' = fu st \<and> LDQ st' = LDQ st \<and> STQ st' = STQ st \<and>
    work z g' (as_dispatched p st') = work z g st + (23 + wb_max st) \<and>
    (\<exists>i'. insts st' p = Some i' \<and> i_type i' = i_type i \<and> i_ldq_elem i' = None \<and> i_stq_elem i' = None)"
proof -
  note inv' = inv [unfolded splitting_def]
  let ?x = "int (slot N (g_start g) (length (g_rob g)))"
  obtain r mat where r: "rob_insert_inst (Some p) (rob st) (insts st) = Some (r, (insts st)(p \<mapsto> i\<lparr>i_rob_idx := ?x\<rparr>))"
    "clean_dependency r (i\<lparr>i_rob_idx := ?x\<rparr>) (deps st) = Some mat" "mat_dim 60 mat"
    "rob_insts N (g_start g) (g_rob g @ [p]) r ((insts st)(p \<mapsto> i\<lparr>i_rob_idx := ?x\<rparr>))"
    using rob_enter [of N "g_start g" "g_rob g" "rob st" "insts st" p i "deps st"] inv' p room(1) by auto
  have Q: "queues_ok (emem st) (queue_of st) (g_L g) (g_ps g) (g_U g)" using inv' by blast
  obtain a q m where e: "push_back_inst (IQ st) (Some p) (emem st) = Some (Some a, q, m)" "q_capacity q = q_capacity (IQ st)"
    "queues_ok m ((queue_of st)(QIssue := q)) ((g_L g)(QIssue := g_L g QIssue @ [a])) (tl (g_ps g)) ((g_U g)(QIssue := g_U g QIssue @ [p]))"
    "payload_kept (emem st) m (g_L g)"
    using queues_push_back [OF Q, of QIssue p] room(2) by auto
  let ?i = "i\<lparr>i_rob_idx := ?x, i_iq_elem := Some a\<rparr>" and ?d = "i\<lparr>i_rob_idx := ?x, i_iq_elem := Some a, i_state := Dispatch\<rparr>"
  define g' where "g' = g\<lparr>g_rob := g_rob g @ [p], g_L := (g_L g)(QIssue := g_L g QIssue @ [a]), g_ps := tl (g_ps g), g_U := (g_U g)(QIssue := g_U g QIssue @ [p])\<rparr>"
  define st' where "st' = st\<lparr>rob := r, deps := mat, IQ := q, emem := m, insts := (insts st)(p \<mapsto> ?i)\<rparr>"
  define h where "h = (insts st)(p \<mapsto> ?d)"
  have hi: "insts (as_dispatched p st') = h" by (simp add: as_dispatched_def st'_def h_def)
  have hx: "h y = insts st y" if "y \<in> set (g_rob g)" for y using p(1) that by (auto simp: h_def)
  have ht: "h y = insts st y" if "y \<in> set (g_U g QTrace)" for y using p(2) that by (auto simp: h_def)
  have hu: "h y = insts st y" if "y \<in> set (g_U g QUnits)" for y using inv' hx that by (auto simp: flight_part_def)
  have "rob_insts N (g_start g) (g_rob g @ [p]) r h"
    using rob_insts_set [OF r(4), of p "i\<lparr>i_rob_idx := ?x\<rparr>" ?d] by (simp add: h_def)
  moreover have "flight_part (g_rob g @ [p]) (g_U g') h"
    using inv' flight_new [of "g_rob g" "g_U g" "insts st" p ?d "g_U g'"] p(1) i(1) by (simp add: h_def g'_def inst_fit_def dst_set_def)
  moreover have "lsq_part i_ldq_elem QLoad (g_rob g @ [p]) (g_L g') (g_U g') m h"
    using inv' lsq_new [of i_ldq_elem QLoad "g_rob g" "g_L g" "g_U g" "emem st" "insts st" p ?d "g_L g'" "g_U g'" m] p(1) i(2) payload_same_of [OF e(4), of QLoad]
    by (simp add: h_def g'_def)
  moreover have "lsq_part i_stq_elem QStore (g_rob g @ [p]) (g_L g') (g_U g') m h"
    using inv' lsq_new [of i_stq_elem QStore "g_rob g" "g_L g" "g_U g" "emem st" "insts st" p ?d "g_L g'" "g_U g'" m] p(1) i(3) payload_same_of [OF e(4), of QStore]
    by (simp add: h_def g'_def)
  moreover have "fresh_part z (g_rob g @ [p]) (g_U g QTrace) h (inst_brk st) (inst_junk st)"
  proof -
    have fp: "fresh_part z (g_rob g) (g_U g QTrace) (insts st) (inst_brk st) (inst_junk st)" using inv' by blast
    then have "dom h \<subseteq> {..<inst_brk st}" using p(3) by (auto simp: h_def fresh_part_def)
    then have "fresh_part z (g_rob g) (g_U g QTrace) h (inst_brk st) (inst_junk st)" using fresh_cong [OF fp ht] by blast
    then show ?thesis using p(2) by (auto simp: fresh_part_def)
  qed
  moreover have "buffer_part z (g_U g QTrace) (as_dispatched p st')"
    using inv' sum_heap_cong [of "set (g_U g QTrace)" h "insts st" "expand z", OF ht] hi by (auto simp: buffer_part_def as_dispatched_def st'_def)
  moreover have "unit_part (g_U g QUnits) h (inst_type_fu_type_map st) (fu st)" using inv' unit_cong [of "g_U g QUnits" h "insts st", OF hu] by simp
  ultimately have pipe: "pipe z N g' (as_dispatched p st')"
    using inv' r(3) e(2,3) unfolding pipe_def hi by (simp add: as_dispatched_def st'_def g'_def limits_def)
  have "work z g' (as_dispatched p st') = work z g st + (23 + wb_max st)"
    using p(1) sum_heap_cong [of "set (g_U g QTrace)" h "insts st" "expand z", OF ht] sum_heap_cong [of "set (g_rob g)" h "insts st" "inst_work (wb_max st)", OF hx]
    unfolding work_def hi by (simp add: g'_def as_dispatched_def st'_def wb_max_def) (simp add: h_def inst_work_def)
  moreover have "push_IQ (Some p) (st\<lparr>rob := r, insts := (insts st)(p \<mapsto> i\<lparr>i_rob_idx := ?x\<rparr>), deps := mat\<rparr>) = Some st'"
    using e(1) by (simp add: push_IQ_def upd_inst_in st'_def)
  ultimately show ?thesis using r(1,2) pipe i(2,3)
    by (intro exI [of _ r] exI [of _ "(insts st)(p \<mapsto> i\<lparr>i_rob_idx := ?x\<rparr>)"] exI [of _ mat] exI [of _ g'] exI [of _ st'])
      (simp add: g'_def st'_def same_config_def)
qed

text \<open>The searches for dependencies change only the lists of the instruction itself.\<close>

lemma enter_deps:
  assumes r: "rob_insts N s xs ro h" "N \<le> 60" and m: "mat_dim 60 mat" and fit: "\<forall>x\<in>set xs. inst_fit (the (h x))" and p: "p \<in> set xs" "h p = Some i"
  shows "\<exists>h1 mat1 i' mat'. find_regs_dependency ro (Some p) h mat = Some (h1, mat1) \<and>
    find_mems_dependency ro (Some p) h1 mat1 = Some (h(p \<mapsto> i'), mat') \<and> mat_dim 60 mat' \<and>
    inst_fit i' \<and> i_type i' = i_type i \<and> i_rob_idx i' = i_rob_idx i \<and> i_ldq_elem i' = i_ldq_elem i \<and> i_stq_elem i' = i_stq_elem i"
proof -
  obtain j where j: "j < length xs" "xs ! j = p" using p(1) by (auto simp: in_set_conv_nth)
  have f0: "regs_fit 60 (the (h x)) \<and> addrs_fit 60 (the (h x))" if x: "x \<in> set xs" for x
  proof -
    obtain k n where k: "k < length xs" "xs ! k = x" "h x = Some n" "i_rob_idx n = int (slot N s k)"
      using x r(1) by (auto simp: rob_insts_def in_set_conv_nth)
    have "slot N s k < N" using r(1) by (auto simp: slot_def rob_insts_def rob_holds_def)
    then show ?thesis using inst_fit_regs [of n] fit x k r(2) by auto
  qed
  obtain h1 mat1 c where 1: "find_regs_dependency ro (Some p) h mat = Some (h1, mat1)" "reg_search N s xs h mat j 0 (h1, mat1, c)"
    using find_regs_search [OF r m j(1)] f0 j(2) by auto
  then obtain rs where h1: "h1 = h(p \<mapsto> i\<lparr>i_src_reg := rs\<rparr>)" "length rs = length (i_src_reg i)" "mat_dim 60 mat1"
    using j(2) p(2) by (auto simp: reg_search_def Let_def)
  have r1: "rob_insts N s xs ro h1" unfolding h1(1) by (rule rob_insts_set [OF r(1) p(2)]) simp
  have f1: "\<forall>x\<in>set xs. addrs_fit 60 (the (h1 x))" using f0 p h1(1) by (fastforce simp: addrs_fit_def)
  obtain h2 mat2 c2 where 2: "find_mems_dependency ro (Some p) h1 mat1 = Some (h2, mat2)" "mem_search 60 h1 p (the (h1 p)) (h2, mat2, c2)"
    using find_mems_ok [OF r1 r(2) h1(3) j(1) f1] j(2) by auto
  then obtain es where h2: "h2 = h(p \<mapsto> i\<lparr>i_src_reg := rs, i_eff_addr := es\<rparr>)" "length es = length (i_eff_addr i)" "mat_dim 60 mat2"
    using h1(1) by (auto simp: mem_search_def)
  have "inst_fit i" using fit p by force
  then have "inst_fit (i\<lparr>i_src_reg := rs, i_eff_addr := es\<rparr>)" using h1(2) h2(2) by (simp add: inst_fit_def dst_set_def)
  then show ?thesis using 1(1) 2(1) h2 by (intro exI [of _ h1] exI [of _ mat1] exI [of _ "i\<lparr>i_src_reg := rs, i_eff_addr := es\<rparr>"] exI [of _ mat2]) simp
qed

lemma enter_tail:
  assumes inv: "pipe z N g (as_dispatched p st)" and p: "p \<in> set (g_rob g)" "insts st p = Some i"
  shows "\<exists>st'. (do {
     let st = st\<lparr>num_dispatched_insts := num_dispatched_insts st + 1\<rparr>;
     (h, mat) \<leftarrow> find_regs_dependency (rob st) (Some p) (insts st) (deps st);
     (h, mat) \<leftarrow> find_mems_dependency (rob st) (Some p) h mat;
     st \<leftarrow> dispatch_inst (Some p) (st\<lparr>insts := h, deps := mat\<rparr>);
     upd_inst (Some p) (i_dispatched_cycle_update (\<lambda>_. cur_cycle st)) st }) = Some st' \<and>
    pipe z N g st' \<and> work z g st' = work z g (as_dispatched p st) \<and> same_config st st' \<and> fu st' = fu st"
proof -
  note d = as_dispatched_in [OF inv p]
  let ?d = "i\<lparr>i_state := Dispatch\<rparr>" and ?h = "(insts st)(p \<mapsto> i\<lparr>i_state := Dispatch\<rparr>)"
  have a: "insts (as_dispatched p st) = ?h" using p(2) by (simp add: as_dispatched_def)
  have r: "rob_insts N (g_start g) (g_rob g) (rob st) (insts st)" "N \<le> 60"
    using rob_insts_set [of N "g_start g" "g_rob g" "rob st" ?h p ?d i] inv p(2) by (simp_all add: pipe_def as_dispatched_def fun_upd_idem)
  have "flying (the (?h x))" if "x \<in> set (g_rob g)" for x using inv that a by (auto simp: pipe_def flight_part_def)
  then have fit: "\<forall>x\<in>set (g_rob g). inst_fit (the (insts st x))" using d(1) p(2) by (metis flying_def fun_upd_other option.sel)
  obtain h1 mat1 i' mat' where e: "find_regs_dependency (rob st) (Some p) (insts st) (deps st) = Some (h1, mat1)"
    "find_mems_dependency (rob st) (Some p) h1 mat1 = Some ((insts st)(p \<mapsto> i'), mat')" "mat_dim 60 mat'"
    "inst_fit i'" "i_type i' = i_type i" "i_rob_idx i' = i_rob_idx i" "i_ldq_elem i' = i_ldq_elem i" "i_stq_elem i' = i_stq_elem i"
    using enter_deps [OF r d(3) fit p] by blast
  let ?i = "i'\<lparr>i_state := Dispatch, i_dispatched_cycle := cur_cycle st\<rparr>"
  define st' where "st' = st\<lparr>num_dispatched_insts := num_dispatched_insts st + 1, deps := mat',
    num_dispatched_insts_cycle := num_dispatched_insts_cycle st + 1, insts := (insts st)(p \<mapsto> ?i)\<rparr>"
  have l: "lsq_part i_ldq_elem QLoad (g_rob g) (g_L g) (g_U g) (emem st) (?h(p \<mapsto> ?i))" "lsq_part i_stq_elem QStore (g_rob g) (g_L g) (g_U g) (emem st) (?h(p \<mapsto> ?i))"
    by (rule lsq_cong [OF d(5)] lsq_cong [OF d(6)]; use e in simp)+
  have "pipe z N g st'" "work z g st' = work z g (as_dispatched p st)"
    by (rule pipe_put [OF inv p(1), of ?d ?i]; use p(2) d e l in \<open>auto simp: as_dispatched_def st'_def inst_fit_def dst_set_def limits_def same_config_def\<close>)+
  moreover have "?thesis \<longleftrightarrow> pipe z N g st' \<and> work z g st' = work z g (as_dispatched p st) \<and> same_config st st' \<and> fu st' = fu st"
    using e(1,2) by (simp add: dispatch_inst_def upd_inst_in st'_def)
  ultimately show ?thesis by (simp add: st'_def same_config_def)
qed

text \<open>\<open>enter_inst\<close> as a whole: the instruction just taken off the trace buffer enters.\<close>

lemma enter_queues:
  assumes inv: "pipe z N g (as_dispatched p st)" and p: "p \<in> set (g_rob g)" "insts st p = Some i" "i_ldq_elem i = None" "i_stq_elem i = None"
    and room: "i_type i = MemRead \<Longrightarrow> \<not> is_full_queue (LDQ st)" "i_type i = MemWrite \<Longrightarrow> \<not> is_full_queue (STQ st)"
  shows "\<exists>g' st'. (do { st \<leftarrow> (if i_type i = MemRead then push_LDQ (Some p) st else Some st);
      (if i_type i = MemWrite then push_STQ (Some p) st else Some st) }) = Some st' \<and>
    pipe z N g' (as_dispatched p st') \<and> entry_frame p g st g' st' \<and> work z g' (as_dispatched p st') = work z g (as_dispatched p st)"
proof -
  have refl: "entry_frame p g st g st" using p(2) by (simp add: entry_frame_def same_config_def)
  consider "i_type i = MemRead" | "i_type i = MemWrite" | "i_type i \<noteq> MemRead" "i_type i \<noteq> MemWrite" by blast
  then show ?thesis
  proof cases
    case 1
    then show ?thesis using push_LDQ_ok [OF inv p(1-3)] room(1) by auto
  next
    case 2
    then show ?thesis using push_STQ_ok [OF inv p(1,2,4)] room(2) by auto
  qed (use inv refl in auto)
qed

lemma enter_inst_ok:
  assumes inv: "splitting z N k 1 g st" and p: "p \<notin> set (g_rob g)" "p \<notin> set (g_U g QTrace)" "insts st p = Some i"
    and i: "inst_fit i" "i_ldq_elem i = None" "i_stq_elem i = None" and room: "length (g_rob g) < N" "\<not> is_full_queue (IQ st)"
      "i_type i = MemRead \<Longrightarrow> \<not> is_full_queue (LDQ st)" "i_type i = MemWrite \<Longrightarrow> \<not> is_full_queue (STQ st)"
  shows "\<exists>g' st'. enter_inst (Some p) st = Some st' \<and> pipe z N g' st' \<and> same_config st st' \<and> fu st' = fu st \<and>
    work z g' st' = work z g st + (23 + wb_max st)"
proof -
  obtain r h mat g1 st1 i1 where 1: "rob_insert_inst (Some p) (rob st) (insts st) = Some (r, h)" "clean_dependency r (the (h p)) (deps st) = Some mat" "h p \<noteq> None"
    "push_IQ (Some p) (st\<lparr>rob := r, insts := h, deps := mat\<rparr>) = Some st1" "pipe z N g1 (as_dispatched p st1)"
    "g_rob g1 = g_rob g @ [p]" "same_config st st1" "fu st1 = fu st" "LDQ st1 = LDQ st" "STQ st1 = STQ st"
    "work z g1 (as_dispatched p st1) = work z g st + (23 + wb_max st)"
    "insts st1 p = Some i1" "i_type i1 = i_type i" "i_ldq_elem i1 = None" "i_stq_elem i1 = None"
    using enter_head [OF inv p i room(1,2)] by blast
  obtain st2 g3 st3 where 2: "(if i_type i1 = MemRead then push_LDQ (Some p) st1 else Some st1) = Some st2"
    "(if i_type i1 = MemWrite then push_STQ (Some p) st2 else Some st2) = Some st3"
    "pipe z N g3 (as_dispatched p st3)" "entry_frame p g1 st1 g3 st3" "work z g3 (as_dispatched p st3) = work z g1 (as_dispatched p st1)"
    using enter_queues [OF 1(5) _ 1(12,14,15)] 1(6,9,10,13) room(3,4) by (auto simp: bind_eq_Some_conv simp del: if_split)
  obtain i3 where i3: "insts st3 p = Some i3" using 2(4) by (auto simp: entry_frame_def)
  have p3: "p \<in> set (g_rob g3)" using 2(4) 1(6) by (simp add: entry_frame_def)
  from enter_tail [OF 2(3) p3 i3] obtain st' where st': "enter_inst (Some p) st = Some st'" "pipe z N g3 st'" "work z g3 st' = work z g3 (as_dispatched p st3)"
    "same_config st3 st'" "fu st' = fu st3"
    using 1(1-4,12) 2(1,2) by (auto simp: enter_inst_def load_def simp del: if_split)
  then show ?thesis using 1(7,8,11) 2(4,5) by (intro exI [of _ g3] exI [of _ st']) (auto simp: entry_frame_def same_config_def)
qed

section \<open>The stage\<close>

lemma dispatch_stall_cases:
  assumes "load (elems (emem st)) (front_inst_elem (trace_buffer st)) = Some e" "load (insts st) (e_inst e) = Some i"
  shows "\<exists>b w x y u v. dispatch_stall st = Some (b, st\<lparr>rob_access_event := w, rob_full_event := x, iq_full_event := y, ldq_full_event := u, stq_full_event := v\<rparr>) \<and>
    (b \<longleftrightarrow> is_rob_full (rob st) \<or> is_full_queue (IQ st) \<or> i_type i = MemRead \<and> is_full_queue (LDQ st) \<or> i_type i = MemWrite \<and> is_full_queue (STQ st))"
proof -
  define upd where "upd w x y u v = st\<lparr>rob_access_event := w, rob_full_event := x, iq_full_event := y, ldq_full_event := u, stq_full_event := v\<rparr>" for w x y u v
  let ?w = "rob_access_event st + 1" and ?x = "rob_full_event st" and ?y = "iq_full_event st" and ?u = "ldq_full_event st" and ?v = "stq_full_event st"
  consider "is_rob_full (rob st)" | "\<not> is_rob_full (rob st)" "is_full_queue (IQ st)" | "\<not> is_rob_full (rob st)" "\<not> is_full_queue (IQ st)" by blast
  then show ?thesis
  proof cases
    case 1
    then have "dispatch_stall st = Some (True, upd ?w (?x + 1) ?y ?u ?v)" by (simp add: dispatch_stall_def upd_def)
    then show ?thesis using 1 unfolding upd_def by blast
  next
    case 2
    then have "dispatch_stall st = Some (True, upd ?w ?x (?y + 1) ?u ?v)" by (simp add: dispatch_stall_def upd_def)
    then show ?thesis using 2 unfolding upd_def by blast
  next
    case 3
    let ?l = "i_type i = MemRead \<and> is_full_queue (LDQ st)" and ?s = "i_type i = MemWrite \<and> is_full_queue (STQ st)"
    have "dispatch_stall st = Some (?l \<or> ?s, upd ?w ?x ?y (if ?l then ?u + 1 else ?u) (if ?s then ?v + 1 else ?v))"
      using 3 assms by (simp add: dispatch_stall_def upd_def Let_def)
    then show ?thesis using 3 unfolding upd_def by blast
  qed
qed

lemma dispatch_stall_ok:
  assumes inv: "pipe z N g st" and tb: "g_U g QTrace = p # us" "insts st p = Some i"
  shows "\<exists>b st'. dispatch_stall st = Some (b, st') \<and> pipe z N g st' \<and> work z g st' = work z g st \<and> same_config st st' \<and> fu st' = fu st \<and>
    insts st' p = Some i \<and> (g_rob g = [] \<longrightarrow> \<not> b) \<and>
    (\<not> b \<longrightarrow> length (g_rob g) < N \<and> \<not> is_full_queue (IQ st') \<and> (i_type i = MemRead \<longrightarrow> \<not> is_full_queue (LDQ st')) \<and>
      (i_type i = MemWrite \<longrightarrow> \<not> is_full_queue (STQ st')))"
proof -
  note inv' = inv [unfolded pipe_def]
  have Q: "queues_ok (emem st) (queue_of st) (g_L g) (g_ps g) (g_U g)" using inv' by blast
  obtain a cs where L: "g_L g QTrace = [] @ a # cs" using queues_ok_length [OF Q, of QTrace] tb(1) by (cases "g_L g QTrace") auto
  obtain e where e: "elems (emem st) a = Some e" "e_inst e = Some p" "oldest (trace_buffer st) = Some a"
    using queues_ok_elem [OF Q L] L tb(1) by auto
  have rh: "rob_holds N (g_start g) (g_rob g) (rob st)" using inv' by (simp add: rob_insts_def)
  have full: "is_rob_full (rob st) \<longleftrightarrow> length (g_rob g) = N" "length (g_rob g) \<le> N" "0 < N" using rob_full_iff [OF rh] rh by (auto simp: rob_holds_def)
  have sub: "set (g_U g QIssue) \<subseteq> set (g_rob g)" "set (g_U g QLoad) \<subseteq> set (g_rob g)" "set (g_U g QStore) \<subseteq> set (g_rob g)"
    using inv' by (auto simp: flight_part_def lsq_part_def)
  have none: "\<not> is_full_queue (IQ st) \<and> \<not> is_full_queue (LDQ st) \<and> \<not> is_full_queue (STQ st)" if "g_rob g = []"
    using that sub queues_ok_room [OF Q, of QIssue] queues_ok_room [OF Q, of QLoad] queues_ok_room [OF Q, of QStore] inv' by (auto simp: limits_def)
  have keep: "pipe z N g (st\<lparr>rob_access_event := w, rob_full_event := x, iq_full_event := y, ldq_full_event := u, stq_full_event := v\<rparr>)" for w x y u v
    using inv' unfolding pipe_def by (simp add: limits_def buffer_part_def)
  have "\<exists>b w x y u v. dispatch_stall st = Some (b, st\<lparr>rob_access_event := w, rob_full_event := x, iq_full_event := y, ldq_full_event := u, stq_full_event := v\<rparr>) \<and>
    (b \<longleftrightarrow> is_rob_full (rob st) \<or> is_full_queue (IQ st) \<or> i_type i = MemRead \<and> is_full_queue (LDQ st) \<or> i_type i = MemWrite \<and> is_full_queue (STQ st))"
    by (rule dispatch_stall_cases [of st e i]) (use e tb(2) in \<open>simp_all add: front_inst_elem_def load_def\<close>)
  then obtain b w x y u v where r: "dispatch_stall st = Some (b, st\<lparr>rob_access_event := w, rob_full_event := x, iq_full_event := y, ldq_full_event := u, stq_full_event := v\<rparr>)"
    "b \<longleftrightarrow> is_rob_full (rob st) \<or> is_full_queue (IQ st) \<or> i_type i = MemRead \<and> is_full_queue (LDQ st) \<or> i_type i = MemWrite \<and> is_full_queue (STQ st)"
    by blast
  show ?thesis using r keep [where w = w and x = x and y = y and u = u and v = v] full none tb(2)
    by (intro exI [of _ b] exI [of _ "st\<lparr>rob_access_event := w, rob_full_event := x, iq_full_event := y, ldq_full_event := u, stq_full_event := v\<rparr>"])
      (auto simp: same_config_def work_def wb_max_def)
qed

lemma front_frame_trans: "front_frame g st g' st' \<Longrightarrow> front_frame g' st' g'' st'' \<Longrightarrow> front_frame g st g'' st''"
  by (simp add: front_frame_def same_config_def)

text \<open>The first part of a round: the instruction is decoded and, if need be, split.\<close>

lemma dispatch_decode:
  assumes inv: "pipe z N g st" and tb: "g_U g QTrace \<noteq> []"
  shows "\<exists>e inst inst' st1 g' st' p us i. load (elems (emem st)) (front_inst_elem (trace_buffer st)) = Some e \<and> load (insts st) (e_inst e) = Some inst \<and>
    decode_inst z inst = Some inst' \<and> upd_inst (e_inst e) (\<lambda>_. inst') st = Some st1 \<and> convert_microop (e_inst e) st1 = Some st' \<and>
    pipe z N g' st' \<and> front_frame g st g' st' \<and> work z g' st' = work z g st \<and> g_U g' QTrace = p # us \<and> insts st' p = Some i \<and> plain i"
proof -
  have Q: "queues_ok (emem st) (queue_of st) (g_L g) (g_ps g) (g_U g)" using inv by (simp add: pipe_def)
  obtain p us where tb': "g_U g QTrace = p # us" using tb by (cases "g_U g QTrace") auto
  obtain a cs where L: "g_L g QTrace = [] @ a # cs" using queues_ok_length [OF Q, of QTrace] tb' by (cases "g_L g QTrace") auto
  obtain e where e: "elems (emem st) a = Some e" "e_inst e = Some p" "oldest (trace_buffer st) = Some a"
    using queues_ok_elem [OF Q L] L tb' by auto
  obtain i i' where i: "insts st p = Some i" "decode_inst z i = Some i'" "decoded_ok i'"
    using pipe_tb(3) [OF inv tb'] by (auto simp: ready_def)
  let ?st = "st\<lparr>insts := (insts st)(p \<mapsto> i')\<rparr>"
  have 1: "pipe z N g ?st" "work z g ?st = work z g st"
    using pipe_set_tb [OF inv _ i(1) decoded_ready [OF i(3)] expand_decoded [OF i(2,3)]] tb' by simp_all
  obtain g' st' where 2: "convert_microop (Some p) ?st = Some st'" "pipe z N g' st'" "front_frame g ?st g' st'" "work z g' st' = work z g ?st"
    "g_U g' QTrace \<noteq> []" "plain (the (insts st' (hd (g_U g' QTrace))))"
    using convert_ok [OF 1(1) tb' _ i(3)] by auto
  obtain p' us' where tb2: "g_U g' QTrace = p' # us'" using 2(5) by (cases "g_U g' QTrace") auto
  obtain i2 where i2: "insts st' p' = Some i2" using pipe_tb(3) [OF 2(2) tb2] by blast
  show ?thesis
    by (intro exI [of _ e] exI [of _ i] exI [of _ i'] exI [of _ ?st] exI [of _ g'] exI [of _ st'] exI [of _ p'] exI [of _ us'] exI [of _ i2] conjI)
      (use e i 1(2) 2 tb2 i2 in \<open>simp_all add: load_def front_inst_elem_def upd_inst_in front_frame_def same_config_def\<close>)
qed

text \<open>The last part: the instruction leaves the trace buffer, to be dropped or to enter the reorder buffer.\<close>

lemma dispatch_take:
  assumes inv: "pipe z N g st" and tb: "g_U g QTrace = p # us" and p: "insts st p = Some i" "plain i"
    and room: "length (g_rob g) < N" "\<not> is_full_queue (IQ st)" "i_type i = MemRead \<longrightarrow> \<not> is_full_queue (LDQ st)" "i_type i = MemWrite \<longrightarrow> \<not> is_full_queue (STQ st)"
  shows "\<exists>st1 g' st'. pop_trace_buffer st = Some (Some p, st1) \<and> insts st1 p = Some i \<and>
    (if i_type i = Unsupported
     then free_inst (Some p) (st1\<lparr>num_dispatched_insts := num_dispatched_insts st1 + 1, num_committed_insts := num_committed_insts st1 + 1\<rparr>)
     else enter_inst (Some p) st1) = Some st' \<and>
    pipe z N g' st' \<and> same_config st st' \<and> fu st' = fu st \<and> work z g' st' < work z g st"
proof -
  let ?g = "g\<lparr>g_L := (g_L g)(QTrace := tl (g_L g QTrace)), g_U := (g_U g)(QTrace := us)\<rparr>"
  obtain q m where r: "pop_trace_buffer st = Some (Some p, st\<lparr>trace_buffer := q, emem := m\<rparr>)"
    "q_capacity q = q_capacity (trace_buffer st)" "splitting z N (expand z i) 1 ?g (st\<lparr>trace_buffer := q, emem := m\<rparr>)"
    using splitting_pop [OF inv tb] p(1) by auto
  let ?st = "st\<lparr>trace_buffer := q, emem := m\<rparr>"
  have pu: "p \<notin> set us" "p \<notin> set (g_rob g)" using pipe_tb [OF inv tb] by auto
  have w: "work z g st = work z ?g ?st + (24 + wb_max st)"
    using tb p pu(1) by (simp add: work_def wb_max_def plain_expand algebra_simps)
  show ?thesis
  proof (cases "i_type i = Unsupported")
    case True
    let ?st2 = "?st\<lparr>num_dispatched_insts := num_dispatched_insts ?st + 1, num_committed_insts := num_committed_insts ?st + 1\<rparr>"
    have "pipe z N ?g ?st2" using r(3) by (auto simp: splitting_def pipe_def limits_def buffer_part_def)
    from pipe_free [OF this, of p i] obtain st' where st': "free_inst (Some p) ?st2 = Some st'" "st' = ?st2\<lparr>insts := (insts ?st2)(p := None)\<rparr>"
      "pipe z N ?g st'" "work z ?g st' = work z ?g ?st2" using pu p(1) by auto
    have "work z ?g ?st2 = work z ?g ?st" by (simp add: work_def wb_max_def)
    then show ?thesis using True st' r(1,2) p(1) w by (intro exI [of _ ?st] exI [of _ ?g] exI [of _ st'] conjI) (simp_all add: same_config_def)
  next
    case False
    have "inst_fit i" "i_ldq_elem i = None" "i_stq_elem i = None" using p(2) False by (auto simp: plain_def decoded_ok_def)
    then obtain g' st' where st': "enter_inst (Some p) ?st = Some st'" "pipe z N g' st'" "same_config ?st st'" "fu st' = fu ?st"
      "work z g' st' = work z ?g ?st + (23 + wb_max ?st)"
      using enter_inst_ok [OF r(3), of p i] pu p(1) room by auto
    have "work z g' st' < work z g st" using st'(5) w by (simp add: wb_max_def)
    then show ?thesis using False st' r(1,2) p(1) by (intro exI [of _ ?st] exI [of _ g'] exI [of _ st'] conjI) (simp_all add: same_config_def)
  qed
qed

lemma dispatch_loop_ok:
  "pipe z N g st \<Longrightarrow> \<exists>g' st'. dispatch_loop z w st = Some st' \<and> pipe z N g' st' \<and> same_config st st' \<and> fu st' = fu st \<and>
    work z g' st' \<le> work z g st \<and> (0 < w \<and> g_rob g = [] \<and> g_U g QTrace \<noteq> [] \<longrightarrow> work z g' st' < work z g st)"
proof (induction "work z g st" arbitrary: g st w rule: less_induct)
  case less
  have Q: "queues_ok (emem st) (queue_of st) (g_L g) (g_ps g) (g_U g)" using less.prems by (simp add: pipe_def)
  show ?case
  proof (cases "0 < w \<and> g_U g QTrace \<noteq> []")
    case False
    have "g_U g QTrace = [] \<Longrightarrow> front_inst_elem (trace_buffer st) = None"
      using queues_ok_front [OF Q, of QTrace] queues_ok_length [OF Q, of QTrace] by (simp add: front_inst_elem_def)
    then have "dispatch_loop z w st = Some st" using False by (subst dispatch_loop.simps) auto
    then show ?thesis using False less.prems by (intro exI [of _ g] exI [of _ st]) (auto simp: same_config_def)
  next
    case True
    obtain e inst inst' st1 g2 st2 p us i where 1: "load (elems (emem st)) (front_inst_elem (trace_buffer st)) = Some e" "load (insts st) (e_inst e) = Some inst"
      "decode_inst z inst = Some inst'" "upd_inst (e_inst e) (\<lambda>_. inst') st = Some st1" "convert_microop (e_inst e) st1 = Some st2"
      "pipe z N g2 st2" "front_frame g st g2 st2" "work z g2 st2 = work z g st" "g_U g2 QTrace = p # us" "insts st2 p = Some i" "plain i"
      using dispatch_decode [OF less.prems] True by blast
    obtain b st3 where 2: "dispatch_stall st2 = Some (b, st3)" "pipe z N g2 st3" "work z g2 st3 = work z g2 st2" "same_config st2 st3" "fu st3 = fu st2"
      "insts st3 p = Some i" "g_rob g2 = [] \<Longrightarrow> \<not> b"
      "\<not> b \<Longrightarrow> length (g_rob g2) < N \<and> \<not> is_full_queue (IQ st3) \<and> (i_type i = MemRead \<longrightarrow> \<not> is_full_queue (LDQ st3)) \<and> (i_type i = MemWrite \<longrightarrow> \<not> is_full_queue (STQ st3))"
      using dispatch_stall_ok [OF 1(6,9,10)] by blast
    have f: "front_inst_elem (trace_buffer st) \<noteq> None" using 1(1) by (auto simp: load_def bind_eq_Some_conv)
    show ?thesis
    proof (cases b)
      case True
      have "dispatch_loop z w st = Some st3" using \<open>0 < w \<and> _\<close> f 1(1-5) 2(1) True by (subst dispatch_loop.simps) auto
      then show ?thesis using True 1(7,8) 2(2-5,7) by (intro exI [of _ g2] exI [of _ st3]) (auto simp: front_frame_def same_config_def)
    next
      case False
      obtain st4 g5 st5 where 3: "pop_trace_buffer st3 = Some (Some p, st4)" "insts st4 p = Some i"
        "(if i_type i = Unsupported
          then free_inst (Some p) (st4\<lparr>num_dispatched_insts := num_dispatched_insts st4 + 1, num_committed_insts := num_committed_insts st4 + 1\<rparr>)
          else enter_inst (Some p) st4) = Some st5"
        "pipe z N g5 st5" "same_config st3 st5" "fu st5 = fu st3" "work z g5 st5 < work z g2 st3"
        using dispatch_take [OF 2(2) 1(9) 2(6) 1(11)] 2(8) [OF False] by blast
      let ?w = "if i_type i = Unsupported then w else w - 1"
      have "load (insts st4) (Some p) = Some i" using 3(2) by (simp add: load_def)
      then have d: "dispatch_loop z w st = dispatch_loop z ?w st5"
        using \<open>0 < w \<and> _\<close> f 1(1-5) 2(1) False 3(1,3) by (subst dispatch_loop.simps) (auto split: if_splits)
      have "work z g5 st5 < work z g st" using 3(7) 2(3) 1(8) by simp
      moreover obtain g' st' where "dispatch_loop z ?w st5 = Some st'" "pipe z N g' st'" "same_config st5 st'" "fu st' = fu st5" "work z g' st' \<le> work z g5 st5"
        using less.hyps [OF calculation 3(4), of ?w] by blast
      ultimately show ?thesis unfolding d using 1(7) 2(4,5) 3(5,6)
        by (intro exI [of _ g'] exI [of _ st']) (auto simp: front_frame_def same_config_def)
    qed
  qed
qed

end
