(* ===== verification/Pipeline_Run.thy ===== *)
theory Pipeline_Run
  imports Pipeline_Back Pipeline_Issue Pipeline_Dispatch
begin

text \<open>
  A whole cycle of the trace analyzer and its main loop: no cycle faults, every cycle in which an
  instruction is left lowers the work left, and so an analysis without a cycle limit ends with every
  instruction committed.
\<close>

section \<open>The stages\<close>

lemma pipe_limits:
  assumes "pipe z N g st"
  shows "1 \<le> dispatch_width st" "1 \<le> issue_width st" "1 \<le> wb_width st" "1 \<le> commit_width st" "unit_limits (fu st)"
    "queues_ok (emem st) (queue_of st) (g_L g) (g_ps g) (g_U g)"
  using assms by (auto simp: pipe_def limits_def)

lemma commit_insts_ok:
  assumes "pipe z N g st"
  shows "\<exists>g' st'. commit_insts st = Some st' \<and> pipe z N g' st' \<and> g_U g' QTrace = g_U g QTrace \<and> same_config st st' \<and> fu st' = fu st \<and>
    work z g' st' \<le> work z g st \<and>
    (work z g' st' = work z g st \<longrightarrow> g_rob g' = g_rob g \<and> (g_rob g \<noteq> [] \<longrightarrow> \<not> finished (the (insts st' (hd (g_rob g))))))"
proof -
  let ?w = "nat (commit_width st)"
  obtain g' st' where r: "commit_loop ?w st = Some st'" "pipe z N g' st'"
    "g_rob g' = drop (length (takeWhile (\<lambda>p. finished (the (insts st p))) (take ?w (g_rob g)))) (g_rob g)"
    "g_U g' QTrace = g_U g QTrace" "same_config st st'" "fu st' = fu st" "work z g' st' \<le> work z g st"
    "g_rob g' \<noteq> g_rob g \<longrightarrow> work z g' st' < work z g st" "\<And>q. q \<in> set (g_rob g') \<Longrightarrow> insts st' q = insts st q"
    using commit_loop_ok [OF assms, of ?w] by blast
  have "\<not> finished (the (insts st' (hd (g_rob g))))" if "g_rob g' = g_rob g" "g_rob g \<noteq> []"
  proof
    assume f: "finished (the (insts st' (hd (g_rob g))))"
    have "hd (g_rob g) \<in> set (g_rob g')" using that by simp
    then have f': "finished (the (insts st (hd (g_rob g))))" using f r(9) by metis
    obtain v where v: "?w = Suc v" using pipe_limits(4) [OF assms] by (metis gr0_implies_Suc nat_0_iff not_gr0 not_one_le_zero order_trans zero_le_one)
    have "0 < length (takeWhile (\<lambda>p. finished (the (insts st p))) (take ?w (g_rob g)))"
      using that(2) f' by (cases "g_rob g") (auto simp: v)
    then have "length (g_rob g') < length (g_rob g)" using that(2) unfolding r(3) by simp
    then show False using that(1) by simp
  qed
  then show ?thesis using r unfolding commit_insts_def by (intro exI [of _ g'] exI [of _ st']) auto
qed

lemma writeback_insts_ok:
  assumes "pipe z N g st"
  shows "\<exists>g' st'. writeback_insts st = Some st' \<and> pipe z N g' st' \<and> back_frame g st g' st' \<and> work z g' st' \<le> work z g st \<and>
    (g_U g QUnits = [] \<longrightarrow> g' = g \<and> st' = st) \<and>
    (g_U g QUnits \<noteq> [] \<and> i_state (the (insts st (hd (g_U g QUnits)))) = Complete \<longrightarrow> work z g' st' < work z g st) \<and>
    (\<forall>q. i_state (the (insts st' q)) = i_state (the (insts st q)))"
proof -
  note l = pipe_limits [OF assms]
  have e: "writeback_insts st = writeback_loop (wb_width st) (hdo (g_L g QUnits) None) st"
    using queues_ok_front [OF l(6), of QUnits] by (simp add: writeback_insts_def)
  show ?thesis
  proof (cases "g_U g QUnits = []")
    case True
    then have "writeback_insts st = Some st"
      using queues_ok_length [OF l(6), of QUnits] by (simp add: e writeback_loop.simps)
    then show ?thesis using True assms by (intro exI [of _ g] exI [of _ st]) (simp add: back_frame_refl)
  next
    case False
    obtain g' st' where "writeback_loop (wb_width st) (hdo (g_L g QUnits) None) st = Some st'" "pipe z N g' st'" "back_frame g st g' st'" "work z g' st' \<le> work z g st"
      "wb_width st \<noteq> 0 \<and> g_U g QUnits \<noteq> [] \<and> i_state (the (insts st (hd (g_U g QUnits)))) = Complete \<longrightarrow> work z g' st' < work z g st"
      "\<forall>q. i_state (the (insts st' q)) = i_state (the (insts st q))"
      using writeback_loop_ok [OF assms, of "[]" "g_L g QUnits" "[]" "g_U g QUnits" "wb_width st"] by auto
    then show ?thesis using False l(3) unfolding e by (intro exI [of _ g'] exI [of _ st']) auto
  qed
qed

lemma execute_insts_ok:
  assumes "pipe z N g st"
  shows "\<exists>st'. execute_insts round64 st = Some st' \<and> pipe z N g st' \<and> back_frame g st g st' \<and> work z g st' \<le> work z g st \<and>
    (g_U g QUnits = [] \<longrightarrow> st' = st) \<and>
    ((\<exists>p\<in>set (g_U g QUnits). i_state (the (insts st p)) = Issue) \<longrightarrow> work z g st' < work z g st)"
proof -
  note l = pipe_limits [OF assms]
  have e: "execute_insts round64 st = execute_loop round64 (hdo (g_L g QUnits) None) st"
    using queues_ok_front [OF l(6), of QUnits] by (simp add: execute_insts_def)
  show ?thesis
  proof (cases "g_U g QUnits = []")
    case True
    then have "execute_insts round64 st = Some st"
      using queues_ok_length [OF l(6), of QUnits] by (simp add: e execute_loop.simps)
    then show ?thesis using True assms by (intro exI [of _ st]) (simp add: back_frame_refl)
  next
    case False
    then show ?thesis using execute_loop_ok [OF assms, of "[]" "g_L g QUnits" "[]" "g_U g QUnits" round64] unfolding e by auto
  qed
qed

lemma issue_insts_ok:
  assumes "pipe z N g st"
  shows "\<exists>g' st'. issue_insts st = Some st' \<and> pipe z N g' st' \<and> g_rob g' = g_rob g \<and> g_U g' QTrace = g_U g QTrace \<and>
    same_config st st' \<and> work z g' st' \<le> work z g st \<and>
    (g_U g QIssue \<noteq> [] \<and> has_dependency (rob st) (insts st) (deps st) (Some (hd (g_U g QIssue))) = Some False \<and>
      fst (try_FU (fu st (inst_type_fu_type_map st (i_type (the (insts st (hd (g_U g QIssue)))))))) \<longrightarrow> work z g' st' < work z g st)"
proof -
  note l = pipe_limits [OF assms]
  have s: "q_size (IQ st) = int (length (g_U g QIssue))" using queues_ok_size [OF l(6), of QIssue] by simp
  show ?thesis
  proof (cases "g_U g QIssue = []")
    case True
    then have "issue_insts st = Some st" using s by (simp add: issue_insts_def is_empty_queue_def)
    then show ?thesis using True assms by (intro exI [of _ g] exI [of _ st]) (simp add: same_config_def)
  next
    case False
    have e: "issue_insts st = issue_loop (issue_width st) (hdo (g_L g QIssue) None) st"
      using queues_ok_front [OF l(6), of QIssue] s False by (simp add: issue_insts_def is_empty_queue_def front_inst_elem_def)
    show ?thesis using issue_loop_ok [OF assms, of "[]" "g_L g QIssue" "[]" "g_U g QIssue" "issue_width st"] False l(2) unfolding e by auto
  qed
qed

section \<open>A cycle\<close>

definition idle_units :: "TA \<Rightarrow> bool" where
  "idle_units st \<longleftrightarrow> (\<forall>t. fu_num_issue (fu st t) = 0)"

text \<open>When the functional units are empty and the oldest instruction is not finished, it can be issued.\<close>

lemma oldest_issues:
  assumes inv: "pipe z N g st" and x: "g_rob g = x # xs" "\<not> finished (the (insts st x))" and u: "g_U g QUnits = []" "idle_units st"
  shows "g_U g QIssue \<noteq> []" "hd (g_U g QIssue) = x" "has_dependency (rob st) (insts st) (deps st) (Some x) = Some False"
    "fst (try_FU (fu st t))"
proof -
  note inv' = inv [unfolded pipe_def]
  have fl: "flight_part (g_rob g) (g_U g) (insts st)" using inv' by blast
  have "flying (the (insts st x))" "\<not> busy (the (insts st x))" using fl x(1) u(1) by (auto simp: flight_part_def)
  then have "i_state (the (insts st x)) = Dispatch" using x(2) by (auto simp: flying_def busy_def finished_def)
  then show "g_U g QIssue \<noteq> []" "hd (g_U g QIssue) = x" using fl x(1) by (simp_all add: flight_part_def)
  show "has_dependency (rob st) (insts st) (deps st) (Some x) = Some False"
    using has_dependency_eq [of N "g_start g" "g_rob g" "rob st" "insts st" "deps st" 0] inv' x(1) by simp
  have "fu_num_active (fu st t) = 0" using inv' u(1) by (simp add: unit_part_def)
  moreover have "1 \<le> fu_capacity (fu st t)" "1 \<le> fu_num_stage (fu st t)" using pipe_limits(5) [OF inv] by (auto simp: unit_limits_def)
  ultimately show "fst (try_FU (fu st t))" using u(2) by (simp add: try_FU_def idle_units_def Let_def)
qed

text \<open>The three stages between commit and dispatch lower the work when the oldest instruction is not finished.\<close>

definition middle_stages :: "(rat \<Rightarrow> rat) \<Rightarrow> TA \<Rightarrow> TA option" where
  "middle_stages round64 st = do { st \<leftarrow> writeback_insts st; st \<leftarrow> execute_insts round64 st; issue_insts st }"

lemma middle_ok:
  assumes inv: "pipe z N g st" and u: "idle_units st"
  shows "\<exists>g' st'. middle_stages round64 st = Some st' \<and> pipe z N g' st' \<and> g_rob g' = g_rob g \<and> g_U g' QTrace = g_U g QTrace \<and>
    same_config st st' \<and> work z g' st' \<le> work z g st \<and>
    (g_rob g \<noteq> [] \<and> \<not> finished (the (insts st (hd (g_rob g)))) \<longrightarrow> work z g' st' < work z g st)"
proof -
  obtain g1 st1 where 1: "writeback_insts st = Some st1" "pipe z N g1 st1" "back_frame g st g1 st1" "work z g1 st1 \<le> work z g st"
    "g_U g QUnits = [] \<Longrightarrow> g1 = g \<and> st1 = st"
    "g_U g QUnits \<noteq> [] \<Longrightarrow> i_state (the (insts st (hd (g_U g QUnits)))) = Complete \<Longrightarrow> work z g1 st1 < work z g st"
    "\<And>q. i_state (the (insts st1 q)) = i_state (the (insts st q))"
    using writeback_insts_ok [OF inv] by blast
  obtain st2 where 2: "execute_insts round64 st1 = Some st2" "pipe z N g1 st2" "back_frame g1 st1 g1 st2" "work z g1 st2 \<le> work z g1 st1"
    "g_U g1 QUnits = [] \<Longrightarrow> st2 = st1" "\<exists>p\<in>set (g_U g1 QUnits). i_state (the (insts st1 p)) = Issue \<Longrightarrow> work z g1 st2 < work z g1 st1"
    using execute_insts_ok [OF 1(2), of round64] by blast
  obtain g3 st3 where 3: "issue_insts st2 = Some st3" "pipe z N g3 st3" "g_rob g3 = g_rob g1" "g_U g3 QTrace = g_U g1 QTrace" "same_config st2 st3"
    "work z g3 st3 \<le> work z g1 st2"
    "g_U g1 QIssue \<noteq> [] \<Longrightarrow> has_dependency (rob st2) (insts st2) (deps st2) (Some (hd (g_U g1 QIssue))) = Some False \<Longrightarrow>
      fst (try_FU (fu st2 (inst_type_fu_type_map st2 (i_type (the (insts st2 (hd (g_U g1 QIssue)))))))) \<Longrightarrow> work z g3 st3 < work z g1 st2"
    using issue_insts_ok [OF 2(2)] by blast
  have less: "work z g3 st3 < work z g st" if x: "g_rob g = x # xs" "\<not> finished (the (insts st x))" for x xs
  proof (cases "g_U g QUnits = []")
    case True
    then have "g1 = g" "st2 = st" using 1(5) 2(5) by auto
    then show ?thesis using oldest_issues [OF inv x True u] 3(7) by auto
  next
    case False
    let ?p = "hd (g_U g QUnits)"
    have p: "?p \<in> set (g_rob g)" "busy (the (insts st ?p))" using False inv hd_in_set [OF False] by (auto simp: pipe_def flight_part_def)
    then consider "i_state (the (insts st ?p)) = Complete" | "i_state (the (insts st ?p)) = Issue" by (auto simp: busy_def)
    then show ?thesis
    proof cases
      case 1
      then show ?thesis using \<open>g_U g QUnits \<noteq> [] \<Longrightarrow> _ \<Longrightarrow> _\<close> [OF False] 2(4) 3(6) by linarith
    next
      case 2
      then have "i_state (the (insts st1 ?p)) = Issue" using 1(7) by simp
      moreover have "?p \<in> set (g_U g1 QUnits)" using calculation 1(2,3) p(1) by (auto simp: pipe_def flight_part_def busy_def back_frame_def)
      ultimately have "work z g1 st2 < work z g1 st1" using \<open>\<exists>p\<in>_. _ \<Longrightarrow> _\<close> by blast
      then show ?thesis using 1(4) 3(6) by linarith
    qed
  qed
  then have "g_rob g \<noteq> [] \<and> \<not> finished (the (insts st (hd (g_rob g)))) \<longrightarrow> work z g3 st3 < work z g st" by (cases "g_rob g") auto
  moreover have "g_rob g3 = g_rob g" "g_U g3 QTrace = g_U g QTrace" "same_config st st3" using 1(3) 2(3) 3(3-5) by (auto simp: back_frame_def same_config_def)
  moreover have "work z g3 st3 \<le> work z g st" using 1(4) 2(4) 3(6) by linarith
  ultimately show ?thesis using 1(1) 2(1) 3(1,2) by (intro exI [of _ g3] exI [of _ st3]) (simp add: middle_stages_def)
qed

lemma pipe_next_cycle:
  assumes "pipe z N g st"
  shows "pipe z N g ((reflesh_all_FUs st)\<lparr>cur_cycle := c\<rparr>)" "idle_units ((reflesh_all_FUs st)\<lparr>cur_cycle := c\<rparr>)"
    "work z g ((reflesh_all_FUs st)\<lparr>cur_cycle := c\<rparr>) = work z g st"
  using assms by (simp_all add: pipe_def idle_units_def reflesh_all_FUs_def reflesh_FU_def work_def wb_max_def limits_def unit_limits_def unit_part_def buffer_part_def)

lemma trace_cycle_ok:
  assumes inv: "pipe z N g st" and u: "idle_units st"
  shows "\<exists>g' st'. trace_cycle round64 z st = Some st' \<and> pipe z N g' st' \<and> idle_units st' \<and> cur_cycle st' = cur_cycle st + 1 \<and>
    q_capacity (trace_buffer st') = q_capacity (trace_buffer st) \<and> work z g' st' \<le> work z g st \<and>
    (g_rob g \<noteq> [] \<or> g_U g QTrace \<noteq> [] \<longrightarrow> work z g' st' < work z g st)"
proof -
  obtain g1 st1 where 1: "commit_insts st = Some st1" "pipe z N g1 st1" "g_U g1 QTrace = g_U g QTrace" "fu st1 = fu st" "same_config st st1" "work z g1 st1 \<le> work z g st"
    "work z g1 st1 = work z g st \<Longrightarrow> g_rob g1 = g_rob g \<and> (g_rob g \<noteq> [] \<longrightarrow> \<not> finished (the (insts st1 (hd (g_rob g)))))"
    using commit_insts_ok [OF inv] by blast
  have u1: "idle_units st1" using u 1(4) by (simp add: idle_units_def)
  obtain g2 st2 where 2: "middle_stages round64 st1 = Some st2" "pipe z N g2 st2" "g_rob g2 = g_rob g1" "g_U g2 QTrace = g_U g1 QTrace"
    "same_config st1 st2" "work z g2 st2 \<le> work z g1 st1" "g_rob g1 \<noteq> [] \<and> \<not> finished (the (insts st1 (hd (g_rob g1)))) \<Longrightarrow> work z g2 st2 < work z g1 st1"
    using middle_ok [OF 1(2) u1, of round64] by blast
  obtain g3 st3 where 3: "dispatch_insts z st2 = Some st3" "pipe z N g3 st3" "same_config st2 st3" "work z g3 st3 \<le> work z g2 st2"
    "g_rob g2 = [] \<Longrightarrow> g_U g2 QTrace \<noteq> [] \<Longrightarrow> work z g3 st3 < work z g2 st2"
    using dispatch_loop_ok [OF 2(2), of "dispatch_width st2"] pipe_limits(1) [OF 2(2)] unfolding dispatch_insts_def by auto
  let ?st = "(reflesh_all_FUs st3)\<lparr>cur_cycle := cur_cycle st3 + 1\<rparr>"
  have "work z g3 st3 < work z g st" if left: "g_rob g \<noteq> [] \<or> g_U g QTrace \<noteq> []"
  proof (rule ccontr)
    assume "\<not> ?thesis"
    then have eq: "work z g1 st1 = work z g st" "work z g2 st2 = work z g1 st1" "work z g3 st3 = work z g2 st2" using 1(6) 2(6) 3(4) by linarith+
    then show False using 1(3,7) 2(3,4,7) 3(5) left by fastforce
  qed
  moreover have "trace_cycle round64 z st = Some ?st"
    using 1(1) 2(1) 3(1) unfolding trace_cycle_def middle_stages_def by (auto simp: bind_eq_Some_conv)
  moreover have "work z g3 st3 \<le> work z g st" using 1(6) 2(6) 3(4) by linarith
  moreover have "cur_cycle st3 = cur_cycle st" "q_capacity (trace_buffer ?st) = q_capacity (trace_buffer st)"
    using 1(5) 2(5) 3(3) by (simp_all add: same_config_def reflesh_all_FUs_def)
  ultimately show ?thesis using pipe_next_cycle [OF 3(2), of "cur_cycle st3 + 1"] by (intro exI [of _ g3] exI [of _ ?st]) simp
qed

section \<open>The main loop\<close>

lemma pipe_all_committed: "pipe z N g st \<Longrightarrow> num_committed_insts st = num_fetched_insts st \<longleftrightarrow> g_rob g = [] \<and> g_U g QTrace = []"
proof -
  assume "pipe z N g st"
  then have "num_fetched_insts st = num_committed_insts st + int (length (g_rob g)) + int (length (g_U g QTrace))" by (simp add: pipe_def)
  then have "num_committed_insts st = num_fetched_insts st \<longleftrightarrow> length (g_rob g) + length (g_U g QTrace) = 0" by linarith
  then show ?thesis by simp
qed

lemma pipe_work_pos:
  assumes inv: "pipe z N g st" and left: "g_rob g \<noteq> [] \<or> g_U g QTrace \<noteq> []"
  shows "0 < work z g st"
proof (cases "g_rob g = []")
  case False
  then obtain p where p: "p \<in> set (g_rob g)" by (cases "g_rob g") auto
  then have "flying (the (insts st p))" using inv by (auto simp: pipe_def flight_part_def)
  then have "0 < inst_work (wb_max st) (the (insts st p))" by (auto simp: flying_def inst_work_def)
  then have "0 < (\<Sum>p\<in>set (g_rob g). inst_work (wb_max st) (the (insts st p)))" using p by (intro sum_pos2 [of _ p]) auto
  then show ?thesis by (simp add: work_def)
next
  case True
  then obtain p where p: "p \<in> set (g_U g QTrace)" using left by (cases "g_U g QTrace") auto
  have "0 < expand z (the (insts st p))" using expand_pos [of z] by (metis less_le_trans zero_less_one)
  then have "0 < (\<Sum>p\<in>set (g_U g QTrace). expand z (the (insts st p)))" using p by (intro sum_pos2 [of _ p]) auto
  then show ?thesis by (simp add: work_def)
qed

lemma pipe_counters:
  assumes "pipe z N g st" "idle_units st"
  shows "pipe z N g (st\<lparr>num_issued_insts_cycle := 0, num_dispatched_insts_cycle := 0, num_executed_insts_cycle := 0, num_committed_insts_cycle := 0\<rparr>)"
    "idle_units (st\<lparr>num_issued_insts_cycle := 0, num_dispatched_insts_cycle := 0, num_executed_insts_cycle := 0, num_committed_insts_cycle := 0\<rparr>)"
    "work z g (st\<lparr>num_issued_insts_cycle := 0, num_dispatched_insts_cycle := 0, num_executed_insts_cycle := 0, num_committed_insts_cycle := 0\<rparr>) = work z g st"
  using assms by (simp_all add: pipe_def idle_units_def work_def wb_max_def limits_def buffer_part_def)

text \<open>
  The loop ends after at most as many cycles as there is work, and one more; without a limit on the
  cycles everything is committed then.
\<close>

lemma trace_loop_ok:
  assumes "pipe z N g st" "idle_units st"
  shows "\<exists>g' st' lc n. trace_loop round64 z max_cycle cycle alc st = Some (lc, st') \<and> pipe z N g' st' \<and> idle_units st' \<and>
    q_capacity (trace_buffer st') = q_capacity (trace_buffer st) \<and> cur_cycle st' = cur_cycle st + of_nat n \<and> n \<le> Suc (work z g st) \<and> (max_cycle = 0 \<longrightarrow> 0 < n \<and> g_rob g' = [] \<and> g_U g' QTrace = [])"
  using assms
proof (induction "work z g st" arbitrary: g st cycle alc rule: less_induct)
  case less
  let ?st = "st\<lparr>num_issued_insts_cycle := 0, num_dispatched_insts_cycle := 0, num_executed_insts_cycle := 0, num_committed_insts_cycle := 0\<rparr>"
  note st = pipe_counters [OF less.prems]
  show ?case
  proof (cases "max_cycle \<noteq> 0 \<and> max_cycle \<le> cycle")
    case True
    then have "trace_loop round64 z max_cycle cycle alc st = Some (alc, ?st)" by (subst trace_loop.simps) (simp add: Let_def)
    then show ?thesis using True st by (intro exI [of _ g] exI [of _ ?st] exI [of _ alc] exI [of _ 0]) simp
  next
    case False
    obtain g1 st1 where 1: "trace_cycle round64 z ?st = Some st1" "pipe z N g1 st1" "idle_units st1" "cur_cycle st1 = cur_cycle st + 1"
      "q_capacity (trace_buffer st1) = q_capacity (trace_buffer st)" "work z g1 st1 \<le> work z g st" "g_rob g \<noteq> [] \<or> g_U g QTrace \<noteq> [] \<Longrightarrow> work z g1 st1 < work z g st"
      using trace_cycle_ok [OF st(1,2), of round64] st(3) by auto
    let ?alc = "if alc = 0 \<and> num_dispatched_insts st1 = num_fetched_insts st1 then cur_cycle st1 else alc"
    have e: "trace_loop round64 z max_cycle cycle alc st =
      (if num_committed_insts st1 = num_fetched_insts st1 then Some (?alc, st1) else trace_loop round64 z max_cycle (cycle + 1) ?alc st1)"
      using False 1(1) by (subst trace_loop.simps) (auto simp: Let_def)
    show ?thesis
    proof (cases "num_committed_insts st1 = num_fetched_insts st1")
      case True
      then have "trace_loop round64 z max_cycle cycle alc st = Some (?alc, st1)" unfolding e by simp
      then show ?thesis using True 1 pipe_all_committed [OF 1(2)] by (intro exI [of _ g1] exI [of _ st1] exI [of _ ?alc] exI [of _ "Suc 0"]) simp
    next
      case f: False
      then have "g_rob g1 \<noteq> [] \<or> g_U g1 QTrace \<noteq> []" using pipe_all_committed [OF 1(2)] by blast
      then have "0 < work z g1 st1" by (rule pipe_work_pos [OF 1(2)])
      moreover have "g_rob g = [] \<Longrightarrow> g_U g QTrace = [] \<Longrightarrow> work z g st = 0" by (simp add: work_def)
      ultimately have w: "work z g1 st1 < work z g st" using 1(6,7) by force
      obtain g2 st2 lc n where 2: "trace_loop round64 z max_cycle (cycle + 1) ?alc st1 = Some (lc, st2)" "pipe z N g2 st2" "idle_units st2"
        "q_capacity (trace_buffer st2) = q_capacity (trace_buffer st1)" "cur_cycle st2 = cur_cycle st1 + of_nat n" "n \<le> Suc (work z g1 st1)" "max_cycle = 0 \<longrightarrow> 0 < n \<and> g_rob g2 = [] \<and> g_U g2 QTrace = []"
        using less.hyps [OF w 1(2,3), of "cycle + 1" ?alc] by blast
      then have "trace_loop round64 z max_cycle cycle alc st = Some (lc, st2)" unfolding e using f by simp
      then show ?thesis using 1(4,5) 2 w by (intro exI [of _ g2] exI [of _ st2] exI [of _ lc] exI [of _ "Suc n"]) auto
    qed
  qed
qed

end
