(* ===== verification/Pipeline_Count.thy ===== *)
theory Pipeline_Count
  imports Trace_Analyzer
begin

text \<open>
  The counters of the pipeline: however an analysis ends, the instructions dispatched and not yet
  committed are those in the reorder buffer, so that an analysis that commits everything has
  reported a cycle.
\<close>

section \<open>What every stage keeps\<close>

definition backlog :: "TA \<Rightarrow> int" where
  "backlog st = num_dispatched_insts st - num_committed_insts st - ROB.rob_size (rob st)"

definition counted :: "TA \<Rightarrow> TA \<Rightarrow> bool" where
  "counted st st' \<longleftrightarrow> backlog st' = backlog st \<and> latency_l1_miss st' = latency_l1_miss st"

lemma counted_refl [simp]: "counted st st"
  by (simp add: counted_def)

lemma counted_trans: "counted st st1 \<Longrightarrow> counted st1 st2 \<Longrightarrow> counted st st2"
  by (simp add: counted_def)

lemma counted_fields:
  "num_dispatched_insts st' = num_dispatched_insts st \<Longrightarrow> num_committed_insts st' = num_committed_insts st \<Longrightarrow>
   rob st' = rob st \<Longrightarrow> latency_l1_miss st' = latency_l1_miss st \<Longrightarrow> counted st st'"
  by (simp add: counted_def backlog_def)

lemma counted_upd: "upd_inst p f st = Some st' \<Longrightarrow> counted st st'"
  by (auto simp: upd_inst_def bind_eq_Some_conv counted_def backlog_def)

lemma counted_free: "free_inst p st = Some st' \<Longrightarrow> counted st st'"
  by (auto simp: free_inst_def bind_eq_Some_conv counted_def backlog_def split: option.splits if_splits)

lemma counted_ofold:
  assumes "ofold f xs st = Some st'" "\<And>x st st'. f x st = Some st' \<Longrightarrow> counted st st'"
  shows "counted st st'"
  using assms(1) by (induction xs arbitrary: st) (auto simp: bind_eq_Some_conv dest: assms(2) intro: counted_trans)

lemma bind_SomeE:
  assumes "Option.bind m f = Some y"
  obtains x where "m = Some x" "f x = Some y"
  using assms by (auto simp: bind_eq_Some_conv)

lemma bind_pairE:
  assumes "Option.bind m (\<lambda>(a, b). f a b) = Some y"
  obtains a b where "m = Some (a, b)" "f a b = Some y"
  using assms by (auto simp: bind_eq_Some_conv)

section \<open>Dispatch\<close>

lemma counted_push_microop: "push_microop fill inst st = Some st' \<Longrightarrow> counted st st'"
  by (auto simp: push_microop_def malloc_inst_def bind_eq_Some_conv counted_def backlog_def)

lemma counted_pop: "pop_trace_buffer st = Some (p, st') \<Longrightarrow> counted st st'"
  by (auto simp: pop_trace_buffer_def bind_eq_Some_conv counted_def backlog_def)

lemma counted_microops: "microops fill inst st = Some st' \<Longrightarrow> counted st st'"
  unfolding microops_def
proof (erule counted_ofold)
  fix i st st' assume "do { st \<leftarrow> push_microop (fill inst (int i)) inst st; Some (st\<lparr>num_fetched_insts := num_fetched_insts st + 1\<rparr>) } = Some st'"
  then obtain st1 where "push_microop (fill inst (int i)) inst st = Some st1" "st' = st1\<lparr>num_fetched_insts := num_fetched_insts st1 + 1\<rparr>"
    by (auto simp: bind_eq_Some_conv)
  then show "counted st st'" using counted_push_microop by (force simp: counted_def backlog_def)
qed

lemma counted_split:
  assumes "do { (_, st) \<leftarrow> pop_trace_buffer st; inst \<leftarrow> load (insts st) p; st \<leftarrow> push_microop sp_update inst st; microops fill inst st } = Some st'"
  shows "counted st st'"
proof -
  obtain q st1 inst st2 where "pop_trace_buffer st = Some (q, st1)" "push_microop sp_update inst st1 = Some st2" "microops fill inst st2 = Some st'"
    using assms by (auto simp: bind_eq_Some_conv)
  then show ?thesis by (blast dest: counted_pop counted_push_microop counted_microops intro: counted_trans)
qed

lemma counted_convert:
  assumes "convert_microop p st = Some st'"
  shows "counted st st'"
proof -
  obtain inst :: Inst where r: "(case i_type inst of
       Pop \<Rightarrow> do { st \<leftarrow> convert_pop_microop p st; free_inst p st }
     | Push \<Rightarrow> do { st \<leftarrow> convert_push_microop p st; free_inst p st }
     | _ \<Rightarrow> Some st) = Some st'"
    using assms unfolding convert_microop_def by (elim bind_SomeE) (erule that)
  have "st' = st \<or> (\<exists>st1. (convert_pop_microop p st = Some st1 \<or> convert_push_microop p st = Some st1) \<and> free_inst p st1 = Some st')"
    using r by (cases "i_type inst") (simp_all add: bind_eq_Some_conv, blast+)
  then show ?thesis
    unfolding convert_pop_microop_def convert_push_microop_def
    by (elim disjE exE conjE) (simp, (drule counted_split, drule counted_free, erule (1) counted_trans)+)
qed

lemma counted_stall: "dispatch_stall st = Some (b, st') \<Longrightarrow> counted st st'"
  unfolding dispatch_stall_def Let_def by (intro counted_fields) (auto simp: bind_eq_Some_conv split: if_splits)

lemma counted_push_queue:
  "push_IQ p st = Some st' \<Longrightarrow> counted st st'" "push_LDQ p st = Some st' \<Longrightarrow> counted st st'" "push_STQ p st = Some st' \<Longrightarrow> counted st st'"
  by (auto simp: push_IQ_def push_LDQ_def push_STQ_def bind_eq_Some_conv upd_inst_def counted_def backlog_def)

lemma counted_dispatch_inst: "dispatch_inst p st = Some st' \<Longrightarrow> counted st st'"
  by (auto simp: dispatch_inst_def upd_inst_def bind_eq_Some_conv counted_def backlog_def)

lemma counted_enter:
  assumes "enter_inst p st = Some st'"
  shows "counted st st'"
proof -
  obtain r h mat st1 and inst :: Inst and st2 st3 h2 mat2 st4 where
    1: "rob_insert_inst p (rob st) (insts st) = Some (r, h)" "push_IQ p (st\<lparr>rob := r, insts := h, deps := mat\<rparr>) = Some st1"
    "(if i_type inst = MemRead then push_LDQ p st1 else Some st1) = Some st2"
    "(if i_type inst = MemWrite then push_STQ p st2 else Some st2) = Some st3" and
    2: "dispatch_inst p (st3\<lparr>num_dispatched_insts := num_dispatched_insts st3 + 1, insts := h2, deps := mat2\<rparr>) = Some st4"
    "upd_inst p (i_dispatched_cycle_update (\<lambda>_. cur_cycle st4)) st4 = Some st'"
    using assms unfolding enter_inst_def Let_def by (elim bind_pairE bind_SomeE) (rule that)
  have r: "ROB.rob_size r = ROB.rob_size (rob st) + 1" using 1(1) by (auto simp: rob_insert_inst_def bind_eq_Some_conv)
  have "counted (st\<lparr>rob := r, insts := h, deps := mat\<rparr>) st1" using counted_push_queue(1) [OF 1(2)] .
  moreover have "counted st1 st2" "counted st2 st3" using 1(3,4) counted_push_queue by (auto split: if_splits)
  ultimately have "counted (st\<lparr>rob := r, insts := h, deps := mat\<rparr>) st3" by (blast intro: counted_trans)
  moreover have "counted (st3\<lparr>num_dispatched_insts := num_dispatched_insts st3 + 1, insts := h2, deps := mat2\<rparr>) st'"
    using counted_dispatch_inst [OF 2(1)] counted_upd [OF 2(2)] by (rule counted_trans)
  ultimately show ?thesis using r by (simp add: counted_def backlog_def)
qed

lemma counted_dispatch_loop: "dispatch_loop z w st = Some st' \<Longrightarrow> counted st st'"
proof (induct rule: dispatch_loop.raw_induct [rotated, consumes 1, case_names step])
  case (step loop z w st st')
  note rec = step(1)
  consider "st' = st" | e :: InstElem and inst' st1 st2 b st3 where "upd_inst (e_inst e) (\<lambda>_. inst') st = Some st1" "convert_microop (e_inst e) st1 = Some st2"
      "dispatch_stall st2 = Some (b, st3)" and
      "(if b then Some st3
        else do {
          (p, st) \<leftarrow> pop_trace_buffer st3;
          inst \<leftarrow> load (insts st) p;
          if i_type inst = Unsupported then do {
            st \<leftarrow> free_inst p (st\<lparr>num_dispatched_insts := num_dispatched_insts st + 1, num_committed_insts := num_committed_insts st + 1\<rparr>);
            loop z w st }
          else do {
            st \<leftarrow> enter_inst p st;
            loop z (w - 1) st } }) = Some st'"
  proof (cases "w \<le> 0 \<or> front_inst_elem (trace_buffer st) = None")
    case False
    then have "\<not> w \<le> 0" "front_inst_elem (trace_buffer st) \<noteq> None" by auto
    then show thesis using step(2) by (simp only: if_False) (elim bind_pairE bind_SomeE, rule that(2))
  next
    case True
    then have "st' = st" using step(2) by (elim disjE) (simp_all only: if_True if_cancel option.inject simp_thms)
    then show thesis by (rule that(1))
  qed
  then show ?case
  proof cases
    case 2
    have "counted st st3" using counted_upd [OF 2(1)] counted_convert [OF 2(2)] counted_stall [OF 2(3)] by (blast intro: counted_trans)
    moreover have "counted st3 st'"
    proof (cases b)
      case False
      then obtain p st4 and inst :: Inst where p: "pop_trace_buffer st3 = Some (p, st4)"
        "(if i_type inst = Unsupported then do {
            st \<leftarrow> free_inst p (st4\<lparr>num_dispatched_insts := num_dispatched_insts st4 + 1, num_committed_insts := num_committed_insts st4 + 1\<rparr>);
            loop z w st }
          else do { st \<leftarrow> enter_inst p st4; loop z (w - 1) st }) = Some st'"
        using 2(4) by (simp only: if_False) (elim bind_pairE bind_SomeE, rule that)
      have "counted st4 st'"
      proof (cases "i_type inst = Unsupported")
        case True
        then obtain st5 where "free_inst p (st4\<lparr>num_dispatched_insts := num_dispatched_insts st4 + 1, num_committed_insts := num_committed_insts st4 + 1\<rparr>) = Some st5"
          "loop z w st5 = Some st'" using p(2) by (simp only: if_True simp_thms) (elim bind_SomeE, rule that)
        then show ?thesis using counted_free rec by (force simp: counted_def backlog_def)
      next
        case False
        then obtain st5 where "enter_inst p st4 = Some st5" "loop z (w - 1) st5 = Some st'" using p(2) by (simp only: if_False) (elim bind_SomeE, rule that)
        then show ?thesis using counted_enter rec counted_trans by blast
      qed
      then show ?thesis using counted_pop [OF p(1)] counted_trans by blast
    qed (use 2(4) in simp)
    ultimately show ?thesis by (rule counted_trans)
  qed simp
qed

section \<open>The other stages\<close>

lemma counted_issue_inst: "issue_inst e p st = Some st' \<Longrightarrow> counted st st'"
  unfolding issue_inst_def Let_def
  by (elim bind_pairE bind_SomeE, drule counted_upd) (auto simp: bind_eq_Some_conv counted_def backlog_def split: if_splits)

lemma counted_issue_loop: "issue_loop w e st = Some st' \<Longrightarrow> counted st st'"
proof (induct rule: issue_loop.raw_induct [rotated, consumes 1, case_names step])
  case (step loop w e st st')
  note rec = step(1)
  show ?case
  proof (cases "w \<le> 0 \<or> e = None")
    case True
    then show ?thesis using step(2) by (auto split: if_splits)
  next
    case False
    then obtain a where a: "e = Some a" "\<not> w \<le> 0" by auto
    obtain el :: InstElem and inst :: Inst where el: "(if i_state inst \<noteq> Dispatch then loop w (e_next el) st
          else do {
            d \<leftarrow> has_dependency (rob st) (insts st) (deps st) (e_inst el);
            if d then loop w (e_next el) st
            else do {
              let target_fu = inst_type_fu_type_map st (i_type inst);
              let (success, f) = try_FU (fu st target_fu);
              let st = st\<lparr>fu := (fu st)(target_fu := f)\<rparr>;
              if success then do { st \<leftarrow> issue_inst a (e_inst el) st; loop (w - 1) (e_next el) st }
              else loop w (e_next el) st } }) = Some st'"
      using step(2) a(2) unfolding a(1) by (simp only: if_False option.case) (elim bind_SomeE, rule that)
    have fu: "counted st (st\<lparr>fu := F\<rparr>)" for F by (simp add: counted_def backlog_def)
    let ?t = "inst_type_fu_type_map st (i_type inst)"
    obtain b f where t: "try_FU (fu st ?t) = (b, f)" by fastforce
    let ?st = "st\<lparr>fu := (fu st)(?t := f)\<rparr>"
    consider "loop w (e_next el) st = Some st'" | "loop w (e_next el) ?st = Some st'"
      | st1 where "issue_inst a (e_inst el) ?st = Some st1" "loop (w - 1) (e_next el) st1 = Some st'"
      using el unfolding t Let_def prod.case by (cases b) (auto simp only: bind_eq_Some_conv if_True if_False split: if_split_asm)
    then show ?thesis
    proof cases
      case 3
      show ?thesis by (rule counted_trans [OF fu counted_trans [OF counted_issue_inst [OF 3(1)] rec [OF 3(2)]]])
    qed (use rec fu counted_trans in blast)+
  qed
qed

lemma counted_execute_inst: "execute_inst round64 p st = Some st' \<Longrightarrow> counted st st'"
  unfolding execute_inst_def Let_def
  by (elim bind_SomeE, drule counted_upd)
    (auto simp: bind_eq_Some_conv dest!: counted_upd simp: counted_def backlog_def split: if_splits)

lemma counted_execute_loop: "execute_loop round64 e st = Some st' \<Longrightarrow> counted st st'"
proof (induct rule: execute_loop.raw_induct [rotated, consumes 1, case_names step])
  case (step loop round64 e st st')
  show ?case
  proof (cases e)
    case (Some a)
    obtain el :: InstElem and inst :: Inst and st1 where "(if i_state inst = Issue then execute_inst round64 (e_inst el) st else Some st) = Some st1"
      "loop round64 (e_next el) st1 = Some st'"
      using step(2) unfolding Some option.case by (elim bind_SomeE) (rule that)
    then show ?thesis using step(1) counted_execute_inst counted_trans by (cases "i_state inst = Issue") (simp, blast, simp)
  qed (use step(2) in simp)
qed

lemma counted_writeback_inst: "writeback_inst p st = Some st' \<Longrightarrow> counted st st'"
  by (auto simp: writeback_inst_def bind_eq_Some_conv dest: counted_upd split: if_splits)

lemma counted_writeback_loop: "writeback_loop w e st = Some st' \<Longrightarrow> counted st st'"
proof (induct rule: writeback_loop.raw_induct [rotated, consumes 1, case_names step])
  case (step loop w e st st')
  show ?case
  proof (cases "w = 0 \<or> e = None")
    case True
    then show ?thesis using step(2) by (auto split: if_splits)
  next
    case False
    then obtain a where a: "e = Some a" "w \<noteq> 0" by auto
    obtain el :: InstElem and st1 and inst :: Inst where w: "writeback_inst (e_inst el) st = Some st1"
      "(if i_state inst = Complete \<and> i_remaining_latency inst = 0 then do {
            (q, m) \<leftarrow> remove_from_list (FUBuffer st1) (Some a) True (emem st1);
            loop (w - 1) (e_next el) (st1\<lparr>FUBuffer := q, emem := m\<rparr>) }
          else loop w (e_next el) st1) = Some st'"
      using step(2) a(2) unfolding a(1) by (simp only: if_False option.case) (elim bind_SomeE, rule that)
    have fu: "counted st1 (st1\<lparr>FUBuffer := q, emem := m\<rparr>)" for q m by (simp add: counted_def backlog_def)
    consider "loop w (e_next el) st1 = Some st'" | q m where "loop (w - 1) (e_next el) (st1\<lparr>FUBuffer := q, emem := m\<rparr>) = Some st'"
      using w(2) by (auto simp: bind_eq_Some_conv split: if_splits prod.splits)
    then have "counted st1 st'" by cases (use step(1) fu counted_trans in blast)+
    then show ?thesis using counted_writeback_inst [OF w(1)] counted_trans by blast
  qed
qed

lemma counted_commit_inst:
  assumes "commit_inst p st = Some st'"
  shows "counted st st'"
proof -
  obtain st1 and inst :: Inst and st2 st3 r st4 where 1: "upd_inst p (i_committed_cycle_update (\<lambda>_. cur_cycle st)) st = Some st1"
    "(if i_ldq_elem inst \<noteq> None then do {
         (q, m) \<leftarrow> remove_from_list (LDQ st1) (i_ldq_elem inst) True (emem st1); Some (st1\<lparr>LDQ := q, emem := m\<rparr>) }
       else Some st1) = Some st2"
    "(if i_stq_elem inst \<noteq> None then do {
         (q, m) \<leftarrow> remove_from_list (STQ st2) (i_stq_elem inst) True (emem st2); Some (st2\<lparr>STQ := q, emem := m\<rparr>) }
       else Some st2) = Some st3" and
    2: "rob_remove_inst (rob st3) = Some r" "free_inst p (st3\<lparr>rob := r, num_inst_type := (num_inst_type st3)(i_type inst := num_inst_type st3 (i_type inst) + 1)\<rparr>) = Some st4"
    "Some (st4\<lparr>num_committed_insts := num_committed_insts st4 + 1, num_committed_insts_cycle := num_committed_insts_cycle st4 + 1\<rparr>) = Some st'"
    using assms unfolding commit_inst_def Let_def by (elim bind_SomeE) (rule that)
  have "counted st1 st2" "counted st2 st3" using 1(2,3) by (auto simp: bind_eq_Some_conv counted_def backlog_def split: if_splits)
  then have "counted st st3" using counted_upd [OF 1(1)] by (blast intro: counted_trans)
  moreover have "ROB.rob_size r = ROB.rob_size (rob st3) - 1" using 2(1) by (auto simp: rob_remove_inst_def bind_eq_Some_conv)
  ultimately show ?thesis using counted_free [OF 2(2)] 2(3) by (auto simp: counted_def backlog_def)
qed

lemma counted_commit_loop: "commit_loop w st = Some st' \<Longrightarrow> counted st st'"
proof (induction w arbitrary: st)
  case (Suc w)
  then show ?case
    by (auto simp: bind_eq_Some_conv split: if_splits dest!: counted_commit_inst intro: counted_trans)
qed simp

lemma counted_cycle:
  assumes "trace_cycle round64 z st = Some st'"
  shows "counted st st'"
proof -
  obtain st1 st2 st3 st4 st5 where "commit_insts st = Some st1" "writeback_insts st1 = Some st2" "execute_insts round64 st2 = Some st3"
    "issue_insts st3 = Some st4" "dispatch_insts z st4 = Some st5" and e: "Some ((reflesh_all_FUs st5)\<lparr>cur_cycle := cur_cycle st5 + 1\<rparr>) = Some st'"
    using assms unfolding trace_cycle_def by (elim bind_SomeE) (rule that)
  then have "counted st st1" "counted st1 st2" "counted st2 st3" "counted st3 st4" "counted st4 st5"
    unfolding commit_insts_def writeback_insts_def execute_insts_def issue_insts_def dispatch_insts_def
    by (auto dest: counted_commit_loop counted_writeback_loop counted_execute_loop counted_issue_loop counted_dispatch_loop split: if_splits)
  then have "counted st st5" by (blast intro: counted_trans)
  then show ?thesis using e by (auto simp: counted_def backlog_def reflesh_all_FUs_def)
qed

text \<open>The cycle that an analysis reports: the last one at the latest, unless it has been found before.\<close>

lemma trace_loop_counted:
  "trace_loop round64 z max_cycle cycle alc st = Some (lc, st') \<Longrightarrow>
    counted st st' \<and> (max_cycle = 0 \<and> num_dispatched_insts st' = num_fetched_insts st' \<longrightarrow> lc \<noteq> 0 \<or> cur_cycle st' = 0)"
proof (induct "(lc, st')" arbitrary: lc st' rule: trace_loop.raw_induct [rotated, consumes 1, case_names step])
  case (step loop round64 z max_cycle cycle alc st)
  let ?st = "st\<lparr>num_issued_insts_cycle := 0, num_dispatched_insts_cycle := 0, num_executed_insts_cycle := 0, num_committed_insts_cycle := 0\<rparr>"
  have st: "counted st ?st" by (simp add: counted_def backlog_def)
  show ?case
  proof (cases "max_cycle \<noteq> 0 \<and> max_cycle \<le> cycle")
    case True
    then show ?thesis using step(2) st by (auto simp: Let_def)
  next
    case False
    then obtain st1 :: TA where 1: "trace_cycle round64 z ?st = Some st1"
      "(if num_committed_insts st1 = num_fetched_insts st1
        then Some (if alc = 0 \<and> num_dispatched_insts st1 = num_fetched_insts st1 then cur_cycle st1 else alc, st1)
        else loop round64 z max_cycle (cycle + 1)
          (if alc = 0 \<and> num_dispatched_insts st1 = num_fetched_insts st1 then cur_cycle st1 else alc) st1) = Some (lc, st')"
      using step(2) unfolding Let_def by (simp only: if_False) (elim bind_SomeE, rule that)
    have c: "counted st st1" using st counted_cycle [OF 1(1)] by (rule counted_trans)
    show ?thesis
    proof (cases "num_committed_insts st1 = num_fetched_insts st1")
      case True
      then show ?thesis using 1(2) c by (auto split: if_splits)
    next
      case False
      then have "loop round64 z max_cycle (cycle + 1)
        (if alc = 0 \<and> num_dispatched_insts st1 = num_fetched_insts st1 then cur_cycle st1 else alc) st1 = Some (lc, st')" using 1(2) by simp
      from step(1) [OF this] show ?thesis using counted_trans [OF c] by blast
    qed
  qed
qed

end
