(* ===== verification/Pipeline_Start.thy ===== *)
theory Pipeline_Start
  imports Pipeline_Run Pipeline_Count Buffer_Manager
begin

text \<open>
  From the start of the program to the analyses: initialisation and the recording of instructions
  lead to states from which the pipeline runs, and an analysis leads back to one that
  recording can continue from.
\<close>

section \<open>Between two analyses\<close>

text \<open>No instruction is in flight; the trace buffer can grow at its end.\<close>

definition filling :: "nat \<Rightarrow> ghost \<Rightarrow> TA \<Rightarrow> bool" where
  "filling N g st \<longleftrightarrow>
     queues_ok (emem st) (queue_of st) (g_L g) (g_ps g) (g_U g) \<and> q_tail (trace_buffer st) (g_L g QTrace) \<and>
     g_rob g = [] \<and> rob_holds N (g_start g) [] (rob st) \<and> N \<le> 60 \<and> mat_dim 60 (deps st) \<and>
     (\<forall>n. n \<noteq> QTrace \<longrightarrow> g_U g n = []) \<and> dom (insts st) \<subseteq> {..<inst_brk st} \<and> (\<forall>a. arrays16 (inst_junk st a)) \<and>
     distinct (g_U g QTrace) \<and> set (g_U g QTrace) \<subseteq> dom (insts st) \<and> limits st \<and> q_capacity (trace_buffer st) = 1000001"

text \<open>The instructions in the trace buffer; whether they can all be decoded and the buffer has room for their parts.\<close>

definition buffered :: "TA \<Rightarrow> addr list" where
  "buffered st = map the (q_insts (trace_buffer st, emem st))"

definition buffered_parts :: "nat \<Rightarrow> TA \<Rightarrow> nat" where
  "buffered_parts z st = (\<Sum>p\<leftarrow>buffered st. expand z (the (insts st p)))"

definition analysable :: "nat \<Rightarrow> TA \<Rightarrow> bool" where
  "analysable z st \<longleftrightarrow> (\<forall>p\<in>set (buffered st). ready z (the (insts st p))) \<and> buffered_parts z st \<le> 1000001"

lemma buffered_eq: "queues_ok (emem st) (queue_of st) (g_L g) (g_ps g) (g_U g) \<Longrightarrow> buffered st = g_U g QTrace"
  unfolding buffered_def
  by (simp add: q_insts_rep [OF queues_okD(1) [of "emem st" "queue_of st" "g_L g" "g_ps g" "g_U g" QTrace], simplified]
      queues_okD(6) [of "emem st" "queue_of st" "g_L g" "g_ps g" "g_U g" QTrace] o_def)

section \<open>Starting an analysis\<close>

definition analysis_start :: "TA \<Rightarrow> TA" where
  "analysis_start st = (let st = reset_all_FUs (init_trace_statistics st) in
     st\<lparr>num_fetched_insts := get_current_queue_size (trace_buffer st)\<rparr>)"

lemma trace_analysis_start:
  "trace_analysis round64 z max_cycle st = do {
     (last_cycle, st) \<leftarrow> trace_loop round64 z max_cycle 0 0 (analysis_start st);
     Some (last_cycle, c_trunc (avg_mispred_penalty st), st) }"
  by (simp add: trace_analysis_def analysis_start_def Let_def)

lemma filling_pipe:
  assumes f: "filling N g st" and a: "analysable z st"
  shows "pipe z N g (analysis_start st)" "idle_units (analysis_start st)" "cur_cycle (analysis_start st) = 0"
    "work z g (analysis_start st) = (27 + nat (latency_l1_miss st)) * buffered_parts z st"
proof -
  note f' = f [unfolded filling_def]
  let ?st = "analysis_start st"
  have Q: "queues_ok (emem st) (queue_of st) (g_L g) (g_ps g) (g_U g)" using f' by blast
  note b = buffered_eq [OF Q]
  have d: "distinct (g_U g QTrace)" using f' by blast
  have s: "(\<Sum>p\<in>set (g_U g QTrace). expand z (the (insts st p))) = buffered_parts z st"
    unfolding buffered_parts_def b by (simp add: sum_list_distinct_conv_sum_set [OF d])
  have fields: "emem ?st = emem st" "IQ ?st = IQ st" "LDQ ?st = LDQ st" "STQ ?st = STQ st" "FUBuffer ?st = FUBuffer st" "rob ?st = rob st" "insts ?st = insts st" "deps ?st = deps st"
    "inst_brk ?st = inst_brk st" "inst_junk ?st = inst_junk st" "trace_buffer ?st = trace_buffer st" "latency_l1_miss ?st = latency_l1_miss st"
    "num_committed_insts ?st = 0" "fu ?st = (\<lambda>t. reset_FU (fu st t))" "inst_type_fu_type_map ?st = inst_type_fu_type_map st"
    "num_fetched_insts ?st = get_current_queue_size (trace_buffer st)" "cur_cycle ?st = 0"
    by (simp_all add: analysis_start_def reset_all_FUs_def init_trace_statistics_def Let_def)
  have emp: "g_rob g = []" "g_U g QIssue = []" "g_U g QUnits = []" "g_U g QLoad = []" "g_U g QStore = []" using f' by auto
  have "rob_insts N (g_start g) (g_rob g) (rob st) (insts st)" using f' by (simp add: rob_insts_def)
  moreover have "flight_part (g_rob g) (g_U g) (insts st)" using emp by (simp add: flight_part_def)
  moreover have "lsq_part h n (g_rob g) (g_L g) (g_U g) (emem st) (insts st)" if "n = QLoad \<or> n = QStore" for h n
    using emp that by (auto simp: lsq_part_def)
  moreover have "fresh_part z (g_rob g) (g_U g QTrace) (insts st) (inst_brk st) (inst_junk st)"
    using f' a b unfolding fresh_part_def analysable_def by fastforce
  moreover have "unit_part (g_U g QUnits) (insts st) (inst_type_fu_type_map st) (fu ?st)" using emp fields by (simp add: unit_part_def reset_FU_def)
  moreover have "limits ?st"
    using f' by (simp add: limits_def unit_limits_def analysis_start_def reset_all_FUs_def init_trace_statistics_def reset_FU_def Let_def)
  moreover have "buffer_part z (g_U g QTrace) ?st" using s a f' fields by (simp add: buffer_part_def analysable_def del: of_nat_sum)
  moreover have "get_current_queue_size (trace_buffer st) = int (length (g_U g QTrace))"
    using queues_ok_size [OF Q, of QTrace] by (simp add: get_current_queue_size_def)
  ultimately show "pipe z N g ?st" unfolding pipe_def fields using f' emp(1) by simp
  show "idle_units ?st" by (simp add: idle_units_def fields reset_FU_def)
  show "cur_cycle ?st = 0" by (rule fields)
  show "work z g ?st = (27 + nat (latency_l1_miss st)) * buffered_parts z st"
    using s emp(1) by (simp add: work_def fields wb_max_def)
qed

section \<open>After an analysis\<close>

lemma pipe_filling:
  assumes inv: "pipe z N g st" "g_rob g = []" "g_U g QTrace = []" "q_capacity (trace_buffer st) = 1000001"
  shows "filling N g st"
proof -
  note p = inv(1) [unfolded pipe_def]
  have Q: "queues_ok (emem st) (queue_of st) (g_L g) (g_ps g) (g_U g)" using p by blast
  have "g_L g QTrace = []" using queues_ok_length [OF Q, of QTrace] inv(3) by simp
  then have "q_tail (trace_buffer st) (g_L g QTrace)" using queues_okD(1) [OF Q, of QTrace] by (auto simp: q_rep_def q_tail_def)
  moreover have "g_U g n = []" if "n \<noteq> QTrace" for n
    using p inv(2) that by (cases n) (auto simp: flight_part_def lsq_part_def)
  ultimately show ?thesis using p inv(2-4) by (auto simp: filling_def rob_insts_def fresh_part_def)
qed

section \<open>Recording\<close>

lemma filling_set_inst:
  assumes "filling N g st" "upd_inst q f st = Some st'"
  shows "filling N g st'"
proof -
  obtain p i where p: "q = Some p" "insts st p = Some i" "st' = st\<lparr>insts := (insts st)(p \<mapsto> f i)\<rparr>"
    using assms(2) by (cases q) (auto simp: upd_inst_def store_def bind_eq_Some_conv)
  have "dom ((insts st)(p \<mapsto> f i)) = dom (insts st)" using p(2) by auto
  then show ?thesis using assms(1) unfolding p(3) by (simp add: filling_def limits_def)
qed

lemma filling_malloc: "filling N g st \<Longrightarrow> filling N g (snd (malloc_inst st)) \<and> inst_brk st \<notin> set (g_U g QTrace)"
proof -
  assume f: "filling N g st"
  then have "inst_brk st \<notin> dom (insts st)" "set (g_U g QTrace) \<subseteq> dom (insts st)" by (auto simp: filling_def)
  then show ?thesis using f by (auto simp: filling_def malloc_inst_def limits_def less_Suc_eq)
qed

lemma filling_push:
  assumes f: "filling N g st" and p: "p \<notin> set (g_U g QTrace)" "p \<in> dom (insts st)" and room: "\<not> is_full_queue (trace_buffer st)"
  shows "\<exists>e q m g'. push_back_inst (trace_buffer st) (Some p) (emem st) = Some (e, q, m) \<and>
    filling N g' (st\<lparr>trace_buffer := q, emem := m\<rparr>) \<and> g_U g' QTrace = g_U g QTrace @ [p]"
proof -
  note f' = f [unfolded filling_def]
  have Q: "queues_ok (emem st) (queue_of st) (g_L g) (g_ps g) (g_U g)" and t: "q_tail (queue_of st QTrace) (g_L g QTrace)" using f' by auto
  have room': "\<not> is_full_queue (queue_of st QTrace)" using room by simp
  obtain a q m where a: "push_back_inst (trace_buffer st) (Some p) (emem st) = Some (Some a, q, m)" "q_capacity q = q_capacity (trace_buffer st)"
    "q_tail q (g_L g QTrace @ [a])"
    "queues_ok m ((queue_of st)(QTrace := q)) ((g_L g)(QTrace := g_L g QTrace @ [a])) (tl (g_ps g)) ((g_U g)(QTrace := g_U g QTrace @ [p]))"
    using queues_push_back_tail [OF Q t room', of p] by auto
  let ?g = "g\<lparr>g_L := (g_L g)(QTrace := g_L g QTrace @ [a]), g_ps := tl (g_ps g), g_U := (g_U g)(QTrace := g_U g QTrace @ [p])\<rparr>"
  have "filling N ?g (st\<lparr>trace_buffer := q, emem := m\<rparr>)" using f' p a by (auto simp: filling_def limits_def)
  then show ?thesis using a(1) by (intro exI [of _ "Some a"] exI [of _ q] exI [of _ m] exI [of _ ?g]) simp
qed

text \<open>What a call records.\<close>

definition new_inst :: "BM \<Rightarrow> u32 \<Rightarrow> u32 \<Rightarrow> u32 \<Rightarrow> CacheMissType \<Rightarrow> Inst" where
  "new_inst st sq pc code m = (init_inst (inst_junk (ta st) (inst_brk (ta st))) sq pc code)\<lparr>i_inst_cache_miss := m\<rparr>"

lemma push_code_ok:
  assumes f: "filling N g (ta st)"
  shows "\<exists>b g' st'. push_code sq pc code m st = Some (b, st') \<and> filling N g' (ta st') \<and> b = (\<not> is_full_queue (trace_buffer (ta st))) \<and>
    g_U g' QTrace = g_U g QTrace @ (if b then [inst_brk (ta st)] else []) \<and>
    insts (ta st') = (insts (ta st))(inst_brk (ta st) \<mapsto> new_inst st sq pc code m) \<and>
    inst_brk (ta st') = inst_brk (ta st) + 1 \<and> inst_junk (ta st') = inst_junk (ta st)"
proof -
  let ?a = "inst_brk (ta st)"
  define t where "t = (ta st)\<lparr>inst_brk := ?a + 1, insts := (insts (ta st))(?a \<mapsto> new_inst st sq pc code m)\<rparr>"
  have t: "upd_inst (Some ?a) (\<lambda>i. (init_inst i sq pc code)\<lparr>i_inst_cache_miss := m\<rparr>) (snd (malloc_inst (ta st))) = Some t"
    by (simp add: malloc_inst_def upd_inst_in t_def new_inst_def)
  have ft: "filling N g t" "?a \<notin> set (g_U g QTrace)" using filling_set_inst [OF _ t] filling_malloc [OF f] by auto
  have tb: "trace_buffer t = trace_buffer (ta st)" by (simp add: t_def)
  show ?thesis
  proof (cases "is_full_queue (trace_buffer t)")
    case True
    then show ?thesis using t ft tb unfolding push_code_def
      by (intro exI [of _ False] exI [of _ g]) (auto simp: malloc_inst_def Let_def t_def)
  next
    case False
    have "?a \<in> dom (insts t)" by (simp add: t_def)
    from filling_push [OF ft this False] obtain e q k g' where r: "push_back_inst (trace_buffer t) (Some ?a) (emem t) = Some (e, q, k)"
      "filling N g' (t\<lparr>trace_buffer := q, emem := k\<rparr>)" "g_U g' QTrace = g_U g QTrace @ [?a]" by blast
    then show ?thesis using t tb False unfolding push_code_def
      by (intro exI [of _ True] exI [of _ g']) (auto simp: malloc_inst_def Let_def t_def)
  qed
qed

text \<open>The newest instruction is the one that a branch outcome or an address belongs to.\<close>

lemma filling_newest:
  assumes f: "filling N g st"
  shows "g_U g QTrace = [] \<Longrightarrow> newest (trace_buffer st) = None"
    "g_U g QTrace \<noteq> [] \<Longrightarrow> \<exists>e i. load (elems (emem st)) (newest (trace_buffer st)) = Some e \<and> e_inst e = Some (last (g_U g QTrace)) \<and>
       insts st (last (g_U g QTrace)) = Some i"
proof -
  note f' = f [unfolded filling_def]
  have Q: "queues_ok (emem st) (queue_of st) (g_L g) (g_ps g) (g_U g)" using f' by blast
  note len = queues_ok_length [OF Q, of QTrace]
  have n: "newest (trace_buffer st) = lasto (g_L g QTrace) None" using f' by (simp add: q_tail_def)
  show "g_U g QTrace = [] \<Longrightarrow> newest (trace_buffer st) = None" using n len by simp
  assume ne: "g_U g QTrace \<noteq> []"
  then obtain as a where L: "g_L g QTrace = as @ [a]" using len by (cases "g_L g QTrace" rule: rev_cases) auto
  obtain us p where U: "g_U g QTrace = us @ [p]" using ne by (cases "g_U g QTrace" rule: rev_cases) auto
  have "length us = length as" using len L U by simp
  then obtain e where e: "elems (emem st) a = Some e" "e_inst e = Some p" using queues_ok_elem [OF Q, of QTrace as a "[]"] L U by (auto simp: nth_append)
  have "newest (trace_buffer st) = Some a" using n L by (simp add: lasto_append)
  moreover have "p \<in> dom (insts st)" using f' U by auto
  ultimately show "\<exists>e i. load (elems (emem st)) (newest (trace_buffer st)) = Some e \<and> e_inst e = Some (last (g_U g QTrace)) \<and>
       insts st (last (g_U g QTrace)) = Some i" using e U by (auto simp: load_def)
qed

lemma push_bpred_ta: "push_bpred c st = Some (b, st') \<Longrightarrow> ta st' = ta st \<or> (\<exists>q f. upd_inst q f (ta st) = Some (ta st'))"
  unfolding push_bpred_def Let_def bind_eq_Some_conv by (auto simp: bind_eq_Some_conv split: if_splits)

lemma push_memaddr_ta: "push_memaddr a m st = Some (b, st') \<Longrightarrow> ta st' = ta st \<or> (\<exists>q f. upd_inst q f (ta st) = Some (ta st'))"
  unfolding push_memaddr_def Let_def bind_eq_Some_conv by (auto simp: bind_eq_Some_conv split: if_splits)

lemma record_event_filling:
  assumes "filling N g (ta st)" "record_event e st = Some (b, st')"
  shows "\<exists>g'. filling N g' (ta st')"
proof (cases e)
  case (Code sq pc code m)
  then show ?thesis using push_code_ok [OF assms(1), of sq pc code m] assms(2) by auto
next
  case (Bpred c)
  then have "ta st' = ta st \<or> (\<exists>q f. upd_inst q f (ta st) = Some (ta st'))"
    using push_bpred_ta [of c st b st'] assms(2) by auto
  then show ?thesis using assms(1) filling_set_inst by metis
next
  case (Memaddr a m)
  then have "ta st' = ta st \<or> (\<exists>q f. upd_inst q f (ta st) = Some (ta st'))"
    using push_memaddr_ta [of a m st b st'] assms(2) by auto
  then show ?thesis using assms(1) filling_set_inst by metis
qed

section \<open>Initialisation\<close>

text \<open>The configurations with which the pipeline can work.\<close>

definition config_ok :: "perfmodel_config \<Rightarrow> bool" where
  "config_ok pm \<longleftrightarrow> 1 \<le> core_config.rob_size (core pm) \<and> core_config.rob_size (core pm) \<le> 60 \<and>
     1 \<le> frontend_width (core pm) \<and> 1 \<le> backend_width (core pm) \<and> 0 \<le> iq_size (core pm) \<and>
     1 \<le> num_intalu (numfu pm) \<and> 1 \<le> num_intmultdiv (numfu pm) \<and> 0 \<le> c_latency (ul2 pm)"

definition empty_ghost :: ghost where
  "empty_ghost = \<lparr>g_start = 0, g_rob = [], g_L = (\<lambda>_. []), g_ps = [0..<5000], g_U = (\<lambda>_. [])\<rparr>"

lemma q_rep_empty: "q_rep m (init_inst_queue c) [] \<and> q_tail (init_inst_queue c) []"
  by (simp add: q_rep_def q_tail_def init_inst_queue_def dlist_def)

lemma queues_ok_empty:
  assumes "pool_rep m ps" "\<And>n. \<exists>c. Q n = init_inst_queue c"
  shows "queues_ok m Q (\<lambda>_. []) ps (\<lambda>_. [])"
  by (rule queues_okI) (use assms q_rep_empty in \<open>auto simp: insts_of_def, metis+\<close>)

lemma init_filling:
  assumes c: "config_ok pm" and j: "\<And>a. arrays16 (junk a)"
  shows "\<exists>st. init_trace_analyzer pm (static_TA junk) = Some st \<and>
    filling (nat (core_config.rob_size (core pm))) empty_ghost (init_trace_buffer st)"
proof -
  obtain m where m: "init_inst_elem_pool (emem (static_TA junk)) = Some m" "pool_rep m [0..<5000]"
    using init_pool_rep [of "emem (static_TA junk)"] by (auto simp: static_TA_def)
  define st where "st = (static_TA junk)\<lparr>cfg_rob_capacity := core_config.rob_size (core pm), dispatch_width := frontend_width (core pm),
       issue_width := backend_width (core pm), wb_width := backend_width (core pm), commit_width := backend_width (core pm),
       latency_l1_hit := c_latency (il1 pm), latency_l1_miss := c_latency (ul2 pm), latency_l2_miss := mem_latency (mem pm)\<rparr>"
  define st1 where "st1 = init_all_inst_type_fu_type_map (init_all_inst_type (init_all_FUs pm (init_all_queues pm ((init_trace_statistics st)\<lparr>emem := m\<rparr>))))"
  have i: "init_trace_analyzer pm (static_TA junk) = Some st1"
    using m(1) by (simp add: init_trace_analyzer_def st1_def st_def init_trace_statistics_def)
  let ?st = "init_trace_buffer st1"
  note defs = st1_def st_def init_trace_buffer_def init_all_inst_type_fu_type_map_def init_all_inst_type_def init_all_FUs_def init_all_queues_def
    init_trace_statistics_def static_TA_def
  have "queues_ok m (queue_of ?st) (\<lambda>_. []) [0..<5000] (\<lambda>_. [])"
  proof (rule queues_ok_empty [OF m(2)])
    show "\<exists>c. queue_of ?st n = init_inst_queue c" for n by (cases n) (auto simp: defs)
  qed
  moreover have "unit_limits (fu ?st)"
    unfolding unit_limits_def
  proof
    fix t show "1 \<le> fu_capacity (fu ?st t) \<and> 1 \<le> fu_num_stage (fu ?st t)"
      using c by (cases t) (simp_all add: defs init_FU_def config_ok_def)
  qed
  moreover have "it_latency (inst_type ?st t) \<le> 20" for t by (cases t) (simp_all add: defs init_inst_type_def)
  moreover have "rob_holds (nat (core_config.rob_size (core pm))) 0 [] (rob ?st)"
    using c by (auto simp: defs rob_holds_def rob_init_def ring_list_def config_ok_def)
  ultimately have "filling (nat (core_config.rob_size (core pm))) empty_ghost ?st"
    using c j q_rep_empty unfolding filling_def limits_def empty_ghost_def
    by (auto simp: defs mat_dim_def config_ok_def init_inst_queue_def)
  then show ?thesis using i by blast
qed

section \<open>A run of the simulator\<close>

text \<open>
  The states the simulator's trace part can be in: after initialisation, calls that record, and
  analyses of what was recorded.
\<close>

inductive sim_state :: "perfmodel_config \<Rightarrow> (addr \<Rightarrow> Inst) \<Rightarrow> (rat \<Rightarrow> rat) \<Rightarrow> nat \<Rightarrow> BM \<Rightarrow> bool" for pm junk round64 z where
  sim_start: "init_trace_analyzer pm (static_TA junk) = Some t \<Longrightarrow>
    sim_state pm junk round64 z \<lparr>ta = init_trace_buffer t, on_the_fly_inst = None, fp = None\<rparr>"
| sim_record: "sim_state pm junk round64 z s \<Longrightarrow> record_event e s = Some (b, s') \<Longrightarrow> sim_state pm junk round64 z s'"
| sim_analyse: "sim_state pm junk round64 z s \<Longrightarrow> analysable z (ta s) \<Longrightarrow> trace_analysis round64 z 0 (ta s) = Some (lc, pen, t) \<Longrightarrow>
    sim_state pm junk round64 z (s\<lparr>ta := t\<rparr>)"

lemma analysis_ok:
  assumes f: "filling N g st" and a: "analysable z st"
  shows "\<exists>lc pen t g' n. trace_analysis round64 z 0 st = Some (lc, pen, t) \<and> filling N g' t \<and> g_U g' QTrace = [] \<and>
    num_committed_insts t = num_fetched_insts t \<and> cur_cycle t = of_nat n \<and> 0 < n \<and> n \<le> Suc ((27 + nat (latency_l1_miss st)) * buffered_parts z st)"
proof -
  note p = filling_pipe [OF f a]
  have "q_capacity (trace_buffer (analysis_start st)) = 1000001"
    using f by (simp add: filling_def analysis_start_def reset_all_FUs_def init_trace_statistics_def Let_def)
  then obtain g' t lc n where r: "trace_loop round64 z 0 0 0 (analysis_start st) = Some (lc, t)" "pipe z N g' t" "cur_cycle t = of_nat n"
    "0 < n" "n \<le> Suc (work z g (analysis_start st))" "g_rob g' = []" "g_U g' QTrace = []" "q_capacity (trace_buffer t) = 1000001"
    using trace_loop_ok [OF p(1,2), of round64 0 0 0] p(3) by auto
  have "trace_analysis round64 z 0 st = Some (lc, c_trunc (avg_mispred_penalty t), t)" using r(1) by (simp add: trace_analysis_start)
  then show ?thesis using pipe_filling [OF r(2,6,7,8)] r pipe_all_committed [OF r(2)] p(4) by (intro exI conjI) auto
qed

text \<open>The number of cycles that an analysis reports is not zero.\<close>

lemma analysis_cycles:
  assumes f: "filling N g st" and a: "analysable z st" and l: "latency_l1_miss st < 2 ^ 31"
  shows "\<exists>lc pen t g'. trace_analysis round64 z 0 st = Some (lc, pen, t) \<and> filling N g' t \<and> g_U g' QTrace = [] \<and>
    lc \<noteq> 0 \<and> latency_l1_miss t = latency_l1_miss st"
proof -
  obtain lc pen t g' n where r: "trace_analysis round64 z 0 st = Some (lc, pen, t)" "filling N g' t" "g_U g' QTrace = []"
    "num_committed_insts t = num_fetched_insts t" "cur_cycle t = of_nat n" "0 < n" "n \<le> Suc ((27 + nat (latency_l1_miss st)) * buffered_parts z st)"
    using analysis_ok [OF f a, of round64] by blast
  have "trace_loop round64 z 0 0 0 (analysis_start st) = Some (lc, t)" using r(1) by (auto simp: trace_analysis_start bind_eq_Some_conv)
  note c = trace_loop_counted [OF this]
  have "filling N g' t \<Longrightarrow> ROB.rob_size (rob t) = 0" for N g' t by (auto simp: filling_def rob_holds_def)
  then have "num_dispatched_insts t = num_fetched_insts t" using c f r(2,4)
    by (auto simp: counted_def backlog_def analysis_start_def reset_all_FUs_def init_trace_statistics_def Let_def)
  moreover have "(27 + nat (latency_l1_miss st)) * buffered_parts z st \<le> (27 + 2 ^ 31) * 1000001"
    using l a by (intro mult_le_mono) (auto simp: analysable_def)
  then have "n < 2 ^ 64" using r(7) by simp
  then have "cur_cycle t \<noteq> 0" using r(5,6) by (auto simp: word_of_nat_eq_0_iff dest: dvd_imp_le)
  moreover have "latency_l1_miss t = latency_l1_miss st" using c
    by (auto simp: counted_def analysis_start_def reset_all_FUs_def init_trace_statistics_def Let_def)
  ultimately show ?thesis using r c by blast
qed

lemma sim_state_filling:
  assumes "sim_state pm junk round64 z s" "config_ok pm" "\<And>a. arrays16 (junk a)"
  shows "\<exists>g. filling (nat (core_config.rob_size (core pm))) g (ta s)"
  using assms
proof induction
  case (sim_start t)
  then show ?case using init_filling [of pm junk] by auto
next
  case (sim_record s e b s')
  then show ?case using record_event_filling by blast
next
  case (sim_analyse s lc pen t)
  then obtain g where "filling (nat (core_config.rob_size (core pm))) g (ta s)" by blast
  from analysis_ok [OF this sim_analyse.hyps(2), of round64] sim_analyse.hyps(3) show ?case by auto
qed

lemma filling_empty: "filling N g st \<Longrightarrow> is_rob_empty (rob st) \<and> buffered st = g_U g QTrace"
  by (simp add: filling_def buffered_eq is_rob_empty_def rob_holds_def)

lemma filling_queues: "filling N g st \<Longrightarrow> g_U g QTrace = [] \<Longrightarrow> is_empty_queue (queue_of st n)"
proof -
  assume f: "filling N g st" "g_U g QTrace = []"
  then have Q: "queues_ok (emem st) (queue_of st) (g_L g) (g_ps g) (g_U g)" by (simp add: filling_def)
  have "g_U g n = []" using f by (cases "n = QTrace") (simp_all add: filling_def)
  then show ?thesis using queues_okD(1) [OF Q, of n] queues_ok_length [OF Q, of n] by (simp add: q_rep_def is_empty_queue_def)
qed

text \<open>
  C1: Every analysis ends. Take a configuration with a reorder buffer of 1 to 60 entries, positive
  widths, at least one integer and one multiplication unit, an issue queue size and a second-level
  latency that are not negative (\<open>config_ok\<close>), and any state that a simulator started with it
  reaches by recording and analysing. If every buffered instruction can be decoded and the buffer
  has room for the parts of its \<open>push\<close> and \<open>pop\<close> instructions (\<open>analysable\<close>), an analysis of the
  trace buffer without a cycle limit returns without a fault. It then has committed every
  fetched instruction and left the reorder buffer and all five queues empty: the trace buffer,
  the issue queue, the load and the store queue, and the queue of the instructions in the
  functional units. It has simulated at most \<open>27\<close> cycles and a second-level latency for each part,
  and one more.
\<close>

theorem analysis_commits_every_instruction:
  assumes "sim_state pm junk round64 z s" "config_ok pm" "\<And>a. arrays16 (junk a)" "analysable z (ta s)"
  shows "\<exists>lc pen t n. trace_analysis round64 z 0 (ta s) = Some (lc, pen, t) \<and> num_committed_insts t = num_fetched_insts t \<and>
    is_rob_empty (rob t) \<and> buffered t = [] \<and> is_empty_queue (trace_buffer t) \<and> is_empty_queue (IQ t) \<and>
    is_empty_queue (LDQ t) \<and> is_empty_queue (STQ t) \<and> is_empty_queue (FUBuffer t) \<and>
    cur_cycle t = of_nat n \<and> n \<le> 1 + (27 + nat (latency_l1_miss (ta s))) * buffered_parts z (ta s)"
proof -
  obtain g where g: "filling (nat (core_config.rob_size (core pm))) g (ta s)" using sim_state_filling [OF assms(1-3)] by blast
  obtain lc pen t g' n where r: "trace_analysis round64 z 0 (ta s) = Some (lc, pen, t)" "filling (nat (core_config.rob_size (core pm))) g' t"
    "g_U g' QTrace = []" "num_committed_insts t = num_fetched_insts t" "cur_cycle t = of_nat n"
    "n \<le> Suc ((27 + nat (latency_l1_miss (ta s))) * buffered_parts z (ta s))"
    using analysis_ok [OF g assms(4), of round64] by blast
  note q = filling_queues [OF r(2,3)]
  have "is_empty_queue (trace_buffer t)" "is_empty_queue (IQ t)" "is_empty_queue (LDQ t)" "is_empty_queue (STQ t)" "is_empty_queue (FUBuffer t)"
    using q [of QTrace] q [of QIssue] q [of QLoad] q [of QStore] q [of QUnits] by simp_all
  then show ?thesis using r filling_empty [OF r(2)] by (intro exI [of _ lc] exI [of _ pen] exI [of _ t] exI [of _ n]) simp
qed

section \<open>When recording faults\<close>

lemma push_bpred_iff: "filling N g (ta st) \<Longrightarrow> push_bpred c st = None \<longleftrightarrow> g_U g QTrace = []"
proof (cases "g_U g QTrace = []")
  case True
  assume f: "filling N g (ta st)"
  then show ?thesis using True filling_newest(1) [OF f] by (simp add: push_bpred_def Let_def load_def)
next
  case False
  assume f: "filling N g (ta st)"
  obtain e i where "load (elems (emem (ta st))) (newest (trace_buffer (ta st))) = Some e" "e_inst e = Some (last (g_U g QTrace))"
    "insts (ta st) (last (g_U g QTrace)) = Some i" using filling_newest(2) [OF f False] by blast
  then show ?thesis using False by (simp add: push_bpred_def Let_def upd_inst_in)
qed

lemma push_memaddr_ok:
  assumes f: "filling N g (ta st)" and u: "g_U g QTrace \<noteq> []" and i: "insts (ta st) (last (g_U g QTrace)) = Some i" "set_inst_eff_addr a m i = Some i'"
  shows "\<exists>st'. push_memaddr a m st = Some (True, st') \<and> ta st' = (ta st)\<lparr>insts := (insts (ta st))(last (g_U g QTrace) \<mapsto> i')\<rparr>"
proof -
  obtain e where e: "load (elems (emem (ta st))) (newest (trace_buffer (ta st))) = Some e" "e_inst e = Some (last (g_U g QTrace))"
    using filling_newest(2) [OF f u] by blast
  then show ?thesis using i by (simp add: push_memaddr_def Let_def upd_inst_in)
qed

lemma push_memaddr_iff:
  assumes f: "filling N g (ta st)"
  shows "push_memaddr a m st = None \<longleftrightarrow> g_U g QTrace = [] \<or>
    (let i = the (insts (ta st) (last (g_U g QTrace))) in i_num_eff_addr i < 0 \<or> int (length (i_eff_addr i)) \<le> i_num_eff_addr i)"
proof (cases "g_U g QTrace = []")
  case True
  then show ?thesis using filling_newest(1) [OF f] by (simp add: push_memaddr_def Let_def load_def)
next
  case False
  obtain e i where e: "load (elems (emem (ta st))) (newest (trace_buffer (ta st))) = Some e" "e_inst e = Some (last (g_U g QTrace))"
    "insts (ta st) (last (g_U g QTrace)) = Some i" using filling_newest(2) [OF f False] by blast
  have "push_memaddr a m st = None \<longleftrightarrow> set_inst_eff_addr a m i = None"
    using e by (cases "set_inst_eff_addr a m i") (simp_all add: push_memaddr_def Let_def upd_inst_in)
  also have "\<dots> \<longleftrightarrow> i_num_eff_addr i < 0 \<or> int (length (i_eff_addr i)) \<le> i_num_eff_addr i"
    by (auto simp: set_inst_eff_addr_def aset_def)
  finally show ?thesis using False e(3) by (simp add: Let_def)
qed

text \<open>
  C16: In every state of a run, recording an instruction never faults. Recording a branch outcome
  faults (by dereferencing the \<open>NULL\<close> pointer to the newest element) exactly when the trace buffer is
  empty, and recording an address faults exactly then or when the newest instruction has as
  many addresses as its array holds.
\<close>

theorem recording_faults_iff:
  assumes "sim_state pm junk round64 z s" "config_ok pm" "\<And>a. arrays16 (junk a)"
  shows "push_code sq pc code m s \<noteq> None \<and> (push_bpred c s = None \<longleftrightarrow> buffered (ta s) = []) \<and>
    (push_memaddr x m s = None \<longleftrightarrow> buffered (ta s) = [] \<or>
      (let i = the (insts (ta s) (last (buffered (ta s)))) in i_num_eff_addr i < 0 \<or> int (length (i_eff_addr i)) \<le> i_num_eff_addr i))"
proof -
  obtain g where g: "filling (nat (core_config.rob_size (core pm))) g (ta s)" using sim_state_filling [OF assms] by blast
  have b: "buffered (ta s) = g_U g QTrace" using filling_empty [OF g] by blast
  have "push_code sq pc code m s \<noteq> None" using push_code_ok [OF g, of sq pc code m] by auto
  then show ?thesis using push_bpred_iff [OF g, of c] push_memaddr_iff [OF g, of x m] unfolding b by blast
qed

section \<open>A concrete run\<close>

lemma sim_record_events:
  "sim_state pm junk round64 z s \<Longrightarrow> record_events es s = Some s' \<Longrightarrow> sim_state pm junk round64 z s'"
proof (induction es arbitrary: s)
  case (Cons e es)
  then obtain b s1 where "record_event e s = Some (b, s1)" "record_events es s1 = Some s'"
    by (auto simp: record_events_def bind_eq_Some_conv)
  then show ?case using Cons.IH [of s1] sim_record [OF Cons.prems(1)] by blast
qed (simp add: record_events_def)

lemma ready_iff: "ready z i \<longleftrightarrow> (case decode_inst z i of None \<Rightarrow> False | Some i' \<Rightarrow> decoded_ok i')"
  by (auto simp: ready_def split: option.splits)

text \<open>A \<open>push {r4, lr}\<close> with its two addresses and an addition, recorded right after the start.\<close>

definition demo_trace :: "trace_event list" where
  "demo_trace = [Code 0 8 0xE92D4010 L1Hit, Memaddr 16 L1Miss, Memaddr 20 L1Hit, Code 1 12 add_code L1Hit]"

definition demo_new :: "u32 \<Rightarrow> u32 \<Rightarrow> u32 \<Rightarrow> Inst" where
  "demo_new sq pc code = (init_inst demo_inst sq pc code)\<lparr>i_inst_cache_miss := L1Hit\<rparr>"

definition demo_push :: Inst where
  "demo_push = (demo_new 0 8 0xE92D4010)\<lparr>i_eff_addr := [16, 20, 7, 7, 7, 7, 7, 7, 7, 7, 7, 7, 7, 7, 7, 7], i_num_eff_addr := 2, i_cache_miss := L1Miss\<rparr>"

lemma demo_junk: "arrays16 demo_inst"
  by (simp add: arrays16_def demo_inst_def)

lemma demo_config_ok: "config_ok demo_config"
  by (simp add: config_ok_def demo_config_def demo_cache_config_def)

declare reglist_loop.simps [code] clear_run.simps [code] fill_run.simps [code]

lemma demo_push_ready: "(case decode_inst 32 demo_push of None \<Rightarrow> False | Some i' \<Rightarrow> decoded_ok i') \<and> expand 32 demo_push = 3"
  by code_simp

lemma demo_add_ready:
  "(case decode_inst 32 (demo_new 1 12 add_code) of None \<Rightarrow> False | Some i' \<Rightarrow> decoded_ok i') \<and> expand 32 (demo_new 1 12 add_code) = 1"
  by code_simp

lemma init_keeps:
  "init_trace_analyzer pm (static_TA junk) = Some t \<Longrightarrow> insts t = Map.empty \<and> inst_brk t = 0 \<and> inst_junk t = junk \<and> latency_l1_miss t = c_latency (ul2 pm)"
  by (auto simp: init_trace_analyzer_def bind_eq_Some_conv init_all_inst_type_fu_type_map_def init_all_inst_type_def init_all_FUs_def init_all_queues_def
      init_trace_statistics_def static_TA_def)

lemma filling_room: "filling N g st \<Longrightarrow> length (g_U g QTrace) < 1000001 \<Longrightarrow> \<not> is_full_queue (trace_buffer st)"
  using queues_ok_room [of "emem st" "queue_of st" "g_L g" "g_ps g" "g_U g" QTrace] by (simp add: filling_def)

lemma demo_recorded:
  assumes "init_trace_analyzer demo_config (static_TA (\<lambda>_. demo_inst)) = Some t" "filling 40 g0 (init_trace_buffer t)" "g_U g0 QTrace = []"
  shows "\<exists>g s. record_events demo_trace \<lparr>ta = init_trace_buffer t, on_the_fly_inst = None, fp = f\<rparr> = Some s \<and> filling 40 g (ta s) \<and>
    g_U g QTrace = [0, 1] \<and> insts (ta s) 0 = Some demo_push \<and> insts (ta s) 1 = Some (demo_new 1 12 add_code)"
proof -
  let ?s0 = "\<lparr>ta = init_trace_buffer t, on_the_fly_inst = None, fp = f\<rparr>"
  have k: "insts (ta ?s0) = Map.empty" "inst_brk (ta ?s0) = 0" "inst_junk (ta ?s0) = (\<lambda>_. demo_inst)"
    using init_keeps [OF assms(1)] by (simp_all add: init_trace_buffer_def)
  have f0: "filling 40 g0 (ta ?s0)" using assms(2) by simp
  obtain g1 s1 where 1: "push_code 0 8 0xE92D4010 L1Hit ?s0 = Some (True, s1)" "filling 40 g1 (ta s1)" "g_U g1 QTrace = [0]"
    "insts (ta s1) = [0 \<mapsto> demo_new 0 8 0xE92D4010]" "inst_brk (ta s1) = 1" "inst_junk (ta s1) = (\<lambda>_. demo_inst)"
    using push_code_ok [OF f0, of 0 8 "0xE92D4010" L1Hit] filling_room [OF f0] assms(3) unfolding new_inst_def k demo_new_def [symmetric] by auto
  let ?i1 = "(demo_new 0 8 0xE92D4010)\<lparr>i_eff_addr := 16 # replicate 15 7, i_num_eff_addr := 1, i_cache_miss := L1Miss\<rparr>"
  have e1: "set_inst_eff_addr 16 L1Miss (demo_new 0 8 0xE92D4010) = Some ?i1"
    by (simp add: set_inst_eff_addr_def demo_new_def init_inst_def demo_inst_def aset_def numeral_eq_Suc)
  have e2: "set_inst_eff_addr 20 L1Hit ?i1 = Some demo_push"
    by (simp add: set_inst_eff_addr_def demo_push_def demo_new_def init_inst_def demo_inst_def aset_def numeral_eq_Suc)
  obtain s2 where 2: "push_memaddr 16 L1Miss s1 = Some (True, s2)" "ta s2 = (ta s1)\<lparr>insts := (insts (ta s1))(0 \<mapsto> ?i1)\<rparr>"
    using push_memaddr_ok [OF 1(2), of "demo_new 0 8 0xE92D4010" 16 L1Miss ?i1] 1(3,4) e1 by auto
  have f2: "filling 40 g1 (ta s2)" using filling_set_inst [OF 1(2), of "Some 0" "\<lambda>_. ?i1"] 1(4) 2(2) by (simp add: upd_inst_in)
  obtain s3 where 3: "push_memaddr 20 L1Hit s2 = Some (True, s3)" "ta s3 = (ta s2)\<lparr>insts := (insts (ta s2))(0 \<mapsto> demo_push)\<rparr>"
    using push_memaddr_ok [OF f2, of ?i1 20 L1Hit demo_push] 1(3) 2(2) e2 by auto
  have f3: "filling 40 g1 (ta s3)" using filling_set_inst [OF f2, of "Some 0" "\<lambda>_. demo_push"] 2(2) 3(2) by (simp add: upd_inst_in)
  have k3: "inst_brk (ta s3) = 1" "inst_junk (ta s3) = (\<lambda>_. demo_inst)" using 1(5,6) 2(2) 3(2) by simp_all
  obtain g4 s4 where 4: "push_code 1 12 add_code L1Hit s3 = Some (True, s4)" "filling 40 g4 (ta s4)" "g_U g4 QTrace = [0, 1]"
    "insts (ta s4) = (insts (ta s3))(1 \<mapsto> demo_new 1 12 add_code)"
    using push_code_ok [OF f3, of 1 12 add_code L1Hit] filling_room [OF f3] 1(3) unfolding new_inst_def k3 demo_new_def [symmetric] by auto
  have "record_events demo_trace ?s0 = Some s4" using 1(1) 2(1) 3(1) 4(1) by (simp add: record_events_def demo_trace_def)
  moreover have "insts (ta s4) 0 = Some demo_push" using 4(4) 3(2) by simp
  ultimately show ?thesis using 4 by (intro exI [of _ g4] exI [of _ s4]) simp
qed

lemma demo_run:
  "\<exists>t s. init_trace_analyzer demo_config (static_TA (\<lambda>_. demo_inst)) = Some t \<and>
    record_events demo_trace \<lparr>ta = init_trace_buffer t, on_the_fly_inst = None, fp = None\<rparr> = Some s \<and>
    sim_state demo_config (\<lambda>_. demo_inst) id 32 s \<and> buffered (ta s) = [0, 1] \<and> analysable 32 (ta s) \<and> buffered_parts 32 (ta s) = 4"
proof -
  obtain t where t: "init_trace_analyzer demo_config (static_TA (\<lambda>_. demo_inst)) = Some t" "filling 40 empty_ghost (init_trace_buffer t)"
    using init_filling [OF demo_config_ok, of "\<lambda>_. demo_inst"] demo_junk by (auto simp: demo_config_def)
  have "g_U empty_ghost QTrace = []" by (simp add: empty_ghost_def)
  then obtain g s where s: "record_events demo_trace \<lparr>ta = init_trace_buffer t, on_the_fly_inst = None, fp = None\<rparr> = Some s" "filling 40 g (ta s)"
    "g_U g QTrace = [0, 1]" "insts (ta s) 0 = Some demo_push" "insts (ta s) 1 = Some (demo_new 1 12 add_code)"
    using demo_recorded [OF t, of None] by blast
  have b: "buffered (ta s) = [0, 1]" using filling_empty [OF s(2)] s(3) by simp
  then have p: "buffered_parts 32 (ta s) = 4" using s(4,5) demo_push_ready demo_add_ready by (simp add: buffered_parts_def)
  then have "analysable 32 (ta s)" using b s(4,5) demo_push_ready demo_add_ready by (simp add: analysable_def ready_iff)
  then show ?thesis using t s(1) b p sim_record_events [OF sim_start [OF t(1)] s(1)] by blast
qed

theorem analysis_commits_every_instruction_witness:
  "\<exists>t s lc pen t' n. init_trace_analyzer demo_config (static_TA (\<lambda>_. demo_inst)) = Some t \<and>
    record_events demo_trace \<lparr>ta = init_trace_buffer t, on_the_fly_inst = None, fp = None\<rparr> = Some s \<and> buffered (ta s) = [0, 1] \<and>
    trace_analysis id 32 0 (ta s) = Some (lc, pen, t') \<and> num_committed_insts t' = num_fetched_insts t' \<and> buffered t' = [] \<and>
    is_empty_queue (IQ t') \<and> is_empty_queue (FUBuffer t') \<and> cur_cycle t' = of_nat n \<and> n \<le> 1 + (27 + nat (latency_l1_miss (ta s))) * 4"
proof -
  obtain t s where s: "init_trace_analyzer demo_config (static_TA (\<lambda>_. demo_inst)) = Some t"
    "record_events demo_trace \<lparr>ta = init_trace_buffer t, on_the_fly_inst = None, fp = None\<rparr> = Some s"
    "sim_state demo_config (\<lambda>_. demo_inst) id 32 s" "buffered (ta s) = [0, 1]" "analysable 32 (ta s)" "buffered_parts 32 (ta s) = 4"
    using demo_run by (elim exE conjE)
  obtain lc pen t' n where "trace_analysis id 32 0 (ta s) = Some (lc, pen, t')" "num_committed_insts t' = num_fetched_insts t'" "buffered t' = []"
    "is_empty_queue (IQ t')" "is_empty_queue (FUBuffer t')" "cur_cycle t' = of_nat n" "n \<le> 1 + (27 + nat (latency_l1_miss (ta s))) * 4"
    using analysis_commits_every_instruction [OF s(3) demo_config_ok demo_junk s(5)] unfolding s(6) by (elim exE conjE)
  with s(1,2,4) show ?thesis by (intro exI conjI)
qed

theorem recording_faults_iff_witness:
  "\<exists>t. init_trace_analyzer demo_config (static_TA (\<lambda>_. demo_inst)) = Some t \<and>
    push_bpred True \<lparr>ta = init_trace_buffer t, on_the_fly_inst = None, fp = None\<rparr> = None \<and>
    (\<exists>s. record_events demo_trace \<lparr>ta = init_trace_buffer t, on_the_fly_inst = None, fp = None\<rparr> = Some s \<and> push_bpred True s \<noteq> None)"
proof -
  obtain t s where s: "init_trace_analyzer demo_config (static_TA (\<lambda>_. demo_inst)) = Some t"
    "record_events demo_trace \<lparr>ta = init_trace_buffer t, on_the_fly_inst = None, fp = None\<rparr> = Some s"
    "sim_state demo_config (\<lambda>_. demo_inst) id 32 s" "buffered (ta s) = [0, 1]"
    using demo_run by (elim exE conjE)
  let ?s0 = "\<lparr>ta = init_trace_buffer t, on_the_fly_inst = None, fp = None\<rparr>"
  have "buffered (ta ?s0) = []" by (simp add: buffered_def q_insts_def init_trace_buffer_def init_inst_queue_def insts_of_def)
  then have "push_bpred True ?s0 = None"
    using recording_faults_iff [OF sim_start [OF s(1), of id 32] demo_config_ok demo_junk, of 0 0 0 L1Hit True 0] by blast
  moreover have "push_bpred True s \<noteq> None"
    using recording_faults_iff [OF s(3) demo_config_ok demo_junk, of 0 0 0 L1Hit True 0] s(4) by simp
  ultimately show ?thesis using s(1,2) by (intro exI conjI)
qed

end
