(* ===== verification/Sampling.thy ===== *)
theory Sampling
  imports Perfmodel Pipeline_Start
begin

text \<open>
  The driver of the simulator: the helper functions in \<open>target-arm/op_helper.c\<close> that translated code calls for
  every instruction, branch and memory access, and the start and join of the analysis in
  \<open>trace_analyzer_thread_if.c\<close>, in the build with \<open>CONFIG_TIMING\<close> and \<open>CONFIG_SAMPLING\<close> and without \<open>CONFIG_HSIM\<close>.

  The analysis runs in a thread between \<open>trace_analyzer_thread_start\<close> and \<open>trace_analyzer_thread_end\<close>.
  It works on the trace buffer and the state of the analyzer, which the helper functions use only while
  \<open>is_sampled\<close> is set, and that is never the case between the two calls. So the model lets the analysis
  run at the start of its thread.
\<close>

section \<open>State\<close>

record Sim =
  pmodel :: PM
  caches :: cachesim_state
  bp :: bpred_t
  bm :: BM
  num_sampled_inst :: int
  is_sampled :: bool
  previous_pc :: u32
  cur_PC :: u32
  is_branch :: bool
  is_cond :: u32
  num_thread :: int
  arg_cycle :: u64
  arg_bpred_penalty :: int

text \<open>What the uninitialised local variables of a call hold, and the value of \<open>rand()\<close>.\<close>

record locals =
  l_hist :: BPHistory
  l_miss :: CacheMissType
  l_rand :: int

definition static_Sim :: "(addr \<Rightarrow> Inst) \<Rightarrow> PM \<times> cachesim_state \<times> bpred_t \<Rightarrow> Sim" where
  "static_Sim junk p = \<lparr>pmodel = fst p, caches = fst (snd p), bp = snd (snd p),
     bm = \<lparr>ta = static_TA junk, on_the_fly_inst = None, fp = None\<rparr>, num_sampled_inst = 0, is_sampled = False, previous_pc = 0,
     cur_PC = 0, is_branch = False, is_cond = 0, num_thread = 0, arg_cycle = 0, arg_bpred_penalty = 0\<rparr>"

section \<open>The analysis thread\<close>

definition trace_analyzer_thread_start :: "(rat \<Rightarrow> rat) \<Rightarrow> nat \<Rightarrow> Sim \<Rightarrow> Sim option" where
  "trace_analyzer_thread_start round64 z s = do {
     let s = s\<lparr>num_thread := num_thread s + 1\<rparr>;
     (cycle, penalty, t) \<leftarrow> trace_analysis round64 z 0 (ta (bm s));
     Some (s\<lparr>bm := (bm s)\<lparr>ta := t\<rparr>, arg_cycle := cycle, arg_bpred_penalty := penalty\<rparr>) }"

definition trace_analyzer_thread_end :: "u64 \<Rightarrow> int \<Rightarrow> Sim \<Rightarrow> u64 \<times> int \<times> Sim" where
  "trace_analyzer_thread_end cycle penalty s =
     (if num_thread s \<noteq> 0 then (arg_cycle s, arg_bpred_penalty s, s\<lparr>num_thread := num_thread s - 1\<rparr>) else (cycle, penalty, s))"

section \<open>Memory accesses and branches\<close>

definition dcache_access :: "perfmodel_config \<Rightarrow> (rat \<Rightarrow> rat) \<Rightarrow> locals \<Rightarrow> u32 \<Rightarrow> bool \<Rightarrow> Sim \<Rightarrow> (bool \<times> Sim) option" where
  "dcache_access pm round64 v a is_write s = do {
     t \<leftarrow> perfmodel_getSimpleCycle round64 (caches s) (bp s) (pmodel s);
     (miss_type, c) \<leftarrow> cachesim_daccess False pm (l_miss v) (l_rand v) t a is_write (caches s);
     let s = s\<lparr>caches := c\<rparr>;
     s \<leftarrow> (if is_sampled s then do { (_, b) \<leftarrow> push_memaddr a miss_type (bm s); Some (s\<lparr>bm := b\<rparr>) } else Some s);
     Some (miss_type = L1Hit, s) }"

definition icache_access :: "perfmodel_config \<Rightarrow> (rat \<Rightarrow> rat) \<Rightarrow> locals \<Rightarrow> u32 \<Rightarrow> Sim \<Rightarrow> (CacheMissType \<times> Sim) option" where
  "icache_access pm round64 v a s = do {
     t \<leftarrow> perfmodel_getSimpleCycle round64 (caches s) (bp s) (pmodel s);
     (miss_type, c) \<leftarrow> cachesim_iaccess False pm (l_miss v) (l_rand v) t a (caches s);
     Some (miss_type, s\<lparr>caches := c\<rparr>) }"

definition set_branch_inst :: "u32 \<Rightarrow> Sim \<Rightarrow> Sim" where
  "set_branch_inst c s = s\<lparr>is_branch := True, is_cond := c\<rparr>"

section \<open>Instructions\<close>

definition sample_start :: "Sim \<Rightarrow> Sim" where
  "sample_start s = (let (p, b) = perfmodel_sample_start (caches s) (bp s) (pmodel s) (bm s) in s\<lparr>pmodel := p, bm := b\<rparr>)"

definition sample_end :: "Sim \<Rightarrow> Sim option" where
  "sample_end s = do { (p, b) \<leftarrow> perfmodel_sample_end (caches s) (bp s) (pmodel s) (bm s); Some (s\<lparr>pmodel := p, bm := b\<rparr>) }"

text \<open>The parts of \<open>inst_increment\<close>, in its order.\<close>

definition resolve_branch :: "locals \<Rightarrow> u32 \<Rightarrow> Sim \<Rightarrow> Sim option" where
  "resolve_branch v pc s =
     (if is_branch s then
        (let (correct, p) = bpredsim_access (l_hist v) (bp s) (cur_PC s) pc (is_cond s \<noteq> 0);
             s = s\<lparr>bp := p\<rparr>
         in do {
           s \<leftarrow> (if is_sampled s \<and> is_cond s \<noteq> 0 then do { (_, b) \<leftarrow> push_bpred correct (bm s); Some (s\<lparr>bm := b\<rparr>) } else Some s);
           Some (s\<lparr>is_branch := False\<rparr>) })
      else Some s)"

definition fetch_line :: "perfmodel_config \<Rightarrow> (rat \<Rightarrow> rat) \<Rightarrow> locals \<Rightarrow> u32 \<Rightarrow> Sim \<Rightarrow> (CacheMissType \<times> Sim) option" where
  "fetch_line pm round64 v pc s =
     (let line = and pc (not 63) in
      if previous_pc s \<noteq> line then do {
        (miss_type, s) \<leftarrow> icache_access pm round64 v pc s;
        Some (miss_type, s\<lparr>previous_pc := line\<rparr>) }
      else Some (L1Hit, s))"

definition first_sample :: "perfmodel_config \<Rightarrow> Sim \<Rightarrow> Sim option" where
  "first_sample pm s =
     (if num_insts (pmodel s) = 0 then do {
        t \<leftarrow> init_trace_analyzer pm (ta (bm s));
        Some (sample_start (s\<lparr>bm := (bm s)\<lparr>ta := init_trace_buffer t\<rparr>, is_sampled := True\<rparr>)) }
      else Some s)"

definition end_sample :: "perfmodel_config \<Rightarrow> (rat \<Rightarrow> rat) \<Rightarrow> nat \<Rightarrow> Sim \<Rightarrow> Sim option" where
  "end_sample pm round64 z s =
     (if num_sampled_inst s = sample_length (sample pm) then do {
        s \<leftarrow> sample_end (s\<lparr>is_sampled := False\<rparr>);
        s \<leftarrow> trace_analyzer_thread_start round64 z s;
        Some (s\<lparr>num_sampled_inst := 0\<rparr>) }
      else Some s)"

text \<open>The remainder of a division by zero is undefined.\<close>

definition next_sample :: "perfmodel_config \<Rightarrow> (rat \<Rightarrow> rat) \<Rightarrow> Sim \<Rightarrow> Sim option" where
  "next_sample pm round64 s =
     (let n = num_insts (pmodel s); period = word_of_int (default_period (sample pm)) in
      if n = 0 then Some s
      else if period = 0 then None
      else if n mod period = 0 then
        (let (cycle, penalty, s) = trace_analyzer_thread_end 0 0 s in do {
           p \<leftarrow> perfmodel_update round64 cycle penalty (pmodel s);
           Some (sample_start (s\<lparr>pmodel := p, is_sampled := True\<rparr>)) })
      else Some s)"

definition record_inst :: "u32 \<Rightarrow> u32 \<Rightarrow> CacheMissType \<Rightarrow> Sim \<Rightarrow> Sim option" where
  "record_inst pc code miss_type s =
     (if is_sampled s then do {
        (_, b) \<leftarrow> push_code (word_of_int (num_sampled_inst s)) pc code miss_type (bm s);
        Some (s\<lparr>bm := b, num_sampled_inst := num_sampled_inst s + 1\<rparr>) }
      else Some s)"

text \<open>\<open>code\<close> is the word that \<open>get_inst_byte\<close> reads from the guest's memory at \<open>pc\<close>.\<close>

definition inst_increment :: "perfmodel_config \<Rightarrow> (rat \<Rightarrow> rat) \<Rightarrow> nat \<Rightarrow> locals \<Rightarrow> u32 \<Rightarrow> u32 \<Rightarrow> Sim \<Rightarrow> Sim option" where
  "inst_increment pm round64 z v pc code s = do {
     s \<leftarrow> resolve_branch v pc s;
     (miss_type, s) \<leftarrow> fetch_line pm round64 v pc (s\<lparr>cur_PC := pc\<rparr>);
     s \<leftarrow> first_sample pm s;
     s \<leftarrow> end_sample pm round64 z s;
     s \<leftarrow> next_sample pm round64 s;
     s \<leftarrow> record_inst pc code miss_type s;
     Some (s\<lparr>pmodel := (pmodel s)\<lparr>num_insts := num_insts (pmodel s) + 1\<rparr>\<rparr>) }"

section \<open>The end of the program\<close>

definition perfmodel_sample_wrapup :: "(rat \<Rightarrow> rat) \<Rightarrow> nat \<Rightarrow> Sim \<Rightarrow> Sim option" where
  "perfmodel_sample_wrapup round64 z s =
     (if is_sampled s then do {
        s \<leftarrow> sample_end s;
        s \<leftarrow> trace_analyzer_thread_start round64 z s;
        let (cycle, penalty, s) = trace_analyzer_thread_end 0 0 s;
        p \<leftarrow> perfmodel_update round64 cycle penalty (pmodel s);
        Some (s\<lparr>pmodel := p\<rparr>) }
      else Some s)"

text \<open>What \<open>gdb_exit\<close> prints: the instructions and the estimated cycles.\<close>

definition gdb_exit :: "(rat \<Rightarrow> rat) \<Rightarrow> nat \<Rightarrow> Sim \<Rightarrow> (u64 \<times> u64) option" where
  "gdb_exit round64 z s = do {
     s \<leftarrow> perfmodel_sample_wrapup round64 z s;
     c \<leftarrow> perfmodel_getCycle round64 (caches s) (bp s) (pmodel s);
     _ \<leftarrow> perfmodel_end (caches s);
     Some (num_insts (pmodel s), c) }"

section \<open>Runs\<close>

text \<open>The calls of translated code, and what they rely on.\<close>

datatype guest_call = Inst_increment u32 u32 | Set_branch u32 | Dcache u32 bool

fun guest_step :: "perfmodel_config \<Rightarrow> (rat \<Rightarrow> rat) \<Rightarrow> nat \<Rightarrow> locals \<Rightarrow> guest_call \<Rightarrow> Sim \<Rightarrow> Sim option" where
  "guest_step pm round64 z v (Inst_increment pc code) s = inst_increment pm round64 z v pc code s"
| "guest_step pm round64 z v (Set_branch c) s = Some (set_branch_inst c s)"
| "guest_step pm round64 z v (Dcache a w) s = map_option snd (dcache_access pm round64 v a w s)"

end
