(* ===== verification/Sampling_Safe.thy ===== *)
theory Sampling_Safe
  imports Sampling
begin

text \<open>
  The driver is safe: from the start of the program on, no call of translated code makes the
  simulator fault, samples are taken at the configured distance, and the analysis of each
  ends and corrects the model.
\<close>

section \<open>The outcome of a branch does not matter for decoding\<close>

abbreviation mispred :: "bool \<Rightarrow> Inst \<Rightarrow> Inst" where
  "mispred b i \<equiv> i\<lparr>i_bpred_mispred := b\<rparr>"

lemma ofold_commute:
  assumes "\<And>x i. f x (u i) = map_option u (f x i)"
  shows "ofold f xs (u i) = map_option u (ofold f xs i)"
proof (induction xs arbitrary: i)
  case (Cons x xs)
  then show ?case by (cases "f x i") (simp_all add: assms)
qed simp

lemma bind_commute: "(\<And>x. f (u x) = map_option u (g x)) \<Longrightarrow> Option.bind (map_option u m) f = map_option u (Option.bind m g)"
  by (cases m) simp_all

lemma add_reg_mispred:
  "add_src_reg r (mispred b i) = map_option (mispred b) (add_src_reg r i)"
  "add_dst_reg r (mispred b i) = map_option (mispred b) (add_dst_reg r i)"
  by (cases "aset (i_src_reg i) (i_num_src_reg i) r", simp_all add: add_src_reg_def)
    (cases "aset (i_dst_reg i) (i_num_dst_reg i) r", simp_all add: add_dst_reg_def)

lemma opt_reg_mispred:
  "opt_reg add_src_reg r (mispred b i) = map_option (mispred b) (opt_reg add_src_reg r i)"
  "opt_reg add_dst_reg r (mispred b i) = map_option (mispred b) (opt_reg add_dst_reg r i)"
  by (simp_all add: opt_reg_def add_reg_mispred)

lemma init_regs_mispred: "init_inst_src_dst_reg z d (mispred b i) = map_option (mispred b) (init_inst_src_dst_reg z d i)"
proof (cases "darm_reglist2 z (d_reglist d)")
  case (Some x)
  obtain n regs where x: "x = (n, regs)" by fastforce
  note [simp] = add_reg_mispred opt_reg_mispred ofold_commute [where f = add_src_reg and u = "mispred b", OF add_reg_mispred(1)]
    ofold_commute [where f = add_dst_reg and u = "mispred b", OF add_reg_mispred(2)]
  let ?i = "i\<lparr>i_src_reg := replicate 16 (- 1), i_dst_reg := replicate 16 (- 1)\<rparr>"
  have e: "(mispred b i)\<lparr>i_src_reg := replicate 16 (- 1), i_dst_reg := replicate 16 (- 1)\<rparr> = mispred b ?i" by simp
  show ?thesis
    unfolding init_inst_src_dst_reg_def Some x Option.bind.simps Let_def prod.case e
    by (cases "i_type i = MemRead \<or> i_type i = Pop"; cases "i_type i = MemWrite \<or> i_type i = Push")
      (auto intro!: bind_commute)
qed (simp add: init_inst_src_dst_reg_def)

lemma decode_class_mispred: "decode_class d (mispred b i) = mispred b (decode_class d i)"
  unfolding decode_class_def Let_def
  by (cases "d_instr d = I_POP \<or> d_instr d = I_PUSH"; cases "d_instr d \<in> {I_TST, I_TEQ, I_CMP, I_CMN}";
      cases "d_instr d \<in> {I_ASR, I_LSL, I_LSR, I_ROR, I_RRX}") (simp_all only: if_True if_False, simp_all)

lemma decode_flags_mispred: "decode_flags d (mispred b i) = mispred b (decode_flags d i)"
  unfolding decode_flags_def Let_def by (cases "d_S d \<noteq> B_INVLD"; cases "d_shift d \<noteq> 0") (simp_all only: if_True if_False, simp_all)

lemma decode_mispred: "decode_inst z (mispred b i) = map_option (mispred b) (decode_inst z i)"
proof (cases "i_decoded i \<or> darm_armv7_disasm (i_code i) = None")
  case True
  then show ?thesis by (auto simp: decode_inst_def)
next
  case False
  then obtain r d where d: "\<not> i_decoded i" "darm_armv7_disasm (i_code i) = Some (r, d)" by auto
  have e: "decode_class d (decode_flags d (mispred b i)) = mispred b (decode_class d (decode_flags d i))"
    by (simp only: decode_flags_mispred decode_class_mispred)
  define j where "j = decode_class d (decode_flags d i)"
  have t: "i_type (mispred b j) = i_type j" by simp
  have 1: "decode_inst z i = do { j \<leftarrow> (if i_type j \<noteq> Unsupported then init_inst_src_dst_reg z d j else Some j); Some (j\<lparr>i_decoded := True, i_imm := sint (d_imm d)\<rparr>) }"
    using d by (simp add: decode_inst_def j_def Let_def)
  have 2: "decode_inst z (mispred b i) = do { j \<leftarrow> (if i_type j \<noteq> Unsupported then map_option (mispred b) (init_inst_src_dst_reg z d j) else Some (mispred b j));
      Some (j\<lparr>i_decoded := True, i_imm := sint (d_imm d)\<rparr>) }"
    using d by (simp add: decode_inst_def e j_def [symmetric] init_regs_mispred Let_def t)
  show ?thesis unfolding 1 2 by (cases "i_type j = Unsupported"; cases "init_inst_src_dst_reg z d j") simp_all
qed

lemma ready_mispred: "ready z (mispred b i) \<longleftrightarrow> ready z i" and expand_mispred: "expand z (mispred b i) = expand z i"
proof -
  have "decoded_ok (mispred b i) \<longleftrightarrow> decoded_ok i" for i by (simp add: decoded_ok_def inst_fit_def regs_fit_def addrs_fit_def dst_set_def)
  then show "ready z (mispred b i) \<longleftrightarrow> ready z i" by (auto simp: ready_def decode_mispred)
  show "expand z (mispred b i) = expand z i" by (cases "decode_inst z i") (simp_all add: expand_def decode_mispred)
qed

section \<open>The trace buffer between two calls\<close>

definition traced :: "perfmodel_config \<Rightarrow> bool \<Rightarrow> BM \<Rightarrow> bool" where
  "traced pm nonempty b \<longleftrightarrow> latency_l1_miss (ta b) = c_latency (ul2 pm) \<and>
     (\<exists>g. filling (nat (core_config.rob_size (core pm))) g (ta b) \<and> (nonempty \<longrightarrow> g_U g QTrace \<noteq> []))"

lemma traced_weaken: "traced pm x b \<Longrightarrow> traced pm False b"
  by (auto simp: traced_def)

lemma traced_ta: "ta b' = ta b \<Longrightarrow> traced pm x b' = traced pm x b"
  by (simp add: traced_def)

lemma analysable_set_inst:
  assumes f: "filling N g st" and i: "insts st p = Some i" "ready z i' \<longleftrightarrow> ready z i" "expand z i' = expand z i"
  shows "analysable z (st\<lparr>insts := (insts st)(p \<mapsto> i')\<rparr>) \<longleftrightarrow> analysable z st"
proof -
  have b: "buffered (st\<lparr>insts := (insts st)(p \<mapsto> i')\<rparr>) = buffered st" by (simp add: buffered_def)
  have "(\<Sum>q\<leftarrow>buffered st. expand z (the (((insts st)(p \<mapsto> i')) q))) = (\<Sum>q\<leftarrow>buffered st. expand z (the (insts st q)))"
    using i(1,3) by (intro arg_cong [where f = sum_list] map_cong) auto
  moreover have "ready z (the (((insts st)(p \<mapsto> i')) q)) \<longleftrightarrow> ready z (the (insts st q))" for q using i(1,2) by simp
  ultimately show ?thesis unfolding analysable_def buffered_parts_def b by simp
qed

lemma push_bpred_traced:
  assumes "traced pm True b"
  shows "\<exists>x b'. push_bpred c b = Some (x, b') \<and> traced pm True b' \<and> analysable z (ta b') = analysable z (ta b)"
proof -
  obtain g where g: "filling (nat (core_config.rob_size (core pm))) g (ta b)" "g_U g QTrace \<noteq> []" and l: "latency_l1_miss (ta b) = c_latency (ul2 pm)"
    using assms by (auto simp: traced_def)
  obtain e i where e: "load (elems (emem (ta b))) (newest (trace_buffer (ta b))) = Some e" "e_inst e = Some (last (g_U g QTrace))"
    "insts (ta b) (last (g_U g QTrace)) = Some i" using filling_newest(2) [OF g] by blast
  let ?t = "(ta b)\<lparr>insts := (insts (ta b))(last (g_U g QTrace) \<mapsto> mispred (\<not> c) i)\<rparr>"
  have u: "upd_inst (Some (last (g_U g QTrace))) (set_inst_bpred_mispred (\<not> c)) (ta b) = Some ?t"
    using e(3) by (simp add: upd_inst_in set_inst_bpred_mispred_def)
  obtain b' where b': "push_bpred c b = Some (True, b')" "ta b' = ?t"
    using e u by (simp add: push_bpred_def Let_def)
  have "filling (nat (core_config.rob_size (core pm))) g ?t" using filling_set_inst [OF g(1) u] .
  then have "traced pm True b'" using b'(2) g(2) l by (auto simp: traced_def)
  moreover have "analysable z (ta b') = analysable z (ta b)"
    unfolding b'(2) by (rule analysable_set_inst [OF g(1) e(3) ready_mispred expand_mispred])
  ultimately show ?thesis using b'(1) by blast
qed

lemma push_memaddr_traced:
  assumes "traced pm True b"
    and i: "let i = the (insts (ta b) (last (buffered (ta b)))) in 0 \<le> i_num_eff_addr i \<and> i_num_eff_addr i < int (length (i_eff_addr i))"
  shows "\<exists>x b'. push_memaddr a m b = Some (x, b') \<and> traced pm True b'"
proof -
  obtain g where g: "filling (nat (core_config.rob_size (core pm))) g (ta b)" "g_U g QTrace \<noteq> []" and l: "latency_l1_miss (ta b) = c_latency (ul2 pm)"
    using assms(1) by (auto simp: traced_def)
  obtain j where j: "insts (ta b) (last (g_U g QTrace)) = Some j" using filling_newest(2) [OF g] by blast
  have bu: "buffered (ta b) = g_U g QTrace" using filling_empty [OF g(1)] by blast
  then obtain j' where j': "set_inst_eff_addr a m j = Some j'" using i j by (auto simp: Let_def set_inst_eff_addr_def aset_def)
  obtain x b' where b': "push_memaddr a m b = Some (x, b')" "ta b' = (ta b)\<lparr>insts := (insts (ta b))(last (g_U g QTrace) \<mapsto> j')\<rparr>"
    using push_memaddr_ok [OF g(1,2) j j'] by blast
  have "upd_inst (Some (last (g_U g QTrace))) (\<lambda>_. j') (ta b) = Some (ta b')" using j b'(2) by (simp add: upd_inst_in)
  from filling_set_inst [OF g(1) this] show ?thesis using b' g(2) l by (auto simp: traced_def)
qed

lemma push_code_traced:
  assumes "traced pm x b"
  shows "\<exists>y b'. push_code sq pc code m b = Some (y, b') \<and> traced pm True b'"
proof -
  obtain g where g: "filling (nat (core_config.rob_size (core pm))) g (ta b)" and l: "latency_l1_miss (ta b) = c_latency (ul2 pm)"
    using assms by (auto simp: traced_def)
  obtain y g' b' where b': "push_code sq pc code m b = Some (y, b')" "filling (nat (core_config.rob_size (core pm))) g' (ta b')"
    "y = (\<not> is_full_queue (trace_buffer (ta b)))" "g_U g' QTrace = g_U g QTrace @ (if y then [inst_brk (ta b)] else [])"
    using push_code_ok [OF g, of sq pc code m] by blast
  have "g_U g' QTrace \<noteq> []" using b'(3,4) filling_room [OF g] by (cases "g_U g QTrace") auto
  moreover have "latency_l1_miss (ta b') = latency_l1_miss (ta b)"
    using b'(1) unfolding push_code_def malloc_inst_def Let_def prod.case
    by (auto simp: bind_eq_Some_conv upd_inst_def log_line_def split: if_splits option.splits)
  ultimately show ?thesis using b'(1,2) l by (auto simp: traced_def)
qed

lemma analysis_traced:
  assumes "traced pm x b" "analysable z (ta b)" "c_latency (ul2 pm) < 2 ^ 31"
  shows "\<exists>lc pen t. trace_analysis r z 0 (ta b) = Some (lc, pen, t) \<and> lc \<noteq> 0 \<and> traced pm False (b\<lparr>ta := t\<rparr>)"
proof -
  obtain g where "filling (nat (core_config.rob_size (core pm))) g (ta b)" and l: "latency_l1_miss (ta b) = c_latency (ul2 pm)"
    using assms(1) by (auto simp: traced_def)
  from analysis_cycles [OF this(1) assms(2), of r] show ?thesis using l assms(3) by (auto simp: traced_def)
qed

lemma init_traced:
  assumes "config_ok pm" "\<And>a. arrays16 (junk a)"
  shows "\<exists>t. init_trace_analyzer pm (static_TA junk) = Some t \<and> traced pm False (b\<lparr>ta := init_trace_buffer t\<rparr>)"
proof -
  obtain t where t: "init_trace_analyzer pm (static_TA junk) = Some t" "filling (nat (core_config.rob_size (core pm))) empty_ghost (init_trace_buffer t)"
    using init_filling [OF assms(1), of junk] assms(2) by blast
  then show ?thesis using init_keeps [OF t(1)] by (auto simp: traced_def init_trace_buffer_def)
qed

section \<open>What holds between two calls\<close>

text \<open>The configurations with which sampling works.\<close>

definition sampling_ok :: "perfmodel_config \<Rightarrow> bool" where
  "sampling_ok pm \<longleftrightarrow> config_ok pm \<and> hier_geom_ok pm \<and> 0 < sample_length (sample pm) \<and>
     sample_length (sample pm) \<le> default_period (sample pm) \<and> default_period (sample pm) < 2 ^ 31 \<and>
     0 < initial_effective_dispatch_width (sample pm) \<and> c_latency (ul2 pm) < 2 ^ 31"

abbreviation sample_len :: "perfmodel_config \<Rightarrow> nat" where
  "sample_len pm \<equiv> nat (sample_length (sample pm))"

abbreviation period :: "perfmodel_config \<Rightarrow> nat" where
  "period pm \<equiv> nat (default_period (sample pm))"

abbreviation insts_done :: "Sim \<Rightarrow> nat" where
  "insts_done s \<equiv> unat (num_insts (pmodel s))"

definition model_ok :: "Sim \<Rightarrow> bool" where
  "model_ok s \<longleftrightarrow> hier_wf (caches s) \<and> sum_ok (pmodel s) \<and> 0 < effective_dispatch_width (pmodel s) \<and> \<not> enable_save_files (pmodel s)"

text \<open>The position in the period: a sample is being taken, or its analysis is under way or done.\<close>

definition in_sample :: "nat \<Rightarrow> Sim \<Rightarrow> bool" where
  "in_sample m s \<longleftrightarrow> is_sampled s \<and> num_sampled_inst s = int m \<and> num_thread s = 0 \<and>
     ss_num_insts (sample_stat (pmodel s)) = as_int (of_nat (insts_done s - m))"

definition off_sample :: "perfmodel_config \<Rightarrow> Sim \<Rightarrow> bool" where
  "off_sample pm s \<longleftrightarrow> \<not> is_sampled s \<and> num_sampled_inst s = 0 \<and> num_thread s = 1 \<and> arg_cycle s \<noteq> 0 \<and>
     ss_num_insts (sample_stat (pmodel s)) = sample_length (sample pm)"

definition tq_inv :: "perfmodel_config \<Rightarrow> (addr \<Rightarrow> Inst) \<Rightarrow> Sim \<Rightarrow> bool" where
  "tq_inv pm junk s \<longleftrightarrow> model_ok s \<and>
     (if insts_done s = 0
      then num_sampling (pmodel s) = 0 \<and> \<not> is_sampled s \<and> num_sampled_inst s = 0 \<and> num_thread s = 0 \<and> ta (bm s) = static_TA junk
      else num_sampling (pmodel s) = int ((insts_done s - 1) div period pm) \<and> traced pm (is_sampled s) (bm s) \<and>
        (let m = (insts_done s - 1) mod period pm in if m < sample_len pm then in_sample (Suc m) s else off_sample pm s))"

section \<open>The parts of a call\<close>

lemma getSimpleCycle_ok: "model_ok s \<Longrightarrow> \<exists>t. perfmodel_getSimpleCycle r (caches s) (bp s) (pmodel s) = Some t"
  by (simp add: model_ok_def perfmodel_getSimpleCycle_def inst_cycles_def Let_def)

lemma getCycle_ok: "model_ok s \<Longrightarrow> \<exists>t. perfmodel_getCycle r (caches s) (bp s) (pmodel s) = Some t"
  by (simp add: model_ok_def perfmodel_getCycle_def inst_cycles_def Let_def)

text \<open>The parts of a state that sampling is about.\<close>

definition same_sampling :: "Sim \<Rightarrow> Sim \<Rightarrow> bool" where
  "same_sampling s s' \<longleftrightarrow> pmodel s' = pmodel s \<and> is_sampled s' = is_sampled s \<and> num_sampled_inst s' = num_sampled_inst s \<and>
     num_thread s' = num_thread s \<and> arg_cycle s' = arg_cycle s"

lemma tq_inv_same:
  assumes "tq_inv pm junk s" "same_sampling s s'" "hier_wf (caches s')" "insts_done s = 0 \<Longrightarrow> ta (bm s') = ta (bm s)"
    "insts_done s \<noteq> 0 \<Longrightarrow> traced pm (is_sampled s) (bm s')"
  shows "tq_inv pm junk s'"
  using assms unfolding tq_inv_def same_sampling_def in_sample_def off_sample_def model_ok_def
  by (cases "insts_done s = 0") (simp_all add: Let_def)

lemma tq_inv_traced: "tq_inv pm junk s \<Longrightarrow> is_sampled s \<Longrightarrow> insts_done s \<noteq> 0 \<and> traced pm True (bm s)"
  by (auto simp: tq_inv_def split: if_splits)

lemma resolve_branch_ok:
  assumes "tq_inv pm junk s"
  shows "\<exists>s'. resolve_branch v pc s = Some s' \<and> tq_inv pm junk s' \<and> same_sampling s s' \<and> analysable z (ta (bm s')) = analysable z (ta (bm s))"
proof (cases "is_branch s \<and> is_sampled s \<and> is_cond s \<noteq> 0")
  case True
  obtain c p where c: "bpredsim_access (l_hist v) (bp s) (cur_PC s) pc (is_cond s \<noteq> 0) = (c, p)" by fastforce
  obtain x b where b: "push_bpred c (bm s) = Some (x, b)" "traced pm True b" "analysable z (ta b) = analysable z (ta (bm s))"
    using push_bpred_traced tq_inv_traced [OF assms] True by blast
  let ?s = "s\<lparr>bp := p, bm := b, is_branch := False\<rparr>"
  have "same_sampling s ?s" by (simp add: same_sampling_def)
  moreover from this have "tq_inv pm junk ?s"
    by (rule tq_inv_same [OF assms]) (use b(2) True tq_inv_traced [OF assms] assms in \<open>auto simp: tq_inv_def model_ok_def\<close>)
  ultimately show ?thesis using True c b by (simp add: resolve_branch_def)
next
  case False
  let ?p = "snd (bpredsim_access (l_hist v) (bp s) (cur_PC s) pc (is_cond s \<noteq> 0))"
  let ?s = "if is_branch s then s\<lparr>bp := ?p, is_branch := False\<rparr> else s"
  have "resolve_branch v pc s = Some ?s" using False by (auto simp: resolve_branch_def split: prod.splits)
  moreover have s: "same_sampling s ?s" by (simp add: same_sampling_def)
  moreover have "tq_inv pm junk ?s"
    by (rule tq_inv_same [OF assms s]) (use assms in \<open>auto simp: tq_inv_def model_ok_def\<close>)
  ultimately show ?thesis by simp
qed

lemma fetch_line_ok:
  assumes "tq_inv pm junk s"
  shows "\<exists>m s'. fetch_line pm r v pc s = Some (m, s') \<and> tq_inv pm junk s' \<and> same_sampling s s' \<and> bm s' = bm s"
proof (cases "previous_pc s = and pc (not 63)")
  case False
  have ok: "model_ok s" using assms by (simp add: tq_inv_def)
  obtain t where t: "perfmodel_getSimpleCycle r (caches s) (bp s) (pmodel s) = Some t" using getSimpleCycle_ok [OF ok] by blast
  obtain m c where c: "cachesim_iaccess False pm (l_miss v) (l_rand v) t pc (caches s) = Some (m, c)" "hier_wf c"
    using cachesim_iaccess_wf [of "caches s"] ok unfolding model_ok_def by blast
  let ?s = "s\<lparr>caches := c, previous_pc := and pc (not 63)\<rparr>"
  have "fetch_line pm r v pc s = Some (m, ?s)" using False t c(1) by (simp add: fetch_line_def icache_access_def Let_def)
  moreover have s: "same_sampling s ?s" by (simp add: same_sampling_def)
  moreover have "tq_inv pm junk ?s" by (rule tq_inv_same [OF assms s]) (use c(2) assms in \<open>auto simp: tq_inv_def\<close>)
  ultimately show ?thesis by simp
qed (use assms in \<open>simp add: fetch_line_def same_sampling_def\<close>)

section \<open>Sampling\<close>

lemma period_pos: "sampling_ok pm \<Longrightarrow> 0 < sample_len pm \<and> sample_len pm \<le> period pm \<and> period pm < 2 ^ 31"
  by (auto simp: sampling_ok_def nat_less_iff)

lemma mod_next:
  assumes "0 < (p :: nat)"
  shows "Suc (k mod p) < p \<Longrightarrow> Suc k mod p = Suc (k mod p) \<and> Suc k div p = k div p"
    "\<not> Suc (k mod p) < p \<Longrightarrow> Suc k mod p = 0 \<and> Suc k div p = Suc (k div p)"
proof -
  have "k mod p < p" using assms by simp
  then have e: "Suc (k mod p) \<noteq> p \<longleftrightarrow> Suc (k mod p) < p" by linarith
  then show "Suc (k mod p) < p \<Longrightarrow> Suc k mod p = Suc (k mod p) \<and> Suc k div p = k div p"
    "\<not> Suc (k mod p) < p \<Longrightarrow> Suc k mod p = 0 \<and> Suc k div p = Suc (k div p)"
    by (auto simp: mod_Suc div_Suc)
qed

lemma period_word:
  assumes "sampling_ok pm"
  shows "unat (word_of_int (default_period (sample pm)) :: u64) = period pm"
proof -
  have "0 \<le> default_period (sample pm)" "default_period (sample pm) < 2 ^ 64" using assms by (auto simp: sampling_ok_def)
  then show ?thesis by (simp add: unat_eq_nat_uint uint_word_of_int_eq take_bit_int_eq_self)
qed

text \<open>After the decisions about sampling and before the instruction is recorded.\<close>

definition ready_inv :: "perfmodel_config \<Rightarrow> Sim \<Rightarrow> bool" where
  "ready_inv pm s \<longleftrightarrow> model_ok s \<and> num_sampling (pmodel s) = int (insts_done s div period pm) \<and> traced pm False (bm s) \<and>
     (if insts_done s mod period pm < sample_len pm then in_sample (insts_done s mod period pm) s else off_sample pm s)"

lemma sample_start_ok:
  assumes "model_ok s"
  shows "model_ok (sample_start s) \<and> num_sampling (pmodel (sample_start s)) = num_sampling (pmodel s) \<and>
    insts_done (sample_start s) = insts_done s \<and> bm (sample_start s) = bm s \<and>
    (is_sampled s \<and> num_sampled_inst s = 0 \<and> num_thread s = 0 \<longrightarrow> in_sample 0 (sample_start s))"
  using assms by (auto simp: sample_start_def perfmodel_sample_start_def Let_def model_ok_def in_sample_def sum_ok_def)

lemma first_sample_ok:
  assumes inv: "tq_inv pm junk s" "insts_done s = 0" and pm: "sampling_ok pm" and j: "\<And>a. arrays16 (junk a)"
  shows "\<exists>s'. first_sample pm s = Some s' \<and> ready_inv pm s' \<and> insts_done s' = 0 \<and> num_sampled_inst s' = 0"
proof -
  obtain t where t: "init_trace_analyzer pm (static_TA junk) = Some t" "traced pm False ((bm s)\<lparr>ta := init_trace_buffer t\<rparr>)"
    using init_traced [of pm junk] pm j unfolding sampling_ok_def by blast
  let ?s = "s\<lparr>bm := (bm s)\<lparr>ta := init_trace_buffer t\<rparr>, is_sampled := True\<rparr>"
  have i: "model_ok ?s" "num_sampling (pmodel s) = 0" "num_sampled_inst s = 0" "num_thread s = 0" "ta (bm s) = static_TA junk"
    using inv by (auto simp: tq_inv_def model_ok_def)
  have "num_sampled_inst (sample_start ?s) = 0" using i(3) by (simp add: sample_start_def perfmodel_sample_start_def Let_def split: prod.splits if_splits)
  then show ?thesis using sample_start_ok [OF i(1)] i t inv(2) period_pos [OF pm]
    by (intro exI [of _ "sample_start ?s"]) (auto simp: first_sample_def ready_inv_def unat_eq_0)
qed

text \<open>Between the two decisions: the sample that was full has been analysed.\<close>

definition ended_inv :: "perfmodel_config \<Rightarrow> Sim \<Rightarrow> bool" where
  "ended_inv pm s \<longleftrightarrow> model_ok s \<and> num_sampling (pmodel s) = int ((insts_done s - 1) div period pm) \<and> traced pm False (bm s) \<and>
     (let m = Suc ((insts_done s - 1) mod period pm) in if m < sample_len pm then in_sample m s else off_sample pm s)"

text \<open>A sample ends with the number of instructions recorded since its start.\<close>

lemma sample_end_ok:
  assumes "model_ok s" "in_sample m s" "m \<le> insts_done s" "m < 2 ^ 31"
  shows "\<exists>p. perfmodel_sample_end (caches s) (bp s) (pmodel s) (bm s) = Some (p, bm s) \<and> ss_num_insts (sample_stat p) = int m \<and>
    num_insts p = num_insts (pmodel s) \<and> sum_ok p \<and> effective_dispatch_width p = effective_dispatch_width (pmodel s) \<and>
    \<not> enable_save_files p \<and> num_sampling p = num_sampling (pmodel s)"
proof -
  have "as_int (num_insts (pmodel s) - word_of_int (ss_num_insts (sample_stat (pmodel s)))) = int m"
    using as_int_diff [of "insts_done s - m" "insts_done s"] assms(2-4) unfolding in_sample_def by simp
  then show ?thesis using assms(1) by (simp add: perfmodel_sample_end_def Let_def model_ok_def sum_ok_def)
qed

lemma end_sample_ok:
  assumes inv: "tq_inv pm junk s" "insts_done s \<noteq> 0" and pm: "sampling_ok pm"
    and a: "num_sampled_inst s = sample_length (sample pm) \<Longrightarrow> analysable z (ta (bm s))"
  shows "\<exists>s'. end_sample pm r z s = Some s' \<and> ended_inv pm s' \<and> insts_done s' = insts_done s"
proof -
  let ?n = "insts_done s" and ?m = "(insts_done s - 1) mod period pm"
  have i: "model_ok s" "num_sampling (pmodel s) = int ((?n - 1) div period pm)" "traced pm (is_sampled s) (bm s)"
    "if ?m < sample_len pm then in_sample (Suc ?m) s else off_sample pm s" using inv by (auto simp: tq_inv_def Let_def)
  note L = period_pos [OF pm]
  show ?thesis
  proof (cases "num_sampled_inst s = sample_length (sample pm)")
    case True
    have in_s: "?m < sample_len pm" "in_sample (Suc ?m) s" using i(4) True L by (auto simp: off_sample_def split: if_splits)
    then have "num_sampled_inst s = int (Suc ?m)" unfolding in_sample_def by blast
    then have m: "Suc ?m = sample_len pm" using True by (metis nat_int)
    have n: "sample_len pm \<le> ?n" using m inv(2) mod_less_eq_dividend [of "?n - 1" "period pm"] by linarith
    have L31: "sample_len pm < 2 ^ 31" using L by linarith
    have int_L: "int (sample_len pm) = sample_length (sample pm)" using L by simp
    obtain p where p: "perfmodel_sample_end (caches s) (bp s) (pmodel s) (bm s) = Some (p, bm s)" "ss_num_insts (sample_stat p) = sample_length (sample pm)"
      "num_insts p = num_insts (pmodel s)" "sum_ok p" "effective_dispatch_width p = effective_dispatch_width (pmodel s)" "\<not> enable_save_files p"
      "num_sampling p = num_sampling (pmodel s)"
      using sample_end_ok [OF i(1) in_s(2) [unfolded m] n L31] unfolding int_L by blast
    obtain lc pen t where t: "trace_analysis r z 0 (ta (bm s)) = Some (lc, pen, t)" "lc \<noteq> 0" "traced pm False ((bm s)\<lparr>ta := t\<rparr>)"
      using analysis_traced [OF i(3) a [OF True]] pm unfolding sampling_ok_def by blast
    let ?s = "s\<lparr>is_sampled := False, pmodel := p, num_thread := 1, bm := (bm s)\<lparr>ta := t\<rparr>, arg_cycle := lc, arg_bpred_penalty := pen, num_sampled_inst := 0\<rparr>"
    have "end_sample pm r z s = Some ?s"
      using True p(1) t(1) in_s(2) by (simp add: end_sample_def sample_end_def trace_analyzer_thread_start_def in_sample_def Let_def)
    moreover have "ended_inv pm ?s" using i p t m by (simp add: ended_inv_def model_ok_def off_sample_def Let_def)
    ultimately show ?thesis using p(3) by (intro exI [of _ ?s]) simp
  next
    case False
    have "(if Suc ?m < sample_len pm then in_sample (Suc ?m) s else off_sample pm s)"
      using i(4) False L by (cases "Suc ?m = sample_len pm") (auto simp: in_sample_def split: if_splits)
    then have "ended_inv pm s" unfolding ended_inv_def Let_def using i(1,2) traced_weaken [OF i(3)] by blast
    then show ?thesis using False by (simp add: end_sample_def)
  qed
qed

lemma next_sample_ok:
  assumes inv: "ended_inv pm s" "insts_done s \<noteq> 0" "num_insts (pmodel s) < 2 ^ 53" and pm: "sampling_ok pm" and r: "rounds r"
  shows "\<exists>s'. next_sample pm r s = Some s' \<and> ready_inv pm s' \<and> insts_done s' = insts_done s"
proof -
  let ?n = "insts_done s" and ?P = "period pm" and ?w = "word_of_int (default_period (sample pm)) :: u64"
  note L = period_pos [OF pm]
  have n: "Suc (?n - 1) = ?n" using inv(2) by simp
  have w: "unat ?w = ?P" using period_word [OF pm] .
  then have w0: "?w \<noteq> 0" using L by auto
  have m0: "num_insts (pmodel s) mod ?w = 0 \<longleftrightarrow> ?n mod ?P = 0" 
    using unat_mod_distrib [of "num_insts (pmodel s)" ?w] unat_eq_0 [of "num_insts (pmodel s) mod ?w"] unfolding w by simp
  have i: "model_ok s" "num_sampling (pmodel s) = int ((?n - 1) div ?P)" "traced pm False (bm s)"
    "if Suc ((?n - 1) mod ?P) < sample_len pm then in_sample (Suc ((?n - 1) mod ?P)) s else off_sample pm s"
    using inv(1) by (auto simp: ended_inv_def Let_def)
  show ?thesis
  proof (cases "Suc ((?n - 1) mod ?P) < ?P")
    case True
    then have "?n mod ?P = Suc ((?n - 1) mod ?P)" "?n div ?P = (?n - 1) div ?P" using mod_next(1) [of ?P "?n - 1"] L n by auto
    then have "next_sample pm r s = Some s" "ready_inv pm s" using i m0 w0 inv(2) by (auto simp: next_sample_def ready_inv_def Let_def unat_eq_0)
    then show ?thesis by blast
  next
    case False
    then have d: "?n mod ?P = 0" "?n div ?P = Suc ((?n - 1) div ?P)" using mod_next(2) [of ?P "?n - 1"] L n by auto
    have off: "off_sample pm s" using False i(4) L by (auto split: if_splits)
    have "?n < 2 ^ 53" using inv(3) by (simp add: word_less_nat_alt)
    then have "(?n - 1) div ?P < 2 ^ 53" by (meson div_le_dividend diff_le_self le_less_trans order_trans)
    then have lim: "num_sampling (pmodel s) < 2 ^ 53" unfolding i(2) using of_nat_less_iff [of "(?n - 1) div ?P" "2 ^ 53", where 'a = int] by simp
    have ss: "1 \<le> ss_num_insts (sample_stat (pmodel s))" "ss_num_insts (sample_stat (pmodel s)) < 2 ^ 31"
      using off pm by (auto simp: off_sample_def sampling_ok_def)
    obtain p where p: "perfmodel_update r (arg_cycle s) (arg_bpred_penalty s) (pmodel s) = Some p" "sum_ok p" "0 < effective_dispatch_width p"
      "num_sampling p = num_sampling (pmodel s) + 1" "num_insts p = num_insts (pmodel s)" "enable_save_files p = enable_save_files (pmodel s)"
      using perfmodel_update_ok [OF r _ lim ss] i(1) off unfolding model_ok_def off_sample_def by blast
    let ?s = "s\<lparr>num_thread := 0, pmodel := p, is_sampled := True\<rparr>"
    have ok: "model_ok ?s" using i(1) p by (simp add: model_ok_def)
    have "next_sample pm r s = Some (sample_start ?s)"
      using inv(2) w0 m0 d(1) off p(1) by (simp add: next_sample_def trace_analyzer_thread_end_def off_sample_def Let_def unat_eq_0)
    moreover have "ready_inv pm (sample_start ?s)"
      using sample_start_ok [OF ok] d p(4,5) i(2,3) off L by (simp add: ready_inv_def off_sample_def)
    ultimately show ?thesis using sample_start_ok [OF ok] p(5) by (intro exI [of _ "sample_start ?s"]) simp
  qed
qed

lemma record_inst_ok:
  assumes inv: "ready_inv pm s" "num_insts (pmodel s) < 2 ^ 53" and pm: "sampling_ok pm"
  shows "\<exists>s'. record_inst pc code m s = Some s' \<and> tq_inv pm junk (s'\<lparr>pmodel := (pmodel s')\<lparr>num_insts := num_insts (pmodel s') + 1\<rparr>\<rparr>)"
proof -
  let ?n = "insts_done s"
  have "?n < 2 ^ 53" using inv(2) by (simp add: word_less_nat_alt)
  then have n: "unat (num_insts (pmodel s) + 1) = Suc ?n" by (simp add: unat_word_ariths)
  show ?thesis
  proof (cases "?n mod period pm < sample_len pm")
    case True
    then have i: "in_sample (?n mod period pm) s" using inv(1) by (simp add: ready_inv_def)
    obtain y b where b: "push_code (word_of_int (num_sampled_inst s)) pc code m (bm s) = Some (y, b)" "traced pm True b"
      using push_code_traced inv(1) unfolding ready_inv_def by blast
    let ?s = "s\<lparr>bm := b, num_sampled_inst := num_sampled_inst s + 1\<rparr>"
    have "record_inst pc code m s = Some ?s" using i b(1) by (simp add: record_inst_def in_sample_def)
    moreover have "tq_inv pm junk (?s\<lparr>pmodel := (pmodel ?s)\<lparr>num_insts := num_insts (pmodel ?s) + 1\<rparr>\<rparr>)"
      using True i b(2) inv(1) n by (simp add: tq_inv_def ready_inv_def in_sample_def model_ok_def sum_ok_def Let_def)
    ultimately show ?thesis by blast
  next
    case False
    then have i: "off_sample pm s" using inv(1) by (simp add: ready_inv_def)
    have "record_inst pc code m s = Some s" using i by (simp add: record_inst_def off_sample_def)
    moreover have "tq_inv pm junk (s\<lparr>pmodel := (pmodel s)\<lparr>num_insts := num_insts (pmodel s) + 1\<rparr>\<rparr>)"
      using False i inv(1) n by (simp add: tq_inv_def ready_inv_def off_sample_def model_ok_def sum_ok_def Let_def)
    ultimately show ?thesis by blast
  qed
qed

section \<open>The calls\<close>

lemma inst_increment_ok:
  assumes inv: "tq_inv pm junk s" "num_insts (pmodel s) < 2 ^ 53" and pm: "sampling_ok pm" and r: "rounds r" and j: "\<And>a. arrays16 (junk a)"
    and a: "num_sampled_inst s = sample_length (sample pm) \<Longrightarrow> analysable z (ta (bm s))"
  shows "\<exists>s'. inst_increment pm r z v pc code s = Some s' \<and> tq_inv pm junk s' \<and> insts_done s' = Suc (insts_done s)"
proof -
  obtain s1 where 1: "resolve_branch v pc s = Some s1" "tq_inv pm junk s1" "same_sampling s s1" "analysable z (ta (bm s1)) = analysable z (ta (bm s))"
    using resolve_branch_ok [OF inv(1), of v pc z] by blast
  have s1': "same_sampling s1 (s1\<lparr>cur_PC := pc\<rparr>)" by (simp add: same_sampling_def)
  have "tq_inv pm junk (s1\<lparr>cur_PC := pc\<rparr>)" by (rule tq_inv_same [OF 1(2) s1']) (use 1(2) in \<open>auto simp: tq_inv_def model_ok_def\<close>)
  then obtain m s2 where 2: "fetch_line pm r v pc (s1\<lparr>cur_PC := pc\<rparr>) = Some (m, s2)" "tq_inv pm junk s2" "same_sampling (s1\<lparr>cur_PC := pc\<rparr>) s2"
    "bm s2 = bm s1" using fetch_line_ok [of pm junk "s1\<lparr>cur_PC := pc\<rparr>" r v pc] by auto
  have p: "pmodel s2 = pmodel s" "num_sampled_inst s2 = num_sampled_inst s" using 1(3) 2(3) by (simp_all add: same_sampling_def)
  have a2: "num_sampled_inst s2 = sample_length (sample pm) \<Longrightarrow> analysable z (ta (bm s2))" using a p(2) 1(4) 2(4) by simp
  obtain s3 s4 s5 where 3: "first_sample pm s2 = Some s3" "end_sample pm r z s3 = Some s4" "next_sample pm r s4 = Some s5" "ready_inv pm s5" "insts_done s5 = insts_done s"
  proof (cases "insts_done s = 0")
    case True
    then obtain s3 where f: "first_sample pm s2 = Some s3" "ready_inv pm s3" "insts_done s3 = 0" "num_sampled_inst s3 = 0"
      using first_sample_ok [OF 2(2) _ pm j] p(1) by auto
    moreover have "end_sample pm r z s3 = Some s3" using f(4) pm by (simp add: end_sample_def sampling_ok_def)
    moreover have "next_sample pm r s3 = Some s3" using f(3) by (simp add: next_sample_def unat_eq_0)
    ultimately show thesis using that True by metis
  next
    case False
    then have n: "insts_done s2 \<noteq> 0" using p(1) by simp
    obtain s4 where e: "end_sample pm r z s2 = Some s4" "ended_inv pm s4" "insts_done s4 = insts_done s2"
      using end_sample_ok [OF 2(2) n pm a2] by blast
    have n4: "insts_done s4 \<noteq> 0" "num_insts (pmodel s4) < 2 ^ 53" using e(3) p(1) False inv(2) by (simp_all add: word_less_nat_alt)
    obtain s5 where "next_sample pm r s4 = Some s5" "ready_inv pm s5" "insts_done s5 = insts_done s4" using next_sample_ok [OF e(2) n4 pm r] by blast
    moreover have "first_sample pm s2 = Some s2" using n by (simp add: first_sample_def unat_eq_0)
    ultimately show thesis using that e p(1) by simp
  qed
  have n5: "num_insts (pmodel s5) < 2 ^ 53" using 3(5) inv(2) by (simp add: word_less_nat_alt)
  obtain s6 where 6: "record_inst pc code m s5 = Some s6" "tq_inv pm junk (s6\<lparr>pmodel := (pmodel s6)\<lparr>num_insts := num_insts (pmodel s6) + 1\<rparr>\<rparr>)"
    using record_inst_ok [OF 3(4) n5 pm] by blast
  have "pmodel s6 = pmodel s5" using 6(1) by (auto simp: record_inst_def bind_eq_Some_conv split: if_splits)
  moreover have "unat (num_insts (pmodel s5) + 1) = Suc (insts_done s)" using 3(5) n5 by (simp add: unat_word_ariths word_less_nat_alt)
  ultimately show ?thesis using 1(1) 2(1) 3(1-3) 6 by (simp add: inst_increment_def)
qed

lemma dcache_access_ok:
  assumes inv: "tq_inv pm junk s"
    and i: "is_sampled s \<Longrightarrow> let i = the (insts (ta (bm s)) (last (buffered (ta (bm s))))) in 0 \<le> i_num_eff_addr i \<and> i_num_eff_addr i < int (length (i_eff_addr i))"
  shows "\<exists>h s'. dcache_access pm r v a w s = Some (h, s') \<and> tq_inv pm junk s' \<and> insts_done s' = insts_done s"
proof -
  have ok: "model_ok s" using inv by (simp add: tq_inv_def)
  obtain t where t: "perfmodel_getSimpleCycle r (caches s) (bp s) (pmodel s) = Some t" using getSimpleCycle_ok [OF ok] by blast
  obtain m c where c: "cachesim_daccess False pm (l_miss v) (l_rand v) t a w (caches s) = Some (m, c)" "hier_wf c"
    using cachesim_daccess_wf [of "caches s"] ok unfolding model_ok_def by blast
  obtain b where b: "dcache_access pm r v a w s = Some (m = L1Hit, s\<lparr>caches := c, bm := b\<rparr>)" "if is_sampled s then traced pm True b else b = bm s"
  proof (cases "is_sampled s")
    case True
    then obtain x b where "push_memaddr a m (bm s) = Some (x, b)" "traced pm True b"
      using push_memaddr_traced [OF conjunct2 [OF tq_inv_traced [OF inv True]] i [OF True]] by blast
    then show thesis using True t c(1) that [of b] by (simp add: dcache_access_def Let_def)
  qed (use t c(1) that [of "bm s"] in \<open>simp add: dcache_access_def Let_def\<close>)
  let ?s = "s\<lparr>caches := c, bm := b\<rparr>"
  have s: "same_sampling s ?s" by (simp add: same_sampling_def)
  have "tq_inv pm junk ?s" by (rule tq_inv_same [OF inv s]) (use c(2) b(2) inv tq_inv_traced [OF inv] in \<open>auto simp: tq_inv_def split: if_splits\<close>)
  then show ?thesis using b(1) by simp
qed

lemma wrapup_ok:
  assumes inv: "tq_inv pm junk s" "insts_done s \<le> 2 ^ 53" and pm: "sampling_ok pm" and r: "rounds r" and a: "is_sampled s \<Longrightarrow> analysable z (ta (bm s))"
  shows "\<exists>s'. perfmodel_sample_wrapup r z s = Some s' \<and> model_ok s' \<and> num_insts (pmodel s') = num_insts (pmodel s)"
proof (cases "is_sampled s")
  case True
  let ?n = "insts_done s" and ?m = "(insts_done s - 1) mod period pm"
  have n: "?n \<noteq> 0" and t: "traced pm True (bm s)" using tq_inv_traced [OF inv(1) True] by auto
  have i: "model_ok s" "num_sampling (pmodel s) = int ((?n - 1) div period pm)" "?m < sample_len pm" "in_sample (Suc ?m) s"
    using inv(1) n True by (auto simp: tq_inv_def Let_def off_sample_def split: if_splits)
  have m: "Suc ?m \<le> ?n" "Suc ?m < 2 ^ 31 + 1" using n i(3) mod_less_eq_dividend [of "?n - 1" "period pm"] period_pos [OF pm] by linarith+
  then have m31: "Suc ?m < 2 ^ 31" using i(3) period_pos [OF pm] by linarith
  obtain p where p: "perfmodel_sample_end (caches s) (bp s) (pmodel s) (bm s) = Some (p, bm s)" "ss_num_insts (sample_stat p) = int (Suc ?m)"
    "num_insts p = num_insts (pmodel s)" "sum_ok p" "\<not> enable_save_files p" "num_sampling p = num_sampling (pmodel s)"
    using sample_end_ok [OF i(1,4) m(1) m31] by blast
  obtain lc pen t' where t': "trace_analysis r z 0 (ta (bm s)) = Some (lc, pen, t')" "lc \<noteq> 0"
    using analysis_traced [OF t a [OF True]] pm unfolding sampling_ok_def by blast
  have "(?n - 1) div period pm \<le> ?n - 1" by (rule div_le_dividend)
  then have "(?n - 1) div period pm < 2 ^ 53" using inv(2) n by linarith
  then have lim: "num_sampling p < 2 ^ 53" unfolding p(6) i(2) using of_nat_less_iff [of "(?n - 1) div period pm" "2 ^ 53", where 'a = int] by simp
  have ss: "1 \<le> ss_num_insts (sample_stat p)" "ss_num_insts (sample_stat p) < 2 ^ 31"
    unfolding p(2) using of_nat_less_iff [of "Suc ?m" "2 ^ 31", where 'a = int] m31 by simp_all
  obtain q where q: "perfmodel_update r lc pen p = Some q" "sum_ok q" "0 < effective_dispatch_width q" "num_insts q = num_insts p"
    "enable_save_files q = enable_save_files p" using perfmodel_update_ok [OF r p(4) lim ss t'(2)] by blast
  show ?thesis using True p(1,3,5) t'(1) q i(1,4)
    by (simp add: perfmodel_sample_wrapup_def sample_end_def trace_analyzer_thread_start_def trace_analyzer_thread_end_def in_sample_def model_ok_def Let_def)
next
  case False
  then show ?thesis using inv(1) by (simp add: perfmodel_sample_wrapup_def tq_inv_def)
qed

lemma gdb_exit_ok:
  assumes "tq_inv pm junk s" "insts_done s \<le> 2 ^ 53" "sampling_ok pm" "rounds r" "is_sampled s \<Longrightarrow> analysable z (ta (bm s))"
  shows "\<exists>c. gdb_exit r z s = Some (num_insts (pmodel s), c)"
proof -
  obtain s' where s': "perfmodel_sample_wrapup r z s = Some s'" "model_ok s'" "num_insts (pmodel s') = num_insts (pmodel s)"
    using wrapup_ok [OF assms] by blast
  obtain c where "perfmodel_getCycle r (caches s') (bp s') (pmodel s') = Some c" using getCycle_ok [OF s'(2)] by blast
  moreover have "perfmodel_end (caches s') \<noteq> None"
    using s'(2) by (simp add: perfmodel_end_def cachesim_end_def model_ok_def hier_wf_def close_opt_empty)
  ultimately show ?thesis using s'(1,3) by (auto simp: gdb_exit_def)
qed

section \<open>Runs of the simulator\<close>

text \<open>
  What a call relies on: the program has not run for \<open>2^53\<close> instructions, the instructions of a full sample can be decoded
  and split, and an instruction makes no more memory accesses than an \<open>Inst\<close> has room for.
\<close>

fun guest_ok :: "perfmodel_config \<Rightarrow> nat \<Rightarrow> guest_call \<Rightarrow> Sim \<Rightarrow> bool" where
  "guest_ok pm z (Inst_increment pc code) s \<longleftrightarrow> num_insts (pmodel s) < 2 ^ 53 \<and>
     (num_sampled_inst s = sample_length (sample pm) \<longrightarrow> analysable z (ta (bm s)))"
| "guest_ok pm z (Set_branch c) s \<longleftrightarrow> True"
| "guest_ok pm z (Dcache a w) s \<longleftrightarrow> (is_sampled s \<longrightarrow>
     (let i = the (insts (ta (bm s)) (last (buffered (ta (bm s))))) in 0 \<le> i_num_eff_addr i \<and> i_num_eff_addr i < int (length (i_eff_addr i))))"

inductive tq_reach :: "perfmodel_config \<Rightarrow> (addr \<Rightarrow> Inst) \<Rightarrow> (rat \<Rightarrow> rat) \<Rightarrow> nat \<Rightarrow> Sim \<Rightarrow> bool" for pm junk r z where
  tq_start: "perfmodel_initialize raw rawset cm ctr fresh pm static_PM = Some p \<Longrightarrow> tq_reach pm junk r z (static_Sim junk p)"
| tq_call: "tq_reach pm junk r z s \<Longrightarrow> guest_ok pm z c s \<Longrightarrow> guest_step pm r z v c s = Some s' \<Longrightarrow> tq_reach pm junk r z s'"

lemma guest_step_ok:
  assumes inv: "tq_inv pm junk s" "insts_done s \<le> 2 ^ 53" and pm: "sampling_ok pm" "rounds r" "\<And>a. arrays16 (junk a)" and g: "guest_ok pm z c s"
  shows "\<exists>s'. guest_step pm r z v c s = Some s' \<and> tq_inv pm junk s' \<and> insts_done s' \<le> 2 ^ 53"
proof (cases c)
  case (Inst_increment pc code)
  then have g': "num_insts (pmodel s) < 2 ^ 53" "num_sampled_inst s = sample_length (sample pm) \<Longrightarrow> analysable z (ta (bm s))" using g by auto
  then have "insts_done s < 2 ^ 53" by (simp add: word_less_nat_alt)
  then show ?thesis using inst_increment_ok [OF inv(1) g'(1) pm g'(2), of v pc code] Inst_increment by auto
next
  case (Set_branch x)
  have s: "same_sampling s (set_branch_inst x s)" by (simp add: same_sampling_def set_branch_inst_def)
  have "tq_inv pm junk (set_branch_inst x s)"
    by (rule tq_inv_same [OF inv(1) s]) (use inv(1) in \<open>auto simp: tq_inv_def model_ok_def set_branch_inst_def\<close>)
  then show ?thesis using Set_branch inv(2) by (simp add: set_branch_inst_def)
next
  case (Dcache a w)
  then show ?thesis using dcache_access_ok [OF inv(1), of r v a w] g inv(2) by fastforce
qed

lemma tq_reach_inv:
  assumes "tq_reach pm junk r z s" and pm: "sampling_ok pm" "rounds r" "\<And>a. arrays16 (junk a)"
  shows "tq_inv pm junk s \<and> insts_done s \<le> 2 ^ 53"
  using assms(1)
proof induction
  case (tq_start raw rawset cm ctr fresh p)
  obtain c where c: "cachesim_initialize raw rawset cm pm = Some c" "hier_wf c"
    using cachesim_initialize_wf [of pm raw rawset cm] pm(1) unfolding sampling_ok_def by blast
  have "tq_inv pm junk (static_Sim junk p)" "num_insts (pmodel (static_Sim junk p)) = 0"
    using tq_start c pm(1)
    by (auto simp: perfmodel_initialize_def Let_def static_Sim_def tq_inv_def model_ok_def static_PM_def sum_ok_def sampling_ok_def)
  then show ?case by simp
next
  case (tq_call s c v s')
  then show ?case using guest_step_ok [OF _ _ pm tq_call.hyps(2), where v = v] by auto
qed

text \<open>
  C2: The simulator never faults and samples at the configured distance. In every state that calls of
  translated code lead to from the start of the program, with a usable configuration and a rounding
  like that of IEEE 754: every further call that the guest makes properly returns; so does the wrap-up
  at the end of the program, with the number of instructions and an estimate of the cycles; and after
  \<open>n\<close> instructions a sample is being taken exactly if \<open>n - 1\<close> modulo the period is less than the
  sample length, no analysis runs while a sample is taken, and all samples of the previous periods have
  entered the model.
\<close>

theorem sampling_never_faults:
  assumes "tq_reach pm junk r z s" "sampling_ok pm" "rounds r" "\<And>a. arrays16 (junk a)"
  shows "(guest_ok pm z c s \<longrightarrow> guest_step pm r z v c s \<noteq> None) \<and>
    ((is_sampled s \<longrightarrow> analysable z (ta (bm s))) \<longrightarrow> (\<exists>cycles. gdb_exit r z s = Some (num_insts (pmodel s), cycles))) \<and>
    (0 < insts_done s \<longrightarrow>
      (is_sampled s \<longleftrightarrow> (insts_done s - 1) mod period pm < sample_len pm) \<and> (is_sampled s \<longleftrightarrow> num_thread s = 0) \<and>
      num_sampling (pmodel s) = int ((insts_done s - 1) div period pm))"
proof -
  have i: "tq_inv pm junk s" "insts_done s \<le> 2 ^ 53" using tq_reach_inv [OF assms] by auto
  have "guest_ok pm z c s \<longrightarrow> guest_step pm r z v c s \<noteq> None" using guest_step_ok [OF i assms(2-4), of z c v] by auto
  moreover have "(is_sampled s \<longrightarrow> analysable z (ta (bm s))) \<longrightarrow> (\<exists>cycles. gdb_exit r z s = Some (num_insts (pmodel s), cycles))"
    using gdb_exit_ok [OF i assms(2,3)] by blast
  moreover have "0 < insts_done s \<longrightarrow>
      (is_sampled s \<longleftrightarrow> (insts_done s - 1) mod period pm < sample_len pm) \<and> (is_sampled s \<longleftrightarrow> num_thread s = 0) \<and>
      num_sampling (pmodel s) = int ((insts_done s - 1) div period pm)"
    using i(1) by (auto simp: tq_inv_def in_sample_def off_sample_def Let_def split: if_splits)
  ultimately show ?thesis by blast
qed

text \<open>A run with samples of one instruction in every two.\<close>

definition demo_sampling :: perfmodel_config where
  "demo_sampling = demo_config\<lparr>sample := \<lparr>sample_length = 1, default_period = 2, initial_effective_dispatch_width = 2\<rparr>\<rparr>"

definition demo_locals :: locals where
  "demo_locals = \<lparr>l_hist = fresh_history, l_miss = L1Hit, l_rand = 0\<rparr>"

lemma demo_sampling_ok: "sampling_ok demo_sampling"
  by (simp add: sampling_ok_def demo_sampling_def config_ok_def hier_geom_ok_def geom_ok_def demo_config_def demo_cache_config_def)

theorem sampling_never_faults_witness:
  "\<exists>s s' cycles. tq_reach demo_sampling (\<lambda>_. demo_inst) id 32 s \<and> insts_done s = 0 \<and> gdb_exit id 32 s = Some (0, cycles) \<and>
    guest_step demo_sampling id 32 demo_locals (Inst_increment 8 add_code) s = Some s' \<and> is_sampled s' \<and> num_sampling (pmodel s') = 0"
proof -
  obtain c where c: "cachesim_initialize demo_blk demo_set demo_cache demo_sampling = Some c"
    using cachesim_initialize_wf [of demo_sampling demo_blk demo_set demo_cache] demo_sampling_ok unfolding sampling_ok_def by blast
  obtain p where p: "perfmodel_initialize demo_blk demo_set demo_cache fresh_counter fresh_bpred demo_sampling static_PM = Some p"
    using c by (simp add: perfmodel_initialize_def Let_def)
  define s where "s = static_Sim (\<lambda>_. demo_inst) p"
  have s: "tq_reach demo_sampling (\<lambda>_. demo_inst) id 32 s" unfolding s_def by (rule tq_start [OF p])
  have n: "num_insts (pmodel s) = 0" "\<not> is_sampled s" "num_sampled_inst s = 0"
    using p c by (auto simp: s_def static_Sim_def perfmodel_initialize_def Let_def)
  have g: "guest_ok demo_sampling 32 (Inst_increment 8 add_code) s" using n by (simp add: demo_sampling_def)
  note ok = sampling_never_faults [OF s demo_sampling_ok rounds_id demo_junk, of "Inst_increment 8 add_code" demo_locals]
  have "\<exists>cycles. gdb_exit id 32 s = Some (num_insts (pmodel s), cycles)" using ok n(2) by blast
  then obtain cycles where e: "gdb_exit id 32 s = Some (0, cycles)" unfolding n(1) by blast
  have "guest_step demo_sampling id 32 demo_locals (Inst_increment 8 add_code) s \<noteq> None" using ok g by blast
  then obtain s' where s': "guest_step demo_sampling id 32 demo_locals (Inst_increment 8 add_code) s = Some s'" by blast
  have "tq_reach demo_sampling (\<lambda>_. demo_inst) id 32 s'" by (rule tq_call [OF s g s'])
  note ok' = sampling_never_faults [OF this demo_sampling_ok rounds_id demo_junk, of "Set_branch 0" demo_locals]
  have "insts_done s' = 1"
    using inst_increment_ok [OF conjunct1 [OF tq_reach_inv [OF s demo_sampling_ok rounds_id demo_junk]] _ demo_sampling_ok rounds_id demo_junk,
        of 32 demo_locals 8 add_code] s' n by (simp add: demo_sampling_def)
  then have "is_sampled s'" "num_sampling (pmodel s') = 0" using ok' by (simp_all add: demo_sampling_def)
  then show ?thesis using s n(1) e s' by (intro exI [of _ s] exI [of _ s'] exI [of _ cycles]) simp
qed

end
