(* ===== verification/Spec2Isabelle.thy ===== *)
theory Spec2Isabelle
  imports Bpred_Bimod Bpred_2bit_Local Cachesim Packet_Buffer Hsim_Mmap Darm_Correct Darm_Reglist Darm_Names Inst Sampling_Safe
begin

text \<open>
  A verification development for TQSIM, the timing simulator built into QEMU's user-mode ARM emulation.
  The simulator is the directory \<open>src/src/hsim-stub\<close>, and the helper functions in \<open>src/src/target-arm/op_helper.c\<close>
  that translated code calls for every instruction, branch and memory access. File names below are
  relative to \<open>src/src/hsim-stub\<close>.

  \<^bold>\<open>The program.\<close> For every emulated instruction, \<open>inst_increment\<close> looks up the instruction cache and the branch
  predictor, and for every memory access \<open>dcache_access\<close> looks up the data cache. The performance model
  (\<open>perfmodel.c\<close>) estimates the cycles from the number of instructions, the misses, an effective dispatch
  width and a misprediction penalty. To correct the last two, the simulator takes samples: at the
  start of every period it records a number of instructions with their addresses and branch outcomes in
  the trace buffer (\<open>trace_analyzer/buffer_manager.c\<close>), and then lets the trace analyzer
  (\<open>trace_analyzer/trace_analyzer.c\<close>) run them through a cycle-level model of an out-of-order core: dispatch with decoding by
  the \<open>darm\<close> library, issue to functional units, execution, write back and commit over a reorder buffer. The
  cycles it finds go back to the performance model. In another build the simulator also talks to a
  host process through packet rings and asks a memory map.

  \<^bold>\<open>The model.\<close> A C function is a HOL function on explicit state. Structures are records, enumerations datatypes,
  \<open>uintN_t\<close> a word of \<open>N\<close> bits, \<open>int\<close> an integer, a pointer an optional address into a heap (a map from addresses to
  structures); \<open>malloc\<close> returns the next address, with contents that are an argument. \<open>None\<close> is a fault: a
  \<open>NULL\<close> or dangling pointer, an index out of range, a division by zero. Loops with a bound are recursive functions,
  the others \<open>partial_function (option)\<close>, for which not ending is also \<open>None\<close>; there is no fuel, and where a theorem has a
  result it includes that the loop ends. A \<open>double\<close> is a rational number; its rounding is an argument,
  and where a bound depends on it \<open>rounds\<close> states what IEEE 754 guarantees. Undefined behaviour with a fixed effect on
  x86-64 (wide shifts, conversions) is modelled as there; \<open>__builtin_ctz(0)\<close> is the argument \<open>z\<close>.

  \<^bold>\<open>Shared theories.\<close>
  \<^item> \<open>TQ_Prelude\<close>: the C types and operators, checked array and heap access, bounded loops (\<open>ofold\<close>).
  \<^item> \<open>Linked_List\<close>: doubly linked lists on a heap; the locale \<open>linked\<close> is interpreted for the blocks of a cache set, the
    elements of an instruction queue and the regions of the memory map.
  \<^item> \<open>Ring\<close>: ring buffers; the locale \<open>bounded_queue\<close> (first in, first out over any history of a writer and a
    reader) is interpreted for both packet rings, the reorder buffer and the instruction queues.
  \<^item> \<open>C_Text\<close>: the C library functions that read and write the trace file, with their round trips.

  \<^bold>\<open>Branch prediction.\<close> \<open>Sat_Counter\<close> (\<open>sat_counter.c\<close>; the locale \<open>saturating\<close>), \<open>Bpred_Bimod\<close> (\<open>bpred_bimod.c\<close>, \<open>bpredsim.c\<close>) and
  \<open>Bpred_2bit_Local\<close> (\<open>bpred_2bit_local.c\<close>). Table indices stay in range, a branch with a fixed outcome is mispredicted at
  most four times, an update trains exactly the counters it should and rebuilds the history after a
  squash, and, because of a wrong mask, the global history is always zero. The local predictor, as
  \<open>bpred_create\<close> makes it with 2048 counters or more, learns a direction in half its counter range.

  \<^bold>\<open>Caches.\<close> \<open>Lru\<close> is the specification of a cache set, a list of lines; \<open>Cache\<close> (\<open>cache.c\<close>) refines it: an access hits
  exactly when fewer distinct lines than the associativity were used since, and nothing leaks.
  \<open>Cachesim\<close> (\<open>cachesim.c\<close>): the second level is accessed exactly at first-level misses. \<open>Perf_Config\<close> (\<open>config.c\<close>)
  reads the configuration, with \<open>atoi\<close> and \<open>atof\<close> written out (decimal and hexadecimal numbers with
  exponents; a width that is infinite or no number is outside the model): what is written in the
  document is what is loaded.

  \<^bold>\<open>Host interface.\<close> \<open>Packet_Buffer\<close> (\<open>packet_buffer.c\<close>, \<open>ringbuffer.h\<close>, \<open>spm_buffer.c\<close>) and \<open>Hsim_Mmap\<close> (\<open>hsim_mmap.c\<close>), whose lookup
  moves what it finds to the front and still always answers by the region that contains the address.

  \<^bold>\<open>Decoder.\<close> \<open>Darm_Tbl\<close>, \<open>Darm\<close> (\<open>trace_analyzer/darm/armv7.c\<close> and the tables), \<open>Darm_Reglist\<close>, \<open>Darm_Names\<close>. \<open>Darm_Correct\<close>: the decoder
  is total, every field of its result has a range, and branches, rotated immediates and block
  transfers are decoded to what was encoded. \<open>Darm_Reglist\<close> gives the result of \<open>darm_reglist2\<close> for every value of
  the undefined \<open>__builtin_ctz(0)\<close>. \<open>Darm_Data\<close> has the encoding of the data-processing instructions, from the architecture
  manual, and that the decoder undoes it. \<open>Inst\<close> (\<open>inst.c\<close>): the registers that such an instruction is
  recorded to read and write are those of the architecture, but for a read of the carry flag. For
  the other instructions some operands are not recorded at all: the offset register of a load or
  store, the accumulator and the long result of a multiplication, a base that is written back.

  \<^bold>\<open>Trace analyzer.\<close> \<open>Fu\<close> (\<open>fu.c\<close>), \<open>Rob\<close> (\<open>rob.c\<close>), \<open>Dep_Mat\<close> (\<open>dep_mat.c\<close>), \<open>Inst_Queue\<close> (\<open>inst_queue.c\<close>), \<open>Dependencies\<close> (the dependency
  tests) and \<open>Trace_Analyzer\<close> (all stages and the main loop; one record \<open>TA\<close> for the file's static variables). \<open>Queue_Set\<close>: the five queues
  over one heap and one pool never interfere. \<open>Pipeline\<close> has the invariant of the pipeline and a measure of the
  work left; \<open>Pipeline_Back\<close>, \<open>Pipeline_Issue\<close>, \<open>Pipeline_Microops\<close> and \<open>Pipeline_Dispatch\<close> show that no stage faults, keeps the invariant and
  never raises the measure; \<open>Pipeline_Run\<close> that every cycle lowers it, so that the main loop ends.
  \<open>Pipeline_Count\<close> follows the counters. \<open>Buffer_Manager\<close> (\<open>buffer_manager.c\<close>) has the recording and the trace file, and that a
  replayed file gives the recorded trace. \<open>Pipeline_Start\<close> puts them together: in every state that initialisation, recording
  and analyses lead to, an analysis ends with everything committed and all queues empty, within a linear number of
  cycles, and recording faults in exactly two situations.

  \<^bold>\<open>The whole simulator.\<close> \<open>Perfmodel\<close> (\<open>perfmodel.c\<close>): the model is corrected to the means of the samples. \<open>Sampling\<close>
  (\<open>op_helper.c\<close>, \<open>trace_analyzer_thread_if.c\<close>, the exit in \<open>gdbstub.c\<close>) and \<open>Sampling_Safe\<close>: in every state that calls of translated code lead to
  from the start of the program, no proper call faults, samples are taken at the configured
  distance, and every analysis is over before the next sample starts. The assumptions are
  \<open>sampling_ok\<close> (a configuration with which this works: for example a reorder buffer of at most 60
  entries, and samples not longer than the period), \<open>rounds\<close>, and \<open>guest_ok\<close> for the calls: fewer than \<open>2^53\<close> instructions, at
  most 16 addresses for an instruction, and sampled instructions that can be decoded and split within the
  trace buffer.

  \<^bold>\<open>Not modelled.\<close>
  \<^item> The protocol with the host process (\<open>hsim_stub.c\<close>, \<open>hsim_comm.c\<close>, the \<open>hsim_ld\<close> and \<open>hsim_st\<close> helpers): it waits for another process
    over shared memory, sockets or pipes, and its effect is that process's answer. Its buffers and its
    memory map are modelled.
  \<^item> The interleaving of the analysis thread with the emulator: the two work on disjoint state between the start and the
    join of the thread, so the analysis runs at its start in the model.
  \<^item> The Thumb decoders, which the analyzer never calls, the second copy of the decoder (\<open>darm/\<close>), which is
    not linked, and the test driver \<open>trace_analyzer/main.c\<close>.
  \<^item> Output: statistics, diagnostic printing, \<open>perfmodel_logging\<close>. Overflow of the \<open>int\<close> counters.
  \<^item> QEMU itself: its calls are the arbitrary sequences of calls the theorems range over.
\<close>

end
